(* ===== verification/Prelude.thy ===== *)
theory Prelude
  imports Main "HOL-Library.Word"
begin

section \<open>Shared vocabulary of the development\<close>

text \<open>
  Everything the component theories have in common: the machine types of the Go
  sources, results as sums (\<open>Inl\<close> an error, \<open>Inr\<close> a value) with a bind,
  slices and indexing that fail where Go panics, and the big-endian integer
  encodings of \<^verbatim>\<open>encoding/binary\<close>.  A Go \<^verbatim>\<open>string\<close> is a sequence of bytes, so
  strings and byte slices share one type.
\<close>

unbundle bit_operations_syntax

type_synonym byte = "8 word"
type_synonym u16 = "16 word"
type_synonym u32 = "32 word"
type_synonym u64 = "64 word"
type_synonym bytes = "byte list"

named_theorems go_simps "rules that run a Go-style result computation"
named_theorems be_simps "rules that cancel a big-endian encoding against its decoding"

subsection \<open>Results\<close>

text \<open>Sequencing: the first error is the result, as an early return makes it.\<close>

definition rbind :: "'e + 'a \<Rightarrow> ('a \<Rightarrow> 'e + 'b) \<Rightarrow> 'e + 'b" where
  "rbind m f = (case m of Inl e \<Rightarrow> Inl e | Inr x \<Rightarrow> f x)"

definition guard :: "bool \<Rightarrow> 'e \<Rightarrow> 'e + unit" where
  "guard ok e = (if ok then Inr () else Inl e)"

definition is_ok :: "'e + 'a \<Rightarrow> bool" where
  "is_ok m = (case m of Inl _ \<Rightarrow> False | Inr _ \<Rightarrow> True)"

lemma rbind_simps [simp, go_simps]:
  "rbind (Inl e) f = Inl e"
  "rbind (Inr x) f = f x"
  by (simp_all add: rbind_def)

lemma guard_simps [simp, go_simps]:
  "guard True e = Inr ()"
  "guard False e = Inl e"
  by (simp_all add: guard_def)

lemma is_ok_simps [simp]:
  "is_ok (Inr x)" "\<not> is_ok (Inl e)"
  by (simp_all add: is_ok_def)

lemma rbind_Inr_iff: "rbind m f = Inr y \<longleftrightarrow> (\<exists>x. m = Inr x \<and> f x = Inr y)"
  by (cases m) auto

lemma rbind_Inl_iff:
  "rbind m f = Inl e \<longleftrightarrow> m = Inl e \<or> (\<exists>x. m = Inr x \<and> f x = Inl e)"
  by (cases m) auto

lemma guard_Inr_iff [simp]: "guard c e = Inr u \<longleftrightarrow> c"
  by (cases c) auto

lemma guard_Inl_iff [simp]: "guard c e = Inl e' \<longleftrightarrow> \<not> c \<and> e' = e"
  by (cases c) auto

lemma rbind_assoc: "rbind (rbind m f) g = rbind m (\<lambda>x. rbind (f x) g)"
  by (cases m) auto

lemma rbind_cong [fundef_cong]:
  "m = m' \<Longrightarrow> (\<And>x. m' = Inr x \<Longrightarrow> f x = f' x) \<Longrightarrow> rbind m f = rbind m' f'"
  by (cases m') auto

text \<open>The error set a computation may end in, for the facts "never this error".\<close>

lemma rbind_neq_InlI:
  "m \<noteq> Inl e \<Longrightarrow> (\<And>x. m = Inr x \<Longrightarrow> f x \<noteq> Inl e) \<Longrightarrow> rbind m f \<noteq> Inl e"
  by (cases m) auto

subsection \<open>Lists: splitting a known prefix off\<close>

lemma drop_numeral_plus_Cons [simp]:
  "drop (numeral k + n) (x # xs) = drop (pred_numeral k + n) xs"
  by (simp add: numeral_eq_Suc)

lemma drop_plus_numeral_Cons [simp]:
  "drop (n + numeral k) (x # xs) = drop (n + pred_numeral k) xs"
  by (simp add: numeral_eq_Suc)

lemma drop_length_append_plus [simp]: "drop (length xs + n) (xs @ ys) = drop n ys"
  by simp

lemma drop_Suc_length_append [simp]: "drop (Suc (length xs)) (xs @ y # ys) = ys"
  by simp

lemma nth_append_length_plus: "(xs @ ys) ! (length xs + n) = ys ! n"
  by simp

lemma append_take_drop_eq:
  "n \<le> length xs \<Longrightarrow> take n xs = ys \<Longrightarrow> drop n xs = zs \<Longrightarrow> xs = ys @ zs"
  by (metis append_take_drop_id)

lemma list_eq_nthI:
  "length xs = length ys \<Longrightarrow> (\<And>i. i < length ys \<Longrightarrow> xs ! i = ys ! i) \<Longrightarrow> xs = ys"
  by (simp add: nth_equalityI)

lemma length_ge_2_conv: "2 \<le> length xs \<longleftrightarrow> (\<exists>a b r. xs = a # b # r)"
  by (cases xs; cases "tl xs") auto

text \<open>
  Reading a list of at least a known length as its first elements and a rest:
  the shape a parser's length check gives its input.
\<close>

lemma length_ge_Suc: "Suc n \<le> length xs \<longleftrightarrow> (\<exists>x ys. xs = x # ys \<and> n \<le> length ys)"
  by (rule Suc_le_length_iff)

lemma split_len3: "3 \<le> length xs \<Longrightarrow> \<exists>a b c r. xs = a # b # c # r"
  by (auto simp: length_ge_Suc numeral_eq_Suc)

lemma split_len4: "4 \<le> length xs \<Longrightarrow> \<exists>a b c d r. xs = a # b # c # d # r"
  by (auto simp: length_ge_Suc numeral_eq_Suc)

lemma split_len5: "5 \<le> length xs \<Longrightarrow> \<exists>a b c d e r. xs = a # b # c # d # e # r"
  by (auto simp: length_ge_Suc numeral_eq_Suc)

lemma split_len6: "6 \<le> length xs \<Longrightarrow> \<exists>a b c d e f r. xs = a # b # c # d # e # f # r"
  by (auto simp: length_ge_Suc numeral_eq_Suc)

lemma split_len10:
  "10 \<le> length xs \<Longrightarrow> \<exists>a b c d e f g h i j r. xs = a # b # c # d # e # f # g # h # i # j # r"
  by (auto simp: length_ge_Suc numeral_eq_Suc)

lemma split_len13:
  "13 \<le> length xs \<Longrightarrow>
     \<exists>a b c d e f g h i j k l m r. xs = a # b # c # d # e # f # g # h # i # j # k # l # m # r"
  by (auto simp: length_ge_Suc numeral_eq_Suc)

lemma split_len18:
  "18 \<le> length xs \<Longrightarrow>
     \<exists>a b c d e f g h i j k l m n p q s t r.
       xs = a # b # c # d # e # f # g # h # i # j # k # l # m # n # p # q # s # t # r"
  by (auto simp: length_ge_Suc numeral_eq_Suc)

subsection \<open>Lengths carried in one or two bytes\<close>

lemma unat_of_nat_byte [simp]: "n < 256 \<Longrightarrow> unat (of_nat n :: byte) = n"
  by (simp add: unat_of_nat take_bit_nat_eq_self)

lemma unat_of_nat_u16 [simp]: "n < 65536 \<Longrightarrow> unat (of_nat n :: u16) = n"
  by (simp add: unat_of_nat take_bit_nat_eq_self)

lemma unat_byte_le: "unat (b :: byte) \<le> 255"
  using unsigned_less [of b, where 'a = nat] by simp

lemma unat_u16_le: "unat (w :: u16) \<le> 65535"
  using unsigned_less [of w, where 'a = nat] by simp

lemma unat_byte_less [simp]: "unat (b :: byte) < 256"
  using unsigned_less [of b, where 'a = nat] by simp

lemma unat_u16_less [simp]: "unat (w :: u16) < 65536"
  using unsigned_less [of w, where 'a = nat] by simp

lemma of_nat_byte_eq_0_iff: "n < 256 \<Longrightarrow> (of_nat n :: byte) = 0 \<longleftrightarrow> n = 0"
  by (metis unat_of_nat_byte unat_eq_zero)

subsection \<open>Big-endian integers\<close>

text \<open>
  \<^verbatim>\<open>binary.BigEndian.AppendUint16/32/64\<close> and \<^verbatim>\<open>Uint16/32/64\<close>.  The decoders are
  given the bytes they read; a shorter slice is Go's index panic, which the
  slicing layer of the wire theories turns into an error value.
\<close>

definition be16 :: "u16 \<Rightarrow> bytes" where
  "be16 w = [ucast (drop_bit 8 w), ucast w]"

definition be32 :: "u32 \<Rightarrow> bytes" where
  "be32 w = [ucast (drop_bit 24 w), ucast (drop_bit 16 w), ucast (drop_bit 8 w), ucast w]"

definition be64 :: "u64 \<Rightarrow> bytes" where
  "be64 w = [ucast (drop_bit 56 w), ucast (drop_bit 48 w), ucast (drop_bit 40 w),
             ucast (drop_bit 32 w), ucast (drop_bit 24 w), ucast (drop_bit 16 w),
             ucast (drop_bit 8 w), ucast w]"

definition join16 :: "byte \<Rightarrow> byte \<Rightarrow> u16" where
  "join16 a b = push_bit 8 (ucast a) OR ucast b"

definition join32 :: "byte \<Rightarrow> byte \<Rightarrow> byte \<Rightarrow> byte \<Rightarrow> u32" where
  "join32 a b c d =
     push_bit 24 (ucast a) OR push_bit 16 (ucast b) OR push_bit 8 (ucast c) OR ucast d"

definition join64 :: "byte \<Rightarrow> byte \<Rightarrow> byte \<Rightarrow> byte \<Rightarrow> byte \<Rightarrow> byte \<Rightarrow> byte \<Rightarrow> byte \<Rightarrow> u64" where
  "join64 a b c d e f g h =
     push_bit 56 (ucast a) OR push_bit 48 (ucast b) OR push_bit 40 (ucast c) OR
     push_bit 32 (ucast d) OR push_bit 24 (ucast e) OR push_bit 16 (ucast f) OR
     push_bit 8 (ucast g) OR ucast h"

lemma length_be [simp]: "length (be16 w) = 2" "length (be32 x) = 4" "length (be64 y) = 8"
  by (simp_all add: be16_def be32_def be64_def)

text \<open>A byte has no bits from 8 upward, so a shifted byte never overlaps the next one.\<close>

lemma not_bit_byte: "8 \<le> n \<Longrightarrow> \<not> bit (b :: byte) n"
  using bit_imp_le_length [of b n] by auto

lemma byte_blocks32:
  "(n :: nat) < 32 \<Longrightarrow> n < 8 \<or> 8 \<le> n \<and> n < 16 \<or> 16 \<le> n \<and> n < 24 \<or> 24 \<le> n \<and> n < 32"
  by linarith

lemma byte_blocks64:
  "(n :: nat) < 64 \<Longrightarrow> n < 8 \<or> 8 \<le> n \<and> n < 16 \<or> 16 \<le> n \<and> n < 24 \<or> 24 \<le> n \<and> n < 32 \<or>
     32 \<le> n \<and> n < 40 \<or> 40 \<le> n \<and> n < 48 \<or> 48 \<le> n \<and> n < 56 \<or> 56 \<le> n \<and> n < 64"
  by linarith

lemma join16_be [simp, be_simps]: "join16 (ucast (drop_bit 8 w)) (ucast w) = w"
  by (rule bit_word_eqI) (auto simp: join16_def bit_simps)

lemma join32_be [simp, be_simps]:
  "join32 (ucast (drop_bit 24 w)) (ucast (drop_bit 16 w)) (ucast (drop_bit 8 w)) (ucast w) = w"
proof (rule bit_word_eqI)
  fix n :: nat
  assume "n < LENGTH(32)"
  then have "n < 32" by simp
  from byte_blocks32 [OF this] show "bit (join32 (ucast (drop_bit 24 w)) (ucast (drop_bit 16 w))
      (ucast (drop_bit 8 w)) (ucast w)) n = bit w n"
    by (elim disjE conjE) (simp_all add: join32_def bit_simps less_diff_conv2)
qed

lemma join64_be [simp, be_simps]:
  "join64 (ucast (drop_bit 56 w)) (ucast (drop_bit 48 w)) (ucast (drop_bit 40 w))
     (ucast (drop_bit 32 w)) (ucast (drop_bit 24 w)) (ucast (drop_bit 16 w))
     (ucast (drop_bit 8 w)) (ucast w) = w"
proof (rule bit_word_eqI)
  fix n :: nat
  assume "n < LENGTH(64)"
  then have "n < 64" by simp
  from byte_blocks64 [OF this] show "bit (join64 (ucast (drop_bit 56 w)) (ucast (drop_bit 48 w))
      (ucast (drop_bit 40 w)) (ucast (drop_bit 32 w)) (ucast (drop_bit 24 w))
      (ucast (drop_bit 16 w)) (ucast (drop_bit 8 w)) (ucast w)) n = bit w n"
    by (elim disjE conjE) (simp_all add: join64_def bit_simps less_diff_conv2)
qed

lemma be16_join [simp, be_simps]: "be16 (join16 a b) = [a, b]"
  unfolding be16_def join16_def
  by (intro list.inject [THEN iffD2] conjI refl bit_word_eqI) (simp_all add: bit_simps not_bit_byte)

lemma be32_eq_iff [simp]: "be32 v = be32 w \<longleftrightarrow> v = w"
proof
  have j: "u = (let b = be32 u in join32 (b ! 0) (b ! 1) (b ! 2) (b ! 3))" for u
    by (simp add: be32_def)
  assume "be32 v = be32 w"
  then show "v = w" using j [of v] j [of w] by (simp only:)
qed simp

lemma be32_join [simp, be_simps]: "be32 (join32 a b c d) = [a, b, c, d]"
  unfolding be32_def join32_def
  by (intro list.inject [THEN iffD2] conjI refl bit_word_eqI) (simp_all add: bit_simps not_bit_byte)

lemma be64_join [simp, be_simps]: "be64 (join64 a b c d e f g h) = [a, b, c, d, e, f, g, h]"
  unfolding be64_def join64_def
  by (intro list.inject [THEN iffD2] conjI refl bit_word_eqI) (simp_all add: bit_simps not_bit_byte)

end
