(* ===== verification/GoStd.thy ===== *)
theory GoStd
  imports Prelude
begin

section \<open>The parts of Go's standard library the sources use\<close>

text \<open>
  \<^verbatim>\<open>unicode/utf8\<close> validity and rune boundaries, \<^verbatim>\<open>strings\<close> searches, the
  upper-casing of \<^verbatim>\<open>strings.ToUpper\<close> and \<^verbatim>\<open>encoding/hex\<close>.  Strings are byte
  sequences, as in Go.
\<close>

subsection \<open>UTF-8\<close>

definition utf8_cont :: "byte \<Rightarrow> byte \<Rightarrow> byte \<Rightarrow> bool" where
  "utf8_cont lo hi b \<longleftrightarrow> lo \<le> b \<and> b \<le> hi"

text \<open>
  The byte length of the rune a string starts with, \<open>None\<close> where the bytes are
  not a well-formed encoding (overlong forms, surrogates, values past U+10FFFF).
\<close>

definition rune_len :: "bytes \<Rightarrow> nat option" where
  "rune_len s = (case s of [] \<Rightarrow> None | b0 # r \<Rightarrow>
     if b0 < 0x80 then Some 1
     else if 0xC2 \<le> b0 \<and> b0 \<le> 0xDF then
       (case r of b1 # _ \<Rightarrow> if utf8_cont 0x80 0xBF b1 then Some 2 else None | _ \<Rightarrow> None)
     else if 0xE0 \<le> b0 \<and> b0 \<le> 0xEF then
       (case r of b1 # b2 # _ \<Rightarrow>
          if utf8_cont (if b0 = 0xE0 then 0xA0 else 0x80) (if b0 = 0xED then 0x9F else 0xBF) b1
             \<and> utf8_cont 0x80 0xBF b2 then Some 3 else None
        | _ \<Rightarrow> None)
     else if 0xF0 \<le> b0 \<and> b0 \<le> 0xF4 then
       (case r of b1 # b2 # b3 # _ \<Rightarrow>
          if utf8_cont (if b0 = 0xF0 then 0x90 else 0x80) (if b0 = 0xF4 then 0x8F else 0xBF) b1
             \<and> utf8_cont 0x80 0xBF b2 \<and> utf8_cont 0x80 0xBF b3 then Some 4 else None
        | _ \<Rightarrow> None)
     else None)"

lemma rune_len_bounds: "rune_len s = Some n \<Longrightarrow> 1 \<le> n \<and> n \<le> 4 \<and> n \<le> length s"
  by (auto simp: rune_len_def split: list.splits if_splits)

function utf8_valid :: "bytes \<Rightarrow> bool" where
  "utf8_valid [] = True"
| "utf8_valid (b # r) =
     (case rune_len (b # r) of None \<Rightarrow> False | Some n \<Rightarrow> utf8_valid (drop n (b # r)))"
  by pat_completeness auto
termination
  by (relation "measure length") (auto dest!: rune_len_bounds)

declare utf8_valid.simps(2) [simp del]

lemma utf8_valid_unfold:
  "utf8_valid s \<longleftrightarrow> s = [] \<or> (\<exists>n. rune_len s = Some n \<and> utf8_valid (drop n s))"
  by (cases s) (auto simp: utf8_valid.simps rune_len_def split: option.splits)

lemma utf8_valid_ascii: "(\<And>b. b \<in> set s \<Longrightarrow> b < 0x80) \<Longrightarrow> utf8_valid s"
proof (induction s)
  case (Cons b s)
  then have "rune_len (b # s) = Some 1" by (simp add: rune_len_def)
  with Cons show ?case by (simp add: utf8_valid.simps)
qed simp

text \<open>A rune is read from its own bytes: what follows it does not matter.\<close>

definition rune_ok3 :: "byte \<Rightarrow> byte \<Rightarrow> byte \<Rightarrow> bool" where
  "rune_ok3 b0 b1 b2 \<longleftrightarrow>
     utf8_cont (if b0 = 0xE0 then 0xA0 else 0x80) (if b0 = 0xED then 0x9F else 0xBF) b1
     \<and> utf8_cont 0x80 0xBF b2"

definition rune_ok4 :: "byte \<Rightarrow> byte \<Rightarrow> byte \<Rightarrow> byte \<Rightarrow> bool" where
  "rune_ok4 b0 b1 b2 b3 \<longleftrightarrow>
     utf8_cont (if b0 = 0xF0 then 0x90 else 0x80) (if b0 = 0xF4 then 0x8F else 0xBF) b1
     \<and> utf8_cont 0x80 0xBF b2 \<and> utf8_cont 0x80 0xBF b3"

lemmas rune_len_folded = rune_len_def [folded rune_ok3_def rune_ok4_def]

lemma rune_len_cases:
  assumes "rune_len s = Some n"
  obtains b0 r where "s = b0 # r" "n = 1" "b0 < 0x80"
  | b0 b1 r where "s = b0 # b1 # r" "n = 2" "\<not> b0 < 0x80" "0xC2 \<le> b0 \<and> b0 \<le> 0xDF"
      "utf8_cont 0x80 0xBF b1"
  | b0 b1 b2 r where "s = b0 # b1 # b2 # r" "n = 3" "\<not> b0 < 0x80"
      "\<not> (0xC2 \<le> b0 \<and> b0 \<le> 0xDF)" "0xE0 \<le> b0 \<and> b0 \<le> 0xEF" "rune_ok3 b0 b1 b2"
  | b0 b1 b2 b3 r where "s = b0 # b1 # b2 # b3 # r" "n = 4" "\<not> b0 < 0x80"
      "\<not> (0xC2 \<le> b0 \<and> b0 \<le> 0xDF)" "\<not> (0xE0 \<le> b0 \<and> b0 \<le> 0xEF)"
      "0xF0 \<le> b0 \<and> b0 \<le> 0xF4" "rune_ok4 b0 b1 b2 b3"
  using assms unfolding rune_len_folded
  by (simp split: list.splits if_split_asm)

lemma rune_len_append: "rune_len s = Some n \<Longrightarrow> rune_len (s @ t) = Some n"
  by (erule rune_len_cases) (simp_all only: rune_len_folded append_Cons list.case if_True if_False simp_thms)

lemma rune_len_take: "rune_len s = Some n \<Longrightarrow> rune_len (take n s) = Some n"
  by (erule rune_len_cases)
    (simp_all add: rune_len_folded del: not_less not_le de_Morgan_conj)

lemma utf8_valid_append: "utf8_valid s \<Longrightarrow> utf8_valid t \<Longrightarrow> utf8_valid (s @ t)"
proof (induction s rule: utf8_valid.induct)
  case (2 b r)
  then obtain n where n: "rune_len (b # r) = Some n" "utf8_valid (drop n (b # r))"
    by (auto simp: utf8_valid.simps split: option.splits)
  with 2 have "utf8_valid (drop n (b # r) @ t)" by auto
  moreover have "drop n ((b # r) @ t) = drop n (b # r) @ t"
    using rune_len_bounds [OF n(1)] by (simp only: drop_append) auto
  ultimately show ?case
    using rune_len_append [OF n(1), of t] by (subst utf8_valid_unfold) auto
qed simp

text \<open>
  \<^verbatim>\<open>utf8.RuneStart\<close>, \<^verbatim>\<open>utf8.DecodeLastRuneInString\<close> (its size) and the conversion
  \<^verbatim>\<open>string([]rune(s))\<close>, which writes U+FFFD for each byte that is not part of a rune.
\<close>

definition RuneStart :: "byte \<Rightarrow> bool" where
  "RuneStart b \<longleftrightarrow> b AND 0xC0 \<noteq> 0x80"

definition decode_rune_size :: "bytes \<Rightarrow> nat" where
  "decode_rune_size s = (if s = [] then 0 else case rune_len s of None \<Rightarrow> 1 | Some n \<Rightarrow> n)"

fun last_rune_start :: "bytes \<Rightarrow> nat \<Rightarrow> nat \<Rightarrow> nat" where
  \<comment> \<open>the loop \<^verbatim>\<open>for start--; start >= lim; start--\<close>, stopping at a rune start\<close>
  "last_rune_start s 0 start = start"
| "last_rune_start s (Suc k) start =
     (if start = 0 then 0
      else if RuneStart (s ! (start - 1)) then start - 1
      else last_rune_start s k (start - 1))"

definition decode_last_rune_size :: "bytes \<Rightarrow> nat" where
  "decode_last_rune_size s =
     (if s = [] then 0
      else if last s < 0x80 then 1
      else let start = last_rune_start s 3 (length s - 1);
               size = decode_rune_size (drop start s)
           in if start + size \<noteq> length s then 1 else size)"

function runes_repaired :: "bytes \<Rightarrow> bytes" where
  "runes_repaired [] = []"
| "runes_repaired (b # r) =
     (case rune_len (b # r) of
        None \<Rightarrow> [0xEF, 0xBF, 0xBD] @ runes_repaired r
      | Some n \<Rightarrow> take n (b # r) @ runes_repaired (drop n (b # r)))"
  by pat_completeness auto
termination
  by (relation "measure length") (auto dest!: rune_len_bounds)

declare runes_repaired.simps(2) [simp del]

lemma runes_repaired_valid: "utf8_valid (runes_repaired s)"
proof (induction s rule: runes_repaired.induct)
  case (2 b r)
  show ?case
  proof (cases "rune_len (b # r)")
    case None
    have "utf8_valid [0xEF, 0xBF, 0xBD]"
      by (simp add: utf8_valid.simps rune_len_def utf8_cont_def)
    with None 2 show ?thesis
      using utf8_valid_append [of "[0xEF, 0xBF, 0xBD]" "runes_repaired r"]
      by (simp add: runes_repaired.simps)
  next
    case (Some n)
    then have "utf8_valid (take n (b # r))"
      using rune_len_take [OF Some] rune_len_bounds [OF Some]
      by (subst utf8_valid_unfold) auto
    with Some 2 show ?thesis by (simp add: runes_repaired.simps utf8_valid_append)
  qed
qed simp

lemma RuneStart_iff: "RuneStart b \<longleftrightarrow> \<not> (0x80 \<le> b \<and> b \<le> 0xBF)"
proof -
  have "b AND 0xC0 = push_bit 6 (drop_bit 6 b)"
  proof (rule bit_word_eqI)
    fix n assume "n < LENGTH(8)"
    then have "n = 0 \<or> n = 1 \<or> n = 2 \<or> n = 3 \<or> n = 4 \<or> n = 5 \<or> n = 6 \<or> n = 7" by auto
    then show "bit (b AND 0xC0) n = bit (push_bit 6 (drop_bit 6 b)) n"
      by (elim disjE) (simp_all add: bit_simps)
  qed
  then have "unat (b AND 0xC0) = unat (push_bit 6 (drop_bit 6 b))" by simp
  also have "\<dots> = (unat b div 64 * 64) mod 256"
    by (simp add: drop_bit_eq_div push_bit_eq_mult unat_word_ariths unat_div mod_mult_left_eq)
  finally have "(b AND 0xC0 = 0x80) \<longleftrightarrow> (unat b div 64 * 64) mod 256 = 128"
    by (simp add: word_unat_eq_iff)
  also have "\<dots> \<longleftrightarrow> 128 \<le> unat b \<and> unat b \<le> 191"
  proof -
    have "unat b div 64 < 4" using unat_byte_less [of b] by linarith
    then have "(unat b div 64 * 64) mod 256 = unat b div 64 * 64" by simp
    moreover have "unat b div 64 * 64 = 128 \<longleftrightarrow> unat b div 64 = 2" by linarith
    moreover have "unat b div 64 = 2 \<longleftrightarrow> 128 \<le> unat b \<and> unat b \<le> 191" by linarith
    ultimately show ?thesis by simp
  qed
  finally show ?thesis by (simp add: RuneStart_def word_le_nat_alt)
qed

lemma utf8_last_rune:
  assumes "utf8_valid s" "s \<noteq> []"
  shows "\<exists>t r. s = t @ r \<and> utf8_valid t \<and> rune_len r = Some (length r)"
  using assms
proof (induction s rule: utf8_valid.induct)
  case (2 b r)
  then obtain n where n: "rune_len (b # r) = Some n" "utf8_valid (drop n (b # r))"
    by (auto simp: utf8_valid.simps split: option.splits)
  note tk = rune_len_take [OF n(1)] and bd = rune_len_bounds [OF n(1)]
  show ?case
  proof (cases "drop n (b # r) = []")
    case True
    then have "b # r = [] @ take n (b # r)" "length (take n (b # r)) = n" using bd by auto
    with tk show ?thesis by (metis utf8_valid.simps(1))
  next
    case False
    then obtain t u where tu: "drop n (b # r) = t @ u" "utf8_valid t" "rune_len u = Some (length u)"
      using "2.IH" [OF n] by auto
    have "utf8_valid (take n (b # r))"
      using tk bd by (subst utf8_valid_unfold) auto
    then have "utf8_valid (take n (b # r) @ t)" using tu(2) by (rule utf8_valid_append)
    moreover have "b # r = (take n (b # r) @ t) @ u"
      using tu(1) by (metis append.assoc append_take_drop_id)
    ultimately show ?thesis using tu(3) by blast
  qed
qed simp

lemma RuneStart_lead: "0xC2 \<le> b \<Longrightarrow> RuneStart b"
  by (auto simp: RuneStart_iff word_le_nat_alt)

lemma RuneStart_cont: "utf8_cont lo hi b \<Longrightarrow> 0x80 \<le> lo \<Longrightarrow> hi \<le> 0xBF \<Longrightarrow> \<not> RuneStart b \<and> \<not> b < 0x80"
  by (auto simp: RuneStart_iff utf8_cont_def)

lemma last_rune_start_le: "last_rune_start s k start \<le> start"
  by (induction s k start rule: last_rune_start.induct) auto

lemma decode_last_rune_size_pos:
  assumes "s \<noteq> []"
  shows "0 < decode_last_rune_size s"
proof -
  let ?st = "last_rune_start s 3 (length s - 1)"
  have "?st < length s"
    using last_rune_start_le [of s 3 "length s - 1"] assms by (cases s) auto
  then have "0 < decode_rune_size (drop ?st s)"
    by (auto simp: decode_rune_size_def split: option.splits dest!: rune_len_bounds)
  with assms show ?thesis by (simp add: decode_last_rune_size_def Let_def)
qed

lemma last_rune_start_found:
  assumes "RuneStart b0" "\<forall>b \<in> set bs. \<not> RuneStart b" "length bs < k"
  shows "last_rune_start (t @ b0 # bs @ z) k (length t + 1 + length bs) = length t"
  using assms
proof (induction bs arbitrary: k z rule: rev_induct)
  case Nil
  then show ?case by (cases k) (simp_all add: nth_append)
next
  case (snoc b bs)
  then obtain k' where k: "k = Suc k'" "length bs < k'" by (cases k) auto
  with snoc.IH [of k' "b # z"] snoc.prems show ?case by (simp add: nth_append)
qed

lemma decode_last_rune_size_multi:
  assumes "rune_len (b0 # bs @ [z]) = Some (length bs + 2)" "RuneStart b0"
    "\<forall>b \<in> set (bs @ [z]). \<not> RuneStart b \<and> \<not> b < 0x80" "length bs < 3"
  shows "decode_last_rune_size (t @ b0 # bs @ [z]) = length bs + 2"
proof -
  have "last_rune_start (t @ b0 # bs @ [z]) 3 (length t + 1 + length bs) = length t"
    using assms by (intro last_rune_start_found) auto
  then show ?thesis
    using assms by (simp add: decode_last_rune_size_def decode_rune_size_def Let_def)
qed

lemma decode_last_rune_size_rune:
  assumes r: "rune_len r = Some (length r)"
  shows "decode_last_rune_size (t @ r) = length r"
  using r
proof (cases rule: rune_len_cases)
  case (1 b0 r')
  then show ?thesis by (simp add: decode_last_rune_size_def)
next
  case (2 b0 b1 r')
  then show ?thesis
    using r decode_last_rune_size_multi [where bs = "[]" and z = b1 and t = t] RuneStart_cont [where b = b1] RuneStart_lead [where b = b0]
    by simp
next
  case (3 b0 b1 b2 r')
  have "0xC2 \<le> (0xE0 :: byte)" "0xE0 \<le> b0" using 3(5) by simp_all
  then have "RuneStart b0" by (intro RuneStart_lead) (rule order.trans)
  moreover have "\<not> RuneStart b1 \<and> \<not> b1 < 0x80" "\<not> RuneStart b2 \<and> \<not> b2 < 0x80"
    using 3(6) unfolding rune_ok3_def by (auto elim!: RuneStart_cont)
  ultimately show ?thesis
    using 3(1,2) r decode_last_rune_size_multi [where bs = "[b1]" and z = b2 and t = t] by simp
next
  case (4 b0 b1 b2 b3 r')
  have "0xC2 \<le> (0xF0 :: byte)" "0xF0 \<le> b0" using 4(6) by simp_all
  then have "RuneStart b0" by (intro RuneStart_lead) (rule order.trans)
  moreover have "\<not> RuneStart b1 \<and> \<not> b1 < 0x80" "\<not> RuneStart b2 \<and> \<not> b2 < 0x80" "\<not> RuneStart b3 \<and> \<not> b3 < 0x80"
    using 4(7) unfolding rune_ok4_def by (auto elim!: RuneStart_cont)
  ultimately show ?thesis
    using 4(1,2) r decode_last_rune_size_multi [where bs = "[b1, b2]" and z = b3 and t = t] by simp
qed

text \<open>
  Dropping runes from the end of a string until it fits a limit, the loop
  \<^verbatim>\<open>for len(s) > max { _, size := utf8.DecodeLastRuneInString(s); s = s[:len(s)-size] }\<close>.
\<close>

function fit_runes :: "nat \<Rightarrow> bytes \<Rightarrow> bytes" where
  "fit_runes n s = (if length s > n then fit_runes n (take (length s - decode_last_rune_size s) s) else s)"
  by pat_completeness auto
termination
proof (relation "measure (\<lambda>(n, s). length s)")
  fix n :: nat and s :: bytes
  assume "n < length s"
  then have "s \<noteq> []" "0 < decode_last_rune_size s" by (auto intro: decode_last_rune_size_pos)
  then show "((n, take (length s - decode_last_rune_size s) s), (n, s)) \<in> measure (\<lambda>(n, s). length s)" by simp
qed simp

declare fit_runes.simps [simp del]

lemma fit_runes_id: "length s \<le> n \<Longrightarrow> fit_runes n s = s"
  by (simp add: fit_runes.simps)

lemma fit_runes_length: "length (fit_runes n s) \<le> n"
  by (induction n s rule: fit_runes.induct) (subst fit_runes.simps, simp)

lemma fit_runes_valid:
  "utf8_valid s \<Longrightarrow> utf8_valid (fit_runes n s) \<and> (\<exists>r. s = fit_runes n s @ r)"
proof (induction n s rule: fit_runes.induct)
  case (1 n s)
  show ?case
  proof (cases "length s > n")
    case True
    then have "s \<noteq> []" by auto
    then obtain t r where tr: "s = t @ r" "utf8_valid t" "rune_len r = Some (length r)"
      using utf8_last_rune [OF "1.prems"] by blast
    then have "take (length s - decode_last_rune_size s) s = t"
      by (simp add: decode_last_rune_size_rune)
    then have s: "fit_runes n s = fit_runes n t" using True by (subst fit_runes.simps) simp
    from "1.IH" [OF True] tr(2) \<open>take _ s = t\<close> obtain q where
      "utf8_valid (fit_runes n t)" "t = fit_runes n t @ q"
      by auto
    with tr(1) show ?thesis unfolding s by (intro conjI exI [of _ "q @ r"]) simp_all
  next
    case False
    with "1.prems" show ?thesis by (simp add: fit_runes_id)
  qed
qed

subsection \<open>Searching strings\<close>

fun IndexByte :: "bytes \<Rightarrow> byte \<Rightarrow> nat option" where
  "IndexByte [] c = None"
| "IndexByte (b # r) c = (if b = c then Some 0 else map_option Suc (IndexByte r c))"

definition ContainsAny :: "bytes \<Rightarrow> bytes \<Rightarrow> bool" where
  "ContainsAny s chars \<longleftrightarrow> (\<exists>b \<in> set s. b \<in> set chars)"

definition HasPrefix :: "bytes \<Rightarrow> bytes \<Rightarrow> bool" where
  "HasPrefix s p \<longleftrightarrow> take (length p) s = p"

lemma IndexByte_None_iff [simp]: "IndexByte s c = None \<longleftrightarrow> c \<notin> set s"
  by (induction s) auto

lemma IndexByte_Some:
  "IndexByte s c = Some i \<Longrightarrow> i < length s \<and> s ! i = c \<and> c \<notin> set (take i s)"
  by (induction s arbitrary: i) (auto split: if_splits)

lemma HasPrefix_append [simp]: "HasPrefix (p @ s) p"
  by (simp add: HasPrefix_def)

text \<open>String literals of the sources: the bytes of an ASCII text.\<close>

definition ascii :: "string \<Rightarrow> bytes" where
  "ascii s = map (\<lambda>c. word_of_nat (of_char c)) s"

lemma length_ascii [simp]: "length (ascii s) = length s"
  by (simp add: ascii_def)

subsection \<open>Upper-casing\<close>

text \<open>
  \<^verbatim>\<open>strings.ToUpper\<close>.  ASCII letters are mapped bytewise.  In a string with
  non-ASCII runes Go maps every rune with \<^verbatim>\<open>unicode.ToUpper\<close> and writes U+FFFD for
  an invalid byte.  Exactly two non-ASCII runes have an ASCII upper case, U+0131
  (to \<^verbatim>\<open>I\<close>) and U+017F (to \<^verbatim>\<open>S\<close>); every other one stays outside ASCII, and the model
  keeps its bytes.  The only caller compares the result with an ASCII alphabet,
  which cannot tell such a rune from its upper case.
\<close>

definition upper_byte :: "byte \<Rightarrow> byte" where
  "upper_byte b = (if 0x61 \<le> b \<and> b \<le> 0x7A then b - 0x20 else b)"

definition upper_rune :: "bytes \<Rightarrow> bytes" where
  "upper_rune r =
     (if r = [0xC4, 0xB1] then [0x49]
      else if r = [0xC5, 0xBF] then [0x53]
      else map upper_byte r)"

function upper_runes :: "bytes \<Rightarrow> bytes" where
  "upper_runes [] = []"
| "upper_runes (b # r) =
     (case rune_len (b # r) of
        None \<Rightarrow> [0xEF, 0xBF, 0xBD] @ upper_runes r
      | Some n \<Rightarrow> upper_rune (take n (b # r)) @ upper_runes (drop n (b # r)))"
  by pat_completeness auto
termination
  by (relation "measure length") (auto dest!: rune_len_bounds)

declare upper_runes.simps(2) [simp del]

definition is_ascii :: "bytes \<Rightarrow> bool" where
  "is_ascii s \<longleftrightarrow> (\<forall>b \<in> set s. b < 0x80)"

definition ToUpper :: "bytes \<Rightarrow> bytes" where
  "ToUpper s = (if is_ascii s then map upper_byte s else upper_runes s)"

lemma upper_byte_idem [simp]: "upper_byte (upper_byte b) = upper_byte b"
  unfolding upper_byte_def by (auto simp: word_le_nat_alt unat_sub_if')

subsection \<open>Hexadecimal text\<close>

definition hex_digit :: "nat \<Rightarrow> byte" where
  "hex_digit n = (if n < 10 then word_of_nat (0x30 + n) else word_of_nat (0x57 + n))"

definition hex_encode :: "bytes \<Rightarrow> bytes" where
  "hex_encode s = concat (map (\<lambda>b. [hex_digit (unat b div 16), hex_digit (unat b mod 16)]) s)"

lemma length_hex_encode [simp]: "length (hex_encode s) = 2 * length s"
  by (induction s) (auto simp: hex_encode_def)

lemma hex_digit_inj: "m < 16 \<Longrightarrow> n < 16 \<Longrightarrow> hex_digit m = hex_digit n \<Longrightarrow> m = n"
proof -
  assume "m < 16" "n < 16" "hex_digit m = hex_digit n"
  then have "unat (hex_digit m) = unat (hex_digit n)" by simp
  then show "m = n"
    using \<open>m < 16\<close> \<open>n < 16\<close> by (auto simp: hex_digit_def simp del: of_nat_add split: if_splits)
qed

lemma hex_encode_inj: "hex_encode s = hex_encode t \<Longrightarrow> s = t"
proof (induction s arbitrary: t)
  case Nil
  then have "length (hex_encode t) = 0" by (simp add: hex_encode_def)
  then show ?case by simp
next
  case (Cons a s)
  then have "length (hex_encode t) = 2 * length (a # s)" by (metis length_hex_encode)
  then obtain b t' where t: "t = b # t'" by (cases t) auto
  with Cons.prems have eq: "hex_digit (unat a div 16) = hex_digit (unat b div 16)"
      "hex_digit (unat a mod 16) = hex_digit (unat b mod 16)" "hex_encode s = hex_encode t'"
    by (auto simp: hex_encode_def)
  have small: "unat x div 16 < 16" for x :: byte
    using unat_byte_less [of x] by linarith
  have "unat a div 16 = unat b div 16"
    using hex_digit_inj [OF small small eq(1)] .
  moreover have "unat a mod 16 = unat b mod 16"
    using hex_digit_inj [OF _ _ eq(2)] by simp
  ultimately have "unat a = unat b" by (metis div_mult_mod_eq)
  then have "a = b" by (simp add: word_unat_eq_iff)
  with eq(3) t Cons.IH show ?case by simp
qed

subsection \<open>\<^verbatim>\<open>strconv.Atoi\<close> and \<^verbatim>\<open>strings.TrimSpace\<close>\<close>

text \<open>
  A decimal number with an optional sign, within a 64-bit int; \<open>None\<close> is an error.
\<close>

definition is_digit :: "byte \<Rightarrow> bool" where
  "is_digit b \<longleftrightarrow> 0x30 \<le> b \<and> b \<le> 0x39"

definition decimal_value :: "bytes \<Rightarrow> int" where
  "decimal_value ds = fold (\<lambda>b n. n * 10 + uint (b - 0x30)) ds 0"

definition Atoi :: "bytes \<Rightarrow> int option" where
  "Atoi s =
     (let neg = HasPrefix s [0x2D];
          ds = (if neg \<or> HasPrefix s [0x2B] then drop 1 s else s) in
      if ds = [] \<or> \<not> list_all is_digit ds then None else
      let v = decimal_value ds in
      if neg then (if v > 2 ^ 63 then None else Some (- v))
      else (if v > 2 ^ 63 - 1 then None else Some v))"

lemma fold_decimal_nonneg: "0 \<le> n \<Longrightarrow> 0 \<le> fold (\<lambda>b n. n * 10 + uint (b - 0x30)) ds n"
  by (induction ds arbitrary: n) auto

lemma decimal_value_nonneg [simp]: "0 \<le> decimal_value ds"
  by (simp add: decimal_value_def fold_decimal_nonneg)

lemma Atoi_range: "Atoi s = Some v \<Longrightarrow> - (2 ^ 63) \<le> v \<and> v < 2 ^ 63"
  using decimal_value_nonneg [of s] decimal_value_nonneg [of "drop (Suc 0) s"]
  by (auto simp: Atoi_def Let_def simp del: decimal_value_nonneg split: if_splits)

text \<open>The UTF-8 encodings of the runes of \<^verbatim>\<open>unicode.IsSpace\<close>.\<close>

definition space_runes :: "bytes list" where
  "space_runes =
     map (\<lambda>b. [b]) [0x09, 0x0A, 0x0B, 0x0C, 0x0D, 0x20] @
     [[0xC2, 0x85], [0xC2, 0xA0], [0xE1, 0x9A, 0x80]] @
     map (\<lambda>k. [0xE2, 0x80, 0x80 + of_nat k]) [0..<11] @
     [[0xE2, 0x80, 0xA8], [0xE2, 0x80, 0xA9], [0xE2, 0x80, 0xAF], [0xE2, 0x81, 0x9F], [0xE3, 0x80, 0x80]]"

definition leading_space :: "bytes list \<Rightarrow> bytes \<Rightarrow> nat" where
  "leading_space runes s = (case filter (HasPrefix s) runes of [] \<Rightarrow> 0 | r # _ \<Rightarrow> length r)"

function trim_left :: "bytes list \<Rightarrow> bytes \<Rightarrow> bytes" where
  "trim_left runes s =
     (if s = [] \<or> leading_space runes s = 0 then s else trim_left runes (drop (leading_space runes s) s))"
  by pat_completeness auto
termination
  by (relation "measure (\<lambda>(runes, s). length s)") auto

declare trim_left.simps [simp del]

definition TrimSpace :: "bytes \<Rightarrow> bytes" where
  "TrimSpace s = rev (trim_left (map rev space_runes) (rev (trim_left space_runes s)))"

lemma space_runes_rune: "w \<in> set space_runes \<Longrightarrow> rune_len w = Some (length w)"
  by (auto simp: space_runes_def rune_len_def utf8_cont_def upt_rec)

lemma leading_space_cases:
  assumes "leading_space ws s \<noteq> 0"
  obtains w t where "w \<in> set ws" "s = w @ t" "leading_space ws s = length w"
proof -
  obtain w ws' where f: "filter (HasPrefix s) ws = w # ws'"
    using assms by (auto simp: leading_space_def split: list.splits)
  then have "w \<in> set (filter (HasPrefix s) ws)" by simp
  then have "w \<in> set ws" "HasPrefix s w" by auto
  moreover from this(2) have "s = w @ drop (length w) s" by (metis HasPrefix_def append_take_drop_id)
  ultimately show ?thesis using f that by (auto simp: leading_space_def)
qed

lemma trim_left_valid: "utf8_valid s \<Longrightarrow> utf8_valid (trim_left space_runes s)"
proof (induction "space_runes" s rule: trim_left.induct)
  case (1 s)
  show ?case
  proof (cases "s = [] \<or> leading_space space_runes s = 0")
    case False
    then obtain w t where w: "w \<in> set space_runes" "s = w @ t" "leading_space space_runes s = length w"
      using leading_space_cases by blast
    then have "rune_len s = Some (length w)" by (simp add: space_runes_rune rune_len_append)
    then have "utf8_valid t" using "1.prems" w(2) False by (subst (asm) utf8_valid_unfold) auto
    then have "utf8_valid (trim_left space_runes t)" using 1(1) [OF False] w by simp
    moreover have "trim_left space_runes s = trim_left space_runes t"
      using False w by (subst trim_left.simps) simp
    ultimately show ?thesis by simp
  next
    case True
    then have "trim_left space_runes s = s" by (subst trim_left.simps) simp
    with "1.prems" show ?thesis by simp
  qed
qed

lemma utf8_valid_drop_last:
  assumes "utf8_valid (t @ w)" "rune_len w = Some (length w)"
  shows "utf8_valid t"
proof -
  have "t @ w \<noteq> []" using rune_len_bounds [OF assms(2)] by auto
  then obtain t' r where r: "t @ w = t' @ r" "utf8_valid t'" "rune_len r = Some (length r)"
    using utf8_last_rune [OF assms(1)] by metis
  have "decode_last_rune_size (t @ w) = length w" by (rule decode_last_rune_size_rune [OF assms(2)])
  moreover have "decode_last_rune_size (t' @ r) = length r" by (rule decode_last_rune_size_rune [OF r(3)])
  ultimately have "length r = length w" using r(1) by (simp only:)
  then have "t = t'" using r(1) by (metis append_eq_append_conv)
  with r(2) show ?thesis by (simp only:)
qed

lemma trim_right_valid:
  "ws = map rev space_runes \<Longrightarrow> utf8_valid (rev u) \<Longrightarrow> utf8_valid (rev (trim_left ws u))"
proof (induction ws u rule: trim_left.induct)
  case (1 ws u)
  show ?case
  proof (cases "u = [] \<or> leading_space ws u = 0")
    case False
    then obtain w t where w: "w \<in> set ws" "u = w @ t" "leading_space ws u = length w"
      using leading_space_cases by blast
    have "rev w \<in> set space_runes" using w(1) "1.prems"(1) by auto
    then have "rune_len (rev w) = Some (length (rev w))" by (rule space_runes_rune)
    moreover have "utf8_valid (rev t @ rev w)" using "1.prems"(2) w(2) by simp
    ultimately have "utf8_valid (rev t)" by (rule utf8_valid_drop_last [rotated])
    then have "utf8_valid (rev (trim_left ws t))" using "1.IH" [OF False "1.prems"(1)] w by simp
    moreover have "trim_left ws u = trim_left ws t"
      using False w by (subst trim_left.simps) simp
    ultimately show ?thesis by simp
  next
    case True
    then have "trim_left ws u = u" by (subst trim_left.simps) simp
    with "1.prems" show ?thesis by simp
  qed
qed

lemma TrimSpace_valid: "utf8_valid s \<Longrightarrow> utf8_valid (TrimSpace s)"
  using trim_right_valid [OF refl, of "rev (trim_left space_runes s)"] trim_left_valid [of s]
  by (simp add: TrimSpace_def)

subsection \<open>Lower-casing and decimal numbers\<close>

text \<open>
  \<^verbatim>\<open>strings.ToLower\<close>, under the same reading as \<open>ToUpper\<close>: the two non-ASCII runes with
  an ASCII lower case are U+0130 (to \<^verbatim>\<open>i\<close>) and U+212A (to \<^verbatim>\<open>k\<close>).  The only caller refuses
  every non-ASCII byte of the result.
\<close>

definition lower_byte :: "byte \<Rightarrow> byte" where
  "lower_byte b = (if 0x41 \<le> b \<and> b \<le> 0x5A then b + 0x20 else b)"

definition lower_rune :: "bytes \<Rightarrow> bytes" where
  "lower_rune r =
     (if r = [0xC4, 0xB0] then [0x69]
      else if r = [0xE2, 0x84, 0xAA] then [0x6B]
      else map lower_byte r)"

function lower_runes :: "bytes \<Rightarrow> bytes" where
  "lower_runes [] = []"
| "lower_runes (b # r) =
     (case rune_len (b # r) of
        None \<Rightarrow> [0xEF, 0xBF, 0xBD] @ lower_runes r
      | Some n \<Rightarrow> lower_rune (take n (b # r)) @ lower_runes (drop n (b # r)))"
  by pat_completeness auto
termination
  by (relation "measure length") (auto dest!: rune_len_bounds)

declare lower_runes.simps(2) [simp del]

definition ToLower :: "bytes \<Rightarrow> bytes" where
  "ToLower s = (if is_ascii s then map lower_byte s else lower_runes s)"

text \<open>The verb \<^verbatim>\<open>%d\<close> of a non-negative number.\<close>

fun decimal :: "nat \<Rightarrow> bytes" where
  "decimal n = (if n < 10 then [] else decimal (n div 10)) @ [0x30 + of_nat (n mod 10)]"

declare decimal.simps [simp del]

lemma decimal_digit_inj: "m < 10 \<Longrightarrow> n < 10 \<Longrightarrow> (0x30 :: byte) + of_nat m = 0x30 + of_nat n \<Longrightarrow> m = n"
proof -
  assume d: "m < 10" "n < 10" and "(0x30 :: byte) + of_nat m = 0x30 + of_nat n"
  then have "(of_nat m :: byte) = of_nat n" by simp
  then have "unat (of_nat m :: byte) = unat (of_nat n :: byte)" by simp
  then show "m = n" using d by simp
qed

lemma decimal_nonempty [simp]: "decimal n \<noteq> []"
  by (subst decimal.simps) simp

lemma decimal_inj: "decimal m = decimal n \<Longrightarrow> m = n"
proof (induction m arbitrary: n rule: decimal.induct)
  case (1 m)
  have eq: "(if m < 10 then [] else decimal (m div 10)) = (if n < 10 then [] else decimal (n div 10))"
    "m mod 10 = n mod 10"
    using "1.prems" decimal_digit_inj [of "m mod 10" "n mod 10"]
    unfolding decimal.simps [of m] decimal.simps [of n] by simp_all
  have "m div 10 = n div 10"
  proof (cases "m < 10")
    case True
    then have "n < 10" using eq(1) decimal_nonempty [of "n div 10"] by (metis)
    with True show ?thesis by simp
  next
    case False
    then have "\<not> n < 10" using eq(1) decimal_nonempty [of "m div 10"] by metis
    with False eq(1) "1.IH" [OF False, of "n div 10"] show ?thesis by simp
  qed
  with eq(2) show ?case by (metis div_mult_mod_eq)
qed

lemma decimal_digits: "b \<in> set (decimal n) \<Longrightarrow> 0x30 \<le> b \<and> b \<le> 0x39"
proof (induction n rule: decimal.induct)
  case (1 n)
  have "n mod 10 < 10" by simp
  then have "unat (0x30 + of_nat (n mod 10) :: byte) = 0x30 + n mod 10"
    by (simp add: unat_word_ariths unat_of_nat)
  then have "0x30 \<le> (0x30 + of_nat (n mod 10) :: byte) \<and> (0x30 + of_nat (n mod 10) :: byte) \<le> 0x39"
    using \<open>n mod 10 < 10\<close> unfolding word_le_nat_alt by simp
  with 1 show ?case by (subst (asm) decimal.simps) (auto split: if_splits)
qed

lemma decimal_length: "0 < k \<Longrightarrow> n < 10 ^ k \<Longrightarrow> length (decimal n) \<le> k"
proof (induction k arbitrary: n)
  case (Suc k)
  show ?case
  proof (cases "n < 10")
    case False
    then have "0 < k" using Suc.prems by (cases k) auto
    moreover have "n div 10 < 10 ^ k" using Suc.prems by (simp add: less_mult_imp_div_less mult.commute)
    ultimately show ?thesis using Suc.IH False by (subst decimal.simps) simp
  qed (simp add: decimal.simps [of n])
qed simp

subsection \<open>\<^verbatim>\<open>time\<close>\<close>

text \<open>
  A \<^verbatim>\<open>time.Duration\<close> is a number of nanoseconds, a \<^verbatim>\<open>time.Time\<close> the number of
  nanoseconds since the Unix epoch; the zero time is the first instant of the year 1.
  \<^verbatim>\<open>Sub\<close> saturates at the range of a duration.
\<close>

type_synonym duration = int
type_synonym instant = int

definition Millisecond :: duration where "Millisecond = 10 ^ 6"
definition Second :: duration where "Second = 10 ^ 9"
definition maxDuration :: duration where "maxDuration = 2 ^ 63 - 1"
definition minDuration :: duration where "minDuration = - (2 ^ 63)"
definition zero_time :: instant where "zero_time = - 62135596800 * 10 ^ 9"

definition time_sub :: "instant \<Rightarrow> instant \<Rightarrow> duration" where
  "time_sub t u = max minDuration (min maxDuration (t - u))"

text \<open>Go's integer division truncates towards zero.\<close>

definition go_quot :: "int \<Rightarrow> int \<Rightarrow> int" where
  "go_quot a b = sgn a * sgn b * (\<bar>a\<bar> div \<bar>b\<bar>)"

definition Milliseconds :: "duration \<Rightarrow> int" where
  "Milliseconds d = go_quot d Millisecond"

definition UnixMilli :: "instant \<Rightarrow> int" where
  "UnixMilli t = t div Millisecond"

lemma time_sub_mono: "t \<le> t' \<Longrightarrow> time_sub t u \<le> time_sub t' u"
  by (auto simp: time_sub_def)

lemma time_sub_antimono: "u \<le> u' \<Longrightarrow> time_sub t u' \<le> time_sub t u"
  by (auto simp: time_sub_def)

lemma time_sub_self [simp]: "time_sub t t = 0"
  by (simp add: time_sub_def minDuration_def maxDuration_def)

lemma go_quot_nonneg: "0 \<le> a \<Longrightarrow> 0 < b \<Longrightarrow> go_quot a b = a div b"
  by (cases "a = 0") (simp_all add: go_quot_def)

end
