(* ===== verification/BroadcastID.thy ===== *)
theory BroadcastID
  imports GoStd
begin

section \<open>Broadcast identifiers (\<^verbatim>\<open>gawk-server/internal/broadcastid\<close>)\<close>

text \<open>
  The 6-character join codes: minting by rejection sampling from
  \<^verbatim>\<open>crypto/rand\<close>, and normalisation of what a user types.  The random source is
  the list of results of the successive \<^verbatim>\<open>rand.Read\<close> calls, so a run that needs
  more reads than the list holds has not returned yet (\<open>None\<close>).
\<close>

datatype id_error = ErrInvalidID | ErrRandRead

definition Alphabet :: bytes where
  "Alphabet = ascii ''23456789ABCDEFGHJKMNPQRSTUVWXYZ''"

definition Length :: nat where
  "Length = 6"

definition in_Alphabet :: "byte \<Rightarrow> bool" where
  "in_Alphabet b \<longleftrightarrow> IndexByte Alphabet b \<noteq> None"

subsection \<open>Mint\<close>

text \<open>The inner loop over one 12-byte buffer, leaving it when the ID is complete.\<close>

fun Mint_buf :: "bytes \<Rightarrow> bytes \<Rightarrow> bytes" where
  "Mint_buf acc [] = acc"
| "Mint_buf acc (val # buf) =
     (if val < 248 then
        (let acc' = acc @ [Alphabet ! (unat val mod 31)]
         in if length acc' = Length then acc' else Mint_buf acc' buf)
      else Mint_buf acc buf)"

fun Mint_loop :: "bytes \<Rightarrow> (unit + bytes) list \<Rightarrow> (id_error + bytes) option" where
  "Mint_loop acc reads =
     (if length acc < Length then
        (case reads of
           [] \<Rightarrow> None
         | Inl _ # _ \<Rightarrow> Some (Inl ErrRandRead)
         | Inr buf # reads' \<Rightarrow> Mint_loop (Mint_buf acc buf) reads')
      else Some (Inr acc))"

declare Mint_loop.simps [simp del]

definition Mint :: "(unit + bytes) list \<Rightarrow> (id_error + bytes) option" where
  "Mint reads = Mint_loop [] reads"

subsection \<open>Normalize\<close>

definition Normalize :: "bytes \<Rightarrow> id_error + bytes" where
  "Normalize s =
     (let s = ToUpper s in
      if length s \<noteq> Length then Inl ErrInvalidID
      else if \<exists>b \<in> set s. \<not> in_Alphabet b then Inl ErrInvalidID
      else Inr s)"

text \<open>What every accepted or minted identifier looks like.\<close>

definition valid_id :: "bytes \<Rightarrow> bool" where
  "valid_id s \<longleftrightarrow> length s = Length \<and> (\<forall>b \<in> set s. in_Alphabet b)"

subsection \<open>The alphabet\<close>

lemma Alphabet_eq:
  "Alphabet = [50, 51, 52, 53, 54, 55, 56, 57, 65, 66, 67, 68, 69, 70, 71, 72, 74, 75, 77, 78,
     80, 81, 82, 83, 84, 85, 86, 87, 88, 89, 90]"
  by (simp add: Alphabet_def ascii_def)

lemma length_Alphabet [simp]: "length Alphabet = 31"
  by (simp add: Alphabet_eq)

lemma distinct_Alphabet: "distinct Alphabet"
  by (simp add: Alphabet_eq)

lemma in_Alphabet_iff: "in_Alphabet b \<longleftrightarrow> b \<in> set Alphabet"
  by (simp add: in_Alphabet_def)

lemma Alphabet_upper_ascii: "b \<in> set Alphabet \<Longrightarrow> b < 0x80 \<and> upper_byte b = b"
  by (auto simp: Alphabet_eq upper_byte_def)

lemma in_Alphabet_nth [simp]: "i < 31 \<Longrightarrow> in_Alphabet (Alphabet ! i)"
  using nth_mem [of i Alphabet] by (simp add: in_Alphabet_iff)

lemma valid_id_ascii: "valid_id s \<Longrightarrow> is_ascii s"
  by (auto simp: valid_id_def is_ascii_def in_Alphabet_iff dest: Alphabet_upper_ascii)

lemma valid_id_utf8: "valid_id s \<Longrightarrow> utf8_valid s"
  using valid_id_ascii [of s] by (auto simp: is_ascii_def intro: utf8_valid_ascii)

lemma valid_id_length: "valid_id s \<Longrightarrow> length s = 6"
  by (simp add: valid_id_def Length_def)

lemma ToUpper_valid_id [simp]: "valid_id s \<Longrightarrow> ToUpper s = s"
  using valid_id_ascii [of s]
  by (auto simp: ToUpper_def valid_id_def in_Alphabet_iff dest!: Alphabet_upper_ascii
      intro!: map_idI)

subsection \<open>Normalisation\<close>

lemma Normalize_Inr_iff: "Normalize s = Inr t \<longleftrightarrow> t = ToUpper s \<and> valid_id t"
  by (auto simp: Normalize_def valid_id_def Let_def)

lemma Normalize_error: "Normalize s = Inl e \<Longrightarrow> e = ErrInvalidID \<and> \<not> valid_id (ToUpper s)"
  by (auto simp: Normalize_def valid_id_def Let_def split: if_splits)

lemma Normalize_valid [simp]: "valid_id s \<Longrightarrow> Normalize s = Inr s"
  by (simp add: Normalize_Inr_iff)

text \<open>
  A short input is normalised only if it is ASCII already: a non-ASCII rune that
  upper-cases into the alphabet is longer than the letter it becomes.
\<close>

lemma Normalize_ascii_length:
  "is_ascii s \<Longrightarrow> Normalize s = Inr t \<Longrightarrow> length s = length t"
  by (auto simp: Normalize_Inr_iff ToUpper_def)

subsection \<open>Minting\<close>

lemma Mint_buf_valid:
  "\<forall>b \<in> set acc. in_Alphabet b \<Longrightarrow> \<forall>b \<in> set (Mint_buf acc buf). in_Alphabet b"
  by (induction acc buf rule: Mint_buf.induct) (auto simp: Let_def)

lemma Mint_buf_length:
  "length acc < Length \<Longrightarrow> length (Mint_buf acc buf) = min Length (length acc + length (filter (\<lambda>v. v < 248) buf))"
  by (induction acc buf rule: Mint_buf.induct) (auto simp: Let_def Length_def)

lemma Mint_loop_valid:
  assumes "Mint_loop acc reads = Some (Inr s)" "\<forall>b \<in> set acc. in_Alphabet b" "length acc \<le> Length"
  shows "valid_id s"
  using assms
proof (induction acc reads rule: Mint_loop.induct)
  case (1 acc reads)
  show ?case
  proof (cases "length acc < Length")
    case True
    then obtain buf reads' where r: "reads = Inr buf # reads'"
        "Mint_loop (Mint_buf acc buf) reads' = Some (Inr s)"
      using "1.prems"(1) by (auto simp: Mint_loop.simps [of acc reads] split: list.splits sum.splits)
    have "length (Mint_buf acc buf) \<le> Length"
      using True by (simp add: Mint_buf_length)
    then show ?thesis
      using True r "1.prems"(2) by (intro "1.IH") (auto simp: Mint_buf_valid)
  next
    case False
    then show ?thesis
      using "1.prems" by (simp add: Mint_loop.simps [of acc reads] valid_id_def)
  qed
qed

text \<open>
  Enough accepted bytes end the loop: the buffers need to bring \<^term>\<open>Length\<close> values
  below 248 in total.
\<close>

definition accepted :: "(unit + bytes) list \<Rightarrow> nat" where
  "accepted reads =
     sum_list (map (\<lambda>r. case r of Inl _ \<Rightarrow> 0 | Inr buf \<Rightarrow> length (filter (\<lambda>v. v < 248) buf)) reads)"

lemma Mint_loop_returns:
  assumes "\<forall>r \<in> set reads. is_ok r" "Length \<le> length acc + accepted reads"
  shows "\<exists>s. Mint_loop acc reads = Some (Inr s)"
  using assms
proof (induction acc reads rule: Mint_loop.induct)
  case (1 acc reads)
  show ?case
  proof (cases "length acc < Length")
    case True
    with "1.prems" obtain r reads' where rr: "reads = r # reads'"
      by (cases reads) (auto simp: accepted_def)
    with "1.prems"(1) obtain buf where r: "reads = Inr buf # reads'"
      by (cases r) auto
    have "Length \<le> length (Mint_buf acc buf) + accepted reads'"
      using True r "1.prems"(2) by (auto simp: Mint_buf_length accepted_def)
    then show ?thesis
      using True r "1.prems"(1) "1.IH" [OF True r]
      by (auto simp: Mint_loop.simps [of acc "Inr buf # reads'"])
  next
    case False
    then show ?thesis by (simp add: Mint_loop.simps [of acc reads])
  qed
qed

text \<open>A failing random source ends the loop with its error.\<close>

lemma Mint_loop_rand_error:
  "length acc < Length \<Longrightarrow> Mint_loop acc (Inl () # reads) = Some (Inl ErrRandRead)"
  by (simp add: Mint_loop.simps)

lemma Normalize_idem: "rbind (Normalize s) Normalize = Normalize s"
  by (cases "Normalize s") (auto dest: Normalize_Inr_iff [THEN iffD1])

end
