(* ===== verification/WireBase.thy ===== *)
theory WireBase
  imports BroadcastID
begin

section \<open>The wire package: constants, errors and byte access\<close>

text \<open>
  What every message of \<^verbatim>\<open>gawk-server/wire\<close> shares: the version byte, the message
  types, the size limits, the sentinel errors, Go's bounds-checked indexing and
  slicing, and the contracts a codec offers (the locales at the end).

  An error carries the sentinel that \<^verbatim>\<open>errors.Is\<close> would find, not the formatted
  text.  \<open>RuntimePanic\<close> is no sentinel: it is what indexing or slicing out of range
  does, kept as a value so that its absence can be proved.  \<open>EOF\<close> and
  \<open>ErrUnexpectedEOF\<close> are the errors of Go's \<^verbatim>\<open>io\<close> package.
\<close>

datatype wire_error =
    RuntimePanic
  | ErrShortDatagram | ErrBadVersion | ErrBadType | ErrBadChunkCount | ErrPayloadTooLarge
  | ErrBadCodec | ErrDatagramTooLarge | ErrBadBroadcastID | ErrKeyframeTooLarge | ErrBadLength
  | ErrBadResumeToken | ErrBadCarrierRecord | ErrBadAudioPayload | ErrBadAudioConfig
  | ErrBadTelemetryHello | ErrBadRelayIdentity | ErrBadTelemetryEndpoint
  | ErrParityUnsupported | ErrParityUnrecoverable
  | ErrBadSessionClosing
  | ErrBadRoomRecord | ErrBadRoomHello | ErrBadRoomState | ErrBadRoomEvent | ErrBadRoomCommand
  | ErrUnknownRoomKind
  | ErrBadLocalRelayInfo | ErrBadLocalRelayOffer
  | ErrBadVoiceHello | ErrBadVoiceFrame | ErrBadVoiceState | ErrBadVoiceControl
  | ErrTelemetryTokenInvalid | ErrTelemetryTokenExpired | ErrTelemetryKey
  | EOF | ErrUnexpectedEOF | ErrRandUnavailable

type_synonym 'a result = "wire_error + 'a"

subsection \<open>Version and message types\<close>

definition Version :: byte where "Version = 0x01"
definition TypeVideoChunk :: byte where "TypeVideoChunk = 0x01"
definition TypeDecoderConfig :: byte where "TypeDecoderConfig = 0x02"
definition TypeBroadcastAnnounce :: byte where "TypeBroadcastAnnounce = 0x03"
definition TypeStreamFrame :: byte where "TypeStreamFrame = 0x04"
definition TypeTimeSync :: byte where "TypeTimeSync = 0x05"
definition TypeClockMapping :: byte where "TypeClockMapping = 0x06"
definition TypeAudioFrame :: byte where "TypeAudioFrame = 0x07"
definition TypeAudioConfig :: byte where "TypeAudioConfig = 0x08"
definition TypeResumeToken :: byte where "TypeResumeToken = 0x09"
definition TypeReliableCarrier :: byte where "TypeReliableCarrier = 0x0A"
definition TypeViewerCount :: byte where "TypeViewerCount = 0x0B"
definition TypeDeliveryAck :: byte where "TypeDeliveryAck = 0x0C"
definition TypeTelemetryHello :: byte where "TypeTelemetryHello = 0x0D"
definition TypeParityChunk :: byte where "TypeParityChunk = 0x0E"
definition TypeRelayCapabilities :: byte where "TypeRelayCapabilities = 0x0F"
definition TypeStripeState :: byte where "TypeStripeState = 0x10"
definition TypeRelayIdentity :: byte where "TypeRelayIdentity = 0x11"
definition TypeTelemetryEndpoint :: byte where "TypeTelemetryEndpoint = 0x12"
definition TypeRoomHello :: byte where "TypeRoomHello = 0x13"
definition TypeRoomState :: byte where "TypeRoomState = 0x14"
definition TypeRoomEvent :: byte where "TypeRoomEvent = 0x15"
definition TypeRoomCommand :: byte where "TypeRoomCommand = 0x16"
definition TypeSessionClosing :: byte where "TypeSessionClosing = 0x17"
definition TypeLocalRelayInfo :: byte where "TypeLocalRelayInfo = 0x18"
definition TypeLocalRelayOffer :: byte where "TypeLocalRelayOffer = 0x19"
definition TypeVoiceHello :: byte where "TypeVoiceHello = 0x1A"
definition TypeVoiceFrame :: byte where "TypeVoiceFrame = 0x1B"
definition TypeVoiceState :: byte where "TypeVoiceState = 0x1C"
definition TypeVoiceControl :: byte where "TypeVoiceControl = 0x1D"
definition TypeVideoUndeliverable :: byte where "TypeVideoUndeliverable = 0x1E"

lemmas Type_defs =
  TypeVideoChunk_def TypeDecoderConfig_def TypeBroadcastAnnounce_def TypeStreamFrame_def
  TypeTimeSync_def TypeClockMapping_def TypeAudioFrame_def TypeAudioConfig_def
  TypeResumeToken_def TypeReliableCarrier_def TypeViewerCount_def TypeDeliveryAck_def
  TypeTelemetryHello_def TypeParityChunk_def TypeRelayCapabilities_def TypeStripeState_def
  TypeRelayIdentity_def TypeTelemetryEndpoint_def TypeRoomHello_def TypeRoomState_def
  TypeRoomEvent_def TypeRoomCommand_def TypeSessionClosing_def TypeLocalRelayInfo_def
  TypeLocalRelayOffer_def TypeVoiceHello_def TypeVoiceFrame_def TypeVoiceState_def
  TypeVoiceControl_def TypeVideoUndeliverable_def

subsection \<open>Sizes\<close>

definition MaxDatagramSize :: nat where "MaxDatagramSize = 1200"
definition VideoChunkHeaderSize :: nat where "VideoChunkHeaderSize = 20"
definition MaxChunkPayload :: nat where "MaxChunkPayload = MaxDatagramSize - VideoChunkHeaderSize"
definition MaxChunkCount :: u16 where "MaxChunkCount = 3000"
definition StreamFrameHeaderSize :: nat where "StreamFrameHeaderSize = 24"
definition MaxKeyframeBytes :: nat where "MaxKeyframeBytes = 8 * 2 ^ 20"
definition TimeSyncSize :: nat where "TimeSyncSize = 18"
definition ClockMappingSize :: nat where "ClockMappingSize = 10"
definition ViewerCountSize :: nat where "ViewerCountSize = 6"
definition DeliveryAckSize :: nat where "DeliveryAckSize = 5"
definition VideoUndeliverableSize :: nat where "VideoUndeliverableSize = 10"
definition CarrierPrologueSize :: nat where "CarrierPrologueSize = 2"
definition CarrierRecordHeaderSize :: nat where "CarrierRecordHeaderSize = 2"
definition AudioFrameHeaderSize :: nat where "AudioFrameHeaderSize = 16"
definition MaxAudioPayload :: nat where "MaxAudioPayload = MaxDatagramSize - AudioFrameHeaderSize"
definition TelemetryHelloSize :: nat where "TelemetryHelloSize = 35"
definition TelemetryBroadcastKeySize :: nat where "TelemetryBroadcastKeySize = 6"
definition TelemetrySessionTokenSize :: nat where "TelemetrySessionTokenSize = 24"
definition MaxRelayIdentityVersionLen :: nat where "MaxRelayIdentityVersionLen = 32"
definition MaxRelayIdentityNameLen :: nat where "MaxRelayIdentityNameLen = 64"
definition MaxTelemetryEndpointURLLen :: nat where "MaxTelemetryEndpointURLLen = 512"

lemmas size_defs =
  MaxDatagramSize_def VideoChunkHeaderSize_def MaxChunkPayload_def StreamFrameHeaderSize_def
  MaxKeyframeBytes_def TimeSyncSize_def ClockMappingSize_def ViewerCountSize_def
  DeliveryAckSize_def VideoUndeliverableSize_def CarrierPrologueSize_def
  CarrierRecordHeaderSize_def AudioFrameHeaderSize_def MaxAudioPayload_def TelemetryHelloSize_def
  TelemetryBroadcastKeySize_def TelemetrySessionTokenSize_def MaxRelayIdentityVersionLen_def
  MaxRelayIdentityNameLen_def MaxTelemetryEndpointURLLen_def

subsection \<open>Indexing and slicing\<close>

definition go_index :: "bytes \<Rightarrow> nat \<Rightarrow> byte result" where
  "go_index d i = (if i < length d then Inr (d ! i) else Inl RuntimePanic)"

definition go_slice :: "bytes \<Rightarrow> nat \<Rightarrow> nat \<Rightarrow> bytes result" where
  "go_slice d lo hi =
     (if lo \<le> hi \<and> hi \<le> length d then Inr (take (hi - lo) (drop lo d)) else Inl RuntimePanic)"

definition go_from :: "bytes \<Rightarrow> nat \<Rightarrow> bytes result" where
  "go_from d lo = go_slice d lo (length d)"

definition Uint16 :: "bytes \<Rightarrow> u16 result" where
  "Uint16 s = (case s of a # b # _ \<Rightarrow> Inr (join16 a b) | _ \<Rightarrow> Inl RuntimePanic)"

definition Uint32 :: "bytes \<Rightarrow> u32 result" where
  "Uint32 s = (case s of a # b # c # d # _ \<Rightarrow> Inr (join32 a b c d) | _ \<Rightarrow> Inl RuntimePanic)"

definition Uint64 :: "bytes \<Rightarrow> u64 result" where
  "Uint64 s = (case s of a # b # c # d # e # f # g # h # _ \<Rightarrow> Inr (join64 a b c d e f g h)
               | _ \<Rightarrow> Inl RuntimePanic)"

definition slice16 :: "bytes \<Rightarrow> nat \<Rightarrow> nat \<Rightarrow> u16 result" where
  "slice16 d lo hi = rbind (go_slice d lo hi) Uint16"

definition slice32 :: "bytes \<Rightarrow> nat \<Rightarrow> nat \<Rightarrow> u32 result" where
  "slice32 d lo hi = rbind (go_slice d lo hi) Uint32"

definition slice64 :: "bytes \<Rightarrow> nat \<Rightarrow> nat \<Rightarrow> u64 result" where
  "slice64 d lo hi = rbind (go_slice d lo hi) Uint64"

text \<open>
  The check every parser opens with, after its length check: byte 0 is the
  version and byte 1 the expected type.
\<close>

definition expect_prefix :: "bytes \<Rightarrow> byte \<Rightarrow> unit result" where
  "expect_prefix d ty =
     rbind (go_index d 0) (\<lambda>v. if v \<noteq> Version then Inl ErrBadVersion else
     rbind (go_index d 1) (\<lambda>t. if t \<noteq> ty then Inl ErrBadType else Inr ()))"

definition checkPrefix :: "bytes \<Rightarrow> byte \<Rightarrow> nat \<Rightarrow> unit result" where
  "checkPrefix msg msgType minLen =
     (if length msg < minLen then Inl ErrShortDatagram else expect_prefix msg msgType)"

definition PeekType :: "bytes \<Rightarrow> (byte \<times> byte) result" where
  "PeekType dgram =
     (if length dgram < 2 then Inl ErrShortDatagram
      else rbind (go_index dgram 0) (\<lambda>v. rbind (go_index dgram 1) (\<lambda>t. Inr (v, t))))"

lemma go_index_in [simp]: "i < length d \<Longrightarrow> go_index d i = Inr (d ! i)"
  by (simp add: go_index_def)

lemma go_index_Inr: "go_index d i = Inr b \<longleftrightarrow> i < length d \<and> b = d ! i"
  by (auto simp: go_index_def)

lemma go_slice_in [simp]:
  "lo \<le> hi \<Longrightarrow> hi \<le> length d \<Longrightarrow> go_slice d lo hi = Inr (take (hi - lo) (drop lo d))"
  by (simp add: go_slice_def)

lemma go_from_in [simp]: "lo \<le> length d \<Longrightarrow> go_from d lo = Inr (drop lo d)"
  by (simp add: go_from_def)

lemma drop_nth2: "Suc lo < length d \<Longrightarrow> drop lo d = d ! lo # d ! Suc lo # drop (lo + 2) d"
  by (simp add: Cons_nth_drop_Suc)

lemma slice16_in [simp]:
  assumes "hi = lo + 2" "hi \<le> length d"
  shows "slice16 d lo hi = Inr (join16 (d ! lo) (d ! (lo + 1)))"
proof -
  have "drop lo d = d ! lo # d ! Suc lo # drop (lo + 2) d"
    using assms by (intro drop_nth2) simp
  then show ?thesis using assms by (simp add: slice16_def Uint16_def)
qed

lemma slice32_in [simp]:
  assumes "hi = lo + 4" "hi \<le> length d"
  shows "slice32 d lo hi = Inr (join32 (d ! lo) (d ! (lo + 1)) (d ! (lo + 2)) (d ! (lo + 3)))"
proof -
  have "drop lo d = d ! lo # d ! Suc lo # drop (lo + 2) d"
    using assms by (intro drop_nth2) simp
  moreover have "drop (lo + 2) d = d ! (lo + 2) # d ! Suc (lo + 2) # drop (lo + 2 + 2) d"
    using assms by (intro drop_nth2) simp
  ultimately show ?thesis using assms by (simp add: slice32_def Uint32_def numeral_3_eq_3)
qed

lemma slice64_in [simp]:
  assumes "hi = lo + 8" "hi \<le> length d"
  shows "slice64 d lo hi = Inr (join64 (d ! lo) (d ! (lo + 1)) (d ! (lo + 2)) (d ! (lo + 3))
    (d ! (lo + 4)) (d ! (lo + 5)) (d ! (lo + 6)) (d ! (lo + 7)))"
proof -
  have "take 8 (drop lo d) = map (\<lambda>i. d ! (lo + i)) [0..<8]"
    using assms by (intro nth_equalityI) auto
  then show ?thesis using assms by (simp add: slice64_def Uint64_def upt_conv_Cons numeral_eq_Suc)
qed

lemma expect_prefix_eq:
  "2 \<le> length d \<Longrightarrow> expect_prefix d ty =
     (if d ! 0 \<noteq> Version then Inl ErrBadVersion else if d ! 1 \<noteq> ty then Inl ErrBadType else Inr ())"
  by (auto simp: expect_prefix_def go_index_def)

lemma expect_prefix_Inr: "expect_prefix d ty = Inr u \<longleftrightarrow> (\<exists>r. d = Version # ty # r)"
  by (cases d; cases "tl d") (auto simp: expect_prefix_def go_index_def rbind_Inr_iff split: if_splits)

lemma prefixI: "2 \<le> length d \<Longrightarrow> d ! 0 = v \<Longrightarrow> d ! 1 = t \<Longrightarrow> \<exists>r. d = v # t # r"
  by (cases d; cases "tl d") auto

lemma expect_prefix_Cons [simp]: "expect_prefix (Version # ty # r) ty = Inr ()"
  by (simp add: expect_prefix_def go_index_def)

lemma checkPrefix_Inr:
  "checkPrefix d ty n = Inr u \<longleftrightarrow> n \<le> length d \<and> (\<exists>r. d = Version # ty # r)"
  by (auto simp: checkPrefix_def expect_prefix_Inr not_less)

subsection \<open>What a codec promises\<close>

text \<open>
  A message type offers an encoder that appends to a buffer and a parser.  The
  basic contract: what was encoded is parsed back, both sides agree on the type
  byte, and the parser never panics, whatever the input.
\<close>

locale wire_codec =
  fixes ty :: byte
    and enc :: "'a \<Rightarrow> wire_error + bytes"
    and dec :: "bytes \<Rightarrow> wire_error + 'a"
    and wf :: "'a \<Rightarrow> bool"
  assumes roundtrip: "wf x \<Longrightarrow> enc x = Inr m \<Longrightarrow> dec m = Inr x"
    and enc_prefix: "enc x = Inr m \<Longrightarrow> \<exists>r. m = Version # ty # r"
    and dec_prefix: "dec m = Inr x \<Longrightarrow> \<exists>r. m = Version # ty # r"
    and dec_no_panic: "dec m \<noteq> Inl RuntimePanic"
begin

lemma enc_inj: "wf x \<Longrightarrow> wf y \<Longrightarrow> enc x = Inr m \<Longrightarrow> enc y = Inr m \<Longrightarrow> x = y"
  by (metis roundtrip sum.inject(2))

text \<open>Parsing what was encoded gives the value back, or the encoder's own error.\<close>

lemma enc_dec: "wf x \<Longrightarrow> rbind (enc x) dec = rbind (enc x) (\<lambda>_. Inr x)"
  by (cases "enc x") (auto simp: roundtrip)

lemma enc_length: "enc x = Inr m \<Longrightarrow> 2 \<le> length m"
  using enc_prefix by fastforce

lemma dec_foreign_type: "m = Version # t # r \<Longrightarrow> t \<noteq> ty \<Longrightarrow> \<exists>e. dec m = Inl e \<and> e \<noteq> RuntimePanic"
  using dec_prefix [of m] dec_no_panic [of m] by (cases "dec m") auto

end

text \<open>
  A strict codec has one encoding per value: what parses is exactly what the
  encoder would have written.
\<close>

locale strict_codec = wire_codec +
  assumes canonical: "dec m = Inr x \<Longrightarrow> wf x \<and> enc x = Inr m"
begin

lemma dec_inj: "dec m = Inr x \<Longrightarrow> dec m' = Inr x \<Longrightarrow> m = m'"
  by (metis canonical sum.inject(2))

lemma dec_iff_enc: "wf x \<Longrightarrow> dec m = Inr x \<longleftrightarrow> enc x = Inr m"
  using canonical roundtrip by blast

lemma parsed_reencodes: "dec m = Inr x \<Longrightarrow> \<exists>m'. enc x = Inr m' \<and> dec m' = Inr x"
  using canonical roundtrip by blast

end

end
