(* ===== verification/WireMedia.thy ===== *)
theory WireMedia
  imports WireBase
begin

section \<open>Media and clock messages (\<^verbatim>\<open>gawk-server/wire/wire.go\<close>)\<close>

text \<open>
  The datagrams that carry a broadcast: video chunks, decoder and audio
  configuration, audio frames, keyframe stream headers, the two clock messages,
  viewer counts, delivery acknowledgements and undeliverable-video notices, plus
  the announce and resume-token messages of a publish session.  Each message has
  its record, its \<^verbatim>\<open>Append\<close> and \<^verbatim>\<open>Parse\<close> functions and an interpretation of the
  codec contract.
\<close>

definition flagKeyframe :: byte where
  "flagKeyframe = 0x01"

definition bool_flag :: "bool \<Rightarrow> byte \<Rightarrow> byte" where
  \<comment> \<open>\<^verbatim>\<open>var flags uint8; if b { flags |= f }\<close>\<close>
  "bool_flag b f = (if b then 0 OR f else 0)"

lemma bool_flag_and_iff [simp]: "bool_flag b f AND f \<noteq> 0 \<longleftrightarrow> b \<and> f \<noteq> 0"
  by (simp add: bool_flag_def)

subsection \<open>VideoChunk (0x01)\<close>

record VideoChunkHeader =
  vc_Keyframe :: bool
  vc_FrameID :: u32
  vc_ChunkIndex :: u16
  vc_ChunkCount :: u16
  vc_TimestampUs :: u64

definition AppendVideoChunk :: "bytes \<Rightarrow> VideoChunkHeader \<Rightarrow> bytes \<Rightarrow> bytes result" where
  "AppendVideoChunk dst h payload =
     (if length payload > MaxChunkPayload then Inl ErrPayloadTooLarge
      else if vc_ChunkCount h = 0 \<or> vc_ChunkIndex h \<ge> vc_ChunkCount h then Inl ErrBadChunkCount
      else Inr (dst @ [Version, TypeVideoChunk, bool_flag (vc_Keyframe h) flagKeyframe, 0]
                @ be32 (vc_FrameID h) @ be16 (vc_ChunkIndex h) @ be16 (vc_ChunkCount h)
                @ be64 (vc_TimestampUs h) @ payload))"

definition ParseVideoChunk :: "bytes \<Rightarrow> (VideoChunkHeader \<times> bytes) result" where
  "ParseVideoChunk dgram =
     (if length dgram < VideoChunkHeaderSize then Inl ErrShortDatagram else
      rbind (expect_prefix dgram TypeVideoChunk) (\<lambda>_.
      rbind (go_index dgram 2) (\<lambda>flags.
      rbind (slice32 dgram 4 8) (\<lambda>fid.
      rbind (slice16 dgram 8 10) (\<lambda>ci.
      rbind (slice16 dgram 10 12) (\<lambda>cc.
      rbind (slice64 dgram 12 20) (\<lambda>ts.
      let h = \<lparr>vc_Keyframe = (flags AND flagKeyframe \<noteq> 0), vc_FrameID = fid,
               vc_ChunkIndex = ci, vc_ChunkCount = cc, vc_TimestampUs = ts\<rparr> in
      if cc = 0 \<or> ci \<ge> cc \<or> cc > MaxChunkCount then Inl ErrBadChunkCount
      else rbind (go_from dgram VideoChunkHeaderSize) (\<lambda>payload. Inr (h, payload)))))))))"

text \<open>The guards of the encoder and, beyond them, the parser's bound on the count.\<close>

definition VideoChunk_ok :: "VideoChunkHeader \<times> bytes \<Rightarrow> bool" where
  "VideoChunk_ok = (\<lambda>(h, payload). length payload \<le> MaxChunkPayload \<and>
     vc_ChunkIndex h < vc_ChunkCount h \<and> vc_ChunkCount h \<le> MaxChunkCount)"

lemma AppendVideoChunk_Inr:
  "AppendVideoChunk dst h p = Inr m \<longleftrightarrow>
     length p \<le> MaxChunkPayload \<and> vc_ChunkIndex h < vc_ChunkCount h \<and>
     m = dst @ [Version, TypeVideoChunk, bool_flag (vc_Keyframe h) flagKeyframe, 0]
           @ be32 (vc_FrameID h) @ be16 (vc_ChunkIndex h) @ be16 (vc_ChunkCount h)
           @ be64 (vc_TimestampUs h) @ p"
  by (auto simp: AppendVideoChunk_def not_le not_less)

lemma ParseVideoChunk_eq:
  "ParseVideoChunk d =
     (if length d < 20 then Inl ErrShortDatagram
      else if d ! 0 \<noteq> Version then Inl ErrBadVersion
      else if d ! 1 \<noteq> TypeVideoChunk then Inl ErrBadType
      else let h = \<lparr>vc_Keyframe = (d ! 2 AND flagKeyframe \<noteq> 0),
                    vc_FrameID = join32 (d ! 4) (d ! 5) (d ! 6) (d ! 7),
                    vc_ChunkIndex = join16 (d ! 8) (d ! 9),
                    vc_ChunkCount = join16 (d ! 10) (d ! 11),
                    vc_TimestampUs = join64 (d ! 12) (d ! 13) (d ! 14) (d ! 15)
                                            (d ! 16) (d ! 17) (d ! 18) (d ! 19)\<rparr>
           in if vc_ChunkCount h = 0 \<or> vc_ChunkIndex h \<ge> vc_ChunkCount h
                 \<or> vc_ChunkCount h > MaxChunkCount
              then Inl ErrBadChunkCount else Inr (h, drop 20 d))"
  by (simp add: ParseVideoChunk_def VideoChunkHeaderSize_def expect_prefix_eq Let_def)

interpretation VideoChunk: wire_codec TypeVideoChunk
  "\<lambda>(h, p). AppendVideoChunk [] h p" ParseVideoChunk VideoChunk_ok
proof
  fix x m
  assume "VideoChunk_ok x" "(case x of (h, p) \<Rightarrow> AppendVideoChunk [] h p) = Inr m"
  then show "ParseVideoChunk m = Inr x"
    by (cases x) (auto simp: AppendVideoChunk_Inr ParseVideoChunk_eq VideoChunk_ok_def
        be16_def be32_def be64_def Let_def flagKeyframe_def)
next
  fix m x
  assume "ParseVideoChunk m = Inr x"
  then show "\<exists>r. m = Version # TypeVideoChunk # r"
    by (intro prefixI) (auto simp: ParseVideoChunk_eq Let_def split: if_splits)
qed (auto simp: AppendVideoChunk_Inr ParseVideoChunk_eq Let_def)

text \<open>
  The encoder does not bound the chunk count, the parser does: a frame with more
  than \<^verbatim>\<open>MaxChunkCount\<close> chunks is encoded and then refused.
\<close>

lemma VideoChunk_parse_encoded:
  "rbind (AppendVideoChunk [] h payload) ParseVideoChunk =
     rbind (AppendVideoChunk [] h payload)
       (\<lambda>_. if vc_ChunkCount h > MaxChunkCount then Inl ErrBadChunkCount else Inr (h, payload))"
proof (cases "AppendVideoChunk [] h payload")
  case (Inr m)
  show ?thesis
  proof (cases "vc_ChunkCount h > MaxChunkCount")
    case True
    then have "ParseVideoChunk m = Inl ErrBadChunkCount"
      using Inr by (auto simp: AppendVideoChunk_Inr ParseVideoChunk_eq be16_def be32_def be64_def Let_def)
    with True Inr show ?thesis by simp
  next
    case False
    then have "VideoChunk_ok (h, payload)"
      using Inr by (auto simp: AppendVideoChunk_Inr VideoChunk_ok_def)
    then have "ParseVideoChunk m = Inr (h, payload)"
      using VideoChunk.roundtrip [of "(h, payload)" m] Inr by simp
    with False Inr show ?thesis by simp
  qed
qed simp

subsection \<open>DecoderConfig (0x02)\<close>

record DecoderConfig =
  dc_Codec :: bytes
  dc_Extradata :: bytes

definition AppendDecoderConfig :: "bytes \<Rightarrow> DecoderConfig \<Rightarrow> bytes result" where
  "AppendDecoderConfig dst c =
     (if length (dc_Codec c) = 0 then Inl ErrBadCodec
      else if length (dc_Codec c) > 255 then Inl ErrBadCodec
      else if 4 + length (dc_Codec c) + length (dc_Extradata c) > MaxDatagramSize
        then Inl ErrDatagramTooLarge
      else Inr (dst @ [Version, TypeDecoderConfig, 0, of_nat (length (dc_Codec c))]
                @ dc_Codec c @ dc_Extradata c))"

definition ParseDecoderConfig :: "bytes \<Rightarrow> DecoderConfig result" where
  "ParseDecoderConfig dgram =
     (if length dgram < 4 then Inl ErrShortDatagram else
      rbind (expect_prefix dgram TypeDecoderConfig) (\<lambda>_.
      rbind (go_index dgram 3) (\<lambda>b. let codecLen = unat b in
      if codecLen = 0 then Inl ErrBadCodec
      else if 4 + codecLen > length dgram then Inl ErrBadCodec
      else rbind (go_slice dgram 4 (4 + codecLen)) (\<lambda>codec.
           rbind (go_from dgram (4 + codecLen)) (\<lambda>extra.
           Inr \<lparr>dc_Codec = codec, dc_Extradata = extra\<rparr>)))))"

lemma AppendDecoderConfig_Inr:
  "AppendDecoderConfig dst c = Inr m \<longleftrightarrow>
     dc_Codec c \<noteq> [] \<and> length (dc_Codec c) \<le> 255 \<and>
     4 + length (dc_Codec c) + length (dc_Extradata c) \<le> MaxDatagramSize \<and>
     m = dst @ [Version, TypeDecoderConfig, 0, of_nat (length (dc_Codec c))]
           @ dc_Codec c @ dc_Extradata c"
  by (auto simp: AppendDecoderConfig_def not_less)

lemma ParseDecoderConfig_eq:
  "ParseDecoderConfig d =
     (if length d < 4 then Inl ErrShortDatagram
      else if d ! 0 \<noteq> Version then Inl ErrBadVersion
      else if d ! 1 \<noteq> TypeDecoderConfig then Inl ErrBadType
      else let n = unat (d ! 3) in
           if n = 0 \<or> 4 + n > length d then Inl ErrBadCodec
           else Inr \<lparr>dc_Codec = take n (drop 4 d), dc_Extradata = drop (4 + n) d\<rparr>)"
  by (simp add: ParseDecoderConfig_def expect_prefix_eq Let_def)

interpretation DecoderConfig: wire_codec TypeDecoderConfig
  "AppendDecoderConfig []" ParseDecoderConfig "\<lambda>_. True"
proof
  fix m x
  assume "ParseDecoderConfig m = Inr x"
  then show "\<exists>r. m = Version # TypeDecoderConfig # r"
    by (intro prefixI) (auto simp: ParseDecoderConfig_eq Let_def split: if_splits)
qed (auto simp: AppendDecoderConfig_Inr ParseDecoderConfig_eq Let_def)

subsection \<open>StreamFrame header (0x04)\<close>

record StreamFrameHeader =
  sf_Keyframe :: bool
  sf_FrameID :: u32
  sf_TimestampUs :: u64
  sf_ConfigLen :: u32
  sf_PayloadLen :: u32

text \<open>
  The declared total is computed in 64 bits, where the sum of two 32-bit lengths
  and the header size cannot wrap, so it is a \<open>nat\<close> here.
\<close>

definition StreamFrameTotal :: "StreamFrameHeader \<Rightarrow> nat" where
  "StreamFrameTotal h = StreamFrameHeaderSize + unat (sf_ConfigLen h) + unat (sf_PayloadLen h)"

definition AppendStreamFrameHeader :: "bytes \<Rightarrow> StreamFrameHeader \<Rightarrow> bytes result" where
  "AppendStreamFrameHeader dst h =
     (if StreamFrameTotal h > MaxKeyframeBytes then Inl ErrKeyframeTooLarge
      else Inr (dst @ [Version, TypeStreamFrame, bool_flag (sf_Keyframe h) flagKeyframe, 0]
                @ be32 (sf_FrameID h) @ be64 (sf_TimestampUs h)
                @ be32 (sf_ConfigLen h) @ be32 (sf_PayloadLen h)))"

definition ParseStreamFrameHeader :: "bytes \<Rightarrow> StreamFrameHeader result" where
  "ParseStreamFrameHeader buf =
     (if length buf < StreamFrameHeaderSize then Inl ErrShortDatagram else
      rbind (expect_prefix buf TypeStreamFrame) (\<lambda>_.
      rbind (go_index buf 2) (\<lambda>flags.
      rbind (slice32 buf 4 8) (\<lambda>fid.
      rbind (slice64 buf 8 16) (\<lambda>ts.
      rbind (slice32 buf 16 20) (\<lambda>cl.
      rbind (slice32 buf 20 24) (\<lambda>pl.
      let h = \<lparr>sf_Keyframe = (flags AND flagKeyframe \<noteq> 0), sf_FrameID = fid,
               sf_TimestampUs = ts, sf_ConfigLen = cl, sf_PayloadLen = pl\<rparr> in
      if StreamFrameTotal h > MaxKeyframeBytes then Inl ErrKeyframeTooLarge
      else Inr h)))))))"

lemma ParseStreamFrameHeader_eq:
  "ParseStreamFrameHeader d =
     (if length d < 24 then Inl ErrShortDatagram
      else if d ! 0 \<noteq> Version then Inl ErrBadVersion
      else if d ! 1 \<noteq> TypeStreamFrame then Inl ErrBadType
      else let h = \<lparr>sf_Keyframe = (d ! 2 AND flagKeyframe \<noteq> 0),
                    sf_FrameID = join32 (d ! 4) (d ! 5) (d ! 6) (d ! 7),
                    sf_TimestampUs = join64 (d ! 8) (d ! 9) (d ! 10) (d ! 11)
                                            (d ! 12) (d ! 13) (d ! 14) (d ! 15),
                    sf_ConfigLen = join32 (d ! 16) (d ! 17) (d ! 18) (d ! 19),
                    sf_PayloadLen = join32 (d ! 20) (d ! 21) (d ! 22) (d ! 23)\<rparr>
           in if StreamFrameTotal h > MaxKeyframeBytes then Inl ErrKeyframeTooLarge else Inr h)"
  by (simp add: ParseStreamFrameHeader_def StreamFrameHeaderSize_def expect_prefix_eq Let_def)

interpretation StreamFrame: wire_codec TypeStreamFrame
  "AppendStreamFrameHeader []" ParseStreamFrameHeader "\<lambda>_. True"
proof
  fix m x
  assume "ParseStreamFrameHeader m = Inr x"
  then show "\<exists>r. m = Version # TypeStreamFrame # r"
    by (intro prefixI) (auto simp: ParseStreamFrameHeader_eq Let_def split: if_splits)
qed (auto simp: AppendStreamFrameHeader_def ParseStreamFrameHeader_eq Let_def StreamFrameTotal_def
      be32_def be64_def flagKeyframe_def split: if_splits)

text \<open>Parsing bounds what a reader allocates: header, config and payload together.\<close>

lemma ParseStreamFrameHeader_bounded:
  "ParseStreamFrameHeader buf = Inr h \<Longrightarrow> StreamFrameTotal h \<le> MaxKeyframeBytes"
  by (auto simp: ParseStreamFrameHeader_eq Let_def not_less split: if_splits)

subsection \<open>AudioFrame (0x07)\<close>

record AudioFrameHeader =
  af_Seq :: u32
  af_TimestampUs :: u64

definition AppendAudioFrame :: "bytes \<Rightarrow> AudioFrameHeader \<Rightarrow> bytes \<Rightarrow> bytes result" where
  "AppendAudioFrame dst h payload =
     (if length payload = 0 \<or> length payload > MaxAudioPayload then Inl ErrBadAudioPayload
      else Inr (dst @ [Version, TypeAudioFrame, 0, 0] @ be32 (af_Seq h)
                @ be64 (af_TimestampUs h) @ payload))"

definition ParseAudioFrame :: "bytes \<Rightarrow> (AudioFrameHeader \<times> bytes) result" where
  "ParseAudioFrame dgram =
     (if length dgram < AudioFrameHeaderSize then Inl ErrShortDatagram else
      rbind (expect_prefix dgram TypeAudioFrame) (\<lambda>_.
      if length dgram = AudioFrameHeaderSize then Inl ErrBadAudioPayload else
      rbind (slice32 dgram 4 8) (\<lambda>seq.
      rbind (slice64 dgram 8 16) (\<lambda>ts.
      rbind (go_from dgram AudioFrameHeaderSize) (\<lambda>payload.
      Inr (\<lparr>af_Seq = seq, af_TimestampUs = ts\<rparr>, payload))))))"

lemma ParseAudioFrame_eq:
  "ParseAudioFrame d =
     (if length d < 16 then Inl ErrShortDatagram
      else if d ! 0 \<noteq> Version then Inl ErrBadVersion
      else if d ! 1 \<noteq> TypeAudioFrame then Inl ErrBadType
      else if length d = 16 then Inl ErrBadAudioPayload
      else Inr (\<lparr>af_Seq = join32 (d ! 4) (d ! 5) (d ! 6) (d ! 7),
                 af_TimestampUs = join64 (d ! 8) (d ! 9) (d ! 10) (d ! 11)
                                         (d ! 12) (d ! 13) (d ! 14) (d ! 15)\<rparr>, drop 16 d))"
  by (simp add: ParseAudioFrame_def AudioFrameHeaderSize_def expect_prefix_eq)

interpretation AudioFrame: wire_codec TypeAudioFrame
  "\<lambda>(h, p). AppendAudioFrame [] h p" ParseAudioFrame "\<lambda>_. True"
proof
  fix m x
  assume "ParseAudioFrame m = Inr x"
  then show "\<exists>r. m = Version # TypeAudioFrame # r"
    by (intro prefixI) (auto simp: ParseAudioFrame_eq split: if_splits)
qed (auto simp: AppendAudioFrame_def ParseAudioFrame_eq be32_def be64_def split: if_splits)

subsection \<open>AudioConfig (0x08)\<close>

record AudioConfig =
  ac_Codec :: bytes
  ac_SampleRate :: u32
  ac_Channels :: byte
  ac_Description :: bytes

definition AppendAudioConfig :: "bytes \<Rightarrow> AudioConfig \<Rightarrow> bytes result" where
  "AppendAudioConfig dst c =
     (if length (ac_Codec c) = 0 then Inl ErrBadCodec
      else if length (ac_Codec c) > 255 then Inl ErrBadCodec
      else if ac_SampleRate c = 0 \<or> ac_Channels c = 0 then Inl ErrBadAudioConfig
      else if 4 + length (ac_Codec c) + 5 + length (ac_Description c) > MaxDatagramSize
        then Inl ErrDatagramTooLarge
      else Inr (dst @ [Version, TypeAudioConfig, 0, of_nat (length (ac_Codec c))]
                @ ac_Codec c @ be32 (ac_SampleRate c) @ [ac_Channels c] @ ac_Description c))"

definition ParseAudioConfig :: "bytes \<Rightarrow> AudioConfig result" where
  "ParseAudioConfig dgram =
     (if length dgram < 4 then Inl ErrShortDatagram else
      rbind (expect_prefix dgram TypeAudioConfig) (\<lambda>_.
      rbind (go_index dgram 3) (\<lambda>b. let codecLen = unat b in
      if codecLen = 0 then Inl ErrBadCodec
      else if 4 + codecLen + 5 > length dgram then Inl ErrBadCodec
      else rbind (go_slice dgram 4 (4 + codecLen)) (\<lambda>codec.
           rbind (slice32 dgram (4 + codecLen) (4 + codecLen + 4)) (\<lambda>rate.
           rbind (go_index dgram (4 + codecLen + 4)) (\<lambda>ch.
           rbind (go_from dgram (4 + codecLen + 5)) (\<lambda>desc.
           if rate = 0 \<or> ch = 0 then Inl ErrBadAudioConfig
           else Inr \<lparr>ac_Codec = codec, ac_SampleRate = rate, ac_Channels = ch,
                     ac_Description = desc\<rparr>)))))))"

lemma ParseAudioConfig_eq:
  "ParseAudioConfig d =
     (if length d < 4 then Inl ErrShortDatagram
      else if d ! 0 \<noteq> Version then Inl ErrBadVersion
      else if d ! 1 \<noteq> TypeAudioConfig then Inl ErrBadType
      else let n = unat (d ! 3) in
           if n = 0 \<or> 9 + n > length d then Inl ErrBadCodec
           else let rate = join32 (d ! (4 + n)) (d ! (4 + n + 1)) (d ! (4 + n + 2)) (d ! (4 + n + 3));
                    ch = d ! (4 + n + 4) in
                if rate = 0 \<or> ch = 0 then Inl ErrBadAudioConfig
                else Inr \<lparr>ac_Codec = take n (drop 4 d), ac_SampleRate = rate,
                          ac_Channels = ch, ac_Description = drop (9 + n) d\<rparr>)"
  by (simp add: ParseAudioConfig_def expect_prefix_eq Let_def ac_simps)

lemma AudioConfig_roundtrip:
  assumes "AppendAudioConfig [] c = Inr m"
  shows "ParseAudioConfig m = Inr c"
proof -
  let ?n = "length (ac_Codec c)"
  let ?h = "[Version, TypeAudioConfig, 0, of_nat ?n]"
  let ?t = "be32 (ac_SampleRate c) @ [ac_Channels c] @ ac_Description c"
  from assms have ok: "0 < ?n" "?n \<le> 255" "ac_SampleRate c \<noteq> 0" "ac_Channels c \<noteq> 0"
    and m: "m = ?h @ ac_Codec c @ ?t"
    by (auto simp: AppendAudioConfig_def split: if_splits)
  have at: "m ! (4 + ?n + k) = ?t ! k" for k
    by (simp add: m nth_append)
  have rest: "drop (9 + ?n) m = ac_Description c" "take ?n (drop 4 m) = ac_Codec c"
    by (simp_all add: m be32_def)
  have "unat (m ! 3) = ?n" using ok by (simp add: m)
  moreover have "m ! 0 = Version" "m ! 1 = TypeAudioConfig" "9 + ?n \<le> length m"
    by (simp_all add: m)
  ultimately show ?thesis
    using ok at [of 0] at [of 1] at [of 2] at [of 3] at [of 4] rest
    by (simp add: ParseAudioConfig_eq Let_def be32_def)
qed

interpretation AudioConfig: wire_codec TypeAudioConfig
  "AppendAudioConfig []" ParseAudioConfig "\<lambda>_. True"
proof
  fix m x
  assume "ParseAudioConfig m = Inr x"
  then show "\<exists>r. m = Version # TypeAudioConfig # r"
    by (intro prefixI) (auto simp: ParseAudioConfig_eq Let_def split: if_splits)
next
  fix x m
  assume "AppendAudioConfig [] x = Inr m"
  then show "ParseAudioConfig m = Inr x" by (rule AudioConfig_roundtrip)
qed (auto simp: AppendAudioConfig_def ParseAudioConfig_eq Let_def split: if_splits)

end
