(* ===== verification/WireControl.thy ===== *)
theory WireControl
  imports WireMedia
begin

section \<open>Session and control messages (\<^verbatim>\<open>wire.go\<close>, \<^verbatim>\<open>closing.go\<close>, \<^verbatim>\<open>stripe.go\<close>, \<^verbatim>\<open>parity.go\<close>)\<close>

text \<open>
  The fixed-size messages (clock sync, clock mapping, viewer count, delivery
  acknowledgement, undeliverable video, session closing, stripe state, relay
  capabilities, telemetry hello) and the length-prefixed ones (announce, resume
  token, relay identity).  Strict messages interpret the locale \<open>strict_codec\<close>.
\<close>

subsection \<open>BroadcastAnnounce (0x03)\<close>

definition AppendBroadcastAnnounce :: "bytes \<Rightarrow> bytes \<Rightarrow> bytes result" where
  "AppendBroadcastAnnounce dst bid =
     (if length bid = 0 \<or> length bid > 255 then Inl ErrBadBroadcastID
      else Inr (dst @ [Version, TypeBroadcastAnnounce, of_nat (length bid)] @ bid))"

definition ParseBroadcastAnnounce :: "bytes \<Rightarrow> bytes result" where
  "ParseBroadcastAnnounce dgram =
     (if length dgram < 3 then Inl ErrShortDatagram else
      rbind (expect_prefix dgram TypeBroadcastAnnounce) (\<lambda>_.
      rbind (go_index dgram 2) (\<lambda>b. let idLen = unat b in
      if 3 + idLen \<noteq> length dgram then Inl ErrBadBroadcastID else
      rbind (go_from dgram 3) (\<lambda>bid.
      if \<exists>c \<in> set bid. IndexByte Alphabet c = None then Inl ErrBadBroadcastID
      else Inr bid))))"

lemma ParseBroadcastAnnounce_eq:
  "ParseBroadcastAnnounce d =
     (if length d < 3 then Inl ErrShortDatagram
      else if d ! 0 \<noteq> Version then Inl ErrBadVersion
      else if d ! 1 \<noteq> TypeBroadcastAnnounce then Inl ErrBadType
      else if 3 + unat (d ! 2) \<noteq> length d \<or> (\<exists>c \<in> set (drop 3 d). \<not> in_Alphabet c)
        then Inl ErrBadBroadcastID
      else Inr (drop 3 d))"
  by (simp add: ParseBroadcastAnnounce_def expect_prefix_eq Let_def in_Alphabet_def)

text \<open>The parser is strict about the alphabet, the encoder is not; every minted ID passes both.\<close>

interpretation BroadcastAnnounce: wire_codec TypeBroadcastAnnounce
  "AppendBroadcastAnnounce []" ParseBroadcastAnnounce "\<lambda>bid. \<forall>c \<in> set bid. in_Alphabet c"
proof
  fix m x
  assume "ParseBroadcastAnnounce m = Inr x"
  then show "\<exists>r. m = Version # TypeBroadcastAnnounce # r"
    by (intro prefixI) (auto simp: ParseBroadcastAnnounce_eq split: if_splits)
qed (auto simp: AppendBroadcastAnnounce_def ParseBroadcastAnnounce_eq not_less split: if_splits)

subsection \<open>TimeSync (0x05)\<close>

definition AppendTimeSync :: "bytes \<Rightarrow> u64 \<Rightarrow> u64 \<Rightarrow> bytes" where
  "AppendTimeSync dst clientTimeUs serverTimeUs =
     dst @ [Version, TypeTimeSync] @ be64 clientTimeUs @ be64 serverTimeUs"

definition ParseTimeSync :: "bytes \<Rightarrow> (u64 \<times> u64) result" where
  "ParseTimeSync dgram =
     (if length dgram \<noteq> TimeSyncSize then Inl ErrBadLength else
      rbind (expect_prefix dgram TypeTimeSync) (\<lambda>_.
      rbind (slice64 dgram 2 10) (\<lambda>c.
      rbind (slice64 dgram 10 18) (\<lambda>s. Inr (c, s)))))"

interpretation TimeSync: strict_codec TypeTimeSync
  "\<lambda>(c, s). Inr (AppendTimeSync [] c s)" ParseTimeSync "\<lambda>_. True"
proof
  fix m x
  assume p: "ParseTimeSync m = Inr x"
  then have len: "length m = 18" by (auto simp: ParseTimeSync_def TimeSyncSize_def split: if_splits)
  with p show "\<exists>r. m = Version # TypeTimeSync # r"
    by (intro prefixI) (auto simp: ParseTimeSync_def TimeSyncSize_def expect_prefix_eq split: if_splits)
  from len have "18 \<le> length m" by simp
  from split_len18 [OF this] p len
  show "True \<and> (case x of (c, s) \<Rightarrow> Inr (AppendTimeSync [] c s)) = Inr m"
    by (auto simp: ParseTimeSync_def TimeSyncSize_def expect_prefix_eq AppendTimeSync_def
        split: if_splits)
qed (auto simp: AppendTimeSync_def ParseTimeSync_def TimeSyncSize_def be64_def expect_prefix_eq)

subsection \<open>ClockMapping (0x06)\<close>

text \<open>The signed offset is its two's complement word; \<^const>\<open>sint\<close> reads it.\<close>

definition AppendClockMapping :: "bytes \<Rightarrow> u64 \<Rightarrow> bytes" where
  "AppendClockMapping dst offsetUs = dst @ [Version, TypeClockMapping] @ be64 offsetUs"

definition ParseClockMapping :: "bytes \<Rightarrow> u64 result" where
  "ParseClockMapping dgram =
     (if length dgram \<noteq> ClockMappingSize then Inl ErrBadLength else
      rbind (expect_prefix dgram TypeClockMapping) (\<lambda>_. slice64 dgram 2 10))"

interpretation ClockMapping: strict_codec TypeClockMapping
  "\<lambda>off. Inr (AppendClockMapping [] off)" ParseClockMapping "\<lambda>_. True"
proof
  fix m x
  assume p: "ParseClockMapping m = Inr x"
  then have len: "length m = 10" by (auto simp: ParseClockMapping_def ClockMappingSize_def split: if_splits)
  with p show "\<exists>r. m = Version # TypeClockMapping # r"
    by (intro prefixI) (auto simp: ParseClockMapping_def ClockMappingSize_def expect_prefix_eq split: if_splits)
  from len have "10 \<le> length m" by simp
  from split_len10 [OF this] p len show "True \<and> Inr (AppendClockMapping [] x) = Inr m"
    by (auto simp: ParseClockMapping_def ClockMappingSize_def expect_prefix_eq AppendClockMapping_def
        split: if_splits)
qed (auto simp: AppendClockMapping_def ParseClockMapping_def ClockMappingSize_def be64_def expect_prefix_eq)

subsection \<open>ViewerCount (0x0B)\<close>

definition AppendViewerCount :: "bytes \<Rightarrow> u32 \<Rightarrow> bytes" where
  "AppendViewerCount dst count = dst @ [Version, TypeViewerCount] @ be32 count"

definition ParseViewerCount :: "bytes \<Rightarrow> u32 result" where
  "ParseViewerCount dgram =
     (if length dgram \<noteq> ViewerCountSize then Inl ErrBadLength else
      rbind (expect_prefix dgram TypeViewerCount) (\<lambda>_. slice32 dgram 2 6))"

interpretation ViewerCount: strict_codec TypeViewerCount
  "\<lambda>n. Inr (AppendViewerCount [] n)" ParseViewerCount "\<lambda>_. True"
proof
  fix m x
  assume p: "ParseViewerCount m = Inr x"
  then have len: "length m = 6" by (auto simp: ParseViewerCount_def ViewerCountSize_def split: if_splits)
  with p show "\<exists>r. m = Version # TypeViewerCount # r"
    by (intro prefixI) (auto simp: ParseViewerCount_def ViewerCountSize_def expect_prefix_eq split: if_splits)
  from len have "6 \<le> length m" by simp
  from split_len6 [OF this] p len show "True \<and> Inr (AppendViewerCount [] x) = Inr m"
    by (auto simp: ParseViewerCount_def ViewerCountSize_def expect_prefix_eq AppendViewerCount_def
        split: if_splits)
qed (auto simp: AppendViewerCount_def ParseViewerCount_def ViewerCountSize_def be32_def expect_prefix_eq)

subsection \<open>DeliveryAck (0x0C)\<close>

type_synonym DeliveryMode = byte

definition DeliveryDatagrams :: DeliveryMode where "DeliveryDatagrams = 0"
definition DeliveryReliable :: DeliveryMode where "DeliveryReliable = 1"
definition DeliveryDVR :: DeliveryMode where "DeliveryDVR = 2"

definition known_mode :: "DeliveryMode \<Rightarrow> bool" where
  "known_mode m \<longleftrightarrow> m = DeliveryDatagrams \<or> m = DeliveryReliable \<or> m = DeliveryDVR"

definition AppendDeliveryAck :: "bytes \<Rightarrow> DeliveryMode \<Rightarrow> u16 \<Rightarrow> bytes" where
  "AppendDeliveryAck dst mode bufferMs = dst @ [Version, TypeDeliveryAck, mode] @ be16 bufferMs"

definition ParseDeliveryAck :: "bytes \<Rightarrow> (DeliveryMode \<times> u16) result" where
  "ParseDeliveryAck dgram =
     (if length dgram \<noteq> DeliveryAckSize then Inl ErrBadLength else
      rbind (expect_prefix dgram TypeDeliveryAck) (\<lambda>_.
      rbind (go_index dgram 2) (\<lambda>mode.
      if \<not> known_mode mode then Inl ErrBadType
      else rbind (slice16 dgram 3 5) (\<lambda>ms. Inr (mode, ms)))))"

interpretation DeliveryAck: strict_codec TypeDeliveryAck
  "\<lambda>(mode, ms). Inr (AppendDeliveryAck [] mode ms)" ParseDeliveryAck "\<lambda>(mode, ms). known_mode mode"
proof
  fix m x
  assume p: "ParseDeliveryAck m = Inr x"
  then have len: "length m = 5" by (auto simp: ParseDeliveryAck_def DeliveryAckSize_def split: if_splits)
  with p show "\<exists>r. m = Version # TypeDeliveryAck # r"
    by (intro prefixI) (auto simp: ParseDeliveryAck_def DeliveryAckSize_def expect_prefix_eq split: if_splits)
  from len have "5 \<le> length m" by simp
  from split_len5 [OF this] p len
  show "(case x of (mode, ms) \<Rightarrow> known_mode mode) \<and>
      (case x of (mode, ms) \<Rightarrow> Inr (AppendDeliveryAck [] mode ms)) = Inr m"
    by (auto simp: ParseDeliveryAck_def DeliveryAckSize_def expect_prefix_eq AppendDeliveryAck_def
        split: if_splits)
qed (auto simp: AppendDeliveryAck_def ParseDeliveryAck_def DeliveryAckSize_def be16_def expect_prefix_eq)

subsection \<open>VideoUndeliverable (0x1E)\<close>

record VideoUndeliverable =
  vu_KeyframeID :: u32
  vu_StalledMs :: u32

definition AppendVideoUndeliverable :: "bytes \<Rightarrow> VideoUndeliverable \<Rightarrow> bytes" where
  "AppendVideoUndeliverable dst m =
     dst @ [Version, TypeVideoUndeliverable] @ be32 (vu_KeyframeID m) @ be32 (vu_StalledMs m)"

definition ParseVideoUndeliverable :: "bytes \<Rightarrow> VideoUndeliverable result" where
  "ParseVideoUndeliverable dgram =
     (if length dgram \<noteq> VideoUndeliverableSize then Inl ErrBadLength else
      rbind (expect_prefix dgram TypeVideoUndeliverable) (\<lambda>_.
      rbind (slice32 dgram 2 6) (\<lambda>k.
      rbind (slice32 dgram 6 10) (\<lambda>ms. Inr \<lparr>vu_KeyframeID = k, vu_StalledMs = ms\<rparr>))))"

interpretation VideoUndeliverable: strict_codec TypeVideoUndeliverable
  "\<lambda>v. Inr (AppendVideoUndeliverable [] v)" ParseVideoUndeliverable "\<lambda>_. True"
proof
  fix m x
  assume p: "ParseVideoUndeliverable m = Inr x"
  then have len: "length m = 10"
    by (auto simp: ParseVideoUndeliverable_def VideoUndeliverableSize_def split: if_splits)
  with p show "\<exists>r. m = Version # TypeVideoUndeliverable # r"
    by (intro prefixI)
      (auto simp: ParseVideoUndeliverable_def VideoUndeliverableSize_def expect_prefix_eq split: if_splits)
  from len have "10 \<le> length m" by simp
  from split_len10 [OF this] p len show "True \<and> Inr (AppendVideoUndeliverable [] x) = Inr m"
    by (auto simp: ParseVideoUndeliverable_def VideoUndeliverableSize_def expect_prefix_eq
        AppendVideoUndeliverable_def split: if_splits)
qed (auto simp: AppendVideoUndeliverable_def ParseVideoUndeliverable_def VideoUndeliverableSize_def
      be32_def expect_prefix_eq)

subsection \<open>ResumeToken (0x09)\<close>

definition AppendResumeToken :: "bytes \<Rightarrow> bytes \<Rightarrow> bytes result" where
  "AppendResumeToken dst token =
     (if length token = 0 \<or> length token > 255 then Inl ErrBadResumeToken
      else Inr (dst @ [Version, TypeResumeToken, of_nat (length token)] @ token))"

definition ParseResumeToken :: "bytes \<Rightarrow> bytes result" where
  "ParseResumeToken msg =
     (if length msg < 3 then Inl ErrShortDatagram else
      rbind (expect_prefix msg TypeResumeToken) (\<lambda>_.
      rbind (go_index msg 2) (\<lambda>b. let tokenLen = unat b in
      if tokenLen = 0 \<or> 3 + tokenLen \<noteq> length msg then Inl ErrBadResumeToken
      else go_from msg 3)))"

lemma of_nat_length_byte: "unat (b :: byte) = n \<Longrightarrow> of_nat n = b"
  by auto

interpretation ResumeToken: strict_codec TypeResumeToken
  "AppendResumeToken []" ParseResumeToken "\<lambda>_. True"
proof
  fix m x
  assume p: "ParseResumeToken m = Inr x"
  then have len: "3 \<le> length m" by (auto simp: ParseResumeToken_def split: if_splits)
  with p show "\<exists>r. m = Version # TypeResumeToken # r"
    by (intro prefixI) (auto simp: ParseResumeToken_def expect_prefix_eq Let_def split: if_splits)
  from split_len3 [OF len] obtain a b c r where m: "m = a # b # c # r" by blast
  with p have "a = Version" "b = TypeResumeToken" "x = r" "unat c = length r" "unat c \<noteq> 0"
    by (auto simp: ParseResumeToken_def expect_prefix_eq Let_def split: if_splits)
  moreover from this have "length r < 256" using unat_byte_less [of c] by simp
  ultimately show "True \<and> AppendResumeToken [] x = Inr m"
    using m of_nat_length_byte [of c "length r"] by (auto simp: AppendResumeToken_def)
qed (auto simp: AppendResumeToken_def ParseResumeToken_def expect_prefix_eq Let_def not_less
      split: if_splits)

end
