(* ===== verification/WireSession.thy ===== *)
theory WireSession
  imports WireControl
begin

section \<open>Session-start, close and striping messages\<close>

text \<open>
  Telemetry hello and relay identity (\<^verbatim>\<open>wire.go\<close>), session closing
  (\<^verbatim>\<open>closing.go\<close>), stripe state and ordinals (\<^verbatim>\<open>stripe.go\<close>) and relay
  capabilities (\<^verbatim>\<open>parity.go\<close>).
\<close>

subsection \<open>TelemetryHello (0x0D)\<close>

record TelemetryHello =
  th_Enabled :: bool
  th_ReportIntervalMs :: u16
  th_Token :: bytes
  th_BroadcastKey :: bytes

definition flagTelemetryEnabled :: byte where
  "flagTelemetryEnabled = 0x01"

definition AppendTelemetryHello :: "bytes \<Rightarrow> TelemetryHello \<Rightarrow> bytes result" where
  "AppendTelemetryHello dst h =
     (if length (th_Token h) \<noteq> TelemetrySessionTokenSize then Inl ErrBadTelemetryHello
      else if length (th_BroadcastKey h) \<noteq> TelemetryBroadcastKeySize then Inl ErrBadTelemetryHello
      else Inr (dst @ [Version, TypeTelemetryHello, bool_flag (th_Enabled h) flagTelemetryEnabled]
                @ be16 (th_ReportIntervalMs h) @ th_Token h @ th_BroadcastKey h))"

definition ParseTelemetryHello :: "bytes \<Rightarrow> TelemetryHello result" where
  "ParseTelemetryHello msg =
     (if length msg \<noteq> TelemetryHelloSize then Inl ErrBadLength else
      rbind (expect_prefix msg TypeTelemetryHello) (\<lambda>_.
      rbind (go_index msg 2) (\<lambda>flags.
      if flags AND NOT flagTelemetryEnabled \<noteq> 0 then Inl ErrBadTelemetryHello else
      rbind (slice16 msg 3 5) (\<lambda>ms.
      rbind (go_slice msg 5 (5 + TelemetrySessionTokenSize)) (\<lambda>token.
      rbind (go_from msg (5 + TelemetrySessionTokenSize)) (\<lambda>key.
      Inr \<lparr>th_Enabled = (flags AND flagTelemetryEnabled \<noteq> 0), th_ReportIntervalMs = ms,
           th_Token = token, th_BroadcastKey = key\<rparr>))))))"

text \<open>A flags byte with only bit 0 allowed is one of two values.\<close>

lemma single_flag_cases: "(b :: byte) AND NOT 1 = 0 \<Longrightarrow> b = 0 \<or> b = 1"
proof -
  assume a: "b AND NOT 1 = 0"
  have "b = (b AND 1) OR (b AND NOT 1)" by (simp add: bit_eq_iff bit_simps) blast
  with a have "b = b AND 1" by simp
  then show ?thesis by (metis and_one_eq mod2_eq_if)
qed

lemma bool_flag_of_byte: "(b :: byte) AND NOT 1 = 0 \<Longrightarrow> bool_flag (b AND 1 \<noteq> 0) 1 = b"
  by (drule single_flag_cases) (auto simp: bool_flag_def)

lemma bool_flag_masked [simp]:
  "bool_flag b 1 AND NOT (1 :: byte) = 0" "bool_flag b 1 AND - (2 :: byte) = 0"
  by (simp_all add: bool_flag_def)

interpretation TelemetryHello: strict_codec TypeTelemetryHello
  "AppendTelemetryHello []" ParseTelemetryHello "\<lambda>_. True"
proof
  fix m x
  assume p: "ParseTelemetryHello m = Inr x"
  then have len: "length m = 35"
    by (auto simp: ParseTelemetryHello_def TelemetryHelloSize_def split: if_splits)
  with p show "\<exists>r. m = Version # TypeTelemetryHello # r"
    by (intro prefixI)
      (auto simp: ParseTelemetryHello_def TelemetryHelloSize_def expect_prefix_eq split: if_splits)
  from len have "5 \<le> length m" by simp
  from split_len5 [OF this] p len show "True \<and> AppendTelemetryHello [] x = Inr m"
    by (auto simp: ParseTelemetryHello_def TelemetryHelloSize_def expect_prefix_eq
        AppendTelemetryHello_def TelemetrySessionTokenSize_def TelemetryBroadcastKeySize_def
        flagTelemetryEnabled_def bool_flag_of_byte split: if_splits)
qed (auto simp: AppendTelemetryHello_def ParseTelemetryHello_def TelemetryHelloSize_def be16_def
      expect_prefix_eq TelemetrySessionTokenSize_def TelemetryBroadcastKeySize_def
      flagTelemetryEnabled_def split: if_splits)

subsection \<open>RelayIdentity (0x11)\<close>

record RelayIdentity =
  ri_ServerVersion :: bytes
  ri_Name :: bytes
  ri_Notices :: byte

definition RelayNoticeScreening :: byte where
  "RelayNoticeScreening = 0x01"

definition printable :: "bytes \<Rightarrow> bool" where
  "printable s \<longleftrightarrow> (\<forall>b \<in> set s. \<not> (b < 0x20 \<or> b > 0x7E))"

definition AppendRelayIdentity :: "bytes \<Rightarrow> RelayIdentity \<Rightarrow> bytes result" where
  "AppendRelayIdentity dst r =
     (if length (ri_ServerVersion r) = 0
         \<or> length (ri_ServerVersion r) > MaxRelayIdentityVersionLen then Inl ErrBadRelayIdentity
      else if \<not> printable (ri_ServerVersion r) then Inl ErrBadRelayIdentity
      else if length (ri_Name r) > MaxRelayIdentityNameLen then Inl ErrBadRelayIdentity
      else if \<not> utf8_valid (ri_Name r) then Inl ErrBadRelayIdentity
      else Inr (dst @ [Version, TypeRelayIdentity, 0, of_nat (length (ri_ServerVersion r))]
                @ ri_ServerVersion r @ [of_nat (length (ri_Name r))] @ ri_Name r
                @ (if ri_Notices r \<noteq> 0 then [ri_Notices r] else [])))"

definition ParseRelayIdentity :: "bytes \<Rightarrow> RelayIdentity result" where
  "ParseRelayIdentity msg =
     (if length msg < 5 then Inl ErrShortDatagram else
      rbind (expect_prefix msg TypeRelayIdentity) (\<lambda>_.
      rbind (go_index msg 2) (\<lambda>flags.
      if flags \<noteq> 0 then Inl ErrBadRelayIdentity else
      rbind (go_index msg 3) (\<lambda>vb. let versionLen = unat vb in
      if versionLen = 0 \<or> versionLen > MaxRelayIdentityVersionLen then Inl ErrBadRelayIdentity
      else if 4 + versionLen + 1 > length msg then Inl ErrBadRelayIdentity else
      rbind (go_slice msg 4 (4 + versionLen)) (\<lambda>serverVersion.
      if \<not> printable serverVersion then Inl ErrBadRelayIdentity else
      rbind (go_index msg (4 + versionLen)) (\<lambda>nb. let nameLen = unat nb;
                                                     nameStart = 4 + versionLen + 1 in
      if nameLen > MaxRelayIdentityNameLen then Inl ErrBadRelayIdentity
      else if nameStart + nameLen > length msg then Inl ErrBadRelayIdentity else
      rbind (go_slice msg nameStart (nameStart + nameLen)) (\<lambda>name.
      if \<not> utf8_valid name then Inl ErrBadRelayIdentity
      else if nameStart + nameLen < length msg then
        rbind (go_index msg (nameStart + nameLen)) (\<lambda>notices.
        Inr \<lparr>ri_ServerVersion = serverVersion, ri_Name = name, ri_Notices = notices\<rparr>)
      else Inr \<lparr>ri_ServerVersion = serverVersion, ri_Name = name, ri_Notices = 0\<rparr>)))))))"

lemma ParseRelayIdentity_body:
  assumes "v \<noteq> []" "length v \<le> 32" "printable v" "length n \<le> 64" "utf8_valid n"
  shows "ParseRelayIdentity ([Version, TypeRelayIdentity, 0, of_nat (length v)] @ v
           @ [of_nat (length n)] @ n @ ext) =
         Inr \<lparr>ri_ServerVersion = v, ri_Name = n,
              ri_Notices = (case ext of [] \<Rightarrow> 0 | b # _ \<Rightarrow> b)\<rparr>"
proof -
  have "(v @ of_nat (length n) # n @ ext) ! length v = of_nat (length n)" by simp
  moreover have "(v @ of_nat (length n) # n @ ext) ! Suc (length v + length n) = ext ! 0"
    by (simp add: nth_append)
  ultimately show ?thesis
    using assms
    by (auto simp: ParseRelayIdentity_def expect_prefix_eq Let_def size_defs split: list.splits)
qed

interpretation RelayIdentity: wire_codec TypeRelayIdentity
  "AppendRelayIdentity []" ParseRelayIdentity "\<lambda>_. True"
proof
  fix x m
  assume "AppendRelayIdentity [] x = Inr m"
  then show "ParseRelayIdentity m = Inr x"
    using ParseRelayIdentity_body [of "ri_ServerVersion x" "ri_Name x"
        "if ri_Notices x \<noteq> 0 then [ri_Notices x] else []"]
    by (auto simp: AppendRelayIdentity_def size_defs not_less split: if_splits)
next
  fix m x
  assume "ParseRelayIdentity m = Inr x"
  then show "\<exists>r. m = Version # TypeRelayIdentity # r"
    by (intro prefixI) (auto simp: ParseRelayIdentity_def expect_prefix_eq rbind_Inr_iff split: if_splits)
qed (auto simp: AppendRelayIdentity_def ParseRelayIdentity_def expect_prefix_eq Let_def
      split: if_splits)

subsection \<open>SessionClosing (0x17)\<close>

definition SessionClosingSize :: nat where "SessionClosingSize = 6"
definition MinGawkCloseCode :: u32 where "MinGawkCloseCode = 4000"
definition MaxGawkCloseCode :: u32 where "MaxGawkCloseCode = 4999"

definition AppendSessionClosing :: "bytes \<Rightarrow> u32 \<Rightarrow> bytes result" where
  "AppendSessionClosing dst code =
     (if code < MinGawkCloseCode \<or> code > MaxGawkCloseCode then Inl ErrBadSessionClosing
      else Inr (dst @ [Version, TypeSessionClosing] @ be32 code))"

definition ParseSessionClosing :: "bytes \<Rightarrow> u32 result" where
  "ParseSessionClosing msg =
     (if length msg < SessionClosingSize then Inl ErrShortDatagram else
      rbind (expect_prefix msg TypeSessionClosing) (\<lambda>_.
      if length msg \<noteq> SessionClosingSize then Inl ErrBadSessionClosing else
      rbind (rbind (go_from msg 2) Uint32) (\<lambda>code.
      if code < MinGawkCloseCode \<or> code > MaxGawkCloseCode then Inl ErrBadSessionClosing
      else Inr code)))"

lemma Uint32_Cons4 [simp]: "Uint32 (a # b # c # d # r) = Inr (join32 a b c d)"
  by (simp add: Uint32_def)

lemma Uint32_be32 [simp]: "Uint32 (be32 w @ r) = Inr w"
  by (simp add: Uint32_def be32_def)

lemma Uint32_no_panic: "4 \<le> length s \<Longrightarrow> Uint32 s \<noteq> Inl RuntimePanic"
  using split_len4 [of s] by (auto simp: Uint32_def)

interpretation SessionClosing: strict_codec TypeSessionClosing
  "AppendSessionClosing []" ParseSessionClosing "\<lambda>_. True"
proof
  fix m x
  assume p: "ParseSessionClosing m = Inr x"
  then have len: "length m = 6"
    by (auto simp: ParseSessionClosing_def SessionClosingSize_def rbind_Inr_iff split: if_splits)
  with p show "\<exists>r. m = Version # TypeSessionClosing # r"
    by (intro prefixI) (auto simp: ParseSessionClosing_def SessionClosingSize_def expect_prefix_eq
        split: if_splits)
  from len have "6 \<le> length m" by simp
  from split_len6 [OF this] p len show "True \<and> AppendSessionClosing [] x = Inr m"
    by (auto simp: ParseSessionClosing_def SessionClosingSize_def expect_prefix_eq
        AppendSessionClosing_def split: if_splits)
next
  fix m :: bytes
  have "rbind (go_from m 2) Uint32 \<noteq> Inl RuntimePanic" if "length m = 6"
    using that Uint32_no_panic [of "drop 2 m"] by simp
  then show "ParseSessionClosing m \<noteq> Inl RuntimePanic"
    by (auto simp: ParseSessionClosing_def SessionClosingSize_def expect_prefix_eq rbind_Inl_iff)
qed (auto simp: AppendSessionClosing_def ParseSessionClosing_def SessionClosingSize_def be32_def
      expect_prefix_eq split: if_splits)

subsection \<open>StripeState (0x10) and stripe ordinals\<close>

definition StripeStateSize :: nat where "StripeStateSize = 5"
definition MaxStripeLegs :: byte where "MaxStripeLegs = 4"
definition stripeFlagStriped :: byte where "stripeFlagStriped = 0x01"

record StripeState =
  ss_Striped :: bool
  ss_StripeN :: byte

definition validateStripeState :: "StripeState \<Rightarrow> unit result" where
  "validateStripeState s =
     (if ss_Striped s then
        (if ss_StripeN s < 1 \<or> ss_StripeN s > MaxStripeLegs then Inl ErrBadChunkCount else Inr ())
      else if ss_StripeN s \<noteq> 0 then Inl ErrBadChunkCount
      else Inr ())"

definition AppendStripeState :: "bytes \<Rightarrow> StripeState \<Rightarrow> bytes result" where
  "AppendStripeState dst s =
     rbind (validateStripeState s) (\<lambda>_.
     Inr (dst @ [Version, TypeStripeState, bool_flag (ss_Striped s) stripeFlagStriped,
                 ss_StripeN s, 0]))"

definition ParseStripeState :: "bytes \<Rightarrow> StripeState result" where
  "ParseStripeState b =
     (if length b \<noteq> StripeStateSize then Inl ErrShortDatagram else
      rbind (expect_prefix b TypeStripeState) (\<lambda>_.
      rbind (go_index b 2) (\<lambda>flags.
      if flags AND NOT stripeFlagStriped \<noteq> 0 then Inl ErrBadType else
      rbind (go_index b 3) (\<lambda>n.
      let s = \<lparr>ss_Striped = (flags AND stripeFlagStriped \<noteq> 0), ss_StripeN = n\<rparr> in
      rbind (validateStripeState s) (\<lambda>_. Inr s)))))"

interpretation StripeState: wire_codec TypeStripeState
  "AppendStripeState []" ParseStripeState "\<lambda>_. True"
proof
  fix m x
  assume p: "ParseStripeState m = Inr x"
  then show "\<exists>r. m = Version # TypeStripeState # r"
    by (intro prefixI) (auto simp: ParseStripeState_def StripeStateSize_def expect_prefix_eq
        rbind_Inr_iff split: if_splits)
next
  fix m :: bytes
  show "ParseStripeState m \<noteq> Inl RuntimePanic"
    by (auto simp: ParseStripeState_def StripeStateSize_def expect_prefix_eq Let_def rbind_Inl_iff
        validateStripeState_def split: if_splits)
qed (auto simp: AppendStripeState_def ParseStripeState_def StripeStateSize_def expect_prefix_eq
      stripeFlagStriped_def validateStripeState_def Let_def rbind_Inr_iff split: if_splits)

text \<open>
  \<^verbatim>\<open>parityIndex\<close> is a Go \<^verbatim>\<open>int\<close> whose negative values mean "not parity"; the sum is
  computed in 32 bits.
\<close>

definition StripeOrdinal :: "u16 \<Rightarrow> u16 \<Rightarrow> int \<Rightarrow> u32" where
  "StripeOrdinal chunkIndex chunkCount parityIndex =
     (if parityIndex \<ge> 0 then ucast chunkCount + word_of_int parityIndex else ucast chunkIndex)"

subsection \<open>RelayCapabilities (0x0F)\<close>

definition MaxParitySymbols :: nat where "MaxParitySymbols = 2"
definition RelayCapabilitiesSize :: nat where "RelayCapabilitiesSize = 5"
definition CapParityChunks :: u16 where "CapParityChunks = push_bit 0 1"
definition CapStripedDelivery :: u16 where "CapStripedDelivery = push_bit 1 1"
definition CapUplinkCarriers :: u16 where "CapUplinkCarriers = push_bit 2 1"

record RelayCapabilities =
  rc_Flags :: u16
  rc_ParityLevel :: byte

definition AppendRelayCapabilities :: "bytes \<Rightarrow> RelayCapabilities \<Rightarrow> bytes result" where
  "AppendRelayCapabilities dst c =
     (if unat (rc_ParityLevel c) > MaxParitySymbols then Inl ErrParityUnsupported
      else Inr (dst @ [Version, TypeRelayCapabilities] @ be16 (rc_Flags c) @ [rc_ParityLevel c]))"

definition ParseRelayCapabilities :: "bytes \<Rightarrow> RelayCapabilities result" where
  "ParseRelayCapabilities b =
     (if length b \<noteq> RelayCapabilitiesSize then Inl ErrShortDatagram else
      rbind (expect_prefix b TypeRelayCapabilities) (\<lambda>_.
      rbind (slice16 b 2 4) (\<lambda>flags.
      rbind (go_index b 4) (\<lambda>level.
      if unat level > MaxParitySymbols then Inl ErrParityUnsupported
      else Inr \<lparr>rc_Flags = flags, rc_ParityLevel = level\<rparr>))))"

interpretation RelayCapabilities: strict_codec TypeRelayCapabilities
  "AppendRelayCapabilities []" ParseRelayCapabilities "\<lambda>_. True"
proof
  fix m x
  assume p: "ParseRelayCapabilities m = Inr x"
  then have len: "length m = 5"
    by (auto simp: ParseRelayCapabilities_def RelayCapabilitiesSize_def split: if_splits)
  with p show "\<exists>r. m = Version # TypeRelayCapabilities # r"
    by (intro prefixI) (auto simp: ParseRelayCapabilities_def RelayCapabilitiesSize_def
        expect_prefix_eq split: if_splits)
  from len have "5 \<le> length m" by simp
  from split_len5 [OF this] p len show "True \<and> AppendRelayCapabilities [] x = Inr m"
    by (auto simp: ParseRelayCapabilities_def RelayCapabilitiesSize_def expect_prefix_eq
        AppendRelayCapabilities_def split: if_splits)
qed (auto simp: AppendRelayCapabilities_def ParseRelayCapabilities_def RelayCapabilitiesSize_def
      be16_def expect_prefix_eq split: if_splits)

end
