(* ===== verification/WireCarrier.thy ===== *)
theory WireCarrier
  imports WireSession
begin

section \<open>Reliable carrier streams\<close>

text \<open>
  A carrier stream is the two-byte prologue and then records of a 16-bit length
  and a datagram (\<^verbatim>\<open>wire.go\<close>).  The framing contract is a locale: whatever frames
  messages this way can be read back record by record, over any concatenation and
  with any incomplete tail.
\<close>

definition AppendCarrierPrologue :: "bytes \<Rightarrow> bytes" where
  "AppendCarrierPrologue dst = dst @ [Version, TypeReliableCarrier]"

definition ParseCarrierPrologue :: "bytes \<Rightarrow> unit result" where
  "ParseCarrierPrologue buf =
     (if length buf < CarrierPrologueSize then Inl ErrShortDatagram
      else expect_prefix buf TypeReliableCarrier)"

definition AppendCarrierRecord :: "bytes \<Rightarrow> bytes \<Rightarrow> bytes result" where
  "AppendCarrierRecord dst dgram =
     (if length dgram = 0 \<or> length dgram > MaxDatagramSize then Inl ErrBadCarrierRecord
      else Inr (dst @ be16 (of_nat (length dgram)) @ dgram))"

definition ParseCarrierRecord :: "bytes \<Rightarrow> (bytes \<times> bytes) result" where
  "ParseCarrierRecord buf =
     (if length buf < CarrierRecordHeaderSize then Inl ErrShortDatagram else
      rbind (Uint16 buf) (\<lambda>w. let n = unat w in
      if n = 0 \<or> n > MaxDatagramSize then Inl ErrBadCarrierRecord
      else if length buf < CarrierRecordHeaderSize + n then Inl ErrShortDatagram
      else rbind (go_slice buf CarrierRecordHeaderSize (CarrierRecordHeaderSize + n)) (\<lambda>rec.
           rbind (go_from buf (CarrierRecordHeaderSize + n)) (\<lambda>rest. Inr (rec, rest)))))"

text \<open>
  A whole stream of records, as a sender's successive appends build it, and the
  reader's loop over it: at most \<open>k\<close> records off the front, and what is left.
\<close>

fun frame_all ::
  "(bytes \<Rightarrow> 'a \<Rightarrow> bytes result) \<Rightarrow> bytes \<Rightarrow> 'a list \<Rightarrow> bytes result" where
  "frame_all frame dst [] = Inr dst"
| "frame_all frame dst (m # ms) = rbind (frame dst m) (\<lambda>d. frame_all frame d ms)"

fun split_all ::
  "(bytes \<Rightarrow> (bytes \<times> bytes) result) \<Rightarrow> nat \<Rightarrow> bytes \<Rightarrow> bytes list \<times> bytes" where
  "split_all split 0 buf = ([], buf)"
| "split_all split (Suc k) buf =
     (case split buf of Inl _ \<Rightarrow> ([], buf)
      | Inr (m, rest) \<Rightarrow> (let (ms, r) = split_all split k rest in (m # ms, r)))"

subsection \<open>The framing contract\<close>

locale record_framing =
  fixes frame :: "bytes \<Rightarrow> bytes \<Rightarrow> bytes result"
    and split :: "bytes \<Rightarrow> (bytes \<times> bytes) result"
    and short :: "wire_error \<Rightarrow> bool"
  assumes frame_appends: "frame dst m = rbind (frame [] m) (\<lambda>f. Inr (dst @ f))"
    and split_frame: "frame [] m = Inr f \<Longrightarrow> split (f @ rest) = Inr (m, rest)"
    and split_inverts: "split buf = Inr (m, rest) \<Longrightarrow> \<exists>f. frame [] m = Inr f \<and> buf = f @ rest"
    and split_short: "frame [] m = Inr f \<Longrightarrow> k < length f \<Longrightarrow> \<exists>e. short e \<and> split (take k f) = Inl e"
begin

lemma frame_all_shift:
  "frame_all frame dst ms = rbind (frame_all frame [] ms) (\<lambda>t. Inr (dst @ t))"
proof (induction ms arbitrary: dst)
  case (Cons m ms)
  have "frame_all frame dst (m # ms) = rbind (frame [] m) (\<lambda>f. frame_all frame (dst @ f) ms)"
    by (simp add: frame_appends [of dst] rbind_assoc)
  also have "\<dots> = rbind (frame [] m) (\<lambda>f. rbind (frame_all frame f ms) (\<lambda>t. Inr (dst @ t)))"
    by (subst Cons.IH, subst (2) Cons.IH) (simp add: rbind_assoc)
  finally show ?case by (simp add: rbind_assoc)
qed simp

lemma frame_all_Cons:
  assumes "frame_all frame [] (m # ms) = Inr s"
  obtains f t where "frame [] m = Inr f" "frame_all frame [] ms = Inr t" "s = f @ t"
proof -
  from assms obtain f where f: "frame [] m = Inr f" "frame_all frame f ms = Inr s"
    by (auto simp: rbind_Inr_iff)
  from f(2) obtain t where "frame_all frame [] ms = Inr t" "s = f @ t"
    by (subst (asm) frame_all_shift) (auto simp: rbind_Inr_iff)
  with f(1) that show thesis by blast
qed

lemma stream_roundtrip:
  "frame_all frame [] ms = Inr s \<Longrightarrow> split_all split (length ms) (s @ rest) = (ms, rest)"
proof (induction ms arbitrary: s)
  case (Cons m ms)
  from Cons.prems obtain f t where "frame [] m = Inr f" "frame_all frame [] ms = Inr t" "s = f @ t"
    by (rule frame_all_Cons)
  then show ?case using Cons.IH [of t] by (simp add: split_frame)
qed simp

text \<open>
  A stream cut anywhere gives the reader the complete records before the cut and
  an incomplete one, never a record that was not sent.
\<close>

lemma stream_prefix:
  assumes "frame_all frame [] ms = Inr s" "j < length s" "length ms \<le> k"
  shows "\<exists>i r. i < length ms \<and> split_all split k (take j s) = (take i ms, r) \<and>
     (\<exists>e. short e \<and> split r = Inl e)"
  using assms
proof (induction ms arbitrary: s j k)
  case (Cons m ms)
  from Cons.prems(1) obtain f t where ft: "frame [] m = Inr f" "frame_all frame [] ms = Inr t" "s = f @ t"
    by (rule frame_all_Cons)
  from Cons.prems(3) obtain k' where k: "k = Suc k'" "length ms \<le> k'" by (cases k) auto
  show ?case
  proof (cases "j < length f")
    case True
    then have "\<exists>e. short e \<and> split (take j s) = Inl e" using split_short [OF ft(1)] ft(3) by simp
    then show ?thesis using k by (intro exI [of _ 0] exI [of _ "take j s"]) auto
  next
    case False
    then have buf: "take j s = f @ take (j - length f) t" using ft(3) by simp
    have "j - length f < length t" using False Cons.prems(2) ft(3) by simp
    with Cons.IH [OF ft(2) _ k(2)] obtain i r where "i < length ms"
        "split_all split k' (take (j - length f) t) = (take i ms, r)" "\<exists>e. short e \<and> split r = Inl e"
      by blast
    then show ?thesis
      using buf k split_frame [OF ft(1)] by (intro exI [of _ "Suc i"] exI [of _ r]) simp
  qed
qed simp

end

subsection \<open>Carrier records meet the contract\<close>

lemma Uint16_Cons2 [simp]: "Uint16 (a # b # r) = Inr (join16 a b)"
  by (simp add: Uint16_def)

lemma Uint16_be16 [simp]: "Uint16 (be16 w @ r) = Inr w"
  by (simp add: be16_def)

lemma AppendCarrierRecord_Inr:
  "AppendCarrierRecord dst m = Inr f \<longleftrightarrow>
     m \<noteq> [] \<and> length m \<le> MaxDatagramSize \<and> f = dst @ be16 (of_nat (length m)) @ m"
  by (auto simp: AppendCarrierRecord_def not_less)

lemma ParseCarrierRecord_Cons2:
  "ParseCarrierRecord (a # b # r) =
     (let n = unat (join16 a b) in
      if n = 0 \<or> n > MaxDatagramSize then Inl ErrBadCarrierRecord
      else if length r < n then Inl ErrShortDatagram
      else Inr (take n r, drop n r))"
  by (simp add: ParseCarrierRecord_def CarrierRecordHeaderSize_def Let_def)

lemma ParseCarrierRecord_short: "length buf < 2 \<Longrightarrow> ParseCarrierRecord buf = Inl ErrShortDatagram"
  by (simp add: ParseCarrierRecord_def CarrierRecordHeaderSize_def)

interpretation carrier: record_framing AppendCarrierRecord ParseCarrierRecord "\<lambda>e. e = ErrShortDatagram"
proof
  fix m f k
  assume f: "AppendCarrierRecord [] m = Inr f" and k: "k < length f"
  have "ParseCarrierRecord (take k f) = Inl ErrShortDatagram"
  proof (cases "k < 2")
    case True
    then show ?thesis by (simp add: ParseCarrierRecord_short)
  next
    case False
    then obtain j where j: "k = Suc (Suc j)" by (metis less_2_cases_iff not0_implies_Suc One_nat_def)
    with f k show ?thesis
      by (auto simp: AppendCarrierRecord_Inr be16_def ParseCarrierRecord_Cons2 Let_def MaxDatagramSize_def)
  qed
  then show "\<exists>e. e = ErrShortDatagram \<and> ParseCarrierRecord (take k f) = Inl e" by simp
next
  fix buf m rest
  assume p: "ParseCarrierRecord buf = Inr (m, rest)"
  then obtain a b r where buf: "buf = a # b # r"
    by (metis ParseCarrierRecord_short Inl_Inr_False length_ge_2_conv not_less)
  let ?n = "unat (join16 a b)"
  from p buf have "m = take ?n r" "rest = drop ?n r" "?n \<noteq> 0" "?n \<le> MaxDatagramSize" "?n \<le> length r"
    by (auto simp: ParseCarrierRecord_Cons2 Let_def split: if_splits)
  then show "\<exists>f. AppendCarrierRecord [] m = Inr f \<and> buf = f @ rest"
    using buf by (auto simp: AppendCarrierRecord_Inr)
qed (auto simp: AppendCarrierRecord_def be16_def ParseCarrierRecord_Cons2 Let_def MaxDatagramSize_def
      split: if_splits)

lemma ParseCarrierRecord_no_panic: "ParseCarrierRecord buf \<noteq> Inl RuntimePanic"
proof (cases "length buf < 2")
  case False
  then obtain a b r where "buf = a # b # r" by (metis length_ge_2_conv not_less)
  then show ?thesis by (auto simp: ParseCarrierRecord_Cons2 Let_def)
qed (simp add: ParseCarrierRecord_short)

end
