(* ===== verification/RoomReader.thy ===== *)
theory RoomReader
  imports WireSession WireCarrier "HOL-Library.State_Monad"
begin

section \<open>The record cursor (\<^verbatim>\<open>roomReader\<close> of \<^verbatim>\<open>gawk-server/wire/room.go\<close>)\<close>

text \<open>
  The room, voice and local-relay records are read through a cursor that keeps the
  first error and returns zero values after it.  The cursor is modelled as a state
  monad over the same three fields; \<open>refines\<close> relates a cursor program to a parser
  on the remaining bytes, and its rules turn each record's reading code into that
  parser.  \<open>record_field\<close> is the contract of one field: what its writer appends,
  its reader reads back.
\<close>

record roomReader =
  rr_buf :: bytes
  rr_off :: nat
  rr_err :: "wire_error option"

type_synonym 'a reader = "(roomReader, 'a) state"
type_synonym 'a parser = "bytes \<Rightarrow> ('a \<times> bytes) result"

subsection \<open>Cursor operations\<close>

definition rr_failed :: "wire_error \<Rightarrow> roomReader \<Rightarrow> roomReader" where
  "rr_failed err r = (if rr_err r = None then r\<lparr>rr_err := Some err\<rparr> else r)"

definition fail :: "wire_error \<Rightarrow> unit reader" where
  "fail err = State (\<lambda>r. ((), rr_failed err r))"

text \<open>\<^verbatim>\<open>if r.err == nil && cond { r.fail(...) }\<close>\<close>

definition fail_if :: "bool \<Rightarrow> wire_error \<Rightarrow> unit reader" where
  "fail_if cond err = State (\<lambda>r. ((), if rr_err r = None \<and> cond then rr_failed err r else r))"

definition u8 :: "wire_error \<Rightarrow> byte reader" where
  "u8 sentinel = State (\<lambda>r.
     if rr_err r \<noteq> None then (0, r)
     else if rr_off r + 1 > length (rr_buf r) then (0, rr_failed sentinel r)
     else (rr_buf r ! rr_off r, r\<lparr>rr_off := rr_off r + 1\<rparr>))"

definition u16_field :: "wire_error \<Rightarrow> u16 reader" where
  "u16_field sentinel = State (\<lambda>r.
     if rr_err r \<noteq> None then (0, r)
     else if rr_off r + 2 > length (rr_buf r) then (0, rr_failed sentinel r)
     else (join16 (rr_buf r ! rr_off r) (rr_buf r ! (rr_off r + 1)), r\<lparr>rr_off := rr_off r + 2\<rparr>))"

definition u32_field :: "wire_error \<Rightarrow> u32 reader" where
  "u32_field sentinel = State (\<lambda>r.
     if rr_err r \<noteq> None then (0, r)
     else if rr_off r + 4 > length (rr_buf r) then (0, rr_failed sentinel r)
     else (join32 (rr_buf r ! rr_off r) (rr_buf r ! (rr_off r + 1))
             (rr_buf r ! (rr_off r + 2)) (rr_buf r ! (rr_off r + 3)), r\<lparr>rr_off := rr_off r + 4\<rparr>))"

text \<open>The part \<^verbatim>\<open>bytes8\<close> and \<^verbatim>\<open>bytes16\<close> share: \<open>n\<close> bytes, bounded by \<open>lim\<close>.\<close>

definition take_bytes :: "wire_error \<Rightarrow> nat \<Rightarrow> nat \<Rightarrow> bytes reader" where
  "take_bytes sentinel lim n = State (\<lambda>r.
     if rr_err r \<noteq> None then ([], r)
     else if n > lim then ([], rr_failed sentinel r)
     else if rr_off r + n > length (rr_buf r) then ([], rr_failed sentinel r)
     else (take n (drop (rr_off r) (rr_buf r)), r\<lparr>rr_off := rr_off r + n\<rparr>))"

definition bytes8 :: "wire_error \<Rightarrow> nat \<Rightarrow> bytes reader" where
  "bytes8 sentinel lim = do { n \<leftarrow> u8 sentinel; take_bytes sentinel lim (unat n) }"

definition bytes16 :: "wire_error \<Rightarrow> nat \<Rightarrow> bytes reader" where
  "bytes16 sentinel lim = do { n \<leftarrow> u16_field sentinel; take_bytes sentinel lim (unat n) }"

definition str8 :: "wire_error \<Rightarrow> nat \<Rightarrow> bytes reader" where
  "str8 sentinel lim = do {
     b \<leftarrow> bytes8 sentinel lim;
     r \<leftarrow> State_Monad.get;
     if rr_err r \<noteq> None then State_Monad.return []
     else if \<not> utf8_valid b then do { fail sentinel; State_Monad.return [] }
     else State_Monad.return b }"

definition broadcastID :: "wire_error \<Rightarrow> bytes reader" where
  "broadcastID sentinel = do {
     b \<leftarrow> bytes8 sentinel Length;
     r \<leftarrow> State_Monad.get;
     if rr_err r \<noteq> None then State_Monad.return []
     else case Normalize b of
            Inl _ \<Rightarrow> do { fail sentinel; State_Monad.return [] }
          | Inr bid \<Rightarrow> State_Monad.return bid }"

text \<open>\<^verbatim>\<open>for i := 0; i < n && r.err == nil; i++ { xs = append(xs, read()) }\<close>\<close>

fun read_loop :: "'a reader \<Rightarrow> nat \<Rightarrow> 'a list reader" where
  "read_loop rd 0 = State_Monad.return []"
| "read_loop rd (Suc n) = do {
     r \<leftarrow> State_Monad.get;
     if rr_err r \<noteq> None then State_Monad.return []
     else do { x \<leftarrow> rd; xs \<leftarrow> read_loop rd n; State_Monad.return (x # xs) } }"

definition rr_done :: "wire_error \<Rightarrow> roomReader \<Rightarrow> wire_error option" where
  "rr_done sentinel r =
     (if rr_err r \<noteq> None then rr_err r
      else if rr_off r \<noteq> length (rr_buf r) then Some sentinel
      else None)"

text \<open>\<^verbatim>\<open>r := &roomReader{buf: msg, off: 2}; ...; if err := r.done(...); err != nil\<close>\<close>

definition finish_record :: "wire_error \<Rightarrow> 'a reader \<Rightarrow> roomReader \<Rightarrow> 'a result" where
  "finish_record sentinel rd r0 =
     (let (x, r) = run_state rd r0 in
      case rr_done sentinel r of Some e \<Rightarrow> Inl e | None \<Rightarrow> Inr x)"

definition read_record :: "wire_error \<Rightarrow> 'a reader \<Rightarrow> bytes \<Rightarrow> 'a result" where
  "read_record sentinel rd msg =
     finish_record sentinel rd \<lparr>rr_buf = msg, rr_off = 2, rr_err = None\<rparr>"

subsection \<open>Cursor programs as parsers\<close>

definition reader_at :: "bytes \<Rightarrow> bytes \<Rightarrow> roomReader" where
  "reader_at pre rest = \<lparr>rr_buf = pre @ rest, rr_off = length pre, rr_err = None\<rparr>"

definition sticky :: "'a reader \<Rightarrow> bool" where
  "sticky m \<longleftrightarrow> (\<forall>r. rr_err r \<noteq> None \<longrightarrow> rr_err (snd (run_state m r)) = rr_err r)"

definition refines :: "'a reader \<Rightarrow> 'a parser \<Rightarrow> bool" where
  "refines m p \<longleftrightarrow> sticky m \<and> (\<forall>pre rest.
     case p rest of
       Inl e \<Rightarrow> rr_err (snd (run_state m (reader_at pre rest))) = Some e
     | Inr (x, rest') \<Rightarrow> \<exists>used. rest = used @ rest' \<and>
         run_state m (reader_at pre rest) = (x, reader_at (pre @ used) rest'))"

definition p_return :: "'a \<Rightarrow> 'a parser" where
  "p_return x = (\<lambda>s. Inr (x, s))"

definition p_bind :: "'a parser \<Rightarrow> ('a \<Rightarrow> 'b parser) \<Rightarrow> 'b parser" where
  "p_bind p f = (\<lambda>s. rbind (p s) (\<lambda>(x, s'). f x s'))"

definition p_check :: "bool \<Rightarrow> wire_error \<Rightarrow> unit parser" where
  "p_check bad e = (\<lambda>s. if bad then Inl e else Inr ((), s))"

definition p_u8 :: "wire_error \<Rightarrow> byte parser" where
  "p_u8 e s = (case s of b # r \<Rightarrow> Inr (b, r) | [] \<Rightarrow> Inl e)"

definition p_u16 :: "wire_error \<Rightarrow> u16 parser" where
  "p_u16 e s = (case s of a # b # r \<Rightarrow> Inr (join16 a b, r) | _ \<Rightarrow> Inl e)"

definition p_u32 :: "wire_error \<Rightarrow> u32 parser" where
  "p_u32 e s = (case s of a # b # c # d # r \<Rightarrow> Inr (join32 a b c d, r) | _ \<Rightarrow> Inl e)"

definition p_take :: "wire_error \<Rightarrow> nat \<Rightarrow> nat \<Rightarrow> bytes parser" where
  "p_take e lim n s = (if n > lim \<or> n > length s then Inl e else Inr (take n s, drop n s))"

fun p_loop :: "'a parser \<Rightarrow> nat \<Rightarrow> 'a list parser" where
  "p_loop p 0 = p_return []"
| "p_loop p (Suc n) = p_bind p (\<lambda>x. p_bind (p_loop p n) (\<lambda>xs. p_return (x # xs)))"

lemma refinesI:
  assumes "\<And>r. rr_err r \<noteq> None \<Longrightarrow> rr_err (snd (run_state m r)) = rr_err r"
    and "\<And>pre rest e. p rest = Inl e \<Longrightarrow> rr_err (snd (run_state m (reader_at pre rest))) = Some e"
    and "\<And>pre rest x rest'. p rest = Inr (x, rest') \<Longrightarrow> \<exists>used. rest = used @ rest' \<and>
         run_state m (reader_at pre rest) = (x, reader_at (pre @ used) rest')"
  shows "refines m p"
  using assms by (auto simp: refines_def sticky_def split: sum.splits)

lemma refines_Inl: "refines m p \<Longrightarrow> p rest = Inl e \<Longrightarrow>
    rr_err (snd (run_state m (reader_at pre rest))) = Some e"
  unfolding refines_def by (drule conjunct2, drule spec [of _ pre], drule spec [of _ rest]) simp

lemma refines_Inr: "refines m p \<Longrightarrow> p rest = Inr (x, rest') \<Longrightarrow>
    \<exists>used. rest = used @ rest' \<and> run_state m (reader_at pre rest) = (x, reader_at (pre @ used) rest')"
  unfolding refines_def by (drule conjunct2, drule spec [of _ pre], drule spec [of _ rest]) simp

lemma refines_sticky: "refines m p \<Longrightarrow> rr_err r \<noteq> None \<Longrightarrow> rr_err (snd (run_state m r)) = rr_err r"
  by (simp add: refines_def sticky_def)

subsection \<open>The rules\<close>

named_theorems refine_rules

lemma reader_at_simps [simp]:
  "rr_buf (reader_at pre rest) = pre @ rest" "rr_off (reader_at pre rest) = length pre"
  "rr_err (reader_at pre rest) = None"
  by (simp_all add: reader_at_def)

lemma reader_at_advance:
  "rest = used @ rest' \<Longrightarrow> n = length used \<Longrightarrow>
     (reader_at pre rest)\<lparr>rr_off := length pre + n\<rparr> = reader_at (pre @ used) rest'"
  by (simp add: reader_at_def)

lemma refines_return [refine_rules]: "refines (State_Monad.return x) (p_return x)"
  by (rule refinesI) (auto simp: p_return_def)

lemma refines_bind [refine_rules]:
  assumes m: "refines m p" and f: "\<And>x. refines (f x) (q x)"
  shows "refines (State_Monad.bind m f) (p_bind p q)"
proof (rule refinesI)
  show "rr_err (snd (run_state (State_Monad.bind m f) r)) = rr_err r" if "rr_err r \<noteq> None" for r
    using refines_sticky [OF m that] refines_sticky [OF f] that by (auto split: prod.splits)
next
  fix pre rest e
  assume "p_bind p q rest = Inl e"
  then consider "p rest = Inl e" | x s where "p rest = Inr (x, s)" "q x s = Inl e"
    by (auto simp: p_bind_def rbind_Inl_iff)
  then show "rr_err (snd (run_state (State_Monad.bind m f) (reader_at pre rest))) = Some e"
  proof cases
    case 1
    then show ?thesis
      using refines_Inl [OF m, of rest e pre] refines_sticky [OF f] by (auto split: prod.splits)
  next
    case 2
    then obtain used where "run_state m (reader_at pre rest) = (x, reader_at (pre @ used) s)"
      using refines_Inr [OF m] by blast
    then show ?thesis using refines_Inl [OF f 2(2)] by simp
  qed
next
  fix pre rest y rest'
  assume "p_bind p q rest = Inr (y, rest')"
  then obtain x s where xs: "p rest = Inr (x, s)" "q x s = Inr (y, rest')"
    by (auto simp: p_bind_def rbind_Inr_iff)
  from refines_Inr [OF m xs(1), of pre] obtain u1 where
    "rest = u1 @ s" "run_state m (reader_at pre rest) = (x, reader_at (pre @ u1) s)" by blast
  moreover from refines_Inr [OF f xs(2), of "pre @ u1"] obtain u2 where
    "s = u2 @ rest'" "run_state (f x) (reader_at (pre @ u1) s) = (y, reader_at ((pre @ u1) @ u2) rest')"
    by blast
  ultimately show "\<exists>used. rest = used @ rest' \<and>
      run_state (State_Monad.bind m f) (reader_at pre rest) = (y, reader_at (pre @ used) rest')"
    by (intro exI [of _ "u1 @ u2"]) simp
qed

lemma refines_fail_if [refine_rules]: "refines (fail_if bad e) (p_check bad e)"
  by (rule refinesI) (auto simp: fail_if_def p_check_def rr_failed_def split: if_splits)

lemma refines_u8 [refine_rules]: "refines (u8 e) (p_u8 e)"
  by (rule refinesI)
    (auto simp: u8_def p_u8_def rr_failed_def nth_append reader_at_advance split: list.splits
      intro!: exI [of _ "[_]"])

lemma refines_u16 [refine_rules]: "refines (u16_field e) (p_u16 e)"
  by (rule refinesI)
    (auto simp: u16_field_def p_u16_def rr_failed_def nth_append reader_at_advance split: list.splits
      intro!: exI [of _ "[_, _]"])

lemma refines_u32 [refine_rules]: "refines (u32_field e) (p_u32 e)"
  by (rule refinesI)
    (auto simp: u32_field_def p_u32_def rr_failed_def nth_append reader_at_advance numeral_3_eq_3
      split: list.splits intro!: exI [of _ "[_, _, _, _]"])

lemma refines_take [refine_rules]: "refines (take_bytes e lim n) (p_take e lim n)"
proof (rule refinesI)
  fix pre rest x rest'
  assume "p_take e lim n rest = Inr (x, rest')"
  then show "\<exists>used. rest = used @ rest' \<and>
      run_state (take_bytes e lim n) (reader_at pre rest) = (x, reader_at (pre @ used) rest')"
    by (intro exI [of _ "take n rest"])
      (auto simp: take_bytes_def p_take_def intro!: reader_at_advance split: if_splits)
qed (auto simp: take_bytes_def p_take_def rr_failed_def split: if_splits)

lemma refines_if [refine_rules]:
  "refines m p \<Longrightarrow> refines n q \<Longrightarrow> refines (if c then m else n) (if c then p else q)"
  by simp

text \<open>A test of the error field decides nothing on a cursor without one.\<close>

lemma refines_get_err:
  assumes "refines m p"
    and "\<And>r. rr_err r \<noteq> None \<Longrightarrow> rr_err (snd (run_state n r)) = rr_err r"
  shows "refines (State_Monad.bind State_Monad.get (\<lambda>r. if rr_err r \<noteq> None then n else m)) p"
  by (rule refinesI) (use assms refines_Inl [OF assms(1)] refines_Inr [OF assms(1)] in auto)

lemma refines_fail_with [refine_rules]:
  "refines (State_Monad.bind (fail e) (\<lambda>_. State_Monad.return x)) (\<lambda>_. Inl e)"
  by (rule refinesI) (auto simp: fail_def rr_failed_def)

subsection \<open>The composite fields\<close>

definition p_bytes8 :: "wire_error \<Rightarrow> nat \<Rightarrow> bytes parser" where
  "p_bytes8 e lim = p_bind (p_u8 e) (\<lambda>n. p_take e lim (unat n))"

definition p_bytes16 :: "wire_error \<Rightarrow> nat \<Rightarrow> bytes parser" where
  "p_bytes16 e lim = p_bind (p_u16 e) (\<lambda>n. p_take e lim (unat n))"

definition p_str8 :: "wire_error \<Rightarrow> nat \<Rightarrow> bytes parser" where
  "p_str8 e lim = p_bind (p_bytes8 e lim)
     (\<lambda>b. if \<not> utf8_valid b then (\<lambda>_. Inl e) else p_return b)"

definition p_broadcastID :: "wire_error \<Rightarrow> bytes parser" where
  "p_broadcastID e = p_bind (p_bytes8 e Length)
     (\<lambda>b. case Normalize b of Inl _ \<Rightarrow> (\<lambda>_. Inl e) | Inr bid \<Rightarrow> p_return bid)"

lemma refines_bytes8 [refine_rules]: "refines (bytes8 e lim) (p_bytes8 e lim)"
  unfolding bytes8_def p_bytes8_def by (intro refine_rules)

lemma refines_bytes16 [refine_rules]: "refines (bytes16 e lim) (p_bytes16 e lim)"
  unfolding bytes16_def p_bytes16_def by (intro refine_rules)

lemma refines_str8 [refine_rules]: "refines (str8 e lim) (p_str8 e lim)"
  unfolding str8_def p_str8_def
  by (intro refine_rules refines_get_err) simp_all

lemma refines_broadcastID [refine_rules]: "refines (broadcastID e) (p_broadcastID e)"
  unfolding broadcastID_def p_broadcastID_def
  by (intro refines_bind refine_rules refines_get_err) (auto split: sum.splits intro: refine_rules)

lemma refines_loop [refine_rules]:
  assumes "refines m p"
  shows "refines (read_loop m n) (p_loop p n)"
proof (induction n)
  case (Suc n)
  then show ?case
    unfolding read_loop.simps p_loop.simps
    by (intro refine_rules refines_get_err assms) simp_all
qed (simp add: refine_rules)

lemma finish_record_refines:
  assumes "refines m p"
  shows "finish_record e m (reader_at pre rest) =
    rbind (p rest) (\<lambda>(x, s). if s \<noteq> [] then Inl e else Inr x)"
proof (cases "p rest")
  case (Inl er)
  then show ?thesis
    using refines_Inl [OF assms, of rest er pre]
    by (auto simp: finish_record_def rr_done_def split: prod.splits)
next
  case (Inr y)
  obtain x s where y: "y = (x, s)" by (cases y)
  from refines_Inr [OF assms Inr [unfolded y], of pre] obtain used where
    "run_state m (reader_at pre rest) = (x, reader_at (pre @ used) s)" by blast
  then show ?thesis by (simp add: finish_record_def rr_done_def Inr y)
qed

text \<open>A record with an extension space: bytes past the last field are ignored.\<close>

definition finish_open :: "'a reader \<Rightarrow> roomReader \<Rightarrow> 'a result" where
  "finish_open rd r0 =
     (let (x, r) = run_state rd r0 in case rr_err r of Some e \<Rightarrow> Inl e | None \<Rightarrow> Inr x)"

lemma finish_open_refines:
  assumes "refines m p"
  shows "finish_open m (reader_at pre rest) = rbind (p rest) (\<lambda>(x, s). Inr x)"
proof (cases "p rest")
  case (Inl er)
  then show ?thesis
    using refines_Inl [OF assms, of rest er pre] by (auto simp: finish_open_def split: prod.splits)
next
  case (Inr y)
  obtain x s where y: "y = (x, s)" by (cases y)
  from refines_Inr [OF assms Inr [unfolded y], of pre] obtain used where
    "run_state m (reader_at pre rest) = (x, reader_at (pre @ used) s)" by blast
  then show ?thesis by (simp add: finish_open_def Inr y)
qed

lemma read_record_refines:
  assumes "refines m p"
  shows "read_record e m (v # t # rest) =
    rbind (p rest) (\<lambda>(x, s). if s \<noteq> [] then Inl e else Inr x)"
proof -
  have "\<lparr>rr_buf = v # t # rest, rr_off = 2, rr_err = None\<rparr> = reader_at [v, t] rest"
    by (simp add: reader_at_def)
  then show ?thesis unfolding read_record_def by (simp only: finish_record_refines [OF assms])
qed

subsection \<open>What each parser accepts\<close>

named_theorems accepts

lemma p_return_accepts [accepts]: "p_return x s = Inr (y, r) \<longleftrightarrow> y = x \<and> s = r"
  by (auto simp: p_return_def)

lemma p_bind_accepts [accepts]:
  "p_bind p f s = Inr (y, r) \<longleftrightarrow> (\<exists>x s'. p s = Inr (x, s') \<and> f x s' = Inr (y, r))"
  by (auto simp: p_bind_def rbind_Inr_iff)

lemma p_check_accepts [accepts]: "p_check bad e s = Inr (u, r) \<longleftrightarrow> \<not> bad \<and> s = r"
  by (auto simp: p_check_def)

lemma p_u8_accepts [accepts]: "p_u8 e s = Inr (b, r) \<longleftrightarrow> s = b # r"
  by (auto simp: p_u8_def split: list.splits)

lemma p_u16_accepts [accepts]: "p_u16 e s = Inr (w, r) \<longleftrightarrow> s = be16 w @ r"
proof
  show "p_u16 e s = Inr (w, r) \<Longrightarrow> s = be16 w @ r"
    by (auto simp: p_u16_def split: list.splits)
qed (simp add: p_u16_def be16_def)

lemma p_u32_accepts [accepts]: "p_u32 e s = Inr (w, r) \<longleftrightarrow> s = be32 w @ r"
proof
  show "p_u32 e s = Inr (w, r) \<Longrightarrow> s = be32 w @ r"
    by (auto simp: p_u32_def split: list.splits)
qed (simp add: p_u32_def be32_def)

lemma p_take_accepts [accepts]:
  "p_take e lim n s = Inr (b, r) \<longleftrightarrow> s = b @ r \<and> length b = n \<and> n \<le> lim"
  by (auto simp: p_take_def)

lemma p_bytes8_accepts [accepts]:
  "lim \<le> 255 \<Longrightarrow> p_bytes8 e lim s = Inr (b, r) \<longleftrightarrow> s = of_nat (length b) # b @ r \<and> length b \<le> lim"
  by (auto simp: p_bytes8_def accepts unat_of_nat_byte)

lemma p_bytes16_accepts [accepts]:
  "lim \<le> 65535 \<Longrightarrow>
     p_bytes16 e lim s = Inr (b, r) \<longleftrightarrow> s = be16 (of_nat (length b)) @ b @ r \<and> length b \<le> lim"
  by (auto simp: p_bytes16_def accepts unat_of_nat_u16)

definition enc_str8 :: "bytes \<Rightarrow> bytes" where
  "enc_str8 s = of_nat (length s) # s"

definition str_ok :: "nat \<Rightarrow> bytes \<Rightarrow> bool" where
  "str_ok lim s \<longleftrightarrow> length s \<le> lim \<and> utf8_valid s"

lemma p_str8_accepts [accepts]:
  "lim \<le> 255 \<Longrightarrow> p_str8 e lim s = Inr (b, r) \<longleftrightarrow> s = enc_str8 b @ r \<and> str_ok lim b"
  by (auto simp: p_str8_def accepts enc_str8_def str_ok_def split: if_splits)

lemma p_broadcastID_accepts:
  "p_broadcastID e s = Inr (bid, r) \<longleftrightarrow>
     (\<exists>b. s = of_nat (length b) # b @ r \<and> length b \<le> Length \<and> Normalize b = Inr bid)"
proof -
  have "(case Normalize b of Inl _ \<Rightarrow> (\<lambda>_. Inl e) | Inr bid \<Rightarrow> p_return bid) s' = Inr (bid, r)
      \<longleftrightarrow> Normalize b = Inr bid \<and> s' = r" for b s'
    by (auto simp: accepts split: sum.splits)
  then show ?thesis by (auto simp: p_broadcastID_def accepts Length_def)
qed

lemma p_loop_accepts:
  assumes "\<And>s x r. p s = Inr (x, r) \<longleftrightarrow> ok x \<and> s = enc x @ r"
  shows "p_loop p n s = Inr (xs, r) \<longleftrightarrow>
    length xs = n \<and> (\<forall>x \<in> set xs. ok x) \<and> s = concat (map enc xs) @ r"
proof (induction n arbitrary: s xs)
  case (Suc n)
  show ?case by (cases xs) (auto simp: accepts assms Suc)
qed (auto simp: accepts)

text \<open>The same facts as rewrite steps through an encoded record.\<close>

named_theorems steps

lemma p_return_step [steps]: "p_return x s = Inr (x, s)"
  by (simp add: p_return_def)

lemma p_bind_step [steps]: "p_bind p f s = rbind (p s) (\<lambda>(x, s'). f x s')"
  by (simp add: p_bind_def)

lemma p_check_step [steps]: "\<not> bad \<Longrightarrow> p_check bad e s = Inr ((), s)"
  by (simp add: p_check_def)

lemma p_fixed_steps [steps]:
  "p_u8 e (b # r) = Inr (b, r)" "p_u16 e (be16 w @ r) = Inr (w, r)" "p_u32 e (be32 v @ r) = Inr (v, r)"
  by (simp_all add: accepts)

lemma p_bytes8_step [steps]:
  "lim \<le> 255 \<Longrightarrow> length b \<le> lim \<Longrightarrow> unat n = length b \<Longrightarrow> p_bytes8 e lim (n # b @ r) = Inr (b, r)"
  by (simp add: p_bytes8_def accepts)

lemma p_bytes16_step [steps]:
  "lim \<le> 65535 \<Longrightarrow> length b \<le> lim \<Longrightarrow> p_bytes16 e lim (be16 (of_nat (length b)) @ b @ r) = Inr (b, r)"
  by (simp add: accepts)

lemma p_str8_step [steps]:
  "lim \<le> 255 \<Longrightarrow> str_ok lim b \<Longrightarrow> p_str8 e lim (enc_str8 b @ r) = Inr (b, r)"
  by (simp add: accepts)

lemmas p_last_steps [steps] =
  p_fixed_steps(2,3) [where r = "[]", simplified] p_bytes16_step [where r = "[]", simplified]
  p_str8_step [where r = "[]", simplified]

subsection \<open>One error per record\<close>

text \<open>A parser that only ever reports the record's sentinel.\<close>

definition only_fails :: "wire_error \<Rightarrow> 'a parser \<Rightarrow> bool" where
  "only_fails e p \<longleftrightarrow> (\<forall>s er. p s = Inl er \<longrightarrow> er = e)"

named_theorems fail_rules

lemma only_failsD: "only_fails e p \<Longrightarrow> p s = Inl er \<Longrightarrow> er = e"
  by (simp add: only_fails_def)

lemma only_fails_basic [fail_rules]:
  "only_fails e (p_return x)" "only_fails e (p_check bad e)" "only_fails e (p_u8 e)"
  "only_fails e (p_u16 e)" "only_fails e (p_u32 e)" "only_fails e (p_take e lim n)"
  "only_fails e (\<lambda>_. Inl e)"
  by (auto simp: only_fails_def p_return_def p_check_def p_u8_def p_u16_def p_u32_def p_take_def
      split: list.splits if_splits)

lemma only_fails_bind [fail_rules]:
  "only_fails e p \<Longrightarrow> (\<And>x. only_fails e (f x)) \<Longrightarrow> only_fails e (p_bind p f)"
  by (fastforce simp: only_fails_def p_bind_def rbind_Inl_iff)

lemma only_fails_if [fail_rules]:
  "only_fails e p \<Longrightarrow> only_fails e q \<Longrightarrow> only_fails e (if c then p else q)"
  by simp

lemma only_fails_fields [fail_rules]:
  "only_fails e (p_bytes8 e lim)" "only_fails e (p_bytes16 e lim)" "only_fails e (p_str8 e lim)"
  unfolding p_bytes8_def p_bytes16_def p_str8_def by (intro fail_rules)+

lemma only_fails_broadcastID [fail_rules]: "only_fails e (p_broadcastID e)"
  unfolding p_broadcastID_def
  by (rule only_fails_bind, rule fail_rules) (auto split: sum.splits intro: fail_rules)

lemma only_fails_loop [fail_rules]: "only_fails e p \<Longrightarrow> only_fails e (p_loop p n)"
  by (induction n) (auto intro: fail_rules)

subsection \<open>A whole record\<close>

lemma record_Inr_iff:
  assumes "refines m p"
  shows "rbind (checkPrefix msg ty k) (\<lambda>_. read_record e m msg) = Inr x \<longleftrightarrow>
    (\<exists>rest. msg = Version # ty # rest \<and> k \<le> length msg \<and> p rest = Inr (x, []))"
proof -
  have "rbind (checkPrefix msg ty k) (\<lambda>_. read_record e m msg) = Inr x \<longleftrightarrow>
      k \<le> length msg \<and> (\<exists>rest. msg = Version # ty # rest) \<and> read_record e m msg = Inr x"
    by (auto simp: rbind_Inr_iff checkPrefix_Inr)
  also have "\<dots> \<longleftrightarrow> (\<exists>rest. msg = Version # ty # rest \<and> k \<le> length msg \<and> p rest = Inr (x, []))"
    by (auto simp: read_record_refines [OF assms] rbind_Inr_iff split: if_splits)
  finally show ?thesis .
qed

lemma checkPrefix_eq:
  "2 \<le> k \<Longrightarrow> checkPrefix m ty k =
     (if length m < k then Inl ErrShortDatagram
      else if m ! 0 \<noteq> Version then Inl ErrBadVersion
      else if m ! 1 \<noteq> ty then Inl ErrBadType else Inr ())"
  by (simp add: checkPrefix_def expect_prefix_eq)

lemma checkPrefix_no_panic: "2 \<le> k \<Longrightarrow> checkPrefix msg ty k \<noteq> Inl RuntimePanic"
  by (auto simp: checkPrefix_def expect_prefix_eq)

lemma record_no_panic:
  assumes "refines m p" "only_fails e p" "e \<noteq> RuntimePanic" "2 \<le> k"
  shows "rbind (checkPrefix msg ty k) (\<lambda>_. read_record e m msg) \<noteq> Inl RuntimePanic"
proof
  assume "rbind (checkPrefix msg ty k) (\<lambda>_. read_record e m msg) = Inl RuntimePanic"
  then have "checkPrefix msg ty k = Inr ()" "read_record e m msg = Inl RuntimePanic"
    using checkPrefix_no_panic [OF assms(4), of msg ty] by (auto simp: rbind_Inl_iff)
  then show False
    using assms(2,3) by (auto simp: checkPrefix_Inr read_record_refines [OF assms(1)] rbind_Inl_iff
        dest: only_failsD split: if_splits)
qed

subsection \<open>The contract of a field\<close>

text \<open>
  A field of a record has a writer, a cursor reader and the parser the reader
  refines.  \<open>ok\<close> says which values the writer accepts, \<open>normal\<close> which of them are
  in the form the reader returns (a broadcast ID is upper-cased on the way).
\<close>

locale record_field =
  fixes sentinel :: wire_error
    and app :: "bytes \<Rightarrow> 'a \<Rightarrow> bytes result"
    and rd :: "'a reader"
    and parse :: "'a parser"
    and enc :: "'a \<Rightarrow> bytes"
    and ok normal :: "'a \<Rightarrow> bool"
  assumes appends: "app dst x = (if ok x then Inr (dst @ enc x) else Inl sentinel)"
    and implements: "refines rd parse"
    and complete: "ok x \<Longrightarrow> normal x \<Longrightarrow> parse (enc x @ r) = Inr (x, r)"
    and sound: "parse s = Inr (x, r) \<Longrightarrow> ok x \<and> normal x"
    and fails: "only_fails sentinel parse"
begin

lemma append_all:
  "frame_all app dst xs =
     (if \<forall>x \<in> set xs. ok x then Inr (dst @ concat (map enc xs)) else Inl sentinel)"
  by (induction xs arbitrary: dst) (auto simp: appends)

lemma loop_complete:
  "\<forall>x \<in> set xs. ok x \<and> normal x \<Longrightarrow> p_loop parse (length xs) (concat (map enc xs) @ r) = Inr (xs, r)"
  by (induction xs) (auto simp: p_return_def p_bind_def complete)

lemma loop_sound:
  "p_loop parse n s = Inr (xs, r) \<Longrightarrow> length xs = n \<and> (\<forall>x \<in> set xs. ok x \<and> normal x)"
  by (induction n arbitrary: s xs) (auto simp: accepts dest: sound)

lemma loop_implements: "refines (read_loop rd n) (p_loop parse n)"
  by (rule refines_loop [OF implements])

end

text \<open>A field with one encoding per value.\<close>

locale exact_field = record_field +
  assumes exact: "parse s = Inr (x, r) \<Longrightarrow> s = enc x @ r"
begin

lemma loop_exact: "p_loop parse n s = Inr (xs, r) \<Longrightarrow> s = concat (map enc xs) @ r"
  by (induction n arbitrary: s xs) (auto simp: accepts dest!: exact)

lemma parse_iff: "parse s = Inr (x, r) \<longleftrightarrow> ok x \<and> normal x \<and> s = enc x @ r"
  using complete exact sound by blast

end

end
