(* ===== verification/RoomWire.thy ===== *)
theory RoomWire
  imports RoomReader
begin

section \<open>The room control protocol (\<^verbatim>\<open>gawk-server/wire/room.go\<close>)\<close>

text \<open>
  RoomHello, RoomState, RoomEvent and RoomCommand: their writers, and their
  readers over the record cursor, with the length-prefixed framing of the room
  control stream.
\<close>

subsection \<open>Constants\<close>

definition RoomProtocolVersion :: byte where "RoomProtocolVersion = 1"
definition RoomRecordHeaderSize :: nat where "RoomRecordHeaderSize = 2"
definition MaxRoomRecordSize :: nat where "MaxRoomRecordSize = 16384"
definition MaxRoomNicknameLen :: nat where "MaxRoomNicknameLen = 32"
definition MaxRoomCodeLen :: nat where "MaxRoomCodeLen = 32"
definition MaxRoomDisplayNameLen :: nat where "MaxRoomDisplayNameLen = 64"
definition MaxRoomLabelLen :: nat where "MaxRoomLabelLen = 32"
definition MaxRoomIdentityLen :: nat where "MaxRoomIdentityLen = 64"
definition MaxRoomRejectMessageLen :: nat where "MaxRoomRejectMessageLen = 128"
definition RoomCreatorTokenSize :: nat where "RoomCreatorTokenSize = 16"
definition RoomKeySize :: nat where "RoomKeySize = 6"
definition ResumeTokenSize :: nat where "ResumeTokenSize = 16"
definition roomClientKindMax :: byte where "roomClientKindMax = 2"
definition roomCapMask :: byte where "roomCapMask = 0x01 OR 0x02"
definition roomStateFlagMask :: byte where "roomStateFlagMask = 0x01 OR 0x02 OR 0x04"
definition RoomAttachmentFlagLive :: byte where "RoomAttachmentFlagLive = 0x01"
definition roomAttachmentFlagMask :: byte where "roomAttachmentFlagMask = RoomAttachmentFlagLive"
definition roomParticipantFlagMask :: byte where "roomParticipantFlagMask = 0x01 OR 0x02"

definition RoomEventParticipantJoined :: byte where "RoomEventParticipantJoined = 0x01"
definition RoomEventParticipantLeft :: byte where "RoomEventParticipantLeft = 0x02"
definition RoomEventParticipantUpdated :: byte where "RoomEventParticipantUpdated = 0x03"
definition RoomEventAttachmentAdded :: byte where "RoomEventAttachmentAdded = 0x10"
definition RoomEventAttachmentRemoved :: byte where "RoomEventAttachmentRemoved = 0x11"
definition RoomEventAttachmentUpdated :: byte where "RoomEventAttachmentUpdated = 0x12"
definition RoomEventRoomEnding :: byte where "RoomEventRoomEnding = 0x20"
definition RoomEventCommandRejected :: byte where "RoomEventCommandRejected = 0x30"
definition RoomEventVoiceTicket :: byte where "RoomEventVoiceTicket = 0x50"
definition RoomEventVoiceRosterUpdated :: byte where "RoomEventVoiceRosterUpdated = 0x51"

definition RoomCommandAttach :: byte where "RoomCommandAttach = 0x01"
definition RoomCommandDetach :: byte where "RoomCommandDetach = 0x02"
definition RoomCommandSetNickname :: byte where "RoomCommandSetNickname = 0x03"
definition RoomCommandEndRoom :: byte where "RoomCommandEndRoom = 0x04"
definition RoomCommandResync :: byte where "RoomCommandResync = 0x05"
definition RoomCommandVoiceJoin :: byte where "RoomCommandVoiceJoin = 0x50"

definition roomVoiceRosterFlagMask :: byte where "roomVoiceRosterFlagMask = 0x01"
definition roomVoiceKindMax :: byte where "roomVoiceKindMax = 1"
definition roomVoiceUserFlagMask :: byte where "roomVoiceUserFlagMask = 0x1f"
definition MaxVoiceTicketLen :: nat where "MaxVoiceTicketLen = 512"
definition MaxVoiceNameLen :: nat where "MaxVoiceNameLen = 64"
definition MaxVoiceURLLen :: nat where "MaxVoiceURLLen = 512"
definition MaxVoiceRosterEntries :: nat where "MaxVoiceRosterEntries = 200"

lemmas room_size_defs =
  MaxRoomRecordSize_def MaxRoomNicknameLen_def MaxRoomCodeLen_def MaxRoomDisplayNameLen_def
  MaxRoomLabelLen_def MaxRoomIdentityLen_def MaxRoomRejectMessageLen_def RoomCreatorTokenSize_def
  RoomKeySize_def ResumeTokenSize_def MaxVoiceTicketLen_def MaxVoiceNameLen_def MaxVoiceURLLen_def
  MaxVoiceRosterEntries_def

lemmas event_kind_defs =
  RoomEventParticipantJoined_def RoomEventParticipantLeft_def RoomEventParticipantUpdated_def
  RoomEventAttachmentAdded_def RoomEventAttachmentRemoved_def RoomEventAttachmentUpdated_def
  RoomEventRoomEnding_def RoomEventCommandRejected_def RoomEventVoiceTicket_def
  RoomEventVoiceRosterUpdated_def

lemmas command_kind_defs =
  RoomCommandAttach_def RoomCommandDetach_def RoomCommandSetNickname_def RoomCommandEndRoom_def
  RoomCommandResync_def RoomCommandVoiceJoin_def

subsection \<open>Records\<close>

record RoomHello =
  rh_Protocol :: byte
  rh_ClientKind :: byte
  rh_WantCaps :: byte
  rh_Nickname :: bytes

record RoomAttachment =
  ra_BroadcastID :: bytes
  ra_Label :: bytes
  ra_Live :: bool
  ra_ViewerCount :: u32

record RoomParticipant =
  rp_ID :: u16
  rp_Kind :: byte
  rp_Flags :: byte
  rp_Nickname :: bytes
  rp_Identity :: bytes

record VoiceRosterEntry =
  vr_Session :: u32
  vr_Kind :: byte
  vr_ParticipantID :: u16
  vr_Flags :: byte
  vr_Name :: bytes

record RoomState =
  rs_Flags :: byte
  rs_Caps :: byte
  rs_Seq :: u32
  rs_YourID :: u16
  rs_Code :: bytes
  rs_DisplayName :: bytes
  rs_CreatorToken :: bytes
  rs_Key :: bytes
  rs_Attachments :: "RoomAttachment list"
  rs_Participants :: "RoomParticipant list"

record RoomEvent =
  re_Seq :: u32
  re_Kind :: byte
  re_Participant :: RoomParticipant
  re_Attachment :: RoomAttachment
  re_Reason :: byte
  re_Command :: byte
  re_Message :: bytes
  re_VoiceURL :: bytes
  re_VoiceTicket :: bytes
  re_VoiceFlags :: byte
  re_VoiceRoster :: "VoiceRosterEntry list"

record RoomCommand =
  rc_Kind :: byte
  rc_BroadcastID :: bytes
  rc_ResumeToken :: bytes
  rc_Label :: bytes
  rc_Nickname :: bytes

subsection \<open>Record framing\<close>

definition AppendRoomRecord :: "bytes \<Rightarrow> bytes \<Rightarrow> bytes result" where
  "AppendRoomRecord dst msg =
     (if length msg < 2 \<or> length msg > MaxRoomRecordSize then Inl ErrBadRoomRecord
      else Inr (dst @ be16 (of_nat (length msg)) @ msg))"

definition ParseRoomRecordLength :: "bytes \<Rightarrow> nat result" where
  "ParseRoomRecordLength hdr =
     (if length hdr < RoomRecordHeaderSize then Inl ErrShortDatagram else
      rbind (slice16 hdr 0 2) (\<lambda>w. let n = unat w in
      if n < 2 \<or> n > MaxRoomRecordSize then Inl ErrBadRoomRecord else Inr n))"

subsection \<open>Shared fields\<close>

definition appendStr8 :: "bytes \<Rightarrow> bytes \<Rightarrow> nat \<Rightarrow> wire_error \<Rightarrow> bytes result" where
  "appendStr8 dst s lim sentinel =
     (if length s > lim then Inl sentinel
      else if \<not> utf8_valid s then Inl sentinel
      else Inr (dst @ [of_nat (length s)] @ s))"

definition appendBroadcastID :: "bytes \<Rightarrow> bytes \<Rightarrow> wire_error \<Rightarrow> bytes result" where
  "appendBroadcastID dst bid sentinel =
     (case Normalize bid of
        Inl _ \<Rightarrow> Inl sentinel
      | Inr norm \<Rightarrow> Inr (dst @ [of_nat (length norm)] @ norm))"

definition appendRoomAttachment :: "bytes \<Rightarrow> RoomAttachment \<Rightarrow> wire_error \<Rightarrow> bytes result" where
  "appendRoomAttachment dst a sentinel =
     rbind (appendBroadcastID dst (ra_BroadcastID a) sentinel) (\<lambda>dst.
     rbind (appendStr8 dst (ra_Label a) MaxRoomLabelLen sentinel) (\<lambda>dst.
     let flags = bool_flag (ra_Live a) RoomAttachmentFlagLive in
     Inr (dst @ [flags] @ be32 (ra_ViewerCount a))))"

definition attachment :: "wire_error \<Rightarrow> RoomAttachment reader" where
  "attachment sentinel = do {
     bid \<leftarrow> broadcastID sentinel;
     label \<leftarrow> str8 sentinel MaxRoomLabelLen;
     flags \<leftarrow> u8 sentinel;
     _ \<leftarrow> fail_if (flags AND NOT roomAttachmentFlagMask \<noteq> 0) sentinel;
     n \<leftarrow> u32_field sentinel;
     State_Monad.return \<lparr>ra_BroadcastID = bid, ra_Label = label,
       ra_Live = (flags AND RoomAttachmentFlagLive \<noteq> 0), ra_ViewerCount = n\<rparr> }"

definition appendRoomParticipant :: "bytes \<Rightarrow> RoomParticipant \<Rightarrow> wire_error \<Rightarrow> bytes result" where
  "appendRoomParticipant dst p sentinel =
     (if rp_Kind p > roomClientKindMax then Inl sentinel
      else if rp_Flags p AND NOT roomParticipantFlagMask \<noteq> 0 then Inl sentinel
      else rbind (appendStr8 (dst @ be16 (rp_ID p) @ [rp_Kind p, rp_Flags p]) (rp_Nickname p)
                    MaxRoomNicknameLen sentinel) (\<lambda>dst.
           appendStr8 dst (rp_Identity p) MaxRoomIdentityLen sentinel))"

definition participant :: "wire_error \<Rightarrow> RoomParticipant reader" where
  "participant sentinel = do {
     pid \<leftarrow> u16_field sentinel;
     kind \<leftarrow> u8 sentinel;
     _ \<leftarrow> fail_if (kind > roomClientKindMax) sentinel;
     flags \<leftarrow> u8 sentinel;
     _ \<leftarrow> fail_if (flags AND NOT roomParticipantFlagMask \<noteq> 0) sentinel;
     nick \<leftarrow> str8 sentinel MaxRoomNicknameLen;
     ident \<leftarrow> str8 sentinel MaxRoomIdentityLen;
     State_Monad.return \<lparr>rp_ID = pid, rp_Kind = kind, rp_Flags = flags, rp_Nickname = nick,
       rp_Identity = ident\<rparr> }"

text \<open>One entry of the voice roster, as the loop bodies of the event codec treat it.\<close>

definition append_roster_entry :: "bytes \<Rightarrow> VoiceRosterEntry \<Rightarrow> bytes result" where
  "append_roster_entry dst v =
     (if vr_Kind v > roomVoiceKindMax then Inl ErrBadRoomEvent
      else if vr_Flags v AND NOT roomVoiceUserFlagMask \<noteq> 0 then Inl ErrBadRoomEvent
      else appendStr8 (dst @ be32 (vr_Session v) @ [vr_Kind v] @ be16 (vr_ParticipantID v) @ [vr_Flags v])
             (vr_Name v) MaxVoiceNameLen ErrBadRoomEvent)"

definition roster_entry :: "VoiceRosterEntry reader" where
  "roster_entry = do {
     session \<leftarrow> u32_field ErrBadRoomEvent;
     kind \<leftarrow> u8 ErrBadRoomEvent;
     _ \<leftarrow> fail_if (kind > roomVoiceKindMax) ErrBadRoomEvent;
     pid \<leftarrow> u16_field ErrBadRoomEvent;
     flags \<leftarrow> u8 ErrBadRoomEvent;
     _ \<leftarrow> fail_if (flags AND NOT roomVoiceUserFlagMask \<noteq> 0) ErrBadRoomEvent;
     name \<leftarrow> str8 ErrBadRoomEvent MaxVoiceNameLen;
     State_Monad.return \<lparr>vr_Session = session, vr_Kind = kind, vr_ParticipantID = pid,
       vr_Flags = flags, vr_Name = name\<rparr> }"

subsection \<open>The shared fields meet their contract\<close>

lemma appendStr8_eq: "appendStr8 dst s lim e = (if str_ok lim s then Inr (dst @ enc_str8 s) else Inl e)"
  by (auto simp: appendStr8_def str_ok_def enc_str8_def)

lemma appendBroadcastID_eq:
  "appendBroadcastID dst bid e =
     (if valid_id (ToUpper bid) then Inr (dst @ enc_str8 (ToUpper bid)) else Inl e)"
proof (cases "Normalize bid")
  case (Inl er)
  then show ?thesis using Normalize_error [OF Inl] by (simp add: appendBroadcastID_def)
next
  case (Inr n)
  then have "n = ToUpper bid" "valid_id n" unfolding Normalize_Inr_iff by auto
  with Inr show ?thesis by (simp add: appendBroadcastID_def enc_str8_def)
qed

lemma p_broadcastID_valid: "p_broadcastID e s = Inr (bid, r) \<Longrightarrow> valid_id bid"
  by (auto simp: p_broadcastID_accepts Normalize_Inr_iff)

lemma p_broadcastID_enc: "valid_id bid \<Longrightarrow> p_broadcastID e (enc_str8 bid @ r) = Inr (bid, r)"
  by (auto simp: p_broadcastID_accepts enc_str8_def valid_id_length Length_def intro!: exI [of _ bid])

lemmas p_broadcastID_steps [steps] = p_broadcastID_enc p_broadcastID_enc [where r = "[]", simplified]

lemma live_flag_iff:
  "flags AND NOT roomAttachmentFlagMask = 0 \<and> b = (flags AND RoomAttachmentFlagLive \<noteq> 0) \<longleftrightarrow>
     flags = bool_flag b RoomAttachmentFlagLive"
proof -
  have "flags AND NOT 1 = 0 \<Longrightarrow> flags = 0 \<or> flags = 1" by (rule single_flag_cases)
  then show ?thesis
    by (auto simp: roomAttachmentFlagMask_def RoomAttachmentFlagLive_def bool_flag_def)
qed

definition enc_attachment :: "RoomAttachment \<Rightarrow> bytes" where
  "enc_attachment a = enc_str8 (ToUpper (ra_BroadcastID a)) @ enc_str8 (ra_Label a)
     @ [bool_flag (ra_Live a) RoomAttachmentFlagLive] @ be32 (ra_ViewerCount a)"

definition attachment_ok :: "RoomAttachment \<Rightarrow> bool" where
  "attachment_ok a \<longleftrightarrow> valid_id (ToUpper (ra_BroadcastID a)) \<and> str_ok MaxRoomLabelLen (ra_Label a)"

definition attachment_normal :: "RoomAttachment \<Rightarrow> bool" where
  "attachment_normal a \<longleftrightarrow> valid_id (ra_BroadcastID a)"

definition p_attachment :: "wire_error \<Rightarrow> RoomAttachment parser" where
  "p_attachment e =
     p_bind (p_broadcastID e) (\<lambda>bid.
     p_bind (p_str8 e MaxRoomLabelLen) (\<lambda>label.
     p_bind (p_u8 e) (\<lambda>flags.
     p_bind (p_check (flags AND NOT roomAttachmentFlagMask \<noteq> 0) e) (\<lambda>_.
     p_bind (p_u32 e) (\<lambda>n.
     p_return \<lparr>ra_BroadcastID = bid, ra_Label = label,
       ra_Live = (flags AND RoomAttachmentFlagLive \<noteq> 0), ra_ViewerCount = n\<rparr>)))))"

lemma p_attachment_accepts:
  "p_attachment e s = Inr (a, r) \<longleftrightarrow>
     (\<exists>s'. p_broadcastID e s = Inr (ra_BroadcastID a, s') \<and> str_ok MaxRoomLabelLen (ra_Label a) \<and>
       s' = enc_str8 (ra_Label a) @ [bool_flag (ra_Live a) RoomAttachmentFlagLive]
            @ be32 (ra_ViewerCount a) @ r)"
proof -
  have "p_attachment e s = Inr (a, r) \<longleftrightarrow>
     (\<exists>s' flags. p_broadcastID e s = Inr (ra_BroadcastID a, s') \<and> str_ok MaxRoomLabelLen (ra_Label a) \<and>
       s' = enc_str8 (ra_Label a) @ [flags] @ be32 (ra_ViewerCount a) @ r \<and>
       flags AND NOT roomAttachmentFlagMask = 0 \<and> ra_Live a = (flags AND RoomAttachmentFlagLive \<noteq> 0))"
    by (cases a) (auto simp: p_attachment_def accepts MaxRoomLabelLen_def, blast)
  then show ?thesis unfolding live_flag_iff by auto
qed

interpretation attachment: record_field e "\<lambda>dst a. appendRoomAttachment dst a e" "attachment e"
  "p_attachment e" enc_attachment attachment_ok attachment_normal for e
proof
  show "refines (attachment e) (p_attachment e)"
    unfolding attachment_def p_attachment_def by (intro refine_rules)
  show "only_fails e (p_attachment e)"
    unfolding p_attachment_def by (intro fail_rules)
  show "attachment_ok x \<Longrightarrow> attachment_normal x \<Longrightarrow> p_attachment e (enc_attachment x @ r) = Inr (x, r)" for x r
    by (auto simp: p_attachment_accepts enc_attachment_def attachment_ok_def attachment_normal_def
        p_broadcastID_enc)
  show "p_attachment e s = Inr (x, r) \<Longrightarrow> attachment_ok x \<and> attachment_normal x" for s x r
    by (auto simp: p_attachment_accepts attachment_ok_def attachment_normal_def dest: p_broadcastID_valid)
  show "appendRoomAttachment dst x e = (if attachment_ok x then Inr (dst @ enc_attachment x) else Inl e)" for dst x
    by (simp add: appendRoomAttachment_def appendBroadcastID_eq appendStr8_eq attachment_ok_def
        enc_attachment_def Let_def)
qed

definition enc_participant :: "RoomParticipant \<Rightarrow> bytes" where
  "enc_participant p = be16 (rp_ID p) @ [rp_Kind p, rp_Flags p] @ enc_str8 (rp_Nickname p)
     @ enc_str8 (rp_Identity p)"

definition participant_ok :: "RoomParticipant \<Rightarrow> bool" where
  "participant_ok p \<longleftrightarrow> rp_Kind p \<le> roomClientKindMax \<and> rp_Flags p AND NOT roomParticipantFlagMask = 0
     \<and> str_ok MaxRoomNicknameLen (rp_Nickname p) \<and> str_ok MaxRoomIdentityLen (rp_Identity p)"

definition p_participant :: "wire_error \<Rightarrow> RoomParticipant parser" where
  "p_participant e =
     p_bind (p_u16 e) (\<lambda>pid.
     p_bind (p_u8 e) (\<lambda>kind.
     p_bind (p_check (kind > roomClientKindMax) e) (\<lambda>_.
     p_bind (p_u8 e) (\<lambda>flags.
     p_bind (p_check (flags AND NOT roomParticipantFlagMask \<noteq> 0) e) (\<lambda>_.
     p_bind (p_str8 e MaxRoomNicknameLen) (\<lambda>nick.
     p_bind (p_str8 e MaxRoomIdentityLen) (\<lambda>ident.
     p_return \<lparr>rp_ID = pid, rp_Kind = kind, rp_Flags = flags, rp_Nickname = nick,
       rp_Identity = ident\<rparr>)))))))"

lemma p_participant_accepts:
  "p_participant e s = Inr (p, r) \<longleftrightarrow> participant_ok p \<and> s = enc_participant p @ r"
  by (cases p) (auto simp: p_participant_def accepts participant_ok_def enc_participant_def
      MaxRoomNicknameLen_def MaxRoomIdentityLen_def not_less)

interpretation participant: exact_field e "\<lambda>dst p. appendRoomParticipant dst p e" "participant e"
  "p_participant e" enc_participant participant_ok "\<lambda>_. True" for e
proof
  show "refines (participant e) (p_participant e)"
    unfolding participant_def p_participant_def by (intro refine_rules)
  show "only_fails e (p_participant e)"
    unfolding p_participant_def by (intro fail_rules)
  show "appendRoomParticipant dst x e = (if participant_ok x then Inr (dst @ enc_participant x) else Inl e)" for dst x
    by (auto simp: appendRoomParticipant_def appendStr8_eq participant_ok_def enc_participant_def)
qed (auto simp: p_participant_accepts)

definition enc_roster_entry :: "VoiceRosterEntry \<Rightarrow> bytes" where
  "enc_roster_entry v = be32 (vr_Session v) @ [vr_Kind v] @ be16 (vr_ParticipantID v) @ [vr_Flags v]
     @ enc_str8 (vr_Name v)"

definition roster_entry_ok :: "VoiceRosterEntry \<Rightarrow> bool" where
  "roster_entry_ok v \<longleftrightarrow> vr_Kind v \<le> roomVoiceKindMax \<and> vr_Flags v AND NOT roomVoiceUserFlagMask = 0
     \<and> str_ok MaxVoiceNameLen (vr_Name v)"

definition p_roster_entry :: "VoiceRosterEntry parser" where
  "p_roster_entry =
     p_bind (p_u32 ErrBadRoomEvent) (\<lambda>session.
     p_bind (p_u8 ErrBadRoomEvent) (\<lambda>kind.
     p_bind (p_check (kind > roomVoiceKindMax) ErrBadRoomEvent) (\<lambda>_.
     p_bind (p_u16 ErrBadRoomEvent) (\<lambda>pid.
     p_bind (p_u8 ErrBadRoomEvent) (\<lambda>flags.
     p_bind (p_check (flags AND NOT roomVoiceUserFlagMask \<noteq> 0) ErrBadRoomEvent) (\<lambda>_.
     p_bind (p_str8 ErrBadRoomEvent MaxVoiceNameLen) (\<lambda>name.
     p_return \<lparr>vr_Session = session, vr_Kind = kind, vr_ParticipantID = pid, vr_Flags = flags,
       vr_Name = name\<rparr>)))))))"

lemma p_roster_entry_accepts:
  "p_roster_entry s = Inr (v, r) \<longleftrightarrow> roster_entry_ok v \<and> s = enc_roster_entry v @ r"
  by (cases v) (auto simp: p_roster_entry_def accepts roster_entry_ok_def enc_roster_entry_def
      MaxVoiceNameLen_def not_less)

interpretation roster: exact_field ErrBadRoomEvent append_roster_entry roster_entry p_roster_entry
  enc_roster_entry roster_entry_ok "\<lambda>_. True"
proof
  show "refines roster_entry p_roster_entry"
    unfolding roster_entry_def p_roster_entry_def by (intro refine_rules)
  show "only_fails ErrBadRoomEvent p_roster_entry"
    unfolding p_roster_entry_def by (intro fail_rules)
  show "append_roster_entry dst x =
      (if roster_entry_ok x then Inr (dst @ enc_roster_entry x) else Inl ErrBadRoomEvent)" for dst x
    by (auto simp: append_roster_entry_def appendStr8_eq roster_entry_ok_def enc_roster_entry_def)
qed (auto simp: p_roster_entry_accepts)

subsection \<open>RoomHello (0x13)\<close>

definition AppendRoomHello :: "bytes \<Rightarrow> RoomHello \<Rightarrow> bytes result" where
  "AppendRoomHello dst h =
     (if rh_Protocol h \<noteq> RoomProtocolVersion then Inl ErrBadRoomHello
      else if rh_ClientKind h > roomClientKindMax then Inl ErrBadRoomHello
      else if rh_WantCaps h AND NOT roomCapMask \<noteq> 0 then Inl ErrBadRoomHello
      else appendStr8 (dst @ [Version, TypeRoomHello, rh_Protocol h, rh_ClientKind h, rh_WantCaps h])
             (rh_Nickname h) MaxRoomNicknameLen ErrBadRoomHello)"

definition room_hello :: "RoomHello reader" where
  "room_hello = do {
     protocol \<leftarrow> u8 ErrBadRoomHello;
     _ \<leftarrow> fail_if (protocol \<noteq> RoomProtocolVersion) ErrBadRoomHello;
     kind \<leftarrow> u8 ErrBadRoomHello;
     _ \<leftarrow> fail_if (kind > roomClientKindMax) ErrBadRoomHello;
     caps \<leftarrow> u8 ErrBadRoomHello;
     _ \<leftarrow> fail_if (caps AND NOT roomCapMask \<noteq> 0) ErrBadRoomHello;
     nick \<leftarrow> str8 ErrBadRoomHello MaxRoomNicknameLen;
     State_Monad.return \<lparr>rh_Protocol = protocol, rh_ClientKind = kind, rh_WantCaps = caps,
       rh_Nickname = nick\<rparr> }"

definition ParseRoomHello :: "bytes \<Rightarrow> RoomHello result" where
  "ParseRoomHello msg =
     rbind (checkPrefix msg TypeRoomHello 6) (\<lambda>_. read_record ErrBadRoomHello room_hello msg)"

definition p_room_hello :: "RoomHello parser" where
  "p_room_hello =
     p_bind (p_u8 ErrBadRoomHello) (\<lambda>protocol.
     p_bind (p_check (protocol \<noteq> RoomProtocolVersion) ErrBadRoomHello) (\<lambda>_.
     p_bind (p_u8 ErrBadRoomHello) (\<lambda>kind.
     p_bind (p_check (kind > roomClientKindMax) ErrBadRoomHello) (\<lambda>_.
     p_bind (p_u8 ErrBadRoomHello) (\<lambda>caps.
     p_bind (p_check (caps AND NOT roomCapMask \<noteq> 0) ErrBadRoomHello) (\<lambda>_.
     p_bind (p_str8 ErrBadRoomHello MaxRoomNicknameLen) (\<lambda>nick.
     p_return \<lparr>rh_Protocol = protocol, rh_ClientKind = kind, rh_WantCaps = caps,
       rh_Nickname = nick\<rparr>)))))))"

lemma room_hello_refines: "refines room_hello p_room_hello" "only_fails ErrBadRoomHello p_room_hello"
  unfolding room_hello_def p_room_hello_def by (intro refine_rules, intro fail_rules)

lemma p_room_hello_accepts:
  "p_room_hello s = Inr (h, r) \<longleftrightarrow>
     rh_Protocol h = RoomProtocolVersion \<and> rh_ClientKind h \<le> roomClientKindMax \<and>
     rh_WantCaps h AND NOT roomCapMask = 0 \<and> str_ok MaxRoomNicknameLen (rh_Nickname h) \<and>
     s = [rh_Protocol h, rh_ClientKind h, rh_WantCaps h] @ enc_str8 (rh_Nickname h) @ r"
  by (cases h) (auto simp: p_room_hello_def accepts MaxRoomNicknameLen_def not_less)

lemma ParseRoomHello_iff: "ParseRoomHello m = Inr h \<longleftrightarrow> AppendRoomHello [] h = Inr m"
  unfolding ParseRoomHello_def record_Inr_iff [OF room_hello_refines(1)] p_room_hello_accepts
  by (auto simp: AppendRoomHello_def appendStr8_eq enc_str8_def not_less)

lemma AppendRoomHello_prefix: "AppendRoomHello [] h = Inr m \<Longrightarrow> \<exists>r. m = Version # TypeRoomHello # r"
  by (auto simp: AppendRoomHello_def appendStr8_eq split: if_splits)

interpretation RoomHello: strict_codec TypeRoomHello "AppendRoomHello []" ParseRoomHello "\<lambda>_. True"
proof
  show "ParseRoomHello m \<noteq> Inl RuntimePanic" for m
    unfolding ParseRoomHello_def by (rule record_no_panic [OF room_hello_refines]) simp_all
qed (auto simp: ParseRoomHello_iff dest: AppendRoomHello_prefix)

subsection \<open>RoomState (0x14)\<close>

definition AppendRoomState :: "bytes \<Rightarrow> RoomState \<Rightarrow> bytes result" where
  "AppendRoomState dst s =
     (if rs_Flags s AND NOT roomStateFlagMask \<noteq> 0 then Inl ErrBadRoomState
      else if rs_Caps s AND NOT roomCapMask \<noteq> 0 then Inl ErrBadRoomState
      else if length (rs_Code s) = 0 then Inl ErrBadRoomState
      else if length (rs_CreatorToken s) \<noteq> 0 \<and> length (rs_CreatorToken s) \<noteq> RoomCreatorTokenSize
        then Inl ErrBadRoomState
      else if length (rs_Key s) \<noteq> 0 \<and> length (rs_Key s) \<noteq> RoomKeySize then Inl ErrBadRoomState
      else if length (rs_Attachments s) > 255 then Inl ErrBadRoomState
      else if length (rs_Participants s) > 65535 then Inl ErrBadRoomState
      else rbind (appendStr8 (dst @ [Version, TypeRoomState, rs_Flags s, rs_Caps s]
                    @ be32 (rs_Seq s) @ be16 (rs_YourID s)) (rs_Code s) MaxRoomCodeLen ErrBadRoomState) (\<lambda>dst.
           rbind (appendStr8 dst (rs_DisplayName s) MaxRoomDisplayNameLen ErrBadRoomState) (\<lambda>dst.
           let dst = dst @ [of_nat (length (rs_CreatorToken s))] @ rs_CreatorToken s
                     @ [of_nat (length (rs_Key s))] @ rs_Key s @ [of_nat (length (rs_Attachments s))] in
           rbind (frame_all (\<lambda>dst a. appendRoomAttachment dst a ErrBadRoomState) dst (rs_Attachments s)) (\<lambda>dst.
           let dst = dst @ be16 (of_nat (length (rs_Participants s))) in
           rbind (frame_all (\<lambda>dst p. appendRoomParticipant dst p ErrBadRoomState) dst (rs_Participants s)) (\<lambda>dst.
           if length dst > MaxRoomRecordSize then Inl ErrBadRoomState else Inr dst)))))"

definition room_state :: "RoomState reader" where
  "room_state = do {
     flags \<leftarrow> u8 ErrBadRoomState;
     _ \<leftarrow> fail_if (flags AND NOT roomStateFlagMask \<noteq> 0) ErrBadRoomState;
     caps \<leftarrow> u8 ErrBadRoomState;
     _ \<leftarrow> fail_if (caps AND NOT roomCapMask \<noteq> 0) ErrBadRoomState;
     sq \<leftarrow> u32_field ErrBadRoomState;
     your \<leftarrow> u16_field ErrBadRoomState;
     code \<leftarrow> str8 ErrBadRoomState MaxRoomCodeLen;
     _ \<leftarrow> fail_if (code = []) ErrBadRoomState;
     name \<leftarrow> str8 ErrBadRoomState MaxRoomDisplayNameLen;
     tok \<leftarrow> bytes8 ErrBadRoomState RoomCreatorTokenSize;
     _ \<leftarrow> fail_if (length tok \<noteq> 0 \<and> length tok \<noteq> RoomCreatorTokenSize) ErrBadRoomState;
     key \<leftarrow> bytes8 ErrBadRoomState RoomKeySize;
     _ \<leftarrow> fail_if (length key \<noteq> 0 \<and> length key \<noteq> RoomKeySize) ErrBadRoomState;
     n \<leftarrow> u8 ErrBadRoomState;
     atts \<leftarrow> read_loop (attachment ErrBadRoomState) (unat n);
     m \<leftarrow> u16_field ErrBadRoomState;
     parts \<leftarrow> read_loop (participant ErrBadRoomState) (unat m);
     State_Monad.return \<lparr>rs_Flags = flags, rs_Caps = caps, rs_Seq = sq, rs_YourID = your,
       rs_Code = code, rs_DisplayName = name, rs_CreatorToken = tok, rs_Key = key,
       rs_Attachments = atts, rs_Participants = parts\<rparr> }"

definition ParseRoomState :: "bytes \<Rightarrow> RoomState result" where
  "ParseRoomState msg =
     rbind (checkPrefix msg TypeRoomState 16) (\<lambda>_. read_record ErrBadRoomState room_state msg)"

definition p_room_state :: "RoomState parser" where
  "p_room_state =
     p_bind (p_u8 ErrBadRoomState) (\<lambda>flags.
     p_bind (p_check (flags AND NOT roomStateFlagMask \<noteq> 0) ErrBadRoomState) (\<lambda>_.
     p_bind (p_u8 ErrBadRoomState) (\<lambda>caps.
     p_bind (p_check (caps AND NOT roomCapMask \<noteq> 0) ErrBadRoomState) (\<lambda>_.
     p_bind (p_u32 ErrBadRoomState) (\<lambda>sq.
     p_bind (p_u16 ErrBadRoomState) (\<lambda>your.
     p_bind (p_str8 ErrBadRoomState MaxRoomCodeLen) (\<lambda>code.
     p_bind (p_check (code = []) ErrBadRoomState) (\<lambda>_.
     p_bind (p_str8 ErrBadRoomState MaxRoomDisplayNameLen) (\<lambda>name.
     p_bind (p_bytes8 ErrBadRoomState RoomCreatorTokenSize) (\<lambda>tok.
     p_bind (p_check (length tok \<noteq> 0 \<and> length tok \<noteq> RoomCreatorTokenSize) ErrBadRoomState) (\<lambda>_.
     p_bind (p_bytes8 ErrBadRoomState RoomKeySize) (\<lambda>key.
     p_bind (p_check (length key \<noteq> 0 \<and> length key \<noteq> RoomKeySize) ErrBadRoomState) (\<lambda>_.
     p_bind (p_u8 ErrBadRoomState) (\<lambda>n.
     p_bind (p_loop (p_attachment ErrBadRoomState) (unat n)) (\<lambda>atts.
     p_bind (p_u16 ErrBadRoomState) (\<lambda>m.
     p_bind (p_loop (p_participant ErrBadRoomState) (unat m)) (\<lambda>parts.
     p_return \<lparr>rs_Flags = flags, rs_Caps = caps, rs_Seq = sq, rs_YourID = your,
       rs_Code = code, rs_DisplayName = name, rs_CreatorToken = tok, rs_Key = key,
       rs_Attachments = atts, rs_Participants = parts\<rparr>)))))))))))))))))"

lemma room_state_refines: "refines room_state p_room_state" "only_fails ErrBadRoomState p_room_state"
  unfolding room_state_def p_room_state_def
  by (intro refine_rules attachment.implements participant.implements,
      intro fail_rules attachment.fails participant.fails)

definition enc_room_state :: "RoomState \<Rightarrow> bytes" where
  "enc_room_state s = [rs_Flags s, rs_Caps s] @ be32 (rs_Seq s) @ be16 (rs_YourID s)
     @ enc_str8 (rs_Code s) @ enc_str8 (rs_DisplayName s)
     @ [of_nat (length (rs_CreatorToken s))] @ rs_CreatorToken s
     @ [of_nat (length (rs_Key s))] @ rs_Key s
     @ [of_nat (length (rs_Attachments s))] @ concat (map enc_attachment (rs_Attachments s))
     @ be16 (of_nat (length (rs_Participants s))) @ concat (map enc_participant (rs_Participants s))"

definition room_state_ok :: "RoomState \<Rightarrow> bool" where
  "room_state_ok s \<longleftrightarrow> rs_Flags s AND NOT roomStateFlagMask = 0 \<and> rs_Caps s AND NOT roomCapMask = 0
     \<and> rs_Code s \<noteq> [] \<and> str_ok MaxRoomCodeLen (rs_Code s) \<and> str_ok MaxRoomDisplayNameLen (rs_DisplayName s)
     \<and> (length (rs_CreatorToken s) = 0 \<or> length (rs_CreatorToken s) = RoomCreatorTokenSize)
     \<and> (length (rs_Key s) = 0 \<or> length (rs_Key s) = RoomKeySize)
     \<and> length (rs_Attachments s) \<le> 255 \<and> length (rs_Participants s) \<le> 65535
     \<and> (\<forall>a \<in> set (rs_Attachments s). attachment_ok a) \<and> (\<forall>p \<in> set (rs_Participants s). participant_ok p)"

lemma AppendRoomState_eq:
  "AppendRoomState dst s =
     (if room_state_ok s \<and> length dst + 2 + length (enc_room_state s) \<le> MaxRoomRecordSize
      then Inr (dst @ [Version, TypeRoomState] @ enc_room_state s) else Inl ErrBadRoomState)"
  by (auto simp: AppendRoomState_def Let_def appendStr8_eq attachment.append_all participant.append_all
      room_state_ok_def enc_room_state_def)

lemma p_room_state_complete:
  assumes "room_state_ok s" "\<forall>a \<in> set (rs_Attachments s). attachment_normal a"
  shows "p_room_state (enc_room_state s @ r) = Inr (s, r)"
proof -
  have loops:
    "p_loop (p_attachment ErrBadRoomState) (length (rs_Attachments s))
       (concat (map enc_attachment (rs_Attachments s)) @ t) = Inr (rs_Attachments s, t)"
    "p_loop (p_participant ErrBadRoomState) (length (rs_Participants s))
       (concat (map enc_participant (rs_Participants s)) @ t) = Inr (rs_Participants s, t)" for t
    using assms by (auto intro!: attachment.loop_complete participant.loop_complete simp: room_state_ok_def)
  have cnt: "unat (of_nat (length (rs_Attachments s)) :: byte) = length (rs_Attachments s)"
    "unat (of_nat (length (rs_Participants s)) :: u16) = length (rs_Participants s)"
    using assms(1) by (auto simp: room_state_ok_def unat_of_nat_byte unat_of_nat_u16)
  have tok: "length (rs_CreatorToken s) \<le> RoomCreatorTokenSize" "length (rs_Key s) \<le> RoomKeySize"
    using assms(1) by (auto simp: room_state_ok_def)
  then have small: "unat (of_nat (length (rs_CreatorToken s)) :: byte) = length (rs_CreatorToken s)"
    "unat (of_nat (length (rs_Key s)) :: byte) = length (rs_Key s)"
    by (simp_all add: unat_of_nat_byte room_size_defs)
  show ?thesis
    using assms(1) tok small unfolding p_room_state_def enc_room_state_def room_state_ok_def
    by (simp add: steps loops cnt room_size_defs)
qed

lemma p_room_state_sound:
  assumes "p_room_state s = Inr (x, r)"
  shows "room_state_ok x \<and> (\<forall>a \<in> set (rs_Attachments x). attachment_normal a)"
  using assms unfolding p_room_state_def room_state_ok_def
  by (auto simp: accepts room_size_defs unat_byte_le unat_u16_le
      dest!: attachment.loop_sound participant.loop_sound)

interpretation RoomState: wire_codec TypeRoomState "AppendRoomState []" ParseRoomState
  "\<lambda>s. \<forall>a \<in> set (rs_Attachments s). attachment_normal a"
proof
  show "ParseRoomState m \<noteq> Inl RuntimePanic" for m
    unfolding ParseRoomState_def by (rule record_no_panic [OF room_state_refines]) simp_all
  show "ParseRoomState m = Inr x"
    if "\<forall>a \<in> set (rs_Attachments x). attachment_normal a" "AppendRoomState [] x = Inr m" for x m
  proof -
    have ok: "room_state_ok x" and m: "m = Version # TypeRoomState # enc_room_state x"
      using that(2) by (auto simp: AppendRoomState_eq split: if_splits)
    have "16 \<le> length m" using ok by (cases "rs_Code x") (auto simp: m enc_room_state_def enc_str8_def room_state_ok_def)
    then show ?thesis
      unfolding ParseRoomState_def record_Inr_iff [OF room_state_refines(1)]
      using p_room_state_complete [OF ok that(1), of "[]"] m by simp
  qed
qed (auto simp: AppendRoomState_eq ParseRoomState_def record_Inr_iff [OF room_state_refines(1)] split: if_splits)

lemma ParseRoomState_ok:
  "ParseRoomState m = Inr s \<Longrightarrow> room_state_ok s \<and> (\<forall>a \<in> set (rs_Attachments s). attachment_normal a)"
  unfolding ParseRoomState_def record_Inr_iff [OF room_state_refines(1)]
  by (auto dest: p_room_state_sound)

text \<open>The encoder upper-cases broadcast IDs; the parser returns them so.\<close>

definition canon_attachment :: "RoomAttachment \<Rightarrow> RoomAttachment" where
  "canon_attachment a = a\<lparr>ra_BroadcastID := ToUpper (ra_BroadcastID a)\<rparr>"

lemma canon_attachment:
  assumes "attachment_ok a"
  shows "attachment_ok (canon_attachment a)" "attachment_normal (canon_attachment a)"
    "enc_attachment (canon_attachment a) = enc_attachment a"
  using assms by (auto simp: attachment_ok_def attachment_normal_def enc_attachment_def canon_attachment_def)

lemma RoomState_parse_encoded:
  "rbind (AppendRoomState [] s) ParseRoomState =
     rbind (AppendRoomState [] s) (\<lambda>_. Inr (s\<lparr>rs_Attachments := map canon_attachment (rs_Attachments s)\<rparr>))"
proof (cases "AppendRoomState [] s")
  case (Inr m)
  let ?s = "s\<lparr>rs_Attachments := map canon_attachment (rs_Attachments s)\<rparr>"
  have ok: "room_state_ok s" using Inr by (auto simp: AppendRoomState_eq split: if_splits)
  then have att: "\<forall>a \<in> set (rs_Attachments s). attachment_ok a" by (simp add: room_state_ok_def)
  have "map enc_attachment (map canon_attachment (rs_Attachments s)) = map enc_attachment (rs_Attachments s)"
    using att by (auto simp: canon_attachment)
  then have "enc_room_state ?s = enc_room_state s" by (simp add: enc_room_state_def del: map_map)
  moreover have "room_state_ok ?s" using ok att by (auto simp: room_state_ok_def canon_attachment)
  ultimately have "AppendRoomState [] ?s = Inr m" using Inr by (auto simp: AppendRoomState_eq split: if_splits)
  moreover have "\<forall>a \<in> set (rs_Attachments ?s). attachment_normal a" using att by (auto simp: canon_attachment)
  ultimately show ?thesis using Inr RoomState.roundtrip [of ?s m] by simp
qed simp

end
