(* ===== verification/RoomMessages.thy ===== *)
theory RoomMessages
  imports RoomWire
begin

section \<open>Room commands, events and record framing (\<^verbatim>\<open>gawk-server/wire/room.go\<close>)\<close>

text \<open>
  The two records whose payload depends on a kind byte.  Their parsers return the
  record together with the error, because an unknown kind is reported with the
  fields read so far filled in; \<open>go_result\<close> forgets them.
\<close>

definition go_result :: "'a \<times> wire_error option \<Rightarrow> 'a result" where
  "go_result = (\<lambda>(x, e). case e of None \<Rightarrow> Inr x | Some e \<Rightarrow> Inl e)"

lemma go_result_simps [simp]: "go_result (x, None) = Inr x" "go_result (x, Some e) = Inl e"
  by (simp_all add: go_result_def)

subsection \<open>RoomCommand (0x16)\<close>

definition zero_command :: RoomCommand where
  "zero_command = \<lparr>rc_Kind = 0, rc_BroadcastID = [], rc_ResumeToken = [], rc_Label = [], rc_Nickname = []\<rparr>"

definition AppendRoomCommand :: "bytes \<Rightarrow> RoomCommand \<Rightarrow> bytes result" where
  "AppendRoomCommand dst c =
     (let dst = dst @ [Version, TypeRoomCommand, rc_Kind c] in
      if rc_Kind c = RoomCommandAttach then
        (if length (rc_ResumeToken c) \<noteq> ResumeTokenSize then Inl ErrBadRoomCommand
         else rbind (appendBroadcastID dst (rc_BroadcastID c) ErrBadRoomCommand) (\<lambda>dst.
              appendStr8 (dst @ [of_nat (length (rc_ResumeToken c))] @ rc_ResumeToken c)
                (rc_Label c) MaxRoomLabelLen ErrBadRoomCommand))
      else if rc_Kind c = RoomCommandDetach then
        appendBroadcastID dst (rc_BroadcastID c) ErrBadRoomCommand
      else if rc_Kind c = RoomCommandSetNickname then
        appendStr8 dst (rc_Nickname c) MaxRoomNicknameLen ErrBadRoomCommand
      else if rc_Kind c = RoomCommandEndRoom \<or> rc_Kind c = RoomCommandResync
              \<or> rc_Kind c = RoomCommandVoiceJoin then Inr dst
      else Inl ErrUnknownRoomKind)"

text \<open>The cases of the parser's switch; no reader for a kind it does not know.\<close>

definition command_fields :: "byte \<Rightarrow> RoomCommand reader option" where
  "command_fields kind =
     (if kind = RoomCommandAttach then Some (do {
        bid \<leftarrow> broadcastID ErrBadRoomCommand;
        tok \<leftarrow> bytes8 ErrBadRoomCommand ResumeTokenSize;
        _ \<leftarrow> fail_if (length tok \<noteq> ResumeTokenSize) ErrBadRoomCommand;
        label \<leftarrow> str8 ErrBadRoomCommand MaxRoomLabelLen;
        State_Monad.return (zero_command\<lparr>rc_Kind := kind, rc_BroadcastID := bid,
          rc_ResumeToken := tok, rc_Label := label\<rparr>) })
      else if kind = RoomCommandDetach then Some (do {
        bid \<leftarrow> broadcastID ErrBadRoomCommand;
        State_Monad.return (zero_command\<lparr>rc_Kind := kind, rc_BroadcastID := bid\<rparr>) })
      else if kind = RoomCommandSetNickname then Some (do {
        nick \<leftarrow> str8 ErrBadRoomCommand MaxRoomNicknameLen;
        State_Monad.return (zero_command\<lparr>rc_Kind := kind, rc_Nickname := nick\<rparr>) })
      else if kind = RoomCommandEndRoom \<or> kind = RoomCommandResync \<or> kind = RoomCommandVoiceJoin
        then Some (State_Monad.return (zero_command\<lparr>rc_Kind := kind\<rparr>))
      else None)"

definition ParseRoomCommand :: "bytes \<Rightarrow> RoomCommand \<times> wire_error option" where
  "ParseRoomCommand msg =
     (case checkPrefix msg TypeRoomCommand 3 of
        Inl e \<Rightarrow> (zero_command, Some e)
      | Inr _ \<Rightarrow>
          let (kind, r) = run_state (u8 ErrBadRoomCommand) \<lparr>rr_buf = msg, rr_off = 2, rr_err = None\<rparr> in
          (case command_fields kind of
             None \<Rightarrow> (zero_command\<lparr>rc_Kind := kind\<rparr>, Some ErrUnknownRoomKind)
           | Some rd \<Rightarrow>
               (case finish_record ErrBadRoomCommand rd r of
                  Inl e \<Rightarrow> (zero_command, Some e)
                | Inr c \<Rightarrow> (c, None))))"

definition command_parser :: "byte \<Rightarrow> RoomCommand parser option" where
  "command_parser kind =
     (if kind = RoomCommandAttach then Some (
        p_bind (p_broadcastID ErrBadRoomCommand) (\<lambda>bid.
        p_bind (p_bytes8 ErrBadRoomCommand ResumeTokenSize) (\<lambda>tok.
        p_bind (p_check (length tok \<noteq> ResumeTokenSize) ErrBadRoomCommand) (\<lambda>_.
        p_bind (p_str8 ErrBadRoomCommand MaxRoomLabelLen) (\<lambda>label.
        p_return (zero_command\<lparr>rc_Kind := kind, rc_BroadcastID := bid,
          rc_ResumeToken := tok, rc_Label := label\<rparr>))))))
      else if kind = RoomCommandDetach then Some (
        p_bind (p_broadcastID ErrBadRoomCommand) (\<lambda>bid.
        p_return (zero_command\<lparr>rc_Kind := kind, rc_BroadcastID := bid\<rparr>)))
      else if kind = RoomCommandSetNickname then Some (
        p_bind (p_str8 ErrBadRoomCommand MaxRoomNicknameLen) (\<lambda>nick.
        p_return (zero_command\<lparr>rc_Kind := kind, rc_Nickname := nick\<rparr>)))
      else if kind = RoomCommandEndRoom \<or> kind = RoomCommandResync \<or> kind = RoomCommandVoiceJoin
        then Some (p_return (zero_command\<lparr>rc_Kind := kind\<rparr>))
      else None)"

text \<open>A switch over readers refines a switch over parsers, kind by kind.\<close>

definition switch_refines ::
  "wire_error \<Rightarrow> 'a reader option \<Rightarrow> 'a parser option \<Rightarrow> bool" where
  "switch_refines e rd p \<longleftrightarrow> (rd = None \<longleftrightarrow> p = None) \<and>
     (\<forall>m q. rd = Some m \<longrightarrow> p = Some q \<longrightarrow> refines m q \<and> only_fails e q)"

lemma switch_refines_Some [intro]:
  "refines m q \<Longrightarrow> only_fails e q \<Longrightarrow> switch_refines e (Some m) (Some q)"
  by (simp add: switch_refines_def)

lemma switch_refines_None [intro]: "switch_refines e None None"
  by (simp add: switch_refines_def)

lemma switch_refines_if:
  "(c \<Longrightarrow> switch_refines e m q) \<Longrightarrow> (\<not> c \<Longrightarrow> switch_refines e n r) \<Longrightarrow>
     switch_refines e (if c then m else n) (if c then q else r)"
  by simp

lemma command_refines: "switch_refines ErrBadRoomCommand (command_fields kind) (command_parser kind)"
  unfolding command_fields_def command_parser_def
  by (intro switch_refines_if switch_refines_Some switch_refines_None refine_rules fail_rules)

lemma ParseRoomCommand_prefix:
  "ParseRoomCommand (Version # TypeRoomCommand # kind # rest) =
     (case command_parser kind of
        None \<Rightarrow> (zero_command\<lparr>rc_Kind := kind\<rparr>, Some ErrUnknownRoomKind)
      | Some p \<Rightarrow> (case p rest of
          Inl e \<Rightarrow> (zero_command, Some e)
        | Inr (c, s) \<Rightarrow> if s \<noteq> [] then (zero_command, Some ErrBadRoomCommand) else (c, None)))"
proof -
  have "run_state (u8 ErrBadRoomCommand)
      \<lparr>rr_buf = Version # TypeRoomCommand # kind # rest, rr_off = 2, rr_err = None\<rparr> =
      (kind, reader_at [Version, TypeRoomCommand, kind] rest)"
    by (simp add: u8_def reader_at_def)
  then show ?thesis
    using command_refines [of kind] unfolding ParseRoomCommand_def
    by (auto simp: checkPrefix_def switch_refines_def finish_record_refines
        split: option.splits sum.splits)
qed

lemma ParseRoomCommand_cases:
  obtains (bad) e where "checkPrefix m TypeRoomCommand 3 = Inl e" "e \<noteq> RuntimePanic"
      "ParseRoomCommand m = (zero_command, Some e)"
  | (ok) kind rest where "m = Version # TypeRoomCommand # kind # rest"
proof (cases "checkPrefix m TypeRoomCommand 3")
  case (Inl e)
  with checkPrefix_no_panic [of 3 m TypeRoomCommand] bad show thesis by (auto simp: ParseRoomCommand_def)
next
  case (Inr u)
  then show thesis using ok by (auto simp: checkPrefix_Inr Suc_le_length_iff numeral_3_eq_3)
qed

lemma ParseRoomCommand_Inr:
  "go_result (ParseRoomCommand m) = Inr c \<longleftrightarrow>
     (\<exists>kind rest p. m = Version # TypeRoomCommand # kind # rest \<and> command_parser kind = Some p
        \<and> p rest = Inr (c, []))"
  by (cases m rule: ParseRoomCommand_cases)
    (auto simp: ParseRoomCommand_prefix checkPrefix_def split: option.splits sum.splits if_splits)

text \<open>
  A command in the form the parser returns: the fields its kind does not carry are
  empty, a broadcast ID is normalised.
\<close>

definition command_normal :: "RoomCommand \<Rightarrow> bool" where
  "command_normal c \<longleftrightarrow>
     (rc_Kind c \<in> {RoomCommandAttach, RoomCommandDetach} \<longrightarrow> valid_id (rc_BroadcastID c)) \<and>
     (rc_Kind c \<notin> {RoomCommandAttach, RoomCommandDetach} \<longrightarrow> rc_BroadcastID c = []) \<and>
     (rc_Kind c \<noteq> RoomCommandAttach \<longrightarrow> rc_ResumeToken c = [] \<and> rc_Label c = []) \<and>
     (rc_Kind c \<noteq> RoomCommandSetNickname \<longrightarrow> rc_Nickname c = [])"

lemma command_roundtrip:
  assumes "command_normal c" "AppendRoomCommand [] c = Inr m"
  shows "go_result (ParseRoomCommand m) = Inr c"
proof -
  obtain kind bid tok lab nick where c: "c = \<lparr>rc_Kind = kind, rc_BroadcastID = bid,
      rc_ResumeToken = tok, rc_Label = lab, rc_Nickname = nick\<rparr>" by (cases c)
  consider "kind = RoomCommandAttach" | "kind = RoomCommandDetach" | "kind = RoomCommandSetNickname"
    | "kind \<in> {RoomCommandEndRoom, RoomCommandResync, RoomCommandVoiceJoin}"
    using assms(2) by (auto simp: AppendRoomCommand_def c Let_def split: if_splits)
  then show ?thesis
    using assms unfolding c AppendRoomCommand_def command_normal_def
    by cases (auto simp: ParseRoomCommand_prefix command_parser_def command_kind_defs steps
        appendBroadcastID_eq appendStr8_eq p_broadcastID_enc zero_command_def room_size_defs
        split: if_splits)
qed

lemma ParseRoomCommand_reencodes:
  assumes "go_result (ParseRoomCommand m) = Inr c"
  shows "command_normal c \<and> (\<exists>m'. AppendRoomCommand [] c = Inr m')"
proof -
  obtain kind rest p where "command_parser kind = Some p" "p rest = Inr (c, [])"
    using assms by (auto simp: ParseRoomCommand_Inr)
  then show ?thesis
    unfolding command_parser_def
    by (auto simp: accepts AppendRoomCommand_def command_normal_def command_kind_defs zero_command_def
        appendBroadcastID_eq appendStr8_eq room_size_defs dest!: p_broadcastID_valid split: if_splits)
qed

text \<open>The fields a command of its kind carries, with its broadcast ID upper-cased.\<close>

definition command_view :: "RoomCommand \<Rightarrow> RoomCommand" where
  "command_view c = (let k = rc_Kind c; z = zero_command\<lparr>rc_Kind := k\<rparr> in
     if k = RoomCommandAttach
       then z\<lparr>rc_BroadcastID := ToUpper (rc_BroadcastID c), rc_ResumeToken := rc_ResumeToken c, rc_Label := rc_Label c\<rparr>
     else if k = RoomCommandDetach then z\<lparr>rc_BroadcastID := ToUpper (rc_BroadcastID c)\<rparr>
     else if k = RoomCommandSetNickname then z\<lparr>rc_Nickname := rc_Nickname c\<rparr>
     else z)"

lemma AppendRoomCommand_view:
  assumes "AppendRoomCommand [] c = Inr m"
  shows "command_normal (command_view c) \<and> AppendRoomCommand [] (command_view c) = Inr m"
  using assms
  by (auto simp: AppendRoomCommand_def command_view_def command_normal_def zero_command_def Let_def
      command_kind_defs appendBroadcastID_eq split: if_splits)

lemma command_parse_encoded:
  "rbind (AppendRoomCommand [] c) (\<lambda>m. go_result (ParseRoomCommand m)) =
     rbind (AppendRoomCommand [] c) (\<lambda>_. Inr (command_view c))"
proof (cases "AppendRoomCommand [] c")
  case (Inr m)
  from AppendRoomCommand_view [OF this] Inr show ?thesis by (simp add: command_roundtrip)
qed simp

lemma AppendRoomCommand_prefix: "AppendRoomCommand [] c = Inr m \<Longrightarrow> \<exists>r. m = Version # TypeRoomCommand # r"
  by (auto simp: AppendRoomCommand_def Let_def appendBroadcastID_eq appendStr8_eq split: if_splits)

lemma ParseRoomCommand_no_panic: "go_result (ParseRoomCommand m) \<noteq> Inl RuntimePanic"
proof (cases m rule: ParseRoomCommand_cases)
  case (ok kind rest)
  have "p rest \<noteq> Inl RuntimePanic" if "command_parser kind = Some p" for p
    using command_refines [of kind] that by (auto simp: switch_refines_def dest: only_failsD)
  then show ?thesis
    by (auto simp: ok ParseRoomCommand_prefix split: option.splits sum.splits)
qed simp

interpretation RoomCommand: wire_codec TypeRoomCommand "AppendRoomCommand []"
  "\<lambda>m. go_result (ParseRoomCommand m)" command_normal
proof
  show "\<exists>r. m = Version # TypeRoomCommand # r" if "AppendRoomCommand [] x = Inr m" for x m
    by (rule AppendRoomCommand_prefix [OF that])
qed (auto simp: command_roundtrip ParseRoomCommand_no_panic ParseRoomCommand_Inr)

text \<open>An unknown kind is reported as such, with the kind filled in.\<close>

lemma ParseRoomCommand_unknown:
  "command_parser kind = None \<Longrightarrow> ParseRoomCommand (Version # TypeRoomCommand # kind # rest) =
     (zero_command\<lparr>rc_Kind := kind\<rparr>, Some ErrUnknownRoomKind)"
  by (simp add: ParseRoomCommand_prefix)

subsection \<open>RoomEvent (0x15)\<close>

definition zero_participant :: RoomParticipant where
  "zero_participant = \<lparr>rp_ID = 0, rp_Kind = 0, rp_Flags = 0, rp_Nickname = [], rp_Identity = []\<rparr>"

definition zero_attachment :: RoomAttachment where
  "zero_attachment = \<lparr>ra_BroadcastID = [], ra_Label = [], ra_Live = False, ra_ViewerCount = 0\<rparr>"

definition zero_event :: RoomEvent where
  "zero_event = \<lparr>re_Seq = 0, re_Kind = 0, re_Participant = zero_participant,
     re_Attachment = zero_attachment, re_Reason = 0, re_Command = 0, re_Message = [],
     re_VoiceURL = [], re_VoiceTicket = [], re_VoiceFlags = 0, re_VoiceRoster = []\<rparr>"

definition append_event_payload :: "bytes \<Rightarrow> RoomEvent \<Rightarrow> bytes result" where
  "append_event_payload dst e =
     (if re_Kind e = RoomEventParticipantJoined \<or> re_Kind e = RoomEventParticipantUpdated then
        appendRoomParticipant dst (re_Participant e) ErrBadRoomEvent
      else if re_Kind e = RoomEventParticipantLeft then Inr (dst @ be16 (rp_ID (re_Participant e)))
      else if re_Kind e = RoomEventAttachmentAdded \<or> re_Kind e = RoomEventAttachmentUpdated then
        appendRoomAttachment dst (re_Attachment e) ErrBadRoomEvent
      else if re_Kind e = RoomEventAttachmentRemoved then
        rbind (appendBroadcastID dst (ra_BroadcastID (re_Attachment e)) ErrBadRoomEvent) (\<lambda>dst.
        Inr (dst @ [re_Reason e]))
      else if re_Kind e = RoomEventRoomEnding then Inr (dst @ [re_Reason e])
      else if re_Kind e = RoomEventCommandRejected then
        appendStr8 (dst @ [re_Command e, re_Reason e]) (re_Message e) MaxRoomRejectMessageLen ErrBadRoomEvent
      else if re_Kind e = RoomEventVoiceTicket then
        (if length (re_VoiceURL e) = 0 \<or> length (re_VoiceURL e) > MaxVoiceURLLen then Inl ErrBadRoomEvent
         else if length (re_VoiceTicket e) = 0 \<or> length (re_VoiceTicket e) > MaxVoiceTicketLen
           then Inl ErrBadRoomEvent
         else Inr (dst @ be16 (of_nat (length (re_VoiceURL e))) @ re_VoiceURL e
                   @ be16 (of_nat (length (re_VoiceTicket e))) @ re_VoiceTicket e))
      else if re_Kind e = RoomEventVoiceRosterUpdated then
        (if re_VoiceFlags e AND NOT roomVoiceRosterFlagMask \<noteq> 0 then Inl ErrBadRoomEvent
         else if length (re_VoiceRoster e) > MaxVoiceRosterEntries then Inl ErrBadRoomEvent
         else frame_all append_roster_entry
                (dst @ [re_VoiceFlags e] @ be16 (of_nat (length (re_VoiceRoster e)))) (re_VoiceRoster e))
      else Inl ErrUnknownRoomKind)"

definition AppendRoomEvent :: "bytes \<Rightarrow> RoomEvent \<Rightarrow> bytes result" where
  "AppendRoomEvent dst e =
     rbind (append_event_payload (dst @ [Version, TypeRoomEvent] @ be32 (re_Seq e) @ [re_Kind e]) e) (\<lambda>dst.
     if length dst > MaxRoomRecordSize then Inl ErrBadRoomEvent else Inr dst)"

definition event_fields :: "u32 \<Rightarrow> byte \<Rightarrow> RoomEvent reader option" where
  "event_fields sq kind = (let e = zero_event\<lparr>re_Seq := sq, re_Kind := kind\<rparr> in
     if kind = RoomEventParticipantJoined \<or> kind = RoomEventParticipantUpdated then Some (do {
       p \<leftarrow> participant ErrBadRoomEvent;
       State_Monad.return (e\<lparr>re_Participant := p\<rparr>) })
     else if kind = RoomEventParticipantLeft then Some (do {
       pid \<leftarrow> u16_field ErrBadRoomEvent;
       State_Monad.return (e\<lparr>re_Participant := zero_participant\<lparr>rp_ID := pid\<rparr>\<rparr>) })
     else if kind = RoomEventAttachmentAdded \<or> kind = RoomEventAttachmentUpdated then Some (do {
       a \<leftarrow> attachment ErrBadRoomEvent;
       State_Monad.return (e\<lparr>re_Attachment := a\<rparr>) })
     else if kind = RoomEventAttachmentRemoved then Some (do {
       bid \<leftarrow> broadcastID ErrBadRoomEvent;
       reason \<leftarrow> u8 ErrBadRoomEvent;
       State_Monad.return (e\<lparr>re_Attachment := zero_attachment\<lparr>ra_BroadcastID := bid\<rparr>, re_Reason := reason\<rparr>) })
     else if kind = RoomEventRoomEnding then Some (do {
       reason \<leftarrow> u8 ErrBadRoomEvent;
       State_Monad.return (e\<lparr>re_Reason := reason\<rparr>) })
     else if kind = RoomEventCommandRejected then Some (do {
       cmd \<leftarrow> u8 ErrBadRoomEvent;
       reason \<leftarrow> u8 ErrBadRoomEvent;
       msg \<leftarrow> str8 ErrBadRoomEvent MaxRoomRejectMessageLen;
       State_Monad.return (e\<lparr>re_Command := cmd, re_Reason := reason, re_Message := msg\<rparr>) })
     else if kind = RoomEventVoiceTicket then Some (do {
       url \<leftarrow> bytes16 ErrBadRoomEvent MaxVoiceURLLen;
       _ \<leftarrow> fail_if (length url = 0) ErrBadRoomEvent;
       _ \<leftarrow> fail_if (\<not> utf8_valid url) ErrBadRoomEvent;
       ticket \<leftarrow> bytes16 ErrBadRoomEvent MaxVoiceTicketLen;
       _ \<leftarrow> fail_if (length ticket = 0) ErrBadRoomEvent;
       State_Monad.return (e\<lparr>re_VoiceURL := url, re_VoiceTicket := ticket\<rparr>) })
     else if kind = RoomEventVoiceRosterUpdated then Some (do {
       flags \<leftarrow> u8 ErrBadRoomEvent;
       _ \<leftarrow> fail_if (flags AND NOT roomVoiceRosterFlagMask \<noteq> 0) ErrBadRoomEvent;
       n \<leftarrow> u16_field ErrBadRoomEvent;
       _ \<leftarrow> fail_if (unat n > MaxVoiceRosterEntries) ErrBadRoomEvent;
       vs \<leftarrow> read_loop roster_entry (unat n);
       State_Monad.return (e\<lparr>re_VoiceFlags := flags, re_VoiceRoster := vs\<rparr>) })
     else None)"

definition ParseRoomEvent :: "bytes \<Rightarrow> RoomEvent \<times> wire_error option" where
  "ParseRoomEvent msg =
     (case checkPrefix msg TypeRoomEvent 7 of
        Inl e \<Rightarrow> (zero_event, Some e)
      | Inr _ \<Rightarrow>
          let (sq, r) = run_state (u32_field ErrBadRoomEvent) \<lparr>rr_buf = msg, rr_off = 2, rr_err = None\<rparr>;
              (kind, r) = run_state (u8 ErrBadRoomEvent) r in
          (case event_fields sq kind of
             None \<Rightarrow> (zero_event\<lparr>re_Seq := sq, re_Kind := kind\<rparr>, Some ErrUnknownRoomKind)
           | Some rd \<Rightarrow>
               (case finish_record ErrBadRoomEvent rd r of
                  Inl e \<Rightarrow> (zero_event, Some e)
                | Inr e \<Rightarrow> (e, None))))"

definition event_parser :: "u32 \<Rightarrow> byte \<Rightarrow> RoomEvent parser option" where
  "event_parser sq kind = (let e = zero_event\<lparr>re_Seq := sq, re_Kind := kind\<rparr> in
     if kind = RoomEventParticipantJoined \<or> kind = RoomEventParticipantUpdated then Some (
       p_bind (p_participant ErrBadRoomEvent) (\<lambda>p. p_return (e\<lparr>re_Participant := p\<rparr>)))
     else if kind = RoomEventParticipantLeft then Some (
       p_bind (p_u16 ErrBadRoomEvent) (\<lambda>pid.
       p_return (e\<lparr>re_Participant := zero_participant\<lparr>rp_ID := pid\<rparr>\<rparr>)))
     else if kind = RoomEventAttachmentAdded \<or> kind = RoomEventAttachmentUpdated then Some (
       p_bind (p_attachment ErrBadRoomEvent) (\<lambda>a. p_return (e\<lparr>re_Attachment := a\<rparr>)))
     else if kind = RoomEventAttachmentRemoved then Some (
       p_bind (p_broadcastID ErrBadRoomEvent) (\<lambda>bid.
       p_bind (p_u8 ErrBadRoomEvent) (\<lambda>reason.
       p_return (e\<lparr>re_Attachment := zero_attachment\<lparr>ra_BroadcastID := bid\<rparr>, re_Reason := reason\<rparr>))))
     else if kind = RoomEventRoomEnding then Some (
       p_bind (p_u8 ErrBadRoomEvent) (\<lambda>reason. p_return (e\<lparr>re_Reason := reason\<rparr>)))
     else if kind = RoomEventCommandRejected then Some (
       p_bind (p_u8 ErrBadRoomEvent) (\<lambda>cmd.
       p_bind (p_u8 ErrBadRoomEvent) (\<lambda>reason.
       p_bind (p_str8 ErrBadRoomEvent MaxRoomRejectMessageLen) (\<lambda>msg.
       p_return (e\<lparr>re_Command := cmd, re_Reason := reason, re_Message := msg\<rparr>)))))
     else if kind = RoomEventVoiceTicket then Some (
       p_bind (p_bytes16 ErrBadRoomEvent MaxVoiceURLLen) (\<lambda>url.
       p_bind (p_check (length url = 0) ErrBadRoomEvent) (\<lambda>_.
       p_bind (p_check (\<not> utf8_valid url) ErrBadRoomEvent) (\<lambda>_.
       p_bind (p_bytes16 ErrBadRoomEvent MaxVoiceTicketLen) (\<lambda>ticket.
       p_bind (p_check (length ticket = 0) ErrBadRoomEvent) (\<lambda>_.
       p_return (e\<lparr>re_VoiceURL := url, re_VoiceTicket := ticket\<rparr>)))))))
     else if kind = RoomEventVoiceRosterUpdated then Some (
       p_bind (p_u8 ErrBadRoomEvent) (\<lambda>flags.
       p_bind (p_check (flags AND NOT roomVoiceRosterFlagMask \<noteq> 0) ErrBadRoomEvent) (\<lambda>_.
       p_bind (p_u16 ErrBadRoomEvent) (\<lambda>n.
       p_bind (p_check (unat n > MaxVoiceRosterEntries) ErrBadRoomEvent) (\<lambda>_.
       p_bind (p_loop p_roster_entry (unat n)) (\<lambda>vs.
       p_return (e\<lparr>re_VoiceFlags := flags, re_VoiceRoster := vs\<rparr>)))))))
     else None)"

lemma event_refines: "switch_refines ErrBadRoomEvent (event_fields sq kind) (event_parser sq kind)"
  unfolding event_fields_def event_parser_def Let_def
  by (intro switch_refines_if switch_refines_Some switch_refines_None refine_rules fail_rules
      attachment.implements participant.implements roster.implements
      attachment.fails participant.fails roster.fails)

lemma ParseRoomEvent_prefix:
  "ParseRoomEvent (Version # TypeRoomEvent # be32 sq @ kind # rest) =
     (case event_parser sq kind of
        None \<Rightarrow> (zero_event\<lparr>re_Seq := sq, re_Kind := kind\<rparr>, Some ErrUnknownRoomKind)
      | Some p \<Rightarrow> (case p rest of
          Inl e \<Rightarrow> (zero_event, Some e)
        | Inr (e, s) \<Rightarrow> if s \<noteq> [] then (zero_event, Some ErrBadRoomEvent) else (e, None)))"
proof -
  let ?r = "\<lparr>rr_buf = Version # TypeRoomEvent # be32 sq @ kind # rest, rr_off = 2, rr_err = None\<rparr>"
  let ?pre = "Version # TypeRoomEvent # be32 sq"
  have "run_state (u32_field ErrBadRoomEvent) ?r = (sq, reader_at ?pre (kind # rest))"
    by (simp add: u32_field_def reader_at_def be32_def)
  moreover have "run_state (u8 ErrBadRoomEvent) (reader_at ?pre (kind # rest)) =
      (kind, reader_at (?pre @ [kind]) rest)"
    by (simp add: u8_def reader_at_def nth_append)
  ultimately show ?thesis
    using event_refines [of sq kind] unfolding ParseRoomEvent_def
    by (auto simp: checkPrefix_def switch_refines_def finish_record_refines
        split: option.splits sum.splits)
qed

lemma ParseRoomEvent_cases:
  obtains (bad) e where "checkPrefix m TypeRoomEvent 7 = Inl e" "e \<noteq> RuntimePanic"
      "ParseRoomEvent m = (zero_event, Some e)"
  | (ok) sq kind rest where "m = Version # TypeRoomEvent # be32 sq @ kind # rest"
proof (cases "checkPrefix m TypeRoomEvent 7")
  case (Inl e)
  with checkPrefix_no_panic [of 7 m TypeRoomEvent] bad show thesis by (auto simp: ParseRoomEvent_def)
next
  case (Inr u)
  then obtain r where m: "m = Version # TypeRoomEvent # r" "5 \<le> length r" by (auto simp: checkPrefix_Inr)
  then obtain a b c d k rest where "r = [a, b, c, d] @ k # rest" using split_len5 [of r] by auto
  then show thesis using ok [of "join32 a b c d" k rest] m by simp
qed

lemma ParseRoomEvent_Inr:
  "go_result (ParseRoomEvent m) = Inr e \<longleftrightarrow>
     (\<exists>sq kind rest p. m = Version # TypeRoomEvent # be32 sq @ kind # rest
        \<and> event_parser sq kind = Some p \<and> p rest = Inr (e, []))"
proof (cases m rule: ParseRoomEvent_cases)
  case (bad er)
  then show ?thesis by (auto simp: checkPrefix_def)
next
  case (ok sq kind rest)
  have "be32 sq @ kind # rest = be32 sq' @ kind' # rest' \<longleftrightarrow> sq' = sq \<and> kind' = kind \<and> rest' = rest"
    for sq' kind' rest'
    by (auto simp: append_eq_append_conv)
  then show ?thesis
    by (auto simp: ok ParseRoomEvent_prefix split: option.splits sum.splits if_splits)
qed

text \<open>The fields an event of its kind carries, and the form the parser returns.\<close>

definition event_view :: "RoomEvent \<Rightarrow> RoomEvent" where
  "event_view e = (let k = re_Kind e; z = zero_event\<lparr>re_Seq := re_Seq e, re_Kind := k\<rparr> in
     if k = RoomEventParticipantJoined \<or> k = RoomEventParticipantUpdated
       then z\<lparr>re_Participant := re_Participant e\<rparr>
     else if k = RoomEventParticipantLeft
       then z\<lparr>re_Participant := zero_participant\<lparr>rp_ID := rp_ID (re_Participant e)\<rparr>\<rparr>
     else if k = RoomEventAttachmentAdded \<or> k = RoomEventAttachmentUpdated
       then z\<lparr>re_Attachment := re_Attachment e\<rparr>
     else if k = RoomEventAttachmentRemoved
       then z\<lparr>re_Attachment := zero_attachment\<lparr>ra_BroadcastID := ra_BroadcastID (re_Attachment e)\<rparr>,
              re_Reason := re_Reason e\<rparr>
     else if k = RoomEventRoomEnding then z\<lparr>re_Reason := re_Reason e\<rparr>
     else if k = RoomEventCommandRejected
       then z\<lparr>re_Command := re_Command e, re_Reason := re_Reason e, re_Message := re_Message e\<rparr>
     else if k = RoomEventVoiceTicket
       then z\<lparr>re_VoiceURL := re_VoiceURL e, re_VoiceTicket := re_VoiceTicket e\<rparr>
     else if k = RoomEventVoiceRosterUpdated
       then z\<lparr>re_VoiceFlags := re_VoiceFlags e, re_VoiceRoster := re_VoiceRoster e\<rparr>
     else z)"

definition event_normal :: "RoomEvent \<Rightarrow> bool" where
  "event_normal e \<longleftrightarrow>
     (re_Kind e \<in> {RoomEventAttachmentAdded, RoomEventAttachmentUpdated, RoomEventAttachmentRemoved}
        \<longrightarrow> valid_id (ra_BroadcastID (re_Attachment e))) \<and>
     (re_Kind e = RoomEventVoiceTicket \<longrightarrow> utf8_valid (re_VoiceURL e))"

definition event_payload_ok :: "RoomEvent \<Rightarrow> bool" where
  "event_payload_ok e = (let k = re_Kind e in
     if k = RoomEventParticipantJoined \<or> k = RoomEventParticipantUpdated
       then participant_ok (re_Participant e)
     else if k = RoomEventAttachmentAdded \<or> k = RoomEventAttachmentUpdated
       then attachment_ok (re_Attachment e)
     else if k = RoomEventAttachmentRemoved then valid_id (ToUpper (ra_BroadcastID (re_Attachment e)))
     else if k = RoomEventCommandRejected then str_ok MaxRoomRejectMessageLen (re_Message e)
     else if k = RoomEventVoiceTicket
       then re_VoiceURL e \<noteq> [] \<and> length (re_VoiceURL e) \<le> MaxVoiceURLLen
            \<and> re_VoiceTicket e \<noteq> [] \<and> length (re_VoiceTicket e) \<le> MaxVoiceTicketLen
     else if k = RoomEventVoiceRosterUpdated
       then re_VoiceFlags e AND NOT roomVoiceRosterFlagMask = 0
            \<and> length (re_VoiceRoster e) \<le> MaxVoiceRosterEntries \<and> (\<forall>v \<in> set (re_VoiceRoster e). roster_entry_ok v)
     else k = RoomEventParticipantLeft \<or> k = RoomEventRoomEnding)"

definition enc_event_payload :: "RoomEvent \<Rightarrow> bytes" where
  "enc_event_payload e = (let k = re_Kind e in
     if k = RoomEventParticipantJoined \<or> k = RoomEventParticipantUpdated
       then enc_participant (re_Participant e)
     else if k = RoomEventParticipantLeft then be16 (rp_ID (re_Participant e))
     else if k = RoomEventAttachmentAdded \<or> k = RoomEventAttachmentUpdated
       then enc_attachment (re_Attachment e)
     else if k = RoomEventAttachmentRemoved
       then enc_str8 (ToUpper (ra_BroadcastID (re_Attachment e))) @ [re_Reason e]
     else if k = RoomEventRoomEnding then [re_Reason e]
     else if k = RoomEventCommandRejected then [re_Command e, re_Reason e] @ enc_str8 (re_Message e)
     else if k = RoomEventVoiceTicket
       then be16 (of_nat (length (re_VoiceURL e))) @ re_VoiceURL e
            @ be16 (of_nat (length (re_VoiceTicket e))) @ re_VoiceTicket e
     else [re_VoiceFlags e] @ be16 (of_nat (length (re_VoiceRoster e)))
          @ concat (map enc_roster_entry (re_VoiceRoster e)))"

definition known_event :: "byte \<Rightarrow> bool" where
  "known_event k \<longleftrightarrow> k = 1 \<or> k = 2 \<or> k = 3 \<or> k = 0x10 \<or> k = 0x11 \<or> k = 0x12 \<or> k = 0x20 \<or> k = 0x30
     \<or> k = 0x50 \<or> k = 0x51"

lemma event_payload_ok_kind: "event_payload_ok e \<Longrightarrow> known_event (re_Kind e)"
  by (rule ccontr) (simp add: event_payload_ok_def event_kind_defs Let_def known_event_def)

lemma append_event_payload_unknown:
  "\<not> known_event (re_Kind e) \<Longrightarrow> append_event_payload dst e = Inl ErrUnknownRoomKind"
  by (simp add: append_event_payload_def event_kind_defs known_event_def)

lemma append_event_payload_eq:
  assumes "known_event (re_Kind e)"
  shows "append_event_payload dst e =
    (if event_payload_ok e then Inr (dst @ enc_event_payload e) else Inl ErrBadRoomEvent)"
  using assms unfolding known_event_def append_event_payload_def event_payload_ok_def enc_event_payload_def
  by (elim disjE) (simp_all add: Let_def event_kind_defs participant.appends attachment.appends
      roster.append_all appendBroadcastID_eq appendStr8_eq not_less)

lemma append_event_payload_Inr:
  "append_event_payload dst e = Inr m \<longleftrightarrow> event_payload_ok e \<and> m = dst @ enc_event_payload e"
  using event_payload_ok_kind [of e]
  by (cases "known_event (re_Kind e)") (auto simp: append_event_payload_eq append_event_payload_unknown)

lemma AppendRoomEvent_Inr:
  "AppendRoomEvent dst e = Inr m \<longleftrightarrow> event_payload_ok e \<and> length m \<le> MaxRoomRecordSize \<and>
     m = dst @ [Version, TypeRoomEvent] @ be32 (re_Seq e) @ [re_Kind e] @ enc_event_payload e"
  by (auto simp: AppendRoomEvent_def rbind_Inr_iff append_event_payload_Inr split: if_splits)

lemma event_parser_complete:
  assumes "event_payload_ok e" "event_normal e"
  shows "\<exists>p. event_parser (re_Seq e) (re_Kind e) = Some p \<and>
    p (enc_event_payload e) = Inr (event_view e, [])"
proof -
  have roster: "p_loop p_roster_entry (length (re_VoiceRoster e))
      (concat (map enc_roster_entry (re_VoiceRoster e))) = Inr (re_VoiceRoster e, [])"
    if "\<forall>v \<in> set (re_VoiceRoster e). roster_entry_ok v"
    using roster.loop_complete [of "re_VoiceRoster e" "[]"] that by simp
  have cnt: "unat (of_nat (length (re_VoiceRoster e)) :: u16) = length (re_VoiceRoster e)"
    if "length (re_VoiceRoster e) \<le> 200"
    using that by (simp add: unat_of_nat_u16)
  have pa: "participant_ok p \<Longrightarrow> p_participant er (enc_participant p) = Inr (p, [])"
    "attachment_ok a \<Longrightarrow> valid_id (ra_BroadcastID a) \<Longrightarrow> p_attachment er (enc_attachment a) = Inr (a, [])"
    for p a er
    using participant.complete [of p er "[]"] attachment.complete [of a er "[]"]
    by (simp_all add: attachment_normal_def)
  show ?thesis
    using event_payload_ok_kind [OF assms(1)] assms
    unfolding event_payload_ok_def event_normal_def event_parser_def enc_event_payload_def event_view_def
      known_event_def
    by (elim disjE) (simp_all add: Let_def steps roster cnt pa event_kind_defs room_size_defs)
qed

lemma event_parser_sound:
  assumes "event_parser sq kind = Some p" "p s = Inr (e, r)"
  shows "event_payload_ok e \<and> event_normal e \<and> event_view e = e \<and> re_Seq e = sq \<and> re_Kind e = kind"
proof -
  have "known_event kind"
    using assms(1) by (rule contrapos_pp) (simp add: event_parser_def known_event_def event_kind_defs)
  then show ?thesis
    using assms unfolding known_event_def event_parser_def
    by (elim disjE)
      (auto simp: Let_def accepts event_kind_defs room_size_defs event_payload_ok_def event_normal_def
        event_view_def zero_event_def attachment_normal_def not_less
        dest!: participant.sound attachment.sound roster.loop_sound p_broadcastID_valid)
qed

lemma event_roundtrip:
  assumes "AppendRoomEvent [] e = Inr m" "event_normal e"
  shows "ParseRoomEvent m = (event_view e, None)"
proof -
  have ok: "event_payload_ok e"
    and m: "m = Version # TypeRoomEvent # be32 (re_Seq e) @ re_Kind e # enc_event_payload e"
    using assms(1) by (auto simp: AppendRoomEvent_Inr)
  from event_parser_complete [OF ok assms(2)] show ?thesis
    by (auto simp: m ParseRoomEvent_prefix)
qed

text \<open>What the parser makes of any event the encoder accepts.\<close>

definition canon_event :: "RoomEvent \<Rightarrow> RoomEvent" where
  "canon_event e = event_view (e\<lparr>re_Attachment := canon_attachment (re_Attachment e)\<rparr>)"

lemma AppendRoomEvent_canon:
  assumes "AppendRoomEvent [] e = Inr m"
  defines "e' \<equiv> e\<lparr>re_Attachment := canon_attachment (re_Attachment e)\<rparr>"
  shows "AppendRoomEvent [] e' = Inr m \<and> (event_normal e' \<longleftrightarrow> (re_Kind e = RoomEventVoiceTicket \<longrightarrow> utf8_valid (re_VoiceURL e)))"
proof -
  have ok: "event_payload_ok e" using assms(1) by (simp add: AppendRoomEvent_Inr)
  have up: "ToUpper (ToUpper b) = ToUpper b" if "valid_id (ToUpper b)" for b using that by simp
  have "event_payload_ok e' \<and> enc_event_payload e' = enc_event_payload e \<and>
      (event_normal e' \<longleftrightarrow> (re_Kind e = RoomEventVoiceTicket \<longrightarrow> utf8_valid (re_VoiceURL e)))"
    using event_payload_ok_kind [OF ok] ok canon_attachment [of "re_Attachment e"]
    unfolding known_event_def e'_def
    by (elim disjE) (simp_all add: event_payload_ok_def enc_event_payload_def event_normal_def Let_def
        event_kind_defs attachment_normal_def, simp_all add: canon_attachment_def up)
  then show ?thesis using assms(1) unfolding AppendRoomEvent_Inr by (auto simp: e'_def)
qed

lemma voice_ticket_bad_url:
  assumes "AppendRoomEvent [] e = Inr m" "re_Kind e = RoomEventVoiceTicket" "\<not> utf8_valid (re_VoiceURL e)"
  shows "go_result (ParseRoomEvent m) = Inl ErrBadRoomEvent"
proof -
  have ok: "event_payload_ok e"
    and m: "m = Version # TypeRoomEvent # be32 (re_Seq e) @ re_Kind e # enc_event_payload e"
    using assms(1) by (auto simp: AppendRoomEvent_Inr)
  then show ?thesis using assms(2,3)
    by (simp add: m ParseRoomEvent_prefix event_parser_def event_payload_ok_def enc_event_payload_def Let_def
        event_kind_defs room_size_defs steps) (simp add: p_check_def)
qed

lemma event_parse_encoded:
  "rbind (AppendRoomEvent [] e) (\<lambda>m. go_result (ParseRoomEvent m)) =
     rbind (AppendRoomEvent [] e) (\<lambda>_.
       if re_Kind e = RoomEventVoiceTicket \<and> \<not> utf8_valid (re_VoiceURL e) then Inl ErrBadRoomEvent
       else Inr (canon_event e))"
proof (cases "AppendRoomEvent [] e")
  case (Inr m)
  then show ?thesis
    using AppendRoomEvent_canon [OF Inr] voice_ticket_bad_url [OF Inr]
    by (auto simp: event_roundtrip canon_event_def)
qed simp

lemma ParseRoomEvent_no_panic: "go_result (ParseRoomEvent m) \<noteq> Inl RuntimePanic"
proof (cases m rule: ParseRoomEvent_cases)
  case (ok sq kind rest)
  have "p rest \<noteq> Inl RuntimePanic" if "event_parser sq kind = Some p" for p
    using event_refines [of sq kind] that by (auto simp: switch_refines_def dest: only_failsD)
  then show ?thesis
    by (auto simp: ok ParseRoomEvent_prefix split: option.splits sum.splits)
qed simp

interpretation RoomEvent: wire_codec TypeRoomEvent "AppendRoomEvent []"
  "\<lambda>m. go_result (ParseRoomEvent m)" "\<lambda>e. event_normal e \<and> event_view e = e"
proof
  show "go_result (ParseRoomEvent m) = Inr x"
    if "event_normal x \<and> event_view x = x" "AppendRoomEvent [] x = Inr m" for x m
    using that by (simp add: event_roundtrip)
qed (auto simp: ParseRoomEvent_no_panic ParseRoomEvent_Inr AppendRoomEvent_Inr)

lemma ParseRoomEvent_ok:
  assumes "go_result (ParseRoomEvent m) = Inr e"
  shows "event_payload_ok e \<and> event_normal e \<and> event_view e = e"
  using assms event_parser_sound by (fastforce simp: ParseRoomEvent_Inr)

text \<open>
  \<^verbatim>\<open>MaxVoiceRosterEntries\<close> keeps the roster event below the record limit: no roster
  within the bound is refused for its size.
\<close>

lemma length_enc_roster_entry: "roster_entry_ok v \<Longrightarrow> length (enc_roster_entry v) \<le> 73"
  by (simp add: enc_roster_entry_def roster_entry_ok_def enc_str8_def str_ok_def MaxVoiceNameLen_def)

lemma roster_event_fits:
  assumes "re_Kind e = RoomEventVoiceRosterUpdated" "event_payload_ok e"
  shows "\<exists>m. AppendRoomEvent [] e = Inr m"
proof -
  have ok: "length (re_VoiceRoster e) \<le> 200" "\<forall>v \<in> set (re_VoiceRoster e). roster_entry_ok v"
    using assms by (simp_all add: event_payload_ok_def event_kind_defs Let_def MaxVoiceRosterEntries_def)
  have "length (concat (map enc_roster_entry vs)) \<le> 73 * length vs"
    if "\<forall>v \<in> set vs. roster_entry_ok v" for vs
    using that by (induction vs) (auto dest: length_enc_roster_entry)
  from this [OF ok(2)] have "length (enc_event_payload e) \<le> 3 + 73 * 200"
    using ok(1) assms(1) by (simp add: enc_event_payload_def event_kind_defs Let_def)
  then show ?thesis using assms(2) by (simp add: AppendRoomEvent_Inr MaxRoomRecordSize_def)
qed

subsection \<open>Reading a record stream\<close>

text \<open>
  \<^verbatim>\<open>io.ReadFull\<close> on a stream that holds the bytes \<open>s\<close> and then ends, and the record
  reader built on it (\<^verbatim>\<open>readRoomRecord\<close> of \<^verbatim>\<open>gawk-server/publisher/room.go\<close>).
\<close>

definition ReadFull :: "nat \<Rightarrow> bytes \<Rightarrow> (bytes \<times> bytes) result" where
  "ReadFull n s =
     (if n \<le> length s then Inr (take n s, drop n s)
      else if s = [] then Inl EOF else Inl ErrUnexpectedEOF)"

definition readRoomRecord :: "bytes \<Rightarrow> (bytes \<times> bytes) result" where
  "readRoomRecord s =
     rbind (ReadFull RoomRecordHeaderSize s) (\<lambda>(hdr, s).
     rbind (ParseRoomRecordLength hdr) (\<lambda>n.
     ReadFull n s))"

lemma readRoomRecord_Cons2:
  "readRoomRecord (a # b # r) = (let n = unat (join16 a b) in
     if n < 2 \<or> n > MaxRoomRecordSize then Inl ErrBadRoomRecord else ReadFull n r)"
  by (simp add: readRoomRecord_def ReadFull_def ParseRoomRecordLength_def RoomRecordHeaderSize_def Let_def)

lemma AppendRoomRecord_Inr:
  "AppendRoomRecord dst m = Inr f \<longleftrightarrow> 2 \<le> length m \<and> length m \<le> MaxRoomRecordSize
     \<and> f = dst @ be16 (of_nat (length m)) @ m"
  by (auto simp: AppendRoomRecord_def)

interpretation room_stream: record_framing AppendRoomRecord readRoomRecord
  "\<lambda>e. e = EOF \<or> e = ErrUnexpectedEOF"
proof
  fix m f k
  assume f: "AppendRoomRecord [] m = Inr f" and k: "k < length f"
  have "readRoomRecord (take k f) = Inl EOF \<or> readRoomRecord (take k f) = Inl ErrUnexpectedEOF"
  proof (cases "k < 2")
    case True
    then show ?thesis using f by (auto simp: readRoomRecord_def ReadFull_def RoomRecordHeaderSize_def)
  next
    case False
    then obtain j where j: "k = Suc (Suc j)" by (metis less_2_cases_iff not0_implies_Suc One_nat_def)
    with f k show ?thesis
      by (auto simp: AppendRoomRecord_Inr be16_def readRoomRecord_Cons2 ReadFull_def Let_def MaxRoomRecordSize_def)
  qed
  then show "\<exists>e. (e = EOF \<or> e = ErrUnexpectedEOF) \<and> readRoomRecord (take k f) = Inl e" by auto
next
  fix buf m rest
  assume p: "readRoomRecord buf = Inr (m, rest)"
  then have "2 \<le> length buf"
    by (auto simp: readRoomRecord_def ReadFull_def RoomRecordHeaderSize_def rbind_Inr_iff split: if_splits)
  then obtain a b r where buf: "buf = a # b # r" by (auto simp: length_ge_2_conv)
  let ?n = "unat (join16 a b)"
  from p buf have "m = take ?n r" "rest = drop ?n r" "2 \<le> ?n" "?n \<le> MaxRoomRecordSize" "?n \<le> length r"
    by (auto simp: readRoomRecord_Cons2 ReadFull_def Let_def split: if_splits)
  then show "\<exists>f. AppendRoomRecord [] m = Inr f \<and> buf = f @ rest"
    using buf by (auto simp: AppendRoomRecord_Inr)
qed (auto simp: AppendRoomRecord_def be16_def readRoomRecord_Cons2 ReadFull_def Let_def MaxRoomRecordSize_def
      split: if_splits)

end
