(* ===== verification/SHA256.thy ===== *)
theory SHA256
  imports Prelude
begin

section \<open>SHA-256 and HMAC (Go's \<^verbatim>\<open>crypto/sha256\<close> and \<^verbatim>\<open>crypto/hmac\<close>)\<close>

text \<open>
  The hash of FIPS 180-4 and the MAC of RFC 2104 over it, on byte lists.  The token
  functions use \<^verbatim>\<open>hmac.New(sha256.New, key)\<close>, a sequence of \<^verbatim>\<open>Write\<close>s and \<^verbatim>\<open>Sum(nil)\<close>;
  that is \<open>hmac_sha256 key\<close> of the concatenated writes.  What the proofs need of it is
  that the digest has 32 bytes.
\<close>

text \<open>
  The constants are the first 32 bits of the fractional parts of the cube roots and
  the square roots of the first primes: the integer root of the prime scaled by a
  power of \<open>2^32\<close>, found bit by bit, and cut to a word.
\<close>

fun int_root :: "nat \<Rightarrow> nat \<Rightarrow> nat \<Rightarrow> nat \<Rightarrow> nat" where
  "int_root k n 0 r = r"
| "int_root k n (Suc i) r = (let r' = r + 2 ^ i in int_root k n i (if r' ^ k \<le> n then r' else r))"

definition root_word :: "nat \<Rightarrow> nat \<Rightarrow> u32" where
  "root_word k p = of_nat (int_root k (p * 2 ^ (32 * k)) 40 0)"

definition prime_list :: "nat list" where
  "prime_list = filter (\<lambda>n. list_all (\<lambda>d. n mod d \<noteq> 0) [2..<n]) [2..<312]"

definition sha_K :: "u32 list" where
  "sha_K = map (root_word 3) prime_list"

type_synonym sha_state = "u32 \<times> u32 \<times> u32 \<times> u32 \<times> u32 \<times> u32 \<times> u32 \<times> u32"

definition sha_init :: sha_state where
  "sha_init =
     (root_word 2 2, root_word 2 3, root_word 2 5, root_word 2 7,
      root_word 2 11, root_word 2 13, root_word 2 17, root_word 2 19)"

definition sha_ssig0 :: "u32 \<Rightarrow> u32" where
  "sha_ssig0 x = word_rotr 7 x XOR word_rotr 18 x XOR drop_bit 3 x"

definition sha_ssig1 :: "u32 \<Rightarrow> u32" where
  "sha_ssig1 x = word_rotr 17 x XOR word_rotr 19 x XOR drop_bit 10 x"

definition sha_bsig0 :: "u32 \<Rightarrow> u32" where
  "sha_bsig0 x = word_rotr 2 x XOR word_rotr 13 x XOR word_rotr 22 x"

definition sha_bsig1 :: "u32 \<Rightarrow> u32" where
  "sha_bsig1 x = word_rotr 6 x XOR word_rotr 11 x XOR word_rotr 25 x"

text \<open>The message schedule, extended one word at a time.\<close>

fun sha_schedule :: "nat \<Rightarrow> u32 list \<Rightarrow> u32 list" where
  "sha_schedule 0 w = w"
| "sha_schedule (Suc n) w =
     (let t = length w in
      sha_schedule n (w @ [sha_ssig1 (w ! (t - 2)) + w ! (t - 7) + sha_ssig0 (w ! (t - 15)) + w ! (t - 16)]))"

definition sha_round :: "u32 \<times> u32 \<Rightarrow> sha_state \<Rightarrow> sha_state" where
  "sha_round = (\<lambda>(k, w) (a, b, c, d, e, f, g, h).
     let t1 = h + sha_bsig1 e + ((e AND f) XOR (NOT e AND g)) + k + w;
         t2 = sha_bsig0 a + ((a AND b) XOR (a AND c) XOR (b AND c))
     in (t1 + t2, a, b, c, d + t1, e, f, g))"

fun sha_words :: "bytes \<Rightarrow> u32 list" where
  "sha_words (a # b # c # d # r) = join32 a b c d # sha_words r"
| "sha_words _ = []"

definition sha_compress :: "sha_state \<Rightarrow> bytes \<Rightarrow> sha_state" where
  "sha_compress st block =
     (let w = sha_schedule 48 (sha_words block);
          (a', b', c', d', e', f', g', h') = fold sha_round (zip sha_K w) st;
          (a, b, c, d, e, f, g, h) = st
      in (a + a', b + b', c + c', d + d', e + e', f + f', g + g', h + h'))"

definition sha_pad :: "bytes \<Rightarrow> bytes" where
  "sha_pad m = m @ [0x80] @ replicate ((119 - length m mod 64) mod 64) 0 @ be64 (of_nat (8 * length m))"

function sha_blocks :: "sha_state \<Rightarrow> bytes \<Rightarrow> sha_state" where
  "sha_blocks st m = (if m = [] then st else sha_blocks (sha_compress st (take 64 m)) (drop 64 m))"
  by pat_completeness auto
termination
  by (relation "measure (\<lambda>(st, m). length m)") auto

declare sha_blocks.simps [simp del]

definition sha256 :: "bytes \<Rightarrow> bytes" where
  "sha256 m =
     (let (a, b, c, d, e, f, g, h) = sha_blocks sha_init (sha_pad m)
      in be32 a @ be32 b @ be32 c @ be32 d @ be32 e @ be32 f @ be32 g @ be32 h)"

definition hmac_sha256 :: "bytes \<Rightarrow> bytes \<Rightarrow> bytes" where
  "hmac_sha256 key m =
     (let key = (if length key > 64 then sha256 key else key);
          k = key @ replicate (64 - length key) 0;
          inner = sha256 (map (\<lambda>b. b XOR 0x36) k @ m)
      in sha256 (map (\<lambda>b. b XOR 0x5c) k @ inner))"

lemma length_sha256 [simp]: "length (sha256 m) = 32"
  by (simp add: sha256_def Let_def split: prod.splits)

lemma length_hmac_sha256 [simp]: "length (hmac_sha256 key m) = 32"
  by (simp add: hmac_sha256_def Let_def)

end
