(* ===== verification/RoomCodes.thy ===== *)
theory RoomCodes
  imports RoomMessages SHA256
begin

section \<open>Room codes and creator tokens (\<^verbatim>\<open>gawk-server/rooms/rooms.go\<close>)\<close>

text \<open>
  The codes rooms are registered under, what is shown for them, the fingerprint of a
  creator token and the reading of a token from a request (\<^verbatim>\<open>roomsrv/registry.go\<close>).
\<close>

datatype room_kind = KindStatic | KindDynamic

datatype code_error = ErrInvalidCode

definition MinCodeLen :: nat where "MinCodeLen = 3"
definition MaxCodeLen :: nat where "MaxCodeLen = 32"
definition FingerprintSize :: nat where "FingerprintSize = 8"

definition code_byte :: "byte \<Rightarrow> bool" where
  "code_byte c \<longleftrightarrow> 0x61 \<le> c \<and> c \<le> 0x7A \<or> 0x30 \<le> c \<and> c \<le> 0x39 \<or> c = 0x2D"

definition NormalizeCode :: "bytes \<Rightarrow> code_error + bytes" where
  "NormalizeCode s =
     (let code = ToLower (TrimSpace s) in
      if length code < MinCodeLen \<or> length code > MaxCodeLen then Inl ErrInvalidCode
      else if \<exists>c \<in> set code. \<not> code_byte c then Inl ErrInvalidCode
      else if hd code = 0x2D \<or> last code = 0x2D then Inl ErrInvalidCode
      else Inr code)"

definition IsDynamicShape :: "bytes \<Rightarrow> bool" where
  "IsDynamicShape code = is_ok (Normalize code)"

text \<open>The parts of the Room resource the relay reads.\<close>

record RoomAttachmentRef =
  cr_BroadcastID :: bytes
  cr_Label :: bytes
  cr_AttachedAt :: instant

record RoomResource =
  cr_Name :: bytes
  cr_Kind :: room_kind
  cr_DisplayCode :: bytes
  cr_CreatorTokenFingerprint :: bytes
  cr_CreatedAt :: "instant option"
  cr_LeaseHolder :: "bytes option"
  cr_Attachments :: "RoomAttachmentRef list"

definition DisplayCode :: "RoomResource option \<Rightarrow> bytes" where
  "DisplayCode r =
     (case r of None \<Rightarrow> []
      | Some r \<Rightarrow> if cr_DisplayCode r \<noteq> [] then cr_DisplayCode r
                 else if cr_Kind r = KindDynamic then ToUpper (cr_Name r)
                 else cr_Name r)"

definition Fingerprint :: "bytes \<Rightarrow> bytes" where
  "Fingerprint token = hex_encode (take FingerprintSize (sha256 token))"

subsection \<open>Reading hexadecimal text\<close>

definition unhex :: "byte \<Rightarrow> int" where
  "unhex c =
     (if 0x30 \<le> c \<and> c \<le> 0x39 then uint (c - 0x30)
      else if 0x61 \<le> c \<and> c \<le> 0x66 then uint (c - 0x61) + 10
      else if 0x41 \<le> c \<and> c \<le> 0x46 then uint (c - 0x41) + 10
      else - 1)"

fun unhex_pairs :: "bytes \<Rightarrow> bytes option" where
  "unhex_pairs [] = Some []"
| "unhex_pairs [_] = None"
| "unhex_pairs (h # l # r) =
     (let hi = unhex h; lo = unhex l in
      if hi < 0 \<or> lo < 0 then None
      else map_option ((#) (word_of_int (push_bit 4 hi OR lo))) (unhex_pairs r))"

text \<open>A creator token in hexadecimal; \<open>None\<close> is an error.\<close>

definition decodeHex :: "bytes \<Rightarrow> bytes option" where
  "decodeHex s = (if length s \<noteq> RoomCreatorTokenSize * 2 then None else unhex_pairs s)"

subsection \<open>Facts\<close>

lemma NormalizeCode_Inr:
  assumes "NormalizeCode s = Inr code"
  shows "code = ToLower (TrimSpace s)" "3 \<le> length code" "length code \<le> 32"
    "\<forall>c \<in> set code. code_byte c" "code \<noteq> []" "hd code \<noteq> 0x2D" "last code \<noteq> 0x2D"
  using assms by (auto simp: NormalizeCode_def Let_def MinCodeLen_def MaxCodeLen_def split: if_splits)

lemma code_byte_ascii: "code_byte c \<Longrightarrow> c < 0x80"
  by (auto simp: code_byte_def word_le_nat_alt word_less_nat_alt)

lemma lower_code_byte: "code_byte c \<Longrightarrow> lower_byte c = c"
  by (auto simp: code_byte_def lower_byte_def word_le_nat_alt)

text \<open>Visible ASCII, which no trimming removes.\<close>

definition visible :: "byte \<Rightarrow> bool" where
  "visible c \<longleftrightarrow> 0x21 \<le> c \<and> c < 0x7F"

lemma visible_no_space:
  assumes "visible c" "w \<in> set space_runes"
  shows "hd w \<noteq> c" "last w \<noteq> c"
  using assms by (auto simp: space_runes_def visible_def upt_rec word_le_nat_alt)

lemma code_byte_visible: "code_byte c \<Longrightarrow> visible c"
  by (auto simp: code_byte_def visible_def word_le_nat_alt word_less_nat_alt)

lemma leading_space_code:
  assumes "\<forall>w \<in> set ws. w \<noteq> [] \<and> hd w \<noteq> c"
  shows "leading_space ws (c # s) = 0"
proof (rule ccontr)
  assume "leading_space ws (c # s) \<noteq> 0"
  then obtain w t where "w \<in> set ws" "c # s = w @ t" by (rule leading_space_cases)
  with assms show False by (cases w) auto
qed

lemma space_runes_nonempty: "w \<in> set space_runes \<Longrightarrow> w \<noteq> []"
  by (auto simp: space_runes_def)

lemma TrimSpace_visible:
  assumes "\<forall>c \<in> set s. visible c"
  shows "TrimSpace s = s"
proof (cases "s = []")
  case True
  then show ?thesis by (simp add: TrimSpace_def trim_left.simps)
next
  case False
  then obtain c s' where s: "s = c # s'" by (cases s) auto
  obtain d u where u: "rev s = d # u" using False by (cases "rev s") auto
  have "visible c" "visible d"
    using assms s u by (auto, metis list.set_intros(1) set_rev)
  have "leading_space space_runes (c # s') = 0"
    using visible_no_space(1) [OF \<open>visible c\<close>] space_runes_nonempty
    by (intro leading_space_code) blast
  moreover have "leading_space (map rev space_runes) (d # u) = 0"
  proof (intro leading_space_code ballI)
    fix w assume "w \<in> set (map rev space_runes)"
    then obtain v where "w = rev v" "v \<in> set space_runes" by auto
    then show "w \<noteq> [] \<and> hd w \<noteq> d"
      using visible_no_space(2) [OF \<open>visible d\<close>, of v] space_runes_nonempty [of v] by (simp add: hd_rev)
  qed
  ultimately have "leading_space space_runes s = 0" "leading_space (map rev space_runes) (rev s) = 0"
    using s u by (simp_all only:)
  then have "trim_left space_runes s = s" "trim_left (map rev space_runes) (rev s) = rev s"
    by (subst trim_left.simps, simp)+
  then show ?thesis by (simp add: TrimSpace_def)
qed

lemma ToLower_code:
  assumes "\<forall>c \<in> set s. code_byte c"
  shows "ToLower s = s"
  using assms code_byte_ascii lower_code_byte by (auto simp: ToLower_def is_ascii_def intro: map_idI)

text \<open>A code that is in use normalises to itself, whichever spelling it was made from.\<close>

lemma NormalizeCode_idem:
  assumes "NormalizeCode s = Inr code"
  shows "NormalizeCode code = Inr code"
proof -
  have code: "\<forall>c \<in> set code. code_byte c" by (rule NormalizeCode_Inr(4) [OF assms])
  have same: "ToLower (TrimSpace code) = code"
    using TrimSpace_visible [of code] ToLower_code [OF code] code code_byte_visible by simp
  have "\<not> (length code < MinCodeLen \<or> length code > MaxCodeLen)"
    "\<not> (\<exists>c \<in> set code. \<not> code_byte c)" "\<not> (hd code = 0x2D \<or> last code = 0x2D)"
    using NormalizeCode_Inr(2,3,6,7) [OF assms] code
    unfolding MinCodeLen_def MaxCodeLen_def by (simp, blast, blast)
  then show ?thesis unfolding NormalizeCode_def same Let_def by (simp only: if_False)
qed

text \<open>A minted identifier is a room code once lower-cased, the one both spellings name.\<close>

lemma alphabet_bytes: "\<forall>b \<in> set Alphabet. code_byte (lower_byte b) \<and> lower_byte b \<noteq> 0x2D \<and> visible b"
  unfolding Alphabet_eq by (simp add: lower_byte_def code_byte_def visible_def)

lemma NormalizeCode_id:
  assumes "valid_id raw"
  shows "NormalizeCode raw = Inr (map lower_byte raw)"
proof -
  have al: "\<forall>b \<in> set raw. b \<in> set Alphabet" and len: "length raw = 6"
    using assms by (auto simp: valid_id_def in_Alphabet_iff Length_def)
  then have ne: "raw \<noteq> []" by auto
  have same: "ToLower (TrimSpace raw) = map lower_byte raw"
    using al alphabet_bytes valid_id_ascii [OF assms] TrimSpace_visible [of raw] by (simp add: ToLower_def)
  have "\<not> (\<exists>c \<in> set (map lower_byte raw). \<not> code_byte c)" using al alphabet_bytes by auto
  moreover have "hd (map lower_byte raw) \<noteq> 0x2D" "last (map lower_byte raw) \<noteq> 0x2D"
    using al alphabet_bytes ne hd_in_set [OF ne] last_in_set [OF ne] by (auto simp: hd_map last_map)
  ultimately show ?thesis
    unfolding NormalizeCode_def same Let_def by (simp add: len MinCodeLen_def MaxCodeLen_def)
qed

end
