(* ===== verification/RoomNames.thy ===== *)
theory RoomNames
  imports RoomCodes
begin

section \<open>Unique names in a room (\<^verbatim>\<open>roomsrv/registry.go\<close>)\<close>

text \<open>
  Nicknames and tile labels: a name that is taken gets a suffix, cut so that the whole
  still fits.  The search for a free suffix has no bound in the code; \<open>first_free\<close> has as
  many candidates as its fuel, and one more name_candidate than there are names always has a
  free one.
\<close>

definition truncate_name :: "bytes \<Rightarrow> nat \<Rightarrow> bytes" where
  "truncate_name s n = fit_runes n s"

definition name_suffix :: "nat \<Rightarrow> bytes" where
  "name_suffix n = [0x20, 0x28] @ decimal n @ [0x29]"

definition name_candidate :: "nat \<Rightarrow> bytes \<Rightarrow> nat \<Rightarrow> bytes" where
  "name_candidate lim s n = truncate_name s (lim - length (name_suffix n)) @ name_suffix n"

fun first_free :: "nat \<Rightarrow> (bytes \<Rightarrow> bool) \<Rightarrow> nat \<Rightarrow> bytes \<Rightarrow> nat \<Rightarrow> bytes option" where
  "first_free 0 taken lim s n = None"
| "first_free (Suc fuel) taken lim s n =
     (if taken (name_candidate lim s n) then first_free fuel taken lim s (Suc n)
      else Some (name_candidate lim s n))"

definition unique_name :: "nat \<Rightarrow> bytes list \<Rightarrow> bytes \<Rightarrow> bytes option" where
  "unique_name lim names s =
     (if s \<notin> set names then Some s
      else first_free (Suc (length names)) (\<lambda>c. c \<in> set names) lim s 2)"

definition uniqueNick :: "bytes list \<Rightarrow> bytes \<Rightarrow> u16 \<Rightarrow> bytes option" where
  "uniqueNick others nick self =
     (let nick = TrimSpace nick;
          nick = (if nick = [] \<or> \<not> utf8_valid nick then ascii ''guest-'' @ decimal (unat self) else nick)
      in unique_name MaxRoomNicknameLen others (truncate_name nick MaxRoomNicknameLen))"

definition uniqueLabel :: "bytes list \<Rightarrow> bytes \<Rightarrow> bytes option" where
  "uniqueLabel others label =
     (let label = TrimSpace label in
      if label = [] then Some []
      else unique_name MaxRoomLabelLen others (truncate_name label MaxRoomLabelLen))"

subsection \<open>The search ends\<close>

lemma suffix_same:
  assumes "\<forall>b \<in> set u. b \<noteq> x" "\<forall>b \<in> set v. b \<noteq> x" "s @ x # u = t @ x # v"
  shows "u = v"
  using assms by (induction s arbitrary: t) (auto simp: Cons_eq_append_conv append_eq_Cons_conv)

lemma decimal_no_paren: "\<forall>b \<in> set (decimal n @ [0x29]). b \<noteq> 0x28"
proof -
  have "b \<noteq> 0x28" if "b \<in> set (decimal n)" for b
  proof
    assume "b = 0x28"
    then show False using decimal_digits [OF that] by simp
  qed
  then show ?thesis by auto
qed

lemma name_candidate_inj: "name_candidate lim s m = name_candidate lim s n \<Longrightarrow> m = n"
proof -
  assume "name_candidate lim s m = name_candidate lim s n"
  then have "(truncate_name s (lim - length (name_suffix m)) @ [0x20]) @ 0x28 # (decimal m @ [0x29]) =
      (truncate_name s (lim - length (name_suffix n)) @ [0x20]) @ 0x28 # (decimal n @ [0x29])"
    by (simp add: name_candidate_def name_suffix_def)
  then have "decimal m @ [0x29] = decimal n @ [0x29]"
    by (rule suffix_same [OF decimal_no_paren decimal_no_paren])
  then show "m = n" by (simp add: decimal_inj)
qed

lemma first_free_None:
  "first_free fuel taken lim s n = None \<Longrightarrow> (\<forall>k < fuel. taken (name_candidate lim s (n + k)))"
proof (induction fuel taken lim s n rule: first_free.induct)
  case (2 fuel taken lim s n)
  then have "taken (name_candidate lim s n)" "\<forall>k < fuel. taken (name_candidate lim s (Suc n + k))"
    by (auto split: if_splits)
  then show ?case by (auto simp: less_Suc_eq_0_disj)
qed simp

lemma first_free_Some:
  "first_free fuel taken lim s n = Some c \<Longrightarrow>
     \<not> taken c \<and> (\<exists>k. n \<le> k \<and> k < n + fuel \<and> c = name_candidate lim s k)"
proof (induction fuel taken lim s n rule: first_free.induct)
  case (2 fuel taken lim s n)
  show ?case
  proof (cases "taken (name_candidate lim s n)")
    case True
    then have "first_free fuel taken lim s (Suc n) = Some c" using "2.prems" by simp
    from "2.IH" [OF True this] obtain k where
      "\<not> taken c" "Suc n \<le> k" "k < Suc n + fuel" "c = name_candidate lim s k" by blast
    then show ?thesis by (auto intro!: exI [of _ k])
  qed (use "2.prems" in auto)
qed simp

lemma unique_name_ends: "\<exists>c. unique_name lim names s = Some c"
proof (cases "s \<in> set names")
  case True
  show ?thesis
  proof (cases "first_free (Suc (length names)) (\<lambda>c. c \<in> set names) lim s 2")
    case None
    let ?C = "(\<lambda>k. name_candidate lim s (2 + k)) ` {..<Suc (length names)}"
    have "?C \<subseteq> set names" using first_free_None [OF None] by auto
    then have "card ?C \<le> card (set names)" by (simp add: card_mono)
    moreover have "card ?C = Suc (length names)"
    proof (subst card_image)
      show "inj_on (\<lambda>k. name_candidate lim s (2 + k)) {..<Suc (length names)}"
      proof (rule inj_onI)
        fix x y
        assume "name_candidate lim s (2 + x) = name_candidate lim s (2 + y)"
        then have "2 + x = 2 + y" by (rule name_candidate_inj)
        then show "x = y" by simp
      qed
    qed simp
    ultimately show ?thesis using card_length [of names] by simp
  qed (simp add: unique_name_def True)
qed (simp add: unique_name_def)

lemma unique_name_free: "unique_name lim names s = Some c \<Longrightarrow> c \<notin> set names"
  by (auto simp: unique_name_def split: if_splits dest: first_free_Some)

lemma suffix_utf8: "utf8_valid (name_suffix n)"
proof (rule utf8_valid_ascii)
  fix b assume "b \<in> set (name_suffix n)"
  then consider "b = 0x20" | "b = 0x28" | "b = 0x29" | "b \<in> set (decimal n)" by (auto simp: name_suffix_def)
  then show "b < 0x80"
    by cases (auto dest!: decimal_digits simp: word_le_nat_alt word_less_nat_alt)
qed

lemma name_candidate_ok:
  assumes "utf8_valid s" "n < 10 ^ 20" "23 \<le> lim"
  shows "str_ok lim (name_candidate lim s n)"
proof -
  have "length (name_suffix n) \<le> lim"
    using decimal_length [of 20 n] assms by (simp add: name_suffix_def)
  then have "length (name_candidate lim s n) \<le> lim"
    using fit_runes_length [of "lim - length (name_suffix n)" s] by (simp add: name_candidate_def truncate_name_def)
  then show ?thesis
    using fit_runes_valid [OF assms(1)]
    by (simp add: str_ok_def name_candidate_def truncate_name_def utf8_valid_append suffix_utf8)
qed

lemma unique_name_ok:
  assumes "unique_name lim names s = Some c" "str_ok lim s" "length names < 10 ^ 18" "23 \<le> lim"
  shows "str_ok lim c"
proof (cases "s \<in> set names")
  case True
  then have "first_free (Suc (length names)) (\<lambda>c. c \<in> set names) lim s 2 = Some c"
    using assms(1) by (simp only: unique_name_def not_True_eq_False if_False)
  from first_free_Some [OF this] obtain k where "k < 2 + Suc (length names)" "c = name_candidate lim s k"
    by blast
  moreover have "utf8_valid s" "k < 10 ^ 20" using assms(2,3) calculation(1) by (simp_all add: str_ok_def)
  ultimately show ?thesis using name_candidate_ok [OF _ _ assms(4)] by blast
qed (use assms in \<open>simp add: unique_name_def\<close>)

text \<open>A name is kept as it was asked for when it is free.\<close>

lemma unique_name_keeps: "s \<notin> set names \<Longrightarrow> unique_name lim names s = Some s"
  by (simp add: unique_name_def)

subsection \<open>Nicknames and labels\<close>

lemma guest_utf8: "utf8_valid (ascii ''guest-'' @ decimal n)"
proof (rule utf8_valid_ascii)
  fix b assume "b \<in> set (ascii ''guest-'' @ decimal n)"
  then have "b \<in> set (ascii ''guest-'') \<or> b \<in> set (decimal n)" by auto
  then show "b < 0x80"
    by (auto dest!: decimal_digits simp: ascii_def word_le_nat_alt word_less_nat_alt)
qed

lemma truncate_ok: "utf8_valid s \<Longrightarrow> str_ok n (truncate_name s n)"
  using fit_runes_valid [of s n] fit_runes_length [of n s] by (simp add: str_ok_def truncate_name_def)

lemma uniqueNick_ends: "\<exists>c. uniqueNick others nick self = Some c"
  unfolding uniqueNick_def Let_def by (rule unique_name_ends)

lemma uniqueNick_ok:
  assumes "uniqueNick others nick self = Some c" "length others < 10 ^ 18"
  shows "c \<notin> set others" "str_ok MaxRoomNicknameLen c"
proof -
  define s where "s = (if TrimSpace nick = [] \<or> \<not> utf8_valid (TrimSpace nick)
    then ascii ''guest-'' @ decimal (unat self) else TrimSpace nick)"
  have u: "unique_name MaxRoomNicknameLen others (truncate_name s MaxRoomNicknameLen) = Some c"
    using assms(1) by (simp add: uniqueNick_def Let_def s_def)
  then show "c \<notin> set others" by (rule unique_name_free)
  have "utf8_valid s" unfolding s_def using guest_utf8 by simp
  then show "str_ok MaxRoomNicknameLen c"
    by (rule unique_name_ok [OF u truncate_ok assms(2)]) (simp add: MaxRoomNicknameLen_def)
qed

lemma uniqueLabel_ends: "\<exists>c. uniqueLabel others label = Some c"
  unfolding uniqueLabel_def Let_def by (auto intro: unique_name_ends)

lemma uniqueLabel_ok:
  assumes "uniqueLabel others label = Some c" "length others < 10 ^ 18" "utf8_valid label"
  shows "c = [] \<or> c \<notin> set others" "str_ok MaxRoomLabelLen c"
proof -
  show "c = [] \<or> c \<notin> set others"
    using assms(1) by (auto simp: uniqueLabel_def Let_def split: if_splits dest: unique_name_free)
  have "utf8_valid (TrimSpace label)" using assms(3) by (rule TrimSpace_valid)
  then show "str_ok MaxRoomLabelLen c"
    using assms(1,2) unique_name_ok [of MaxRoomLabelLen others _ c] truncate_ok
    by (auto simp: uniqueLabel_def Let_def str_ok_def MaxRoomLabelLen_def split: if_splits)
qed

lemma uniqueNick_keeps:
  assumes "TrimSpace nick = nick" "nick \<noteq> []" "str_ok MaxRoomNicknameLen nick" "nick \<notin> set others"
  shows "uniqueNick others nick self = Some nick"
  using assms by (simp add: uniqueNick_def str_ok_def truncate_name_def fit_runes_id unique_name_keeps)

end
