(* ===== verification/RoomServer.thy ===== *)
theory RoomServer
  imports RoomNames "HOL-Library.AList"
begin

section \<open>The state of the room registry (\<^verbatim>\<open>roomsrv/registry.go\<close>)\<close>

text \<open>
  Rooms, their attachments and their control sessions.  Rooms and sessions live in heaps and
  are named by numbers, because a session keeps its room after the room has ended.  A
  participant's outbox is the buffered channel its writer reads; \<open>None\<close> in it is the
  \<^verbatim>\<open>nil\<close> record that makes the writer close.  An empty string is the unset value of a
  string field, as in Go.

  The room registry is modelled without voice (\<^verbatim>\<open>Options.Voice.Enabled\<close> false, no mapping):
  then every call into \<^verbatim>\<open>voice.go\<close> leaves the state as it is.  What the code does through
  its hooks and on sessions is an effect, in the order of the calls; an unset hook ignores
  it.  The texts of the closes and the HMAC keys of the bus events are left out.
\<close>

datatype room_error =
    RoomNotFound | RoomForbidden | RoomFull | RoomMaxRooms | RoomMaxBroadcasts
  | RoomAlreadyAttached | RoomUnavailable | RoomCollision | RoomBadCode | RoomRandRead
  | RoomReserveRefused

record BroadcastStatus =
  bs_Live :: bool
  bs_Viewers :: int

type_synonym source = "bytes \<Rightarrow> BroadcastStatus \<times> bool"

record RoomTokens =
  tk_MintCreator :: "bytes \<Rightarrow> bytes"
  tk_VerifyCreator :: "bytes \<Rightarrow> bytes \<Rightarrow> bool"
  tk_VerifyResume :: "bytes \<Rightarrow> bytes \<Rightarrow> bool"

record RoomOptions =
  ro_EmptyGrace :: duration
  ro_MaxRooms :: int
  ro_MaxBroadcasts :: int
  ro_MaxParticipants :: int
  ro_CreateSecret :: bytes
  ro_Obfuscate :: "bytes \<Rightarrow> bytes"
  ro_RefreshInterval :: duration
  ro_UnknownIsExpired :: bool

definition DefaultEmptyGrace :: duration where "DefaultEmptyGrace = 60 * Second"
definition DefaultMaxRooms :: int where "DefaultMaxRooms = 10"
definition DefaultMaxBroadcasts :: int where "DefaultMaxBroadcasts = 4"
definition DefaultMaxParticipants :: int where "DefaultMaxParticipants = 50"
definition DefaultRefreshInterval :: duration where "DefaultRefreshInterval = Second"
definition minRejoinWindow :: duration where "minRejoinWindow = 60 * Second"
definition outboxDepth :: nat where "outboxDepth = 256"

definition RoomCloseCodeEnded :: u32 where "RoomCloseCodeEnded = 4007"
definition RoomCloseCodeUnresponsive :: u32 where "RoomCloseCodeUnresponsive = 4001"
definition RoomEndReasonEmpty :: byte where "RoomEndReasonEmpty = 1"
definition RoomEndReasonCreator :: byte where "RoomEndReasonCreator = 2"
definition RoomEndReasonOperator :: byte where "RoomEndReasonOperator = 3"
definition RoomDetachReasonPublisher :: byte where "RoomDetachReasonPublisher = 0"
definition RoomDetachReasonCreator :: byte where "RoomDetachReasonCreator = 1"
definition RoomDetachReasonExpired :: byte where "RoomDetachReasonExpired = 2"
definition RoomRejectLimit :: byte where "RoomRejectLimit = 1"
definition RoomRejectBadProof :: byte where "RoomRejectBadProof = 2"
definition RoomRejectNotFound :: byte where "RoomRejectNotFound = 3"
definition RoomRejectForbidden :: byte where "RoomRejectForbidden = 4"
definition RoomRejectAlreadyAttached :: byte where "RoomRejectAlreadyAttached = 5"
definition RoomRejectUnsupported :: byte where "RoomRejectUnsupported = 6"
definition RoomStateFlagDynamic :: byte where "RoomStateFlagDynamic = 0x01"
definition RoomStateFlagCreator :: byte where "RoomStateFlagCreator = 0x02"
definition RoomStateFlagAttachOK :: byte where "RoomStateFlagAttachOK = 0x04"
definition RoomParticipantFlagStreaming :: byte where "RoomParticipantFlagStreaming = 0x02"

subsection \<open>The objects\<close>

record tile =
  at_id :: bytes
  at_label :: bytes
  at_live :: bool
  at_viewers :: int
  at_attachedAt :: instant
  at_ownerPID :: u16

record Grants =
  g_Creator :: bool
  g_AttachOK :: bool
  g_VouchedBy :: "(bytes \<Rightarrow> bool) option"

datatype leave_reason = LeftTimeout | LeftRoomEnded | LeftHomeMoved

record RoomSession =
  pt_room :: nat
  pt_id :: u16
  pt_kind :: byte
  pt_nick :: bytes
  pt_identity :: bytes
  pt_grants :: Grants
  pt_firstState :: bytes
  pt_outbox :: "bytes option list"
  pt_closed :: bool
  pt_writing :: bool
  pt_leaveReason :: "leave_reason option"
  pt_closeCode :: u32

record room =
  rm_code :: bytes
  rm_display :: bytes
  rm_name :: bytes
  rm_kind :: room_kind
  rm_attachSecret :: bytes
  rm_maxBroadcasts :: int
  rm_maxParticipants :: int
  rm_pop :: bytes
  rm_creatorFP :: bytes
  rm_createdAt :: instant
  rm_minter :: bytes
  rm_seq :: u32
  rm_nextPID :: u16
  rm_participants :: "(u16 \<times> nat) list"
  rm_attachments :: "tile list"
  rm_emptyTimer :: bool
  rm_emptySince :: instant
  rm_emptyGen :: u64
  rm_ended :: bool
  rm_rejoinUntil :: instant
  rm_openedPublished :: bool
  rm_releasing :: bool
  rm_leaveReason :: "leave_reason option"

record RoomRegistry =
  rg_opts :: RoomOptions
  rg_rooms :: "(bytes \<times> nat) list"
  rg_attached :: "bytes \<Rightarrow> bytes option"
  rg_walls :: "bytes \<Rightarrow> bytes option"
  rg_tokens :: "RoomTokens option"
  rg_room :: "nat \<Rightarrow> room"
  rg_sess :: "nat \<Rightarrow> RoomSession"
  rg_nextRoom :: nat
  rg_nextSess :: nat

definition blank_room :: room where
  "blank_room = \<lparr>rm_code = [], rm_display = [], rm_name = [], rm_kind = KindStatic, rm_attachSecret = [],
     rm_maxBroadcasts = 0, rm_maxParticipants = 0, rm_pop = [], rm_creatorFP = [],
     rm_createdAt = zero_time, rm_minter = [], rm_seq = 0, rm_nextPID = 1, rm_participants = [],
     rm_attachments = [], rm_emptyTimer = False, rm_emptySince = zero_time, rm_emptyGen = 0,
     rm_ended = False, rm_rejoinUntil = zero_time, rm_openedPublished = False,
     rm_releasing = False, rm_leaveReason = None\<rparr>"

definition no_session :: RoomSession where
  "no_session = \<lparr>pt_room = 0, pt_id = 0, pt_kind = 0, pt_nick = [], pt_identity = [],
     pt_grants = \<lparr>g_Creator = False, g_AttachOK = False, g_VouchedBy = None\<rparr>, pt_firstState = [],
     pt_outbox = [], pt_closed = True, pt_writing = False, pt_leaveReason = None, pt_closeCode = 0\<rparr>"

definition or_unset :: "int \<Rightarrow> int \<Rightarrow> int" where
  "or_unset v d = (if v \<le> 0 then d else v)"

definition NewRoomRegistry :: "RoomOptions \<Rightarrow> RoomTokens option \<Rightarrow> RoomRegistry" where
  "NewRoomRegistry opts tokens =
     \<lparr>rg_opts = opts\<lparr>ro_EmptyGrace := or_unset (ro_EmptyGrace opts) DefaultEmptyGrace,
        ro_MaxRooms := or_unset (ro_MaxRooms opts) DefaultMaxRooms,
        ro_MaxBroadcasts := or_unset (ro_MaxBroadcasts opts) DefaultMaxBroadcasts,
        ro_MaxParticipants := or_unset (ro_MaxParticipants opts) DefaultMaxParticipants,
        ro_RefreshInterval := or_unset (ro_RefreshInterval opts) DefaultRefreshInterval\<rparr>,
      rg_rooms = [], rg_attached = (\<lambda>_. None), rg_walls = (\<lambda>_. None), rg_tokens = tokens,
      rg_room = (\<lambda>_. blank_room), rg_sess = (\<lambda>_. no_session), rg_nextRoom = 0, rg_nextSess = 0\<rparr>"

definition SetTokens :: "RoomTokens \<Rightarrow> RoomRegistry \<Rightarrow> RoomRegistry" where
  "SetTokens t r = r\<lparr>rg_tokens := Some t\<rparr>"

definition upd_room :: "nat \<Rightarrow> (room \<Rightarrow> room) \<Rightarrow> RoomRegistry \<Rightarrow> RoomRegistry" where
  "upd_room m f r = r\<lparr>rg_room := (rg_room r)(m := f (rg_room r m))\<rparr>"

definition upd_sess :: "nat \<Rightarrow> (RoomSession \<Rightarrow> RoomSession) \<Rightarrow> RoomRegistry \<Rightarrow> RoomRegistry" where
  "upd_sess p f r = r\<lparr>rg_sess := (rg_sess r)(p := f (rg_sess r p))\<rparr>"

text \<open>The room of a normalized code, and the live one among them.\<close>

definition room_at :: "RoomRegistry \<Rightarrow> bytes \<Rightarrow> nat option" where
  "room_at r norm = map_of (rg_rooms r) norm"

definition live_room :: "RoomRegistry \<Rightarrow> bytes \<Rightarrow> nat option" where
  "live_room r norm =
     (case room_at r norm of None \<Rightarrow> None | Some m \<Rightarrow> if rm_ended (rg_room r m) then None else Some m)"

text \<open>\<^verbatim>\<open>slotsLocked\<close>: party walls and ordinary rooms record their attachments apart.\<close>

definition is_wall :: "room \<Rightarrow> bool" where
  "is_wall rm \<longleftrightarrow> rm_pop rm \<noteq> []"

definition slots :: "bool \<Rightarrow> RoomRegistry \<Rightarrow> bytes \<Rightarrow> bytes option" where
  "slots wall r = (if wall then rg_walls r else rg_attached r)"

definition set_slot :: "bool \<Rightarrow> bytes \<Rightarrow> bytes option \<Rightarrow> RoomRegistry \<Rightarrow> RoomRegistry" where
  "set_slot wall i v r =
     (if wall then r\<lparr>rg_walls := (rg_walls r)(i := v)\<rparr> else r\<lparr>rg_attached := (rg_attached r)(i := v)\<rparr>)"

definition roomsOfLocked :: "bytes \<Rightarrow> RoomRegistry \<Rightarrow> nat list" where
  "roomsOfLocked i r =
     concat (map (\<lambda>wall. case slots wall r i of None \<Rightarrow> []
       | Some code \<Rightarrow> (case room_at r code of None \<Rightarrow> [] | Some m \<Rightarrow> [m])) [False, True])"

subsection \<open>Effects\<close>

datatype client_kind = ClientKindWebViewer | ClientKindWebBroadcaster | ClientKindNative

datatype room_close = RoomClosedGrace | RoomClosedCreator | RoomClosedOperator

datatype bus_event =
    BusRoomOpened bytes bytes room_kind instant
  | BusRoomClosed bytes bytes room_kind room_close
  | BusHomeChanged bytes bytes room_kind bytes
  | BusAttached bytes bytes bytes bytes
  | BusDetached bytes bytes bytes
  | BusAttachmentUpdated bytes bytes bytes bool u32
  | BusParticipantJoined bytes bytes u16 bytes client_kind bool bool
  | BusParticipantUpdated bytes bytes u16 bytes client_kind bool
  | BusParticipantLeft bytes bytes u16 bytes client_kind "leave_reason option"

datatype room_effect =
    CloseConn nat u32
  | WriteRecord nat bytes bool
  | OnRoomEnded bytes byte
  | OnRoomEmpty bytes bool
  | OnAttachmentsChanged bytes "RoomAttachmentRef list"
  | Unreserve bytes
  | Bus bus_event

type_synonym acts = "RoomRegistry \<times> room_effect list"

definition also_do :: "acts \<Rightarrow> (RoomRegistry \<Rightarrow> acts) \<Rightarrow> acts" where
  "also_do x f = (let (r, es) = x; (r', es') = f r in (r', es @ es'))"

fun do_all :: "('a \<Rightarrow> RoomRegistry \<Rightarrow> acts) \<Rightarrow> 'a list \<Rightarrow> RoomRegistry \<Rightarrow> acts" where
  "do_all f [] r = (r, [])"
| "do_all f (x # xs) r = also_do (f x r) (do_all f xs)"

subsection \<open>Records of participants and attachments\<close>

definition find_tile :: "room \<Rightarrow> bytes \<Rightarrow> tile option" where
  "find_tile rm i = find (\<lambda>a. at_id a = i) (rm_attachments rm)"

definition tile_record :: "tile \<Rightarrow> RoomAttachment" where
  "tile_record a = \<lparr>ra_BroadcastID = at_id a, ra_Label = at_label a, ra_Live = at_live a,
     ra_ViewerCount = word_of_int (at_viewers a)\<rparr>"

definition recordLocked :: "room \<Rightarrow> RoomSession \<Rightarrow> RoomParticipant" where
  "recordLocked rm p = \<lparr>rp_ID = pt_id p, rp_Kind = pt_kind p,
     rp_Flags = (if \<exists>a \<in> set (rm_attachments rm). at_ownerPID a = pt_id p then RoomParticipantFlagStreaming else 0),
     rp_Nickname = pt_nick p, rp_Identity = pt_identity p\<rparr>"

definition name_or_empty :: "bytes option \<Rightarrow> bytes" where
  "name_or_empty n = (case n of None \<Rightarrow> [] | Some s \<Rightarrow> s)"

definition uniqueNickLocked :: "RoomRegistry \<Rightarrow> room \<Rightarrow> bytes \<Rightarrow> u16 \<Rightarrow> bytes" where
  "uniqueNickLocked r rm nick self =
     name_or_empty (uniqueNick (map (\<lambda>(_, p). pt_nick (rg_sess r p)) (filter (\<lambda>(i, _). i \<noteq> self) (rm_participants rm))) nick self)"

definition uniqueLabelLocked :: "room \<Rightarrow> bytes \<Rightarrow> bytes \<Rightarrow> bytes" where
  "uniqueLabelLocked rm label self =
     name_or_empty (uniqueLabel (map at_label (filter (\<lambda>a. at_id a \<noteq> self) (rm_attachments rm))) label)"

definition participantLimit :: "RoomRegistry \<Rightarrow> room \<Rightarrow> int" where
  "participantLimit r rm =
     (if rm_maxParticipants rm > 0 then rm_maxParticipants rm else ro_MaxParticipants (rg_opts r))"

definition broadcast_limit :: "RoomRegistry \<Rightarrow> room \<Rightarrow> int" where
  "broadcast_limit r rm =
     (let limit = rm_maxBroadcasts rm in if limit \<le> 0 then ro_MaxBroadcasts (rg_opts r) else limit)"

definition dynamicCountLocked :: "RoomRegistry \<Rightarrow> nat" where
  "dynamicCountLocked r = length (filter (\<lambda>(_, m). rm_kind (rg_room r m) = KindDynamic) (rg_rooms r))"

definition rejoinWindow :: "RoomRegistry \<Rightarrow> duration" where
  "rejoinWindow r =
     (if ro_EmptyGrace (rg_opts r) > minRejoinWindow then ro_EmptyGrace (rg_opts r) else minRejoinWindow)"

subsection \<open>The event bus (\<^verbatim>\<open>roomsrv/eventbus.go\<close>)\<close>

definition clientKind :: "byte \<Rightarrow> client_kind" where
  "clientKind kind =
     (if kind = 1 then ClientKindWebBroadcaster
      else if kind = 2 then ClientKindNative
      else ClientKindWebViewer)"

definition rejoiningLocked :: "room \<Rightarrow> instant \<Rightarrow> bool" where
  "rejoiningLocked rm now \<longleftrightarrow> rm_rejoinUntil rm \<noteq> zero_time \<and> now < rm_rejoinUntil rm"

definition busEventLocked :: "room \<Rightarrow> RoomEvent \<Rightarrow> instant \<Rightarrow> room_effect list" where
  "busEventLocked rm ev now =
     (let p = re_Participant ev; a = re_Attachment ev;
          streaming = rp_Flags p AND RoomParticipantFlagStreaming \<noteq> 0 in
      if re_Kind ev = RoomEventParticipantJoined then
        [Bus (BusParticipantJoined (rm_code rm) (rm_display rm) (rp_ID p) (rp_Nickname p)
           (clientKind (rp_Kind p)) streaming (rejoiningLocked rm now))]
      else if re_Kind ev = RoomEventParticipantUpdated then
        [Bus (BusParticipantUpdated (rm_code rm) (rm_display rm) (rp_ID p) (rp_Nickname p)
           (clientKind (rp_Kind p)) streaming)]
      else if re_Kind ev = RoomEventAttachmentRemoved then
        [Bus (BusDetached (rm_code rm) (rm_display rm) (ra_BroadcastID a))]
      else if re_Kind ev = RoomEventAttachmentUpdated then
        [Bus (BusAttachmentUpdated (rm_code rm) (rm_display rm) (ra_BroadcastID a) (ra_Live a)
           (ra_ViewerCount a))]
      else [])"

definition departure_reason :: "room \<Rightarrow> RoomSession \<Rightarrow> leave_reason option" where
  "departure_reason rm p = (if rm_leaveReason rm \<noteq> None then rm_leaveReason rm else pt_leaveReason p)"

definition busParticipantLeftLocked :: "room \<Rightarrow> RoomSession \<Rightarrow> room_effect list" where
  "busParticipantLeftLocked rm p =
     [Bus (BusParticipantLeft (rm_code rm) (rm_display rm) (pt_id p) (pt_nick p) (clientKind (pt_kind p))
        (departure_reason rm p))]"

definition busHomeChangedLocked :: "room \<Rightarrow> bytes \<Rightarrow> room_effect list" where
  "busHomeChangedLocked rm previousPod =
     [Bus (BusHomeChanged (rm_code rm) (rm_display rm) (rm_kind rm) previousPod)]"

definition busRoomOpenedLocked :: "room \<Rightarrow> room_effect list" where
  "busRoomOpenedLocked rm = [Bus (BusRoomOpened (rm_code rm) (rm_display rm) (rm_kind rm) (rm_createdAt rm))]"

definition busAttachedLocked :: "room \<Rightarrow> tile \<Rightarrow> room_effect list" where
  "busAttachedLocked rm a = [Bus (BusAttached (rm_code rm) (rm_display rm) (at_id a) (at_label a))]"

definition closeReason :: "byte \<Rightarrow> room_close" where
  "closeReason reason =
     (if reason = RoomEndReasonEmpty then RoomClosedGrace
      else if reason = RoomEndReasonCreator then RoomClosedCreator
      else RoomClosedOperator)"

definition busRoomClosedLocked :: "room \<Rightarrow> byte \<Rightarrow> room_effect list" where
  "busRoomClosedLocked rm reason =
     (if rm_releasing rm then []
      else [Bus (BusRoomClosed (rm_code rm) (rm_display rm) (rm_kind rm) (closeReason reason))])"

definition ReleaseHome :: "bytes \<Rightarrow> RoomRegistry \<Rightarrow> RoomRegistry" where
  "ReleaseHome code r =
     (case room_at r code of None \<Rightarrow> r
      | Some m \<Rightarrow> upd_room m (\<lambda>rm. rm\<lparr>rm_releasing := True, rm_leaveReason := Some LeftHomeMoved\<rparr>) r)"

subsection \<open>Queueing records\<close>

definition frame :: "bytes \<Rightarrow> bytes option" where
  "frame msg = (case AppendRoomRecord [] msg of Inl _ \<Rightarrow> None | Inr rec \<Rightarrow> Some rec)"

definition room_enqueueLocked :: "bytes option \<Rightarrow> nat \<Rightarrow> RoomRegistry \<Rightarrow> acts" where
  "room_enqueueLocked rec p r =
     (if length (pt_outbox (rg_sess r p)) < outboxDepth
      then (upd_sess p (\<lambda>s. s\<lparr>pt_outbox := pt_outbox s @ [rec]\<rparr>) r, [])
      else (upd_sess p (\<lambda>s. s\<lparr>pt_leaveReason := Some LeftTimeout\<rparr>) r, [CloseConn p RoomCloseCodeUnresponsive]))"

definition members_but :: "u16 \<Rightarrow> room \<Rightarrow> nat list" where
  "members_but skip rm = map snd (filter (\<lambda>(i, _). i \<noteq> skip) (rm_participants rm))"

definition broadcastLocked :: "nat \<Rightarrow> RoomEvent \<Rightarrow> u16 \<Rightarrow> instant \<Rightarrow> RoomRegistry \<Rightarrow> acts" where
  "broadcastLocked m ev skip now r =
     (let r = upd_room m (\<lambda>rm. rm\<lparr>rm_seq := rm_seq rm + 1\<rparr>) r;
          rm = rg_room r m;
          ev = ev\<lparr>re_Seq := rm_seq rm\<rparr> in
      case AppendRoomEvent [] ev of
        Inl _ \<Rightarrow> (r, [])
      | Inr rec \<Rightarrow>
          also_do (do_all (room_enqueueLocked (frame rec)) (members_but skip rm) r)
            (\<lambda>r. (r, busEventLocked rm ev now)))"

definition roomKey :: "RoomRegistry \<Rightarrow> bytes \<Rightarrow> bytes" where
  "roomKey r code =
     (case unhex_pairs (ro_Obfuscate (rg_opts r) code) of
        None \<Rightarrow> [] | Some key \<Rightarrow> if length key \<noteq> RoomKeySize then [] else key)"

definition state_flags :: "room \<Rightarrow> RoomSession \<Rightarrow> byte" where
  "state_flags rm p =
     (if rm_kind rm = KindDynamic then RoomStateFlagDynamic else 0) OR
     (if g_Creator (pt_grants p) then RoomStateFlagCreator else 0) OR
     (if g_AttachOK (pt_grants p) then RoomStateFlagAttachOK else 0)"

definition roster :: "RoomRegistry \<Rightarrow> room \<Rightarrow> RoomParticipant list" where
  "roster r rm = map (\<lambda>i. case map_of (rm_participants rm) i of
       None \<Rightarrow> zero_participant | Some p \<Rightarrow> recordLocked rm (rg_sess r p))
     (sort_key unat (map fst (rm_participants rm)))"

definition room_snapshot :: "RoomRegistry \<Rightarrow> room \<Rightarrow> RoomSession \<Rightarrow> RoomState" where
  "room_snapshot r rm p = \<lparr>rs_Flags = state_flags rm p, rs_Caps = 0, rs_Seq = rm_seq rm, rs_YourID = pt_id p,
     rs_Code = rm_display rm, rs_DisplayName = rm_name rm, rs_CreatorToken = pt_firstState p,
     rs_Key = roomKey r (rm_code rm), rs_Attachments = map tile_record (rm_attachments rm),
     rs_Participants = roster r rm\<rparr>"

definition stateRecordLocked :: "RoomRegistry \<Rightarrow> room \<Rightarrow> RoomSession \<Rightarrow> bytes option" where
  "stateRecordLocked r rm p =
     (case AppendRoomState [] (room_snapshot r rm p) of Inl _ \<Rightarrow> None | Inr rec \<Rightarrow> frame rec)"

definition event :: "byte \<Rightarrow> RoomEvent" where
  "event kind = zero_event\<lparr>re_Kind := kind\<rparr>"

definition tile_event :: "byte \<Rightarrow> tile \<Rightarrow> RoomEvent" where
  "tile_event kind a = (event kind)\<lparr>re_Attachment := tile_record a\<rparr>"

definition person_event :: "byte \<Rightarrow> RoomParticipant \<Rightarrow> RoomEvent" where
  "person_event kind p = (event kind)\<lparr>re_Participant := p\<rparr>"

definition person_updated :: "nat \<Rightarrow> nat \<Rightarrow> instant \<Rightarrow> RoomRegistry \<Rightarrow> acts" where
  "person_updated m p now r =
     broadcastLocked m (person_event RoomEventParticipantUpdated (recordLocked (rg_room r m) (rg_sess r p))) 0 now r"

definition removed_event :: "bytes \<Rightarrow> byte \<Rightarrow> RoomEvent" where
  "removed_event i reason = (event RoomEventAttachmentRemoved)
     \<lparr>re_Attachment := zero_attachment\<lparr>ra_BroadcastID := i\<rparr>, re_Reason := reason\<rparr>"

subsection \<open>Attachments\<close>

definition attachLocked ::
  "nat \<Rightarrow> bytes \<Rightarrow> bytes \<Rightarrow> BroadcastStatus \<Rightarrow> u16 \<Rightarrow> instant \<Rightarrow> RoomRegistry \<Rightarrow> acts" where
  "attachLocked m i label state owner now r =
     (let rm = rg_room r m;
          a = \<lparr>at_id = i, at_label = uniqueLabelLocked rm label i, at_live = bs_Live state,
               at_viewers = bs_Viewers state, at_attachedAt = now, at_ownerPID = owner\<rparr>;
          r = upd_room m (\<lambda>rm. rm\<lparr>rm_attachments := rm_attachments rm @ [a]\<rparr>) r;
          r = set_slot (is_wall rm) i (Some (rm_code rm)) r;
          opens = (rm_kind rm = KindStatic \<and> \<not> rm_openedPublished rm);
          r = (if opens then upd_room m (\<lambda>rm. rm\<lparr>rm_openedPublished := True\<rparr>) r else r) in
      (r, (if opens then busRoomOpenedLocked rm else []) @ busAttachedLocked rm a))"

fun remove_tile :: "bytes \<Rightarrow> tile list \<Rightarrow> tile list" where
  "remove_tile i [] = []"
| "remove_tile i (a # as) = (if at_id a = i then as else a # remove_tile i as)"

definition removeAttachmentLocked :: "nat \<Rightarrow> bytes \<Rightarrow> byte \<Rightarrow> instant \<Rightarrow> RoomRegistry \<Rightarrow> acts" where
  "removeAttachmentLocked m i reason now r =
     (let wall = is_wall (rg_room r m);
          r = upd_room m (\<lambda>rm. rm\<lparr>rm_attachments := remove_tile i (rm_attachments rm)\<rparr>) r;
          r = set_slot wall i None r in
      broadcastLocked m (removed_event i reason) 0 now r)"

fun set_first :: "bytes \<Rightarrow> (tile \<Rightarrow> tile) \<Rightarrow> tile list \<Rightarrow> tile list" where
  "set_first i f [] = []"
| "set_first i f (a # as) = (if at_id a = i then f a # as else a # set_first i f as)"

definition set_tile :: "nat \<Rightarrow> bytes \<Rightarrow> (tile \<Rightarrow> tile) \<Rightarrow> RoomRegistry \<Rightarrow> RoomRegistry" where
  "set_tile m i f r = upd_room m (\<lambda>rm. rm\<lparr>rm_attachments := set_first i f (rm_attachments rm)\<rparr>) r"

definition tile_updated :: "nat \<Rightarrow> bytes \<Rightarrow> instant \<Rightarrow> RoomRegistry \<Rightarrow> acts" where
  "tile_updated m i now r =
     (case find_tile (rg_room r m) i of
        None \<Rightarrow> (r, [])
      | Some a \<Rightarrow> broadcastLocked m (tile_event RoomEventAttachmentUpdated a) 0 now r)"

text \<open>
  \<^verbatim>\<open>rekindLocked\<close>: the tiles move between the two maps as a room becomes a party wall or
  stops being one; the loop returns the tiles kept and the tiles that go.
\<close>

fun rekind_tiles :: "bool \<Rightarrow> bool \<Rightarrow> bytes \<Rightarrow> tile list \<Rightarrow> RoomRegistry \<Rightarrow> RoomRegistry \<times> tile list \<times> tile list" where
  "rekind_tiles was will code [] r = (r, [], [])"
| "rekind_tiles was will code (a # as) r =
     (let r = set_slot was (at_id a) None r in
      case slots will r (at_id a) of
        Some other \<Rightarrow>
          if other \<noteq> code
          then (let (r, keep, gone) = rekind_tiles was will code as r in (r, keep, a # gone))
          else (let (r, keep, gone) = rekind_tiles was will code as (set_slot will (at_id a) (Some code) r)
                in (r, a # keep, gone))
      | None \<Rightarrow> (let (r, keep, gone) = rekind_tiles was will code as (set_slot will (at_id a) (Some code) r)
                in (r, a # keep, gone)))"

definition rekindLocked :: "nat \<Rightarrow> bytes \<Rightarrow> instant \<Rightarrow> RoomRegistry \<Rightarrow> acts" where
  "rekindLocked m pop now r =
     (let rm = rg_room r m;
          (r, keep, gone) = rekind_tiles (is_wall rm) (pop \<noteq> []) (rm_code rm) (rm_attachments rm) r;
          r = upd_room m (\<lambda>rm. rm\<lparr>rm_pop := pop, rm_attachments := keep\<rparr>) r in
      do_all (\<lambda>a. broadcastLocked m (removed_event (at_id a) RoomDetachReasonPublisher) 0 now) gone r)"

definition tile_refs :: "room \<Rightarrow> RoomAttachmentRef list" where
  "tile_refs rm = map (\<lambda>a. \<lparr>cr_BroadcastID = at_id a, cr_Label = at_label a, cr_AttachedAt = at_attachedAt a\<rparr>)
     (rm_attachments rm)"

definition notifyAttachments :: "nat \<Rightarrow> RoomRegistry \<Rightarrow> acts" where
  "notifyAttachments m r =
     (let rm = rg_room r m in
      (r, if rm_ended rm then [] else [OnAttachmentsChanged (rm_code rm) (tile_refs rm)]))"

subsection \<open>The empty grace\<close>

definition startEmptyGraceLocked :: "nat \<Rightarrow> instant \<Rightarrow> RoomRegistry \<Rightarrow> RoomRegistry" where
  "startEmptyGraceLocked m now r =
     (let rm = rg_room r m in
      if rm_kind rm \<noteq> KindDynamic \<or> rm_ended rm \<or> rm_emptyTimer rm then r
      else upd_room m (\<lambda>rm. rm\<lparr>rm_emptySince := now, rm_emptyGen := rm_emptyGen rm + 1,
             rm_emptyTimer := True\<rparr>) r)"

definition clearEmptyGraceLocked :: "nat \<Rightarrow> RoomRegistry \<Rightarrow> bool \<times> RoomRegistry" where
  "clearEmptyGraceLocked m r =
     (if \<not> rm_emptyTimer (rg_room r m) then (False, r)
      else (True, upd_room m (\<lambda>rm. rm\<lparr>rm_emptyTimer := False, rm_emptySince := zero_time\<rparr>) r))"

end
