(* ===== verification/RoomOps.thy ===== *)
theory RoomOps
  imports RoomServer
begin

section \<open>The operations of the room registry (\<^verbatim>\<open>roomsrv/registry.go\<close>)\<close>

text \<open>
  Static rooms, admission, minting, sessions and their commands, party walls, the hub's
  hooks, the refresh, the end of rooms and adoption.  The state of broadcasts is the
  argument \<open>src\<close>, asked outside the lock as in the code.  An operation that takes the lock
  several times is composed of one definition per critical section.
\<close>

subsection \<open>Lookups\<close>

definition room_Has :: "bytes \<Rightarrow> RoomRegistry \<Rightarrow> bool" where
  "room_Has code r = (case NormalizeCode code of Inl _ \<Rightarrow> False | Inr norm \<Rightarrow> room_at r norm \<noteq> None)"

record RoomInfo =
  in_Code :: bytes
  in_Kind :: room_kind
  in_HasSecret :: bool
  in_Participants :: nat
  in_Attachments :: nat

definition room_Lookup :: "bytes \<Rightarrow> RoomRegistry \<Rightarrow> RoomInfo option" where
  "room_Lookup code r =
     (case NormalizeCode code of Inl _ \<Rightarrow> None | Inr norm \<Rightarrow>
      (case room_at r norm of None \<Rightarrow> None | Some m \<Rightarrow>
        (let rm = rg_room r m in
         Some \<lparr>in_Code = rm_code rm, in_Kind = rm_kind rm, in_HasSecret = (rm_attachSecret rm \<noteq> []),
           in_Participants = length (rm_participants rm), in_Attachments = length (rm_attachments rm)\<rparr>)))"

definition room_Attachments :: "bytes \<Rightarrow> RoomRegistry \<Rightarrow> RoomAttachmentRef list" where
  "room_Attachments code r =
     (case NormalizeCode code of Inl _ \<Rightarrow> [] | Inr norm \<Rightarrow>
      (case room_at r norm of None \<Rightarrow> [] | Some m \<Rightarrow> tile_refs (rg_room r m)))"

definition WallPop :: "bytes \<Rightarrow> RoomRegistry \<Rightarrow> bytes option" where
  "WallPop code r =
     (case NormalizeCode code of Inl _ \<Rightarrow> None | Inr norm \<Rightarrow>
      (case live_room r norm of None \<Rightarrow> None | Some m \<Rightarrow>
        if is_wall (rg_room r m) then Some (rm_pop (rg_room r m)) else None))"

record RoomTotals =
  tt_Static :: nat
  tt_Dynamic :: nat
  tt_Participants :: nat
  tt_Attachments :: nat

definition room_TotalStats :: "RoomRegistry \<Rightarrow> RoomTotals" where
  "room_TotalStats r =
     fold (\<lambda>(_, m) t. let rm = rg_room r m;
             t = (if rm_kind rm = KindDynamic then t\<lparr>tt_Dynamic := tt_Dynamic t + 1\<rparr>
                  else t\<lparr>tt_Static := tt_Static t + 1\<rparr>) in
           t\<lparr>tt_Participants := tt_Participants t + length (rm_participants rm),
             tt_Attachments := tt_Attachments t + length (rm_attachments rm)\<rparr>)
       (rg_rooms r) \<lparr>tt_Static = 0, tt_Dynamic = 0, tt_Participants = 0, tt_Attachments = 0\<rparr>"

subsection \<open>The end of a room\<close>

definition closeAfterDrain :: "u32 \<Rightarrow> nat \<Rightarrow> RoomRegistry \<Rightarrow> acts" where
  "closeAfterDrain code p r =
     (let r = upd_sess p (\<lambda>s. s\<lparr>pt_closeCode := code\<rparr>) r in
      if length (pt_outbox (rg_sess r p)) < outboxDepth
      then (upd_sess p (\<lambda>s. s\<lparr>pt_outbox := pt_outbox s @ [None]\<rparr>) r, [])
      else (r, [CloseConn p code]))"

definition end_room :: "nat \<Rightarrow> bytes \<Rightarrow> byte \<Rightarrow> instant \<Rightarrow> RoomRegistry \<Rightarrow> acts" where
  \<comment> \<open>the critical section of \<^verbatim>\<open>EndRoom\<close>\<close>
  "end_room m norm reason now r =
     (let r = upd_room m (\<lambda>rm. rm\<lparr>rm_ended := True,
                rm_leaveReason := (if rm_leaveReason rm = None then Some LeftRoomEnded else rm_leaveReason rm)\<rparr>) r;
          (_, r) = clearEmptyGraceLocked m r;
          r = r\<lparr>rg_rooms := AList.delete norm (rg_rooms r)\<rparr>;
          rm = rg_room r m;
          r = fold (\<lambda>a. set_slot (is_wall rm) (at_id a) None) (rm_attachments rm) r in
      also_do (broadcastLocked m ((event RoomEventRoomEnding)\<lparr>re_Reason := reason\<rparr>) 0 now r)
        (\<lambda>r. (r, busRoomClosedLocked (rg_room r m) reason)))"

definition EndRoom :: "bytes \<Rightarrow> byte \<Rightarrow> instant \<Rightarrow> RoomRegistry \<Rightarrow> acts" where
  "EndRoom code reason now r =
     (case NormalizeCode code of Inl _ \<Rightarrow> (r, []) | Inr norm \<Rightarrow>
      (case live_room r norm of None \<Rightarrow> (r, []) | Some m \<Rightarrow>
        also_do (also_do (end_room m norm reason now r)
          (\<lambda>r. do_all (closeAfterDrain RoomCloseCodeEnded) (map snd (rm_participants (rg_room r m))) r))
          (\<lambda>r. (r, [OnRoomEnded norm reason]))))"

text \<open>What the empty timer's callback finds: only its own arm may end the room.\<close>

definition empty_expired :: "bytes \<Rightarrow> nat \<Rightarrow> u64 \<Rightarrow> RoomRegistry \<Rightarrow> bool" where
  "empty_expired code m gen r \<longleftrightarrow>
     room_at r code = Some m \<and> rm_participants (rg_room r m) = [] \<and> rm_emptyTimer (rg_room r m)
     \<and> rm_emptyGen (rg_room r m) = gen"

definition empty_timer_fires :: "bytes \<Rightarrow> nat \<Rightarrow> u64 \<Rightarrow> instant \<Rightarrow> RoomRegistry \<Rightarrow> acts" where
  "empty_timer_fires code m gen now r =
     (if empty_expired code m gen r then EndRoom code RoomEndReasonEmpty now r else (r, []))"

subsection \<open>Static rooms\<close>

record StaticRoom =
  sr_Code :: bytes
  sr_DisplayCode :: bytes
  sr_DisplayName :: bytes
  sr_AttachSecret :: bytes
  sr_MaxBroadcasts :: int
  sr_MaxParticipants :: int
  sr_Pop :: bytes
  sr_Attachments :: "RoomAttachmentRef list"

record prefetched =
  pf_id :: bytes
  pf_label :: bytes
  pf_state :: BroadcastStatus

definition prefetchStates :: "source \<Rightarrow> RoomAttachmentRef list \<Rightarrow> prefetched list" where
  "prefetchStates src refs =
     concat (map (\<lambda>at. case Normalize (cr_BroadcastID at) of
         Inl _ \<Rightarrow> []
       | Inr i \<Rightarrow> [\<lparr>pf_id = i, pf_label = cr_Label at, pf_state = fst (src i)\<rparr>]) refs)"

definition seed_tile :: "nat \<Rightarrow> instant \<Rightarrow> prefetched \<Rightarrow> RoomRegistry \<Rightarrow> acts" where
  "seed_tile m now s r =
     (if slots (is_wall (rg_room r m)) r (pf_id s) \<noteq> None then (r, [])
      else attachLocked m (pf_id s) (pf_label s) (pf_state s) 0 now r)"

definition add_room :: "bytes \<Rightarrow> room \<Rightarrow> RoomRegistry \<Rightarrow> RoomRegistry" where
  "add_room norm rm r = r\<lparr>rg_rooms := AList.update norm (rg_nextRoom r) (rg_rooms r),
     rg_room := (rg_room r)(rg_nextRoom r := rm), rg_nextRoom := rg_nextRoom r + 1\<rparr>"

definition update_static :: "nat \<Rightarrow> bytes \<Rightarrow> StaticRoom \<Rightarrow> instant \<Rightarrow> RoomRegistry \<Rightarrow> acts \<times> bool" where
  "update_static m display def now r =
     (let r = upd_room m (\<lambda>rm. rm\<lparr>rm_display := display, rm_name := sr_DisplayName def,
                rm_attachSecret := sr_AttachSecret def, rm_maxBroadcasts := sr_MaxBroadcasts def,
                rm_maxParticipants := sr_MaxParticipants def\<rparr>) r;
          rekinded = (is_wall (rg_room r m) \<noteq> (sr_Pop def \<noteq> [])) in
      (also_do (if rekinded then rekindLocked m (sr_Pop def) now r else (r, []))
         (\<lambda>r. (upd_room m (\<lambda>rm. rm\<lparr>rm_pop := sr_Pop def\<rparr>) r, [])), rekinded))"

definition create_static :: "bytes \<Rightarrow> bytes \<Rightarrow> StaticRoom \<Rightarrow> prefetched list \<Rightarrow> instant \<Rightarrow> RoomRegistry \<Rightarrow> acts" where
  "create_static norm display def states now r =
     (let rm = blank_room\<lparr>rm_code := norm, rm_display := display, rm_name := sr_DisplayName def,
                 rm_kind := KindStatic, rm_attachSecret := sr_AttachSecret def,
                 rm_maxBroadcasts := sr_MaxBroadcasts def, rm_maxParticipants := sr_MaxParticipants def,
                 rm_pop := sr_Pop def, rm_createdAt := now\<rparr> in
      do_all (seed_tile (rg_nextRoom r) now) states (add_room norm rm r))"

definition UpsertStatic ::
  "StaticRoom \<Rightarrow> source \<Rightarrow> instant \<Rightarrow> RoomRegistry \<Rightarrow> (room_error + unit) \<times> acts" where
  "UpsertStatic def src now r =
     (case NormalizeCode (sr_Code def) of
        Inl _ \<Rightarrow> (Inl RoomBadCode, (r, []))
      | Inr norm \<Rightarrow>
        (let display = (if sr_DisplayCode def = [] then TrimSpace (sr_Code def) else sr_DisplayCode def);
             states = prefetchStates src (sr_Attachments def) in
         case room_at r norm of
           Some m \<Rightarrow>
             if rm_kind (rg_room r m) \<noteq> KindStatic then (Inl RoomAlreadyAttached, (r, []))
             else (let (x, rekinded) = update_static m display def now r in
                   (Inr (), if rekinded then also_do x (notifyAttachments m) else x))
         | None \<Rightarrow> (Inr (), create_static norm display def states now r)))"

fun upsert_all :: "StaticRoom list \<Rightarrow> source \<Rightarrow> instant \<Rightarrow> bytes list \<Rightarrow> RoomRegistry \<Rightarrow> bytes list \<times> acts" where
  "upsert_all [] src now keep r = (keep, (r, []))"
| "upsert_all (d # ds) src now keep r =
     (let (res, r', es) = UpsertStatic d src now r;
          keep = (case res of Inl _ \<Rightarrow> keep
                  | Inr _ \<Rightarrow> (case NormalizeCode (sr_Code d) of Inl _ \<Rightarrow> keep | Inr norm \<Rightarrow> norm # keep));
          (keep', r'', es') = upsert_all ds src now keep r' in
      (keep', r'', es @ es'))"

definition file_room :: "StaticRoom \<Rightarrow> StaticRoom" where
  \<comment> \<open>the fields a rooms file gives\<close>
  "file_room d = d\<lparr>sr_DisplayCode := [], sr_Pop := [], sr_Attachments := []\<rparr>"

definition gone_static :: "bytes list \<Rightarrow> RoomRegistry \<Rightarrow> bytes list" where
  "gone_static keep r = map fst (filter (\<lambda>(code, m). rm_kind (rg_room r m) = KindStatic
     \<and> rm_pop (rg_room r m) = [] \<and> code \<notin> set keep) (rg_rooms r))"

definition ReplaceStatic :: "StaticRoom list \<Rightarrow> source \<Rightarrow> instant \<Rightarrow> RoomRegistry \<Rightarrow> acts" where
  "ReplaceStatic defs src now r =
     (let (keep, x) = upsert_all (map file_room defs) src now [] r in
      also_do x (\<lambda>r. do_all (\<lambda>code. EndRoom code RoomEndReasonOperator now) (gone_static keep r) r))"

subsection \<open>Admission\<close>

text \<open>
  The \<^verbatim>\<open>AttachSecret\<close> hook is an argument: \<open>None\<close> unset, otherwise its answer, an error or
  a secret and whether it was found.
\<close>

definition CheckJoin ::
  "(bytes \<Rightarrow> unit + bytes \<times> bool) option \<Rightarrow> bytes \<Rightarrow> bytes \<Rightarrow> bytes \<Rightarrow> bool \<Rightarrow> RoomRegistry
     \<Rightarrow> room_error + Grants" where
  "CheckJoin AttachSecret code creatorToken attachSecret haveAttachSecret r =
     (case NormalizeCode code of
        Inl _ \<Rightarrow> Inl RoomNotFound
      | Inr norm \<Rightarrow>
        rbind (case AttachSecret of
                 None \<Rightarrow> Inr ([], False)
               | Some f \<Rightarrow> if haveAttachSecret
                          then (case f norm of Inl _ \<Rightarrow> Inl RoomUnavailable | Inr x \<Rightarrow> Inr x)
                          else Inr ([], False)) (\<lambda>(resolved, found).
        case live_room r norm of
          None \<Rightarrow> Inl RoomNotFound
        | Some m \<Rightarrow>
          (let rm = rg_room r m;
               expected = (if found then resolved else rm_attachSecret rm) in
           if is_wall rm \<and> haveAttachSecret then Inl RoomForbidden else
           rbind (if creatorToken = [] then Inr False else
                  (case (decodeHex creatorToken, rg_tokens r) of
                     (Some tok, Some t) \<Rightarrow> if tk_VerifyCreator t norm tok then Inr True else Inl RoomForbidden
                   | _ \<Rightarrow> Inl RoomForbidden)) (\<lambda>creator.
           rbind (if is_wall rm then Inr False
                  else if rm_kind rm = KindDynamic then Inr True
                  else if expected = [] \<and> \<not> found then Inr True
                  else if haveAttachSecret
                    then (if expected = [] \<or> attachSecret \<noteq> expected then Inl RoomForbidden else Inr True)
                  else Inr False) (\<lambda>attachOK.
           if int (length (rm_participants rm)) \<ge> participantLimit r rm then Inl RoomFull
           else Inr \<lparr>g_Creator = creator, g_AttachOK = attachOK, g_VouchedBy = None\<rparr>)))))"

subsection \<open>Sessions\<close>

text \<open>
  The next participant ID: past the ones in use, and never 0.  The loop of the code visits
  every 16-bit number, so a fuel of 65536 is enough to find a free one; with none free the
  loop does not end, which is the value \<open>None\<close>.
\<close>

fun free_pid :: "nat \<Rightarrow> u16 list \<Rightarrow> u16 \<Rightarrow> u16 option" where
  "free_pid 0 live pid = None"
| "free_pid (Suc n) live pid = (if pid \<noteq> 0 \<and> pid \<notin> set live then Some pid else free_pid n live (pid + 1))"

definition new_session :: "nat \<Rightarrow> u16 \<Rightarrow> RoomHello \<Rightarrow> Grants \<Rightarrow> bytes \<Rightarrow> bytes \<Rightarrow> RoomSession" where
  "new_session m pid hello grants creatorToken nick =
     \<lparr>pt_room = m, pt_id = pid, pt_kind = rh_ClientKind hello, pt_nick = nick, pt_identity = [],
      pt_grants = grants, pt_firstState = creatorToken, pt_outbox = [], pt_closed = False,
      pt_writing = True, pt_leaveReason = None, pt_closeCode = 0\<rparr>"

definition seat :: "nat \<Rightarrow> u16 \<Rightarrow> RoomHello \<Rightarrow> Grants \<Rightarrow> bytes \<Rightarrow> RoomRegistry \<Rightarrow> RoomRegistry" where
  "seat m pid hello grants creatorToken r =
     (let nick = uniqueNickLocked r (rg_room r m) (rh_Nickname hello) pid;
          p = rg_nextSess r;
          r = r\<lparr>rg_sess := (rg_sess r)(p := new_session m pid hello grants creatorToken nick), rg_nextSess := p + 1\<rparr> in
      upd_room m (\<lambda>rm. rm\<lparr>rm_nextPID := (if pid + 1 = 0 then 1 else pid + 1),
         rm_participants := rm_participants rm @ [(pid, p)]\<rparr>) r)"

definition announce :: "nat \<Rightarrow> nat \<Rightarrow> u16 \<Rightarrow> instant \<Rightarrow> RoomRegistry \<Rightarrow> acts" where
  \<comment> \<open>the joined event to the others, then the newcomer's snapshot\<close>
  "announce m p pid now r =
     also_do (also_do (broadcastLocked m (person_event RoomEventParticipantJoined
                (recordLocked (rg_room r m) (rg_sess r p))) pid now r)
       (\<lambda>r. room_enqueueLocked (stateRecordLocked r (rg_room r m) (rg_sess r p)) p r))
       (\<lambda>r. (upd_sess p (\<lambda>s. s\<lparr>pt_firstState := []\<rparr>) r, []))"

definition Join ::
  "bytes \<Rightarrow> RoomHello \<Rightarrow> Grants \<Rightarrow> bytes \<Rightarrow> instant \<Rightarrow> RoomRegistry \<Rightarrow> ((room_error + nat) \<times> acts) option" where
  "Join code hello grants creatorToken now r =
     (case NormalizeCode code of
        Inl _ \<Rightarrow> Some (Inl RoomNotFound, (r, []))
      | Inr norm \<Rightarrow>
        (case live_room r norm of
           None \<Rightarrow> Some (Inl RoomNotFound, (r, []))
         | Some m \<Rightarrow>
           if int (length (rm_participants (rg_room r m))) \<ge> participantLimit r (rg_room r m)
           then Some (Inl RoomFull, (r, []))
           else (case free_pid 65536 (map fst (rm_participants (rg_room r m))) (rm_nextPID (rg_room r m)) of
              None \<Rightarrow> None
            | Some pid \<Rightarrow>
              (let p = rg_nextSess r;
                   (wasEmpty, r) = clearEmptyGraceLocked m (seat m pid hello grants creatorToken r) in
               Some (Inr p, also_do (announce m p pid now r)
                 (\<lambda>r. (r, if wasEmpty then [OnRoomEmpty norm False] else [])))))))"

definition Leave :: "nat \<Rightarrow> instant \<Rightarrow> RoomRegistry \<Rightarrow> acts" where
  "Leave p now r =
     (let s = rg_sess r p; m = pt_room s in
      if pt_closed s then (r, []) else
      also_do
        (if map_of (rm_participants (rg_room r m)) (pt_id s) = Some p then
           also_do (broadcastLocked m (person_event RoomEventParticipantLeft (zero_participant\<lparr>rp_ID := pt_id s\<rparr>)) 0 now
               (upd_room m (\<lambda>rm. rm\<lparr>rm_participants := AList.delete (pt_id s) (rm_participants rm)\<rparr>) r))
             (\<lambda>r. (r, busParticipantLeftLocked (rg_room r m) (rg_sess r p)))
         else (r, []))
        (\<lambda>r. let rm = rg_room r m;
                 nowEmpty = (\<not> rm_ended rm \<and> rm_participants rm = []);
                 r = (if nowEmpty then startEmptyGraceLocked m now r else r);
                 r = upd_sess p (\<lambda>s. s\<lparr>pt_closed := True\<rparr>) r in
             (r, if nowEmpty \<and> rm_kind rm = KindDynamic then [OnRoomEmpty (rm_code rm) True] else [])))"

text \<open>
  One round of \<^verbatim>\<open>writeLoop\<close>: \<open>ok\<close> is whether the write succeeded.  The goroutine may also
  find the session closed, and then it ends.
\<close>

definition write_next :: "bool \<Rightarrow> nat \<Rightarrow> instant \<Rightarrow> RoomRegistry \<Rightarrow> acts" where
  "write_next ok p now r =
     (let s = rg_sess r p in
      if \<not> pt_writing s then (r, []) else
      case pt_outbox s of
        [] \<Rightarrow> (r, [])
      | None # rest \<Rightarrow>
          also_do (upd_sess p (\<lambda>s. s\<lparr>pt_outbox := rest, pt_writing := False\<rparr>) r, [CloseConn p (pt_closeCode s)])
            (Leave p now)
      | Some rec # rest \<Rightarrow>
          if ok then (upd_sess p (\<lambda>s. s\<lparr>pt_outbox := rest\<rparr>) r, [WriteRecord p rec True])
          else (upd_sess p (\<lambda>s. s\<lparr>pt_outbox := rest, pt_writing := False\<rparr>) r, [WriteRecord p rec False, CloseConn p 500]))"

definition write_stops :: "nat \<Rightarrow> RoomRegistry \<Rightarrow> acts" where
  "write_stops p r = (if pt_closed (rg_sess r p) then (upd_sess p (\<lambda>s. s\<lparr>pt_writing := False\<rparr>) r, []) else (r, []))"

subsection \<open>Commands\<close>

definition reject :: "byte \<Rightarrow> byte \<Rightarrow> bytes \<Rightarrow> nat \<Rightarrow> RoomRegistry \<Rightarrow> acts" where
  "reject cmdKind reason msg p r =
     (let rm = rg_room r (pt_room (rg_sess r p)) in
      if rm_ended rm then (r, []) else
      case AppendRoomEvent [] ((event RoomEventCommandRejected)\<lparr>re_Seq := rm_seq rm, re_Command := cmdKind,
             re_Reason := reason, re_Message := msg\<rparr>) of
        Inl _ \<Rightarrow> (r, [])
      | Inr rec \<Rightarrow> room_enqueueLocked (frame rec) p r)"

record attach_request =
  aq_id :: bytes
  aq_label :: bytes
  aq_state :: BroadcastStatus

text \<open>What \<^verbatim>\<open>attach\<close> checks before it takes the lock the second time.\<close>

definition attach_gate :: "nat \<Rightarrow> RoomCommand \<Rightarrow> source \<Rightarrow> RoomRegistry \<Rightarrow> byte \<times> bytes + attach_request" where
  "attach_gate p cmd src r =
     (let s = rg_sess r p; i = rc_BroadcastID cmd in
      if is_wall (rg_room r (pt_room s)) then
        Inl (RoomRejectForbidden, ascii ''the party wall takes broadcasts from its PoP only'')
      else if \<not> g_AttachOK (pt_grants s) then Inl (RoomRejectForbidden, ascii ''attach key required'')
      else
        (let proven = (case rg_tokens r of None \<Rightarrow> False | Some t \<Rightarrow> tk_VerifyResume t i (rc_ResumeToken cmd));
             (i, byVouch) = (if proven then (i, False) else
               (case g_VouchedBy (pt_grants s) of
                  None \<Rightarrow> (i, False)
                | Some vouched \<Rightarrow> (case Normalize i of Inl _ \<Rightarrow> (i, False)
                    | Inr n \<Rightarrow> if vouched n then (n, True) else (i, False)))) in
         if \<not> proven \<and> \<not> byVouch then Inl (RoomRejectBadProof, ascii ''resume token does not match'')
         else
           (let (state, known) = src i in
            if \<not> known \<and> \<not> byVouch then Inl (RoomRejectNotFound, ascii ''broadcast not found'')
            else Inr \<lparr>aq_id = i, aq_label = rc_Label cmd, aq_state = state\<rparr>)))"

definition reattach :: "nat \<Rightarrow> tile \<Rightarrow> attach_request \<Rightarrow> instant \<Rightarrow> RoomRegistry \<Rightarrow> acts" where
  "reattach p existing q now r =
     (let m = pt_room (rg_sess r p); i = aq_id q;
          label = (if aq_label q \<noteq> [] then uniqueLabelLocked (rg_room r m) (aq_label q) i else at_label existing);
          r = set_tile m i (\<lambda>a. a\<lparr>at_ownerPID := pt_id (rg_sess r p), at_label := label,
                at_live := bs_Live (aq_state q), at_viewers := bs_Viewers (aq_state q)\<rparr>) r in
      also_do (tile_updated m i now r) (person_updated m p now))"

definition new_attach :: "nat \<Rightarrow> attach_request \<Rightarrow> instant \<Rightarrow> RoomRegistry \<Rightarrow> acts" where
  "new_attach p q now r =
     (let m = pt_room (rg_sess r p) in
      also_do (also_do
        (attachLocked m (aq_id q) (aq_label q) (aq_state q) (pt_id (rg_sess r p)) now r)
        (\<lambda>r. broadcastLocked m (tile_event RoomEventAttachmentAdded (last (rm_attachments (rg_room r m)))) 0 now r))
        (person_updated m p now))"

definition attach_commit :: "nat \<Rightarrow> attach_request \<Rightarrow> instant \<Rightarrow> RoomRegistry \<Rightarrow> acts" where
  "attach_commit p q now r =
     (let m = pt_room (rg_sess r p); rm = rg_room r m; i = aq_id q in
      if rm_ended rm then (r, [])
      else if rg_attached r i \<noteq> None \<and> rg_attached r i \<noteq> Some (rm_code rm) then
        reject RoomCommandAttach RoomRejectAlreadyAttached (ascii ''broadcast is in another room'') p r
      else (case find_tile rm i of
          Some existing \<Rightarrow> also_do (reattach p existing q now r) (notifyAttachments m)
        | None \<Rightarrow>
            if int (length (rm_attachments rm)) \<ge> broadcast_limit r rm then
              reject RoomCommandAttach RoomRejectLimit (ascii ''room has no free broadcast slot'') p r
            else also_do (new_attach p q now r) (notifyAttachments m)))"

definition command_attach :: "nat \<Rightarrow> RoomCommand \<Rightarrow> source \<Rightarrow> instant \<Rightarrow> RoomRegistry \<Rightarrow> acts" where
  "command_attach p cmd src now r =
     (case attach_gate p cmd src r of
        Inl (reason, msg) \<Rightarrow> reject RoomCommandAttach reason msg p r
      | Inr q \<Rightarrow> attach_commit p q now r)"

definition drop_tile :: "nat \<Rightarrow> tile \<Rightarrow> byte \<Rightarrow> instant \<Rightarrow> RoomRegistry \<Rightarrow> acts" where
  \<comment> \<open>a tile goes, and its owner's streaming flag with it\<close>
  "drop_tile m a reason now r =
     (let owner = map_of (rm_participants (rg_room r m)) (at_ownerPID a) in
      also_do (removeAttachmentLocked m (at_id a) reason now r)
        (\<lambda>r. case owner of None \<Rightarrow> (r, []) | Some o' \<Rightarrow> person_updated m o' now r))"

definition command_detach :: "nat \<Rightarrow> RoomCommand \<Rightarrow> instant \<Rightarrow> RoomRegistry \<Rightarrow> acts" where
  "command_detach p cmd now r =
     (let s = rg_sess r p; m = pt_room s; rm = rg_room r m in
      if rm_ended rm then (r, []) else
      case find_tile rm (rc_BroadcastID cmd) of
        None \<Rightarrow> reject (rc_Kind cmd) RoomRejectNotFound (ascii ''broadcast is not attached'') p r
      | Some a \<Rightarrow>
          if at_ownerPID a \<noteq> pt_id s \<and> \<not> g_Creator (pt_grants s) then
            reject (rc_Kind cmd) RoomRejectForbidden (ascii ''only the attacher or the creator can detach'') p r
          else also_do
            (drop_tile m a (if at_ownerPID a \<noteq> pt_id s then RoomDetachReasonCreator else RoomDetachReasonPublisher) now r)
            (notifyAttachments m))"

definition command_nickname :: "nat \<Rightarrow> RoomCommand \<Rightarrow> instant \<Rightarrow> RoomRegistry \<Rightarrow> acts" where
  "command_nickname p cmd now r =
     (let s = rg_sess r p; m = pt_room s; rm = rg_room r m in
      if rm_ended rm then (r, []) else
      person_updated m p now
        (upd_sess p (\<lambda>s. s\<lparr>pt_nick := uniqueNickLocked r rm (rc_Nickname cmd) (pt_id s)\<rparr>) r))"

definition command_resync :: "nat \<Rightarrow> RoomRegistry \<Rightarrow> acts" where
  "command_resync p r =
     (let s = rg_sess r p; rm = rg_room r (pt_room s) in
      if rm_ended rm then (r, []) else room_enqueueLocked (stateRecordLocked r rm s) p r)"

definition command_end :: "nat \<Rightarrow> RoomCommand \<Rightarrow> instant \<Rightarrow> RoomRegistry \<Rightarrow> acts" where
  "command_end p cmd now r =
     (let s = rg_sess r p; rm = rg_room r (pt_room s) in
      if \<not> g_Creator (pt_grants s) \<or> rm_kind rm \<noteq> KindDynamic then
        reject (rc_Kind cmd) RoomRejectForbidden (ascii ''only the creator can end a dynamic room'') p r
      else EndRoom (rm_code rm) RoomEndReasonCreator now r)"

definition HandleCommand :: "nat \<Rightarrow> RoomCommand \<Rightarrow> source \<Rightarrow> instant \<Rightarrow> RoomRegistry \<Rightarrow> acts" where
  "HandleCommand p cmd src now r =
     (let k = rc_Kind cmd in
      if (k = RoomCommandAttach \<or> k = RoomCommandDetach) \<and> \<not> is_ok (Normalize (rc_BroadcastID cmd)) then
        reject k RoomRejectNotFound (ascii ''invalid broadcast id'') p r
      else
        (let cmd = (if k = RoomCommandAttach \<or> k = RoomCommandDetach
                    then cmd\<lparr>rc_BroadcastID := (case Normalize (rc_BroadcastID cmd) of Inr i \<Rightarrow> i | Inl _ \<Rightarrow> [])\<rparr>
                    else cmd) in
         if k = RoomCommandAttach then command_attach p cmd src now r
         else if k = RoomCommandDetach then command_detach p cmd now r
         else if k = RoomCommandSetNickname then command_nickname p cmd now r
         else if k = RoomCommandEndRoom then command_end p cmd now r
         else if k = RoomCommandResync then command_resync p r
         else reject k RoomRejectUnsupported (ascii ''unsupported command'') p r))"

end
