(* ===== verification/RoomLife.thy ===== *)
theory RoomLife
  imports RoomOps
begin

section \<open>Party walls, the hub's hooks, minting and adoption (\<^verbatim>\<open>roomsrv/registry.go\<close>)\<close>

text \<open>
  The operations of the room registry that are not a participant's: vouched tiles, the
  publisher's and the broadcast's end, the refresh, the mint of a dynamic room and its
  adoption by another pod.
\<close>

subsection \<open>Party walls\<close>

definition vouch_insert ::
  "bytes \<Rightarrow> bytes \<Rightarrow> bytes \<Rightarrow> bytes \<Rightarrow> BroadcastStatus \<Rightarrow> instant \<Rightarrow> RoomRegistry \<Rightarrow> (room_error + unit) \<times> acts" where
  \<comment> \<open>the critical section of \<^verbatim>\<open>AttachVouched\<close>\<close>
  "vouch_insert norm pop i label state now r =
     (case live_room r norm of
        None \<Rightarrow> (Inl RoomNotFound, (r, []))
      | Some m \<Rightarrow>
        (let rm = rg_room r m in
         if rm_pop rm = [] \<or> rm_pop rm \<noteq> pop then (Inl RoomForbidden, (r, []))
         else if rg_walls r i \<noteq> None \<and> rg_walls r i \<noteq> Some (rm_code rm) then (Inl RoomAlreadyAttached, (r, []))
         else (case find_tile rm i of
             Some existing \<Rightarrow>
               (Inr (), if label \<noteq> [] \<and> label \<noteq> at_label existing
                        then tile_updated m i now
                               (set_tile m i (\<lambda>a. a\<lparr>at_label := uniqueLabelLocked rm label i\<rparr>) r)
                        else (r, []))
           | None \<Rightarrow>
               if int (length (rm_attachments rm)) \<ge> broadcast_limit r rm then (Inl RoomMaxBroadcasts, (r, []))
               else (Inr (), also_do (also_do (attachLocked m i label state 0 now r)
                 (\<lambda>r. broadcastLocked m (tile_event RoomEventAttachmentAdded (last (rm_attachments (rg_room r m)))) 0 now r))
                 (notifyAttachments m)))))"

definition AttachVouched ::
  "bytes \<Rightarrow> bytes \<Rightarrow> bytes \<Rightarrow> bytes \<Rightarrow> source \<Rightarrow> instant \<Rightarrow> RoomRegistry \<Rightarrow> (room_error + unit) \<times> acts" where
  "AttachVouched code pop i label src now r =
     (case (NormalizeCode code, Normalize i) of
        (Inr norm, Inr i) \<Rightarrow>
          vouch_insert norm pop i (truncate_name (if utf8_valid label then label else []) MaxRoomLabelLen)
            (fst (src i)) now r
      | _ \<Rightarrow> (Inl RoomNotFound, (r, [])))"

definition DetachVouched ::
  "bytes \<Rightarrow> bytes \<Rightarrow> bytes \<Rightarrow> instant \<Rightarrow> RoomRegistry \<Rightarrow> (room_error + unit) \<times> acts" where
  "DetachVouched code pop i now r =
     (case (NormalizeCode code, Normalize i) of
        (Inr norm, Inr i) \<Rightarrow>
         (case live_room r norm of
            None \<Rightarrow> (Inl RoomNotFound, (r, []))
          | Some m \<Rightarrow>
            (let rm = rg_room r m in
             if rm_pop rm = [] \<or> rm_pop rm \<noteq> pop then (Inl RoomForbidden, (r, []))
             else if find_tile rm i = None then (Inl RoomNotFound, (r, []))
             else (Inr (), also_do (removeAttachmentLocked m i RoomDetachReasonPublisher now r) (notifyAttachments m))))
      | _ \<Rightarrow> (Inl RoomNotFound, (r, [])))"

subsection \<open>The hub's hooks and the refresh\<close>

definition set_live :: "bytes \<Rightarrow> bool \<Rightarrow> instant \<Rightarrow> nat \<Rightarrow> RoomRegistry \<Rightarrow> acts" where
  "set_live norm live now m r =
     (case find_tile (rg_room r m) norm of
        None \<Rightarrow> (r, [])
      | Some a \<Rightarrow> if at_live a \<noteq> live
                 then tile_updated m norm now (set_tile m norm (\<lambda>a. a\<lparr>at_live := live\<rparr>) r)
                 else (r, []))"

definition setLive :: "bytes \<Rightarrow> bool \<Rightarrow> instant \<Rightarrow> RoomRegistry \<Rightarrow> acts" where
  "setLive i live now r =
     (case Normalize i of Inl _ \<Rightarrow> (r, []) | Inr norm \<Rightarrow> do_all (set_live norm live now) (roomsOfLocked norm r) r)"

definition PublisherClosed :: "bytes \<Rightarrow> instant \<Rightarrow> RoomRegistry \<Rightarrow> acts" where
  "PublisherClosed i now r = setLive i False now r"

definition expire_in :: "bytes \<Rightarrow> instant \<Rightarrow> nat \<Rightarrow> RoomRegistry \<Rightarrow> acts" where
  "expire_in norm now m r =
     (case find_tile (rg_room r m) norm of
        None \<Rightarrow> (r, [])
      | Some a \<Rightarrow> drop_tile m a RoomDetachReasonExpired now r)"

definition room_BroadcastExpired :: "bytes \<Rightarrow> instant \<Rightarrow> RoomRegistry \<Rightarrow> acts" where
  "room_BroadcastExpired i now r =
     (case Normalize i of Inl _ \<Rightarrow> (r, [])
      | Inr norm \<Rightarrow> (let rms = roomsOfLocked norm r in
          also_do (do_all (expire_in norm now) rms r) (do_all notifyAttachments rms)))"

text \<open>One probe of \<^verbatim>\<open>Refresh\<close>: the room it was taken from, and the broadcast.\<close>

definition refresh_probe :: "source \<Rightarrow> instant \<Rightarrow> nat \<times> bytes \<Rightarrow> RoomRegistry \<Rightarrow> acts" where
  "refresh_probe src now pr r =
     (let (m, i) = pr; (state, known) = src i in
      if \<not> known then
        (if ro_UnknownIsExpired (rg_opts r) then room_BroadcastExpired i now r else (r, []))
      else if rm_ended (rg_room r m) then (r, [])
      else (case find_tile (rg_room r m) i of
          None \<Rightarrow> (r, [])
        | Some a \<Rightarrow>
            if bs_Live state \<noteq> at_live a \<or> bs_Viewers state \<noteq> at_viewers a
            then tile_updated m i now
                   (set_tile m i (\<lambda>a. a\<lparr>at_live := bs_Live state, at_viewers := bs_Viewers state\<rparr>) r)
            else (r, [])))"

definition room_probes :: "RoomRegistry \<Rightarrow> (nat \<times> bytes) list" where
  "room_probes r = concat (map (\<lambda>(_, m). map (\<lambda>a. (m, at_id a)) (rm_attachments (rg_room r m))) (rg_rooms r))"

definition Refresh :: "source \<Rightarrow> instant \<Rightarrow> RoomRegistry \<Rightarrow> acts" where
  "Refresh src now r = do_all (refresh_probe src now) (room_probes r) r"

subsection \<open>Minting\<close>

record MintRequest =
  mq_BroadcastID :: bytes
  mq_ResumeToken :: bytes
  mq_Label :: bytes
  mq_CreateSecret :: bytes

record MintResult =
  mr_Code :: bytes
  mr_Display :: bytes
  mr_CreatorToken :: bytes
  mr_Repeated :: bool

record mint_request =
  mg_id :: bytes
  mg_label :: bytes
  mg_state :: BroadcastStatus
  mg_tokens :: RoomTokens

definition mint_gate :: "MintRequest \<Rightarrow> source \<Rightarrow> RoomRegistry \<Rightarrow> room_error + mint_request" where
  "mint_gate req src r =
     (if ro_CreateSecret (rg_opts r) \<noteq> [] \<and> mq_CreateSecret req \<noteq> ro_CreateSecret (rg_opts r) then Inl RoomForbidden
      else (case Normalize (mq_BroadcastID req) of
          Inl _ \<Rightarrow> Inl RoomNotFound
        | Inr i \<Rightarrow>
          (let (state, known) = src i in
           if \<not> known then Inl RoomNotFound
           else (case rg_tokens r of
               None \<Rightarrow> Inl RoomForbidden
             | Some t \<Rightarrow>
                 if \<not> tk_VerifyResume t i (mq_ResumeToken req) then Inl RoomForbidden
                 else Inr \<lparr>mg_id = i,
                   mg_label = (if \<not> utf8_valid (mq_Label req) \<or> length (mq_Label req) > MaxRoomLabelLen
                               then [] else mq_Label req),
                   mg_state = state, mg_tokens = t\<rparr>))))"

datatype mint_verdict =
    MintRetry
  | MintAnswer "room_error + MintResult"
  | MintProceed room bytes

text \<open>The checks of one drawn code, up to the reservation.\<close>

definition mint_check :: "mint_request \<Rightarrow> bytes \<Rightarrow> bool \<Rightarrow> instant \<Rightarrow> RoomRegistry \<Rightarrow> mint_verdict" where
  "mint_check q raw taken now r =
     (let norm = ToLower raw in
      if taken \<or> room_at r norm \<noteq> None then MintRetry
      else (case rg_attached r (mg_id q) of
          Some other \<Rightarrow>
            (case room_at r other of
               Some m \<Rightarrow>
                 if rm_minter (rg_room r m) = mg_id q
                 then (let own = rg_room r m in
                       MintAnswer (Inr \<lparr>mr_Code = rm_code own, mr_Display = rm_display own,
                         mr_CreatorToken = tk_MintCreator (mg_tokens q) (rm_code own), mr_Repeated = True\<rparr>))
                 else MintAnswer (Inl RoomAlreadyAttached)
             | None \<Rightarrow> MintAnswer (Inl RoomAlreadyAttached))
        | None \<Rightarrow>
            if int (dynamicCountLocked r) \<ge> ro_MaxRooms (rg_opts r) then MintAnswer (Inl RoomMaxRooms)
            else (let token = tk_MintCreator (mg_tokens q) norm in
              MintProceed (blank_room\<lparr>rm_code := norm, rm_display := raw, rm_kind := KindDynamic,
                rm_creatorFP := Fingerprint token, rm_createdAt := now, rm_minter := mg_id q\<rparr>) token)))"

text \<open>
  The insertion.  With a \<^verbatim>\<open>Reserve\<close> hook the lock was free in between, so the room map and
  the attachment are checked again and a lost reservation is given back.
\<close>

definition mint_insert :: "mint_request \<Rightarrow> room \<Rightarrow> instant \<Rightarrow> RoomRegistry \<Rightarrow> acts" where
  "mint_insert q rm now r =
     (let m = rg_nextRoom r in
      also_do (also_do
        (attachLocked m (mg_id q) (mg_label q) (mg_state q) 0 now (add_room (rm_code rm) rm r))
        (\<lambda>r. (upd_room m (\<lambda>rm. rm\<lparr>rm_openedPublished := True\<rparr>) (startEmptyGraceLocked m now r),
              busRoomOpenedLocked rm)))
        (notifyAttachments m))"

definition mint_commit ::
  "bool \<Rightarrow> mint_request \<Rightarrow> room \<Rightarrow> bytes \<Rightarrow> instant \<Rightarrow> RoomRegistry
     \<Rightarrow> (room_error + MintResult) option \<times> acts" where
  "mint_commit reserved q rm token now r =
     (if reserved \<and> room_at r (rm_code rm) \<noteq> None then (None, (r, [Unreserve (rm_code rm)]))
      else if reserved \<and> rg_attached r (mg_id q) \<noteq> None
        then (Some (Inl RoomAlreadyAttached), (r, [Unreserve (rm_code rm)]))
      else (Some (Inr \<lparr>mr_Code = rm_code rm, mr_Display = rm_display rm, mr_CreatorToken = token,
              mr_Repeated = False\<rparr>), mint_insert q rm now r))"

text \<open>
  The ten draws.  \<open>draws\<close> has the results of \<^verbatim>\<open>broadcastid.Mint\<close>; \<open>reserve\<close> is the hook, with
  \<open>None\<close> unset and otherwise its error for a code, if any.
\<close>

fun mint_loop ::
  "(bytes \<Rightarrow> room_error option) option \<Rightarrow> mint_request \<Rightarrow> source \<Rightarrow> instant \<Rightarrow> (id_error + bytes) list
     \<Rightarrow> RoomRegistry \<Rightarrow> (room_error + MintResult) \<times> acts" where
  "mint_loop reserve q src now [] r = (Inl RoomCollision, (r, []))"
| "mint_loop reserve q src now (d # ds) r =
     (case d of
        Inl _ \<Rightarrow> (Inl RoomRandRead, (r, []))
      | Inr raw \<Rightarrow>
        (case mint_check q raw (snd (src raw)) now r of
           MintRetry \<Rightarrow> mint_loop reserve q src now ds r
         | MintAnswer res \<Rightarrow> (res, (r, []))
         | MintProceed rm token \<Rightarrow>
           (case (case reserve of None \<Rightarrow> None | Some f \<Rightarrow> f (rm_code rm)) of
              Some e \<Rightarrow>
                if e = RoomUnavailable \<or> e = RoomMaxRooms then (Inl e, (r, []))
                else mint_loop reserve q src now ds r
            | None \<Rightarrow>
                (case mint_commit (reserve \<noteq> None) q rm token now r of
                   (Some res, x) \<Rightarrow> (res, x)
                 | (None, (r', es)) \<Rightarrow>
                     (let (res, r'', es') = mint_loop reserve q src now ds r' in (res, r'', es @ es'))))))"

definition room_Mint ::
  "(bytes \<Rightarrow> room_error option) option \<Rightarrow> MintRequest \<Rightarrow> source \<Rightarrow> instant \<Rightarrow> (id_error + bytes) list
     \<Rightarrow> RoomRegistry \<Rightarrow> (room_error + MintResult) \<times> acts" where
  "room_Mint reserve req src now draws r =
     (case mint_gate req src r of
        Inl e \<Rightarrow> (Inl e, (r, []))
      | Inr q \<Rightarrow> mint_loop reserve q src now (take 10 draws) r)"

subsection \<open>Adoption\<close>

definition AdoptDynamic :: "RoomResource \<Rightarrow> source \<Rightarrow> instant \<Rightarrow> RoomRegistry \<Rightarrow> bool \<times> acts" where
  "AdoptDynamic cr src now r =
     (case NormalizeCode (cr_Name cr) of
        Inl _ \<Rightarrow> (False, (r, []))
      | Inr norm \<Rightarrow>
        if room_at r norm \<noteq> None then (False, (r, []))
        else
          (let m = rg_nextRoom r;
               rm = blank_room\<lparr>rm_code := norm, rm_display := DisplayCode (Some cr), rm_kind := KindDynamic,
                 rm_creatorFP := cr_CreatorTokenFingerprint cr,
                 rm_createdAt := (case cr_CreatedAt cr of None \<Rightarrow> now | Some t \<Rightarrow> t),
                 rm_rejoinUntil := now + rejoinWindow r\<rparr>;
               previousPod = (case cr_LeaseHolder cr of None \<Rightarrow> [] | Some h \<Rightarrow> h) in
           (True, also_do (also_do (add_room norm rm r, busHomeChangedLocked rm previousPod)
              (do_all (seed_tile m now) (prefetchStates src (cr_Attachments cr))))
              (\<lambda>r. (startEmptyGraceLocked m now r, [])))))"

end
