(* ===== verification/RoomInvariants.thy ===== *)
theory RoomInvariants
  imports RoomLife
begin

section \<open>The invariants of the room registry\<close>

text \<open>
  What holds between any two critical sections: which rooms are registered, that the two
  attachment maps record exactly the tiles of the rooms, that names and IDs are unique in a
  room, and that a dynamic room's empty timer runs exactly while nobody is in it.  They rest
  on a few fields of each object (\<open>room_same_core\<close>); records, sequence numbers and queues do not
  matter to them.
\<close>

subsection \<open>Sequencing\<close>

lemma also_do_fst [simp]: "fst (also_do x f) = fst (f (fst x))"
  by (simp add: also_do_def split: prod.split)

lemma also_do_snd [simp]: "snd (also_do x f) = snd x @ snd (f (fst x))"
  by (simp add: also_do_def split: prod.split)

lemma do_all_induct:
  assumes "P r" "\<And>x r. x \<in> set xs \<Longrightarrow> P r \<Longrightarrow> P (fst (f x r))"
  shows "P (fst (do_all f xs r))"
  using assms by (induction xs arbitrary: r) auto

subsection \<open>What the invariants look at\<close>

definition core_room :: "room \<Rightarrow> bytes \<times> room_kind \<times> bytes \<times> (u16 \<times> nat) list \<times> tile list \<times> bool \<times> bool" where
  "core_room rm = (rm_code rm, rm_kind rm, rm_pop rm, rm_participants rm, rm_attachments rm,
     rm_emptyTimer rm, rm_ended rm)"

definition core_sess :: "RoomSession \<Rightarrow> nat \<times> u16 \<times> byte \<times> bytes \<times> bytes \<times> bool" where
  "core_sess s = (pt_room s, pt_id s, pt_kind s, pt_nick s, pt_identity s, pt_closed s)"

definition room_same_core :: "RoomRegistry \<Rightarrow> RoomRegistry \<Rightarrow> bool" where
  "room_same_core r r' \<longleftrightarrow> rg_rooms r' = rg_rooms r \<and> rg_attached r' = rg_attached r \<and> rg_walls r' = rg_walls r
     \<and> rg_nextRoom r' = rg_nextRoom r \<and> rg_nextSess r' = rg_nextSess r
     \<and> (\<forall>m. core_room (rg_room r' m) = core_room (rg_room r m))
     \<and> (\<forall>p. core_sess (rg_sess r' p) = core_sess (rg_sess r p))"

lemma room_same_core_refl [simp, intro]: "room_same_core r r"
  by (simp add: room_same_core_def)

lemma room_same_core_trans: "room_same_core r r' \<Longrightarrow> room_same_core r' r'' \<Longrightarrow> room_same_core r r''"
  by (simp add: room_same_core_def)

lemma room_same_core_upd_sess:
  "core_sess (f (rg_sess r p)) = core_sess (rg_sess r p) \<Longrightarrow> room_same_core r (upd_sess p f r)"
  by (simp add: room_same_core_def upd_sess_def)

lemma room_same_core_upd_room:
  "core_room (f (rg_room r m)) = core_room (rg_room r m) \<Longrightarrow> room_same_core r (upd_room m f r)"
  by (simp add: room_same_core_def upd_room_def)

lemma room_same_core_do_all:
  assumes "\<And>x r. room_same_core r (fst (f x r))"
  shows "room_same_core r (fst (do_all f xs r))"
  by (rule do_all_induct [where P = "room_same_core r"]) (auto intro: room_same_core_trans assms)

lemma room_same_core_enqueue [simp]: "room_same_core r (fst (room_enqueueLocked rec p r))"
  by (simp add: room_enqueueLocked_def room_same_core_upd_sess core_sess_def)

lemma room_same_core_broadcast [simp]: "room_same_core r (fst (broadcastLocked m ev skip now r))"
proof -
  let ?r = "upd_room m (\<lambda>rm. rm\<lparr>rm_seq := rm_seq rm + 1\<rparr>) r"
  have 1: "room_same_core r ?r" by (rule room_same_core_upd_room) (simp add: core_room_def)
  show ?thesis
    unfolding broadcastLocked_def Let_def
    by (auto split: sum.split intro!: 1 room_same_core_trans [OF 1] room_same_core_do_all)
qed

lemma room_same_core_person_updated [simp]: "room_same_core r (fst (person_updated m p now r))"
  by (simp add: person_updated_def)

lemma room_same_core_tile_updated [simp]: "room_same_core r (fst (tile_updated m i now r))"
  by (simp add: tile_updated_def split: option.split)

lemma room_same_core_reject [simp]: "room_same_core r (fst (reject k reason msg p r))"
  by (simp add: reject_def Let_def split: sum.split)

lemma room_same_core_notify [simp]: "fst (notifyAttachments m r) = r"
  by (simp add: notifyAttachments_def Let_def)

lemma room_same_core_closeAfterDrain [simp]: "room_same_core r (fst (closeAfterDrain code p r))"
  unfolding closeAfterDrain_def Let_def
  by (auto intro!: room_same_core_upd_sess intro: room_same_core_trans simp: core_sess_def)
    (rule room_same_core_trans; rule room_same_core_upd_sess; simp add: core_sess_def)

lemma room_same_coreD:
  assumes "room_same_core r r'"
  shows "rg_rooms r' = rg_rooms r" "room_at r' = room_at r" "slots w r' = slots w r"
    "rg_nextRoom r' = rg_nextRoom r" "rg_nextSess r' = rg_nextSess r"
    "rm_code (rg_room r' m) = rm_code (rg_room r m)" "rm_kind (rg_room r' m) = rm_kind (rg_room r m)"
    "is_wall (rg_room r' m) = is_wall (rg_room r m)"
    "rm_pop (rg_room r' m) = rm_pop (rg_room r m)"
    "rm_participants (rg_room r' m) = rm_participants (rg_room r m)"
    "rm_attachments (rg_room r' m) = rm_attachments (rg_room r m)"
    "rm_emptyTimer (rg_room r' m) = rm_emptyTimer (rg_room r m)"
    "rm_ended (rg_room r' m) = rm_ended (rg_room r m)"
    "pt_room (rg_sess r' p) = pt_room (rg_sess r p)" "pt_id (rg_sess r' p) = pt_id (rg_sess r p)"
    "pt_kind (rg_sess r' p) = pt_kind (rg_sess r p)" "pt_nick (rg_sess r' p) = pt_nick (rg_sess r p)"
    "pt_identity (rg_sess r' p) = pt_identity (rg_sess r p)"
    "pt_closed (rg_sess r' p) = pt_closed (rg_sess r p)"
  using assms unfolding room_same_core_def core_room_def core_sess_def
  by (simp_all add: room_at_def fun_eq_iff slots_def is_wall_def)

subsection \<open>The invariants\<close>

definition codes_ok :: "RoomRegistry \<Rightarrow> bool" where
  "codes_ok r \<longleftrightarrow> distinct (map fst (rg_rooms r))
     \<and> (\<forall>code m. room_at r code = Some m \<longrightarrow>
          m < rg_nextRoom r \<and> rm_code (rg_room r m) = code \<and> \<not> rm_ended (rg_room r m)
          \<and> NormalizeCode code = Inr code)
     \<and> (\<forall>m < rg_nextRoom r. \<not> rm_ended (rg_room r m) \<longrightarrow> room_at r (rm_code (rg_room r m)) = Some m)"

definition room_slots_ok :: "RoomRegistry \<Rightarrow> bool" where
  "room_slots_ok r \<longleftrightarrow> (\<forall>wall i code. slots wall r i = Some code \<longleftrightarrow>
     (\<exists>m. room_at r code = Some m \<and> is_wall (rg_room r m) = wall
        \<and> i \<in> at_id ` set (rm_attachments (rg_room r m))))"

definition tiles_ok :: "tile list \<Rightarrow> bool" where
  "tiles_ok as \<longleftrightarrow> distinct (map at_id as)
     \<and> (\<forall>a \<in> set as. valid_id (at_id a) \<and> str_ok MaxRoomLabelLen (at_label a))
     \<and> (\<forall>a \<in> set as. \<forall>b \<in> set as. at_label a = at_label b \<and> at_label a \<noteq> [] \<longrightarrow> a = b)"

definition seats_ok :: "RoomRegistry \<Rightarrow> bool" where
  "seats_ok r \<longleftrightarrow> (\<forall>p < rg_nextSess r. pt_room (rg_sess r p) < rg_nextRoom r)
     \<and> (\<forall>m. distinct (map fst (rm_participants (rg_room r m))))
     \<and> (\<forall>m i p. (i, p) \<in> set (rm_participants (rg_room r m)) \<longrightarrow>
          i \<noteq> 0 \<and> p < rg_nextSess r \<and> pt_room (rg_sess r p) = m \<and> pt_id (rg_sess r p) = i
          \<and> \<not> pt_closed (rg_sess r p) \<and> pt_kind (rg_sess r p) \<le> roomClientKindMax
          \<and> str_ok MaxRoomNicknameLen (pt_nick (rg_sess r p)) \<and> pt_identity (rg_sess r p) = [])
     \<and> (\<forall>m i p j q. (i, p) \<in> set (rm_participants (rg_room r m)) \<longrightarrow> (j, q) \<in> set (rm_participants (rg_room r m))
          \<longrightarrow> pt_nick (rg_sess r p) = pt_nick (rg_sess r q) \<longrightarrow> i = j)"

definition grace_ok :: "nat set \<Rightarrow> RoomRegistry \<Rightarrow> bool" where
  "grace_ok X r \<longleftrightarrow> (\<forall>m. m < rg_nextRoom r \<longrightarrow> m \<notin> X \<longrightarrow>
     rm_emptyTimer (rg_room r m) \<longleftrightarrow>
       rm_kind (rg_room r m) = KindDynamic \<and> \<not> rm_ended (rg_room r m) \<and> rm_participants (rg_room r m) = [])"

text \<open>\<open>X\<close> has the rooms whose timer an operation has still to set.\<close>

definition room_inv :: "nat set \<Rightarrow> RoomRegistry \<Rightarrow> bool" where
  "room_inv X r \<longleftrightarrow> codes_ok r \<and> room_slots_ok r \<and> (\<forall>m. tiles_ok (rm_attachments (rg_room r m))) \<and> seats_ok r \<and> grace_ok X r"

lemma room_invI:
  assumes "codes_ok r" "room_slots_ok r" "\<And>m. tiles_ok (rm_attachments (rg_room r m))" "seats_ok r" "grace_ok X r"
  shows "room_inv X r"
  using assms by (simp add: room_inv_def)

lemma room_same_core_inv:
  assumes "room_inv X r" "room_same_core r r'"
  shows "room_inv X r'"
proof -
  have "room_inv X r' \<longleftrightarrow> room_inv X r"
    unfolding room_inv_def codes_ok_def room_slots_ok_def seats_ok_def grace_ok_def room_same_coreD [OF assms(2)] ..
  with assms(1) show ?thesis by simp
qed

lemma room_inv_also:
  assumes "room_inv X (fst x)" "\<And>r. room_inv X r \<Longrightarrow> room_inv X (fst (f r))"
  shows "room_inv X (fst (also_do x f))"
  using assms by simp

lemma room_inv_same: "room_same_core r (fst x) \<Longrightarrow> room_inv X r \<Longrightarrow> room_inv X (fst x)"
  by (rule room_same_core_inv)

subsection \<open>Consequences\<close>

lemma registered_facts:
  assumes "room_inv X r" "room_at r code = Some m"
  shows "m < rg_nextRoom r" "rm_code (rg_room r m) = code" "\<not> rm_ended (rg_room r m)"
    "NormalizeCode code = Inr code"
  using assms by (auto simp: room_inv_def codes_ok_def)

lemma live_registered:
  assumes "room_inv X r" "m < rg_nextRoom r" "\<not> rm_ended (rg_room r m)"
  shows "room_at r (rm_code (rg_room r m)) = Some m"
  using assms by (auto simp: room_inv_def codes_ok_def)

lemma slot_iff:
  assumes "room_inv X r"
  shows "slots wall r i = Some code \<longleftrightarrow>
    (\<exists>m. room_at r code = Some m \<and> is_wall (rg_room r m) = wall \<and> i \<in> at_id ` set (rm_attachments (rg_room r m)))"
  using assms by (simp add: room_inv_def room_slots_ok_def)

lemma live_room_inv:
  "room_inv X r \<Longrightarrow> live_room r code = room_at r code"
  by (auto simp: live_room_def room_inv_def codes_ok_def split: option.split)

lemma seat_facts:
  assumes "room_inv X r" "(i, p) \<in> set (rm_participants (rg_room r m))"
  shows "i \<noteq> 0" "p < rg_nextSess r" "pt_room (rg_sess r p) = m" "pt_id (rg_sess r p) = i"
    "\<not> pt_closed (rg_sess r p)" "str_ok MaxRoomNicknameLen (pt_nick (rg_sess r p))"
    "pt_kind (rg_sess r p) \<le> roomClientKindMax" "pt_identity (rg_sess r p) = []"
  using assms unfolding room_inv_def seats_ok_def by blast+

lemma seats_distinct: "room_inv X r \<Longrightarrow> distinct (map fst (rm_participants (rg_room r m)))"
  by (simp add: room_inv_def seats_ok_def)

lemma tiles_okD: "room_inv X r \<Longrightarrow> tiles_ok (rm_attachments (rg_room r m))"
  by (simp add: room_inv_def)

text \<open>The rooms are few enough for every name search to end with a name that fits.\<close>

lemma card_ids: "card {i. valid_id i} \<le> 31 ^ 6"
proof -
  have "{i. valid_id i} \<subseteq> {s. set s \<subseteq> set Alphabet \<and> length s = 6}"
    by (auto simp: valid_id_def in_Alphabet_iff Length_def)
  then have "card {i. valid_id i} \<le> card {s. set s \<subseteq> set Alphabet \<and> length s = 6}"
    by (intro card_mono finite_lists_length_eq) simp_all
  also have "\<dots> = 31 ^ 6"
    by (simp add: card_lists_length_eq distinct_card [OF distinct_Alphabet])
  finally show ?thesis .
qed

lemma finite_ids: "finite {i. valid_id i}"
proof -
  have "{i. valid_id i} \<subseteq> {s. set s \<subseteq> set Alphabet \<and> length s = 6}"
    by (auto simp: valid_id_def in_Alphabet_iff Length_def)
  then show ?thesis by (rule finite_subset) (rule finite_lists_length_eq, simp)
qed

lemma tiles_few:
  assumes "tiles_ok as"
  shows "length as < 10 ^ 18"
proof -
  have "length as = card (set (map at_id as))"
    using assms distinct_card [of "map at_id as"] by (simp add: tiles_ok_def)
  also have "\<dots> \<le> card {i. valid_id i}"
    using assms by (intro card_mono finite_ids) (auto simp: tiles_ok_def)
  also have "\<dots> \<le> 31 ^ 6" by (rule card_ids)
  finally show ?thesis by simp
qed

lemma seats_few:
  assumes "room_inv X r"
  shows "length (rm_participants (rg_room r m)) < 65536"
proof -
  let ?ps = "rm_participants (rg_room r m)"
  have "length ?ps = card (set (map fst ?ps))"
    using distinct_card [OF seats_distinct [OF assms, of m]] by simp
  also have "\<dots> \<le> card (UNIV - {0 :: u16})"
    using seat_facts(1) [OF assms] by (intro card_mono) auto
  also have "\<dots> < 65536" by (simp add: card_Diff_subset card_word)
  finally show ?thesis .
qed

lemma find_tile_Some: "find_tile rm i = Some a \<Longrightarrow> a \<in> set (rm_attachments rm) \<and> at_id a = i"
  by (auto simp: find_tile_def find_Some_iff)

lemma find_tile_None: "find_tile rm i = None \<longleftrightarrow> i \<notin> at_id ` set (rm_attachments rm)"
  by (auto simp: find_tile_def find_None_iff)

subsection \<open>Adding a tile\<close>

lemma slots_set_slot: "slots w (set_slot w' i v r) = (if w = w' then (slots w r)(i := v) else slots w r)"
  by (auto simp: slots_def set_slot_def)

lemma set_slot_other [simp]:
  "rg_rooms (set_slot w i v r) = rg_rooms r" "rg_room (set_slot w i v r) = rg_room r"
  "rg_sess (set_slot w i v r) = rg_sess r" "rg_nextRoom (set_slot w i v r) = rg_nextRoom r"
  "rg_nextSess (set_slot w i v r) = rg_nextSess r" "room_at (set_slot w i v r) = room_at r"
  "rg_opts (set_slot w i v r) = rg_opts r"
  by (auto simp: set_slot_def room_at_def fun_eq_iff)

lemma upd_room_other [simp]:
  "rg_rooms (upd_room m f r) = rg_rooms r" "rg_sess (upd_room m f r) = rg_sess r"
  "rg_nextRoom (upd_room m f r) = rg_nextRoom r" "rg_nextSess (upd_room m f r) = rg_nextSess r"
  "room_at (upd_room m f r) = room_at r" "slots w (upd_room m f r) = slots w r"
  "rg_opts (upd_room m f r) = rg_opts r"
  "rg_room (upd_room m f r) m' = (if m' = m then f (rg_room r m) else rg_room r m')"
  by (auto simp: upd_room_def room_at_def slots_def fun_eq_iff)

lemma upd_sess_other [simp]:
  "rg_rooms (upd_sess p f r) = rg_rooms r" "rg_room (upd_sess p f r) = rg_room r"
  "rg_nextRoom (upd_sess p f r) = rg_nextRoom r" "rg_nextSess (upd_sess p f r) = rg_nextSess r"
  "room_at (upd_sess p f r) = room_at r" "slots w (upd_sess p f r) = slots w r"
  "rg_opts (upd_sess p f r) = rg_opts r"
  "rg_sess (upd_sess p f r) q = (if q = p then f (rg_sess r p) else rg_sess r q)"
  by (auto simp: upd_sess_def room_at_def slots_def fun_eq_iff)

definition new_tile :: "room \<Rightarrow> bytes \<Rightarrow> bytes \<Rightarrow> BroadcastStatus \<Rightarrow> u16 \<Rightarrow> instant \<Rightarrow> tile" where
  "new_tile rm i label state owner now =
     \<lparr>at_id = i, at_label = uniqueLabelLocked rm label i, at_live = bs_Live state,
      at_viewers = bs_Viewers state, at_attachedAt = now, at_ownerPID = owner\<rparr>"

lemma new_tile_id [simp]: "at_id (new_tile rm i label state owner now) = i"
  "at_label (new_tile rm i label state owner now) = uniqueLabelLocked rm label i"
  by (simp_all add: new_tile_def)

lemma attachLocked_fst:
  "room_same_core (set_slot (is_wall (rg_room r m)) i (Some (rm_code (rg_room r m)))
      (upd_room m (\<lambda>rm. rm\<lparr>rm_attachments := rm_attachments rm @ [new_tile (rg_room r m) i label state owner now]\<rparr>) r))
    (fst (attachLocked m i label state owner now r))"
  by (simp add: attachLocked_def Let_def new_tile_def room_same_core_upd_room core_room_def)

lemma uniqueLabelLocked_ok:
  assumes "tiles_ok (rm_attachments rm)" "utf8_valid label"
  shows "str_ok MaxRoomLabelLen (uniqueLabelLocked rm label i)"
    "\<lbrakk>a \<in> set (rm_attachments rm); at_id a \<noteq> i; uniqueLabelLocked rm label i \<noteq> []\<rbrakk>
      \<Longrightarrow> at_label a \<noteq> uniqueLabelLocked rm label i"
proof -
  let ?os = "map at_label (filter (\<lambda>a. at_id a \<noteq> i) (rm_attachments rm))"
  obtain c where c: "uniqueLabel ?os label = Some c" using uniqueLabel_ends by blast
  have few: "length ?os < 10 ^ 18"
    using tiles_few [OF assms(1)] le_less_trans [OF length_filter_le] by (simp only: length_map)
  have eq: "uniqueLabelLocked rm label i = c" by (simp add: uniqueLabelLocked_def c name_or_empty_def)
  show "str_ok MaxRoomLabelLen (uniqueLabelLocked rm label i)"
    unfolding eq by (rule uniqueLabel_ok(2) [OF c few assms(2)])
  show "\<lbrakk>a \<in> set (rm_attachments rm); at_id a \<noteq> i; uniqueLabelLocked rm label i \<noteq> []\<rbrakk>
      \<Longrightarrow> at_label a \<noteq> uniqueLabelLocked rm label i"
    using uniqueLabel_ok(1) [OF c few assms(2)] unfolding eq by auto
qed

lemma tiles_ok_snoc:
  assumes "tiles_ok as" "at_id a \<notin> at_id ` set as" "valid_id (at_id a)" "str_ok MaxRoomLabelLen (at_label a)"
    "\<And>b. b \<in> set as \<Longrightarrow> at_label a \<noteq> [] \<Longrightarrow> at_label b \<noteq> at_label a"
  shows "tiles_ok (as @ [a])"
  using assms unfolding tiles_ok_def by (auto, (metis image_eqI)+)

lemma add_tile_inv:
  assumes inv: "room_inv X r" and m: "m < rg_nextRoom r" "\<not> rm_ended (rg_room r m)"
    and free: "slots (is_wall (rg_room r m)) r i = None" and i: "valid_id i" and l: "utf8_valid label"
  shows "room_inv X (fst (attachLocked m i label state owner now r))"
proof (rule room_same_core_inv [OF _ attachLocked_fst])
  let ?rm = "rg_room r m" and ?w = "is_wall (rg_room r m)"
  let ?a = "new_tile ?rm i label state owner now"
  let ?r1 = "upd_room m (\<lambda>rm. rm\<lparr>rm_attachments := rm_attachments rm @ [?a]\<rparr>) r"
  let ?r = "set_slot ?w i (Some (rm_code ?rm)) ?r1"
  have at: "room_at r (rm_code ?rm) = Some m" by (rule live_registered [OF inv m])
  have new: "i \<notin> at_id ` set (rm_attachments ?rm)"
  proof
    assume "i \<in> at_id ` set (rm_attachments ?rm)"
    then have "slots ?w r i = Some (rm_code ?rm)" using slot_iff [OF inv] at by blast
    with free show False by simp
  qed
  have tiles: "tiles_ok (rm_attachments ?rm @ [?a])"
    using uniqueLabelLocked_ok [OF tiles_okD [OF inv] l, where m1 = m and i = i] new i
    by (intro tiles_ok_snoc tiles_okD [OF inv]) auto
  show "room_inv X ?r"
  proof (rule room_invI)
    show "codes_ok ?r" using inv by (auto simp: room_inv_def codes_ok_def)
    show "tiles_ok (rm_attachments (rg_room ?r m'))" for m' using tiles tiles_okD [OF inv] by simp
    show "seats_ok ?r" using inv by (auto simp: room_inv_def seats_ok_def)
    show "grace_ok X ?r" using inv by (auto simp: room_inv_def grace_ok_def)
    show "room_slots_ok ?r"
      unfolding room_slots_ok_def
    proof (intro allI)
      fix wall j code
      have only: "room_at r c = Some m \<longleftrightarrow> c = rm_code ?rm" for c
        using at registered_facts(2) [OF inv] by blast
      have "slots wall ?r j = Some code \<longleftrightarrow>
          (if wall = ?w \<and> j = i then code = rm_code ?rm else slots wall r j = Some code)"
        by (auto simp: slots_set_slot)
      also have "\<dots> \<longleftrightarrow> (\<exists>m'. room_at r code = Some m' \<and> is_wall (rg_room r m') = wall
          \<and> (j \<in> at_id ` set (rm_attachments (rg_room r m')) \<or> m' = m \<and> j = i))"
        using at only free slot_iff [OF inv, of wall j code] slot_iff [OF inv, of ?w i code] by auto
      also have "\<dots> \<longleftrightarrow> (\<exists>m'. room_at ?r code = Some m' \<and> is_wall (rg_room ?r m') = wall
          \<and> j \<in> at_id ` set (rm_attachments (rg_room ?r m')))"
        by (intro ex_cong1) (auto simp: is_wall_def)
      finally show "slots wall ?r j = Some code \<longleftrightarrow> (\<exists>m'. room_at ?r code = Some m' \<and> is_wall (rg_room ?r m') = wall
          \<and> j \<in> at_id ` set (rm_attachments (rg_room ?r m')))" .
    qed
  qed
qed

subsection \<open>Removing and changing a tile\<close>

lemma set_remove_tile:
  "distinct (map at_id as) \<Longrightarrow> set (remove_tile i as) = {a \<in> set as. at_id a \<noteq> i}"
  by (induction as) (auto simp: image_iff)

lemma remove_tile_subseq: "set (remove_tile i as) \<subseteq> set as" "distinct (map at_id as) \<Longrightarrow> distinct (map at_id (remove_tile i as))"
  by (induction as) (auto simp: image_iff)

lemma tiles_ok_mono: "tiles_ok as \<Longrightarrow> set bs \<subseteq> set as \<Longrightarrow> distinct (map at_id bs) \<Longrightarrow> tiles_ok bs"
  unfolding tiles_ok_def by blast

lemma remove_tile_inv:
  assumes inv: "room_inv X r" and m: "m < rg_nextRoom r" "\<not> rm_ended (rg_room r m)"
    and there: "i \<in> at_id ` set (rm_attachments (rg_room r m))"
  shows "room_inv X (fst (removeAttachmentLocked m i reason now r))"
proof -
  let ?rm = "rg_room r m" and ?w = "is_wall (rg_room r m)"
  let ?r1 = "upd_room m (\<lambda>rm. rm\<lparr>rm_attachments := remove_tile i (rm_attachments rm)\<rparr>) r"
  let ?r = "set_slot ?w i None ?r1"
  have at: "room_at r (rm_code ?rm) = Some m" by (rule live_registered [OF inv m])
  have dist: "distinct (map at_id (rm_attachments ?rm))" using tiles_okD [OF inv] by (simp add: tiles_ok_def)
  have mine: "slots ?w r i = Some (rm_code ?rm)" using slot_iff [OF inv] at there by blast
  have "room_inv X ?r"
  proof (rule room_invI)
    show "codes_ok ?r" using inv by (auto simp: room_inv_def codes_ok_def)
    show "tiles_ok (rm_attachments (rg_room ?r m'))" for m'
      using tiles_ok_mono [OF tiles_okD [OF inv] remove_tile_subseq(1)] remove_tile_subseq(2) [OF dist] tiles_okD [OF inv]
      by simp
    show "seats_ok ?r" using inv by (auto simp: room_inv_def seats_ok_def)
    show "grace_ok X ?r" using inv by (auto simp: room_inv_def grace_ok_def)
    show "room_slots_ok ?r"
      unfolding room_slots_ok_def
    proof (intro allI)
      fix wall j code
      have "slots wall ?r j = Some code \<longleftrightarrow> \<not> (wall = ?w \<and> j = i) \<and> slots wall r j = Some code"
        by (auto simp: slots_set_slot)
      also have "\<dots> \<longleftrightarrow> (\<exists>m'. room_at r code = Some m' \<and> is_wall (rg_room r m') = wall
          \<and> j \<in> at_id ` set (rm_attachments (rg_room r m')) \<and> \<not> (m' = m \<and> j = i))"
      proof (cases "wall = ?w \<and> j = i")
        case True
        have "m' = m" if "room_at r code = Some m'" "is_wall (rg_room r m') = wall"
          "j \<in> at_id ` set (rm_attachments (rg_room r m'))" for m'
        proof -
          have "slots wall r j = Some code" using that slot_iff [OF inv] by blast
          then have "code = rm_code ?rm" using mine True by simp
          then show ?thesis using that(1) at by simp
        qed
        with True show ?thesis by blast
      qed (use slot_iff [OF inv, of wall j code] in blast)
      also have "\<dots> \<longleftrightarrow> (\<exists>m'. room_at ?r code = Some m' \<and> is_wall (rg_room ?r m') = wall
          \<and> j \<in> at_id ` set (rm_attachments (rg_room ?r m')))"
        by (intro ex_cong1) (auto simp: is_wall_def set_remove_tile [OF dist])
      finally show "slots wall ?r j = Some code \<longleftrightarrow> (\<exists>m'. room_at ?r code = Some m' \<and> is_wall (rg_room ?r m') = wall
          \<and> j \<in> at_id ` set (rm_attachments (rg_room ?r m')))" .
    qed
  qed
  then show ?thesis
    unfolding removeAttachmentLocked_def Let_def by (rule room_same_core_inv) simp
qed

lemma set_first_ids: "(\<And>a. at_id (f a) = at_id a) \<Longrightarrow> map at_id (set_first i f as) = map at_id as"
  by (induction as) auto

lemma set_first_set:
  "distinct (map at_id as) \<Longrightarrow> set (set_first i f as) = (\<lambda>a. if at_id a = i then f a else a) ` set as"
  by (induction as) (auto simp: image_iff)

lemma tiles_ok_set_first:
  assumes ok: "tiles_ok as" and f: "\<And>a. at_id (f a) = at_id a"
    and l: "\<And>a. a \<in> set as \<Longrightarrow> at_id a = i \<Longrightarrow> str_ok MaxRoomLabelLen (at_label (f a))"
      "\<And>a b. a \<in> set as \<Longrightarrow> at_id a = i \<Longrightarrow> b \<in> set as \<Longrightarrow> at_id b \<noteq> i \<Longrightarrow> at_label (f a) \<noteq> []
         \<Longrightarrow> at_label b \<noteq> at_label (f a)"
  shows "tiles_ok (set_first i f as)"
proof -
  have dist: "distinct (map at_id as)" using ok by (simp add: tiles_ok_def)
  have inj: "a = b" if "a \<in> set as" "b \<in> set as" "at_id a = at_id b" for a b
    using that dist by (simp add: distinct_map inj_on_def)
  show ?thesis
    unfolding tiles_ok_def
  proof (intro conjI ballI impI)
    show "distinct (map at_id (set_first i f as))" using set_first_ids [of f, OF f] dist by simp
    show "valid_id (at_id a)" "str_ok MaxRoomLabelLen (at_label a)" if "a \<in> set (set_first i f as)" for a
      using that ok l(1) f unfolding set_first_set [OF dist] tiles_ok_def by (auto split: if_splits)
    show "a = b" if ab: "a \<in> set (set_first i f as)" "b \<in> set (set_first i f as)"
      and lab: "at_label a = at_label b \<and> at_label a \<noteq> []" for a b
    proof -
      obtain x y where xy: "x \<in> set as" "a = (if at_id x = i then f x else x)"
          "y \<in> set as" "b = (if at_id y = i then f y else y)"
        using ab unfolding set_first_set [OF dist] by auto
      show ?thesis
      proof (cases "at_id x = i")
        case True
        show ?thesis
        proof (cases "at_id y = i")
          case False
          with True xy lab l(2) [of x y] show ?thesis by auto
        qed (use True xy inj in auto)
      next
        case False
        show ?thesis
        proof (cases "at_id y = i")
          case True
          with False xy lab l(2) [of y x] show ?thesis by auto
        next
          case ny: False
          with False xy lab ok show ?thesis unfolding tiles_ok_def by auto
        qed
      qed
    qed
  qed
qed

lemma set_tile_inv:
  assumes inv: "room_inv X r" and f: "\<And>a. at_id (f a) = at_id a"
    and ok: "tiles_ok (set_first i f (rm_attachments (rg_room r m)))"
  shows "room_inv X (set_tile m i f r)"
proof (rule room_invI)
  have ids: "at_id ` set (set_first i f as) = at_id ` set as" for as
    using set_first_ids [of f i as, OF f] by (metis set_map)
  show "codes_ok (set_tile m i f r)" using inv by (auto simp: room_inv_def codes_ok_def set_tile_def)
  show "tiles_ok (rm_attachments (rg_room (set_tile m i f r) m'))" for m'
    using ok tiles_okD [OF inv] by (simp add: set_tile_def)
  show "seats_ok (set_tile m i f r)" using inv by (auto simp: room_inv_def seats_ok_def set_tile_def)
  show "grace_ok X (set_tile m i f r)" using inv by (auto simp: room_inv_def grace_ok_def set_tile_def)
  have "room_slots_ok r" using inv by (simp add: room_inv_def)
  moreover have "(\<exists>m'. room_at r code = Some m' \<and> is_wall (rg_room (set_tile m i f r) m') = wall
      \<and> j \<in> at_id ` set (rm_attachments (rg_room (set_tile m i f r) m'))) \<longleftrightarrow>
      (\<exists>m'. room_at r code = Some m' \<and> is_wall (rg_room r m') = wall
      \<and> j \<in> at_id ` set (rm_attachments (rg_room r m')))" for wall j code
    by (intro ex_cong1) (auto simp: set_tile_def is_wall_def ids)
  ultimately show "room_slots_ok (set_tile m i f r)"
    unfolding room_slots_ok_def by (simp add: set_tile_def)
qed

text \<open>A change that leaves the label alone, and one that gives the tile a label of its own.\<close>

lemma set_tile_inv_same_label:
  assumes "room_inv X r" "\<And>a. at_id (f a) = at_id a" "\<And>a. at_label (f a) = at_label a"
  shows "room_inv X (set_tile m i f r)"
proof (rule set_tile_inv [OF assms(1,2)])
  have ok: "tiles_ok (rm_attachments (rg_room r m))" by (rule tiles_okD [OF assms(1)])
  show "tiles_ok (set_first i f (rm_attachments (rg_room r m)))"
    using ok assms(3) by (intro tiles_ok_set_first [OF ok assms(2)]) (auto simp: tiles_ok_def)
qed

lemma set_tile_inv_new_label:
  assumes "room_inv X r" "\<And>a. at_id (f a) = at_id a"
    "\<And>a. at_id a = i \<Longrightarrow> a \<in> set (rm_attachments (rg_room r m)) \<Longrightarrow>
       at_label (f a) = at_label a \<or> at_label (f a) = uniqueLabelLocked (rg_room r m) label i"
    "utf8_valid label"
  shows "room_inv X (set_tile m i f r)"
proof (rule set_tile_inv [OF assms(1,2)])
  have ok: "tiles_ok (rm_attachments (rg_room r m))" by (rule tiles_okD [OF assms(1)])
  note u = uniqueLabelLocked_ok [OF ok assms(4), where i = i]
  show "tiles_ok (set_first i f (rm_attachments (rg_room r m)))"
  proof (intro tiles_ok_set_first [OF ok assms(2)])
    fix a assume a: "a \<in> set (rm_attachments (rg_room r m))" "at_id a = i"
    show "str_ok MaxRoomLabelLen (at_label (f a))"
      using assms(3) [OF a(2,1)] u(1) ok a(1) by (auto simp: tiles_ok_def)
    fix b assume b: "b \<in> set (rm_attachments (rg_room r m))" "at_id b \<noteq> i" "at_label (f a) \<noteq> []"
    show "at_label b \<noteq> at_label (f a)"
      using assms(3) [OF a(2,1)] u(2) [OF b(1,2)] b ok a by (auto simp: tiles_ok_def)
  qed
qed

subsection \<open>Changing what a room is\<close>

lemma rekind_tiles_Cons:
  assumes "rekind_tiles was will code (a # as) r = (r', keep, gone)"
  obtains r0 k g where "rekind_tiles was will code as r0 = (r', k, g)"
    "r0 = set_slot was (at_id a) None r
     \<or> r0 = set_slot will (at_id a) (Some code) (set_slot was (at_id a) None r)"
  using assms by (simp add: Let_def split: option.splits if_splits prod.splits)

lemma rekind_tiles_same:
  "rekind_tiles was will code as r = (r', keep, gone) \<Longrightarrow>
     \<exists>f g. r' = r\<lparr>rg_attached := f, rg_walls := g\<rparr>"
proof (induction as arbitrary: r keep gone)
  case Nil
  then have "r' = r\<lparr>rg_attached := rg_attached r, rg_walls := rg_walls r\<rparr>" by simp
  then show ?case by blast
next
  case (Cons a as)
  from Cons.prems obtain r0 k g where r0: "rekind_tiles was will code as r0 = (r', k, g)"
    "r0 = set_slot was (at_id a) None r
     \<or> r0 = set_slot will (at_id a) (Some code) (set_slot was (at_id a) None r)"
    by (rule rekind_tiles_Cons)
  from Cons.IH [OF r0(1)] obtain f g where "r' = r0\<lparr>rg_attached := f, rg_walls := g\<rparr>" by blast
  then have "r' = r\<lparr>rg_attached := f, rg_walls := g\<rparr>" using r0(2) by (auto simp: set_slot_def)
  then show ?case by blast
qed

lemma rekind_tiles_other:
  assumes "rekind_tiles was will code as r = (r', keep, gone)"
  shows "rg_rooms r' = rg_rooms r" "rg_room r' = rg_room r" "rg_sess r' = rg_sess r"
    "rg_nextRoom r' = rg_nextRoom r" "rg_nextSess r' = rg_nextSess r" "room_at r' = room_at r"
    "rg_opts r' = rg_opts r"
  using rekind_tiles_same [OF assms] by (auto simp: room_at_def fun_eq_iff)

lemma rekind_tiles_spec:
  assumes "rekind_tiles was (\<not> was) code as r = (r', keep, gone)" "distinct (map at_id as)"
    "\<And>a. a \<in> set as \<Longrightarrow> slots (\<not> was) r (at_id a) \<noteq> Some code"
  shows "keep = filter (\<lambda>a. slots (\<not> was) r (at_id a) = None) as \<and> gone = filter (\<lambda>a. slots (\<not> was) r (at_id a) \<noteq> None) as
    \<and> slots was r' = (\<lambda>j. if j \<in> at_id ` set as then None else slots was r j)
    \<and> slots (\<not> was) r' = (\<lambda>j. if j \<in> at_id ` set keep then Some code else slots (\<not> was) r j)"
  using assms
proof (induction as arbitrary: r r' keep gone)
  case Nil
  then show ?case by auto
next
  case (Cons a as)
  let ?r = "set_slot was (at_id a) None r"
  have will: "slots (\<not> was) ?r = slots (\<not> was) r" by (simp add: slots_set_slot)
  have fresh: "at_id b \<noteq> at_id a" if "b \<in> set as" for b
    using Cons.prems(2) that by (auto simp: image_iff)
  show ?case
  proof (cases "slots (\<not> was) r (at_id a)")
    case None
    let ?r2 = "set_slot (\<not> was) (at_id a) (Some code) ?r"
    obtain k g where eq: "rekind_tiles was (\<not> was) code as ?r2 = (r', k, g)" "keep = a # k" "gone = g"
      using Cons.prems(1) None will by (auto simp: Let_def split: prod.splits)
    have "slots (\<not> was) ?r2 (at_id b) = slots (\<not> was) r (at_id b)" if "b \<in> set as" for b
      using fresh [OF that] by (simp add: slots_set_slot)
    then have IH: "k = filter (\<lambda>b. slots (\<not> was) r (at_id b) = None) as" "g = filter (\<lambda>b. slots (\<not> was) r (at_id b) \<noteq> None) as"
      "slots was r' = (\<lambda>j. if j \<in> at_id ` set as then None else slots was ?r2 j)"
      "slots (\<not> was) r' = (\<lambda>j. if j \<in> at_id ` set k then Some code else slots (\<not> was) ?r2 j)"
      using Cons.IH [OF eq(1)] Cons.prems(2,3) by (auto cong: filter_cong)
    then show ?thesis unfolding eq(2,3) using None by (auto simp: slots_set_slot fun_eq_iff)
  next
    case (Some other)
    then have "other \<noteq> code" using Cons.prems(3) [of a] by simp
    then obtain k g where eq: "rekind_tiles was (\<not> was) code as ?r = (r', k, g)" "keep = k" "gone = a # g"
      using Cons.prems(1) Some will by (auto simp: Let_def split: prod.splits)
    have IH: "k = filter (\<lambda>b. slots (\<not> was) r (at_id b) = None) as" "g = filter (\<lambda>b. slots (\<not> was) r (at_id b) \<noteq> None) as"
      "slots was r' = (\<lambda>j. if j \<in> at_id ` set as then None else slots was ?r j)"
      "slots (\<not> was) r' = (\<lambda>j. if j \<in> at_id ` set k then Some code else slots (\<not> was) r j)"
      using Cons.IH [OF eq(1)] Cons.prems(2,3) by (auto simp: will)
    then show ?thesis unfolding eq(2,3) using Some by (auto simp: slots_set_slot fun_eq_iff)
  qed
qed

lemma rekind_inv:
  assumes inv: "room_inv X r" and m: "m < rg_nextRoom r" "\<not> rm_ended (rg_room r m)"
    and turns: "is_wall (rg_room r m) \<noteq> (pop \<noteq> [])"
  shows "room_inv X (fst (rekindLocked m pop now r))"
    "rm_pop (rg_room (fst (rekindLocked m pop now r)) m) = pop"
proof -
  let ?rm = "rg_room r m"
  let ?was = "is_wall ?rm" and ?code = "rm_code ?rm" and ?as = "rm_attachments ?rm"
  have will: "(pop \<noteq> []) = (\<not> ?was)" using turns by auto
  obtain r1 keep gone where rk: "rekind_tiles ?was (\<not> ?was) ?code ?as r = (r1, keep, gone)"
    by (metis prod_cases3)
  note oth = rekind_tiles_other [OF rk]
  have at: "room_at r ?code = Some m" by (rule live_registered [OF inv m])
  have only: "room_at r c = Some m \<longleftrightarrow> c = ?code" for c using at registered_facts(2) [OF inv] by blast
  have ok: "tiles_ok ?as" by (rule tiles_okD [OF inv])
  have dist: "distinct (map at_id ?as)" using ok by (simp add: tiles_ok_def)
  have notmine: "slots (\<not> ?was) r j \<noteq> Some ?code" for j
    using slot_iff [OF inv, of "\<not> ?was" j ?code] at by auto
  have spec: "keep = filter (\<lambda>a. slots (\<not> ?was) r (at_id a) = None) ?as"
    "slots ?was r1 = (\<lambda>j. if j \<in> at_id ` set ?as then None else slots ?was r j)"
    "slots (\<not> ?was) r1 = (\<lambda>j. if j \<in> at_id ` set keep then Some ?code else slots (\<not> ?was) r j)"
    using rekind_tiles_spec [OF rk dist notmine] by blast+
  let ?r = "upd_room m (\<lambda>rm. rm\<lparr>rm_pop := pop, rm_attachments := keep\<rparr>) r1"
  have keep: "set keep \<subseteq> set ?as" "distinct (map at_id keep)"
    using spec(1) dist by (auto simp: distinct_map_filter)
  have wall: "is_wall (rg_room ?r m') = (if m' = m then \<not> ?was else is_wall (rg_room r m'))" for m'
    using will by (simp add: is_wall_def oth)
  have atts: "rm_attachments (rg_room ?r m') = (if m' = m then keep else rm_attachments (rg_room r m'))" for m'
    by (simp add: oth)
  have "room_inv X ?r"
  proof (rule room_invI)
    show "codes_ok ?r" using inv by (auto simp: room_inv_def codes_ok_def oth)
    show "tiles_ok (rm_attachments (rg_room ?r m'))" for m'
      unfolding atts using tiles_ok_mono [OF ok keep] tiles_okD [OF inv] by simp
    show "seats_ok ?r" using inv by (auto simp: room_inv_def seats_ok_def oth)
    show "grace_ok X ?r" using inv by (auto simp: room_inv_def grace_ok_def oth)
    show "room_slots_ok ?r"
      unfolding room_slots_ok_def
    proof (intro allI)
      fix wall j code
      show "slots wall ?r j = Some code \<longleftrightarrow> (\<exists>m'. room_at ?r code = Some m' \<and> is_wall (rg_room ?r m') = wall
          \<and> j \<in> at_id ` set (rm_attachments (rg_room ?r m')))"
      proof (cases "wall = ?was")
        case True
        have clash: False if "room_at r code = Some m'" "is_wall (rg_room r m') = ?was" "m' \<noteq> m"
          "j \<in> at_id ` set (rm_attachments (rg_room r m'))" "j \<in> at_id ` set ?as" for m'
        proof -
          have "slots ?was r j = Some code" "slots ?was r j = Some ?code"
            using that at slot_iff [OF inv] by blast+
          with that at show False by simp
        qed
        have "slots wall ?r j = Some code \<longleftrightarrow> j \<notin> at_id ` set ?as \<and> slots ?was r j = Some code"
          using True spec(2) by simp
        also have "\<dots> \<longleftrightarrow> (\<exists>m'. room_at r code = Some m' \<and> is_wall (rg_room r m') = ?was \<and> m' \<noteq> m
            \<and> j \<in> at_id ` set (rm_attachments (rg_room r m')))"
          using slot_iff [OF inv, of ?was j code] clash by blast
        also have "\<dots> \<longleftrightarrow> (\<exists>m'. room_at ?r code = Some m' \<and> is_wall (rg_room ?r m') = wall
          \<and> j \<in> at_id ` set (rm_attachments (rg_room ?r m')))"
          unfolding wall atts using True by (intro ex_cong1) (auto simp: oth)
        finally show ?thesis .
      next
        case False
        then have w: "wall = (\<not> ?was)" by auto
        have none: "slots (\<not> ?was) r j = None" if "j \<in> at_id ` set keep" using that spec(1) by auto
        have "slots wall ?r j = Some code \<longleftrightarrow>
            (if j \<in> at_id ` set keep then code = ?code else slots (\<not> ?was) r j = Some code)"
          using w spec(3) by auto
        also have "\<dots> \<longleftrightarrow> (\<exists>m'. room_at r code = Some m' \<and>
            (if m' = m then j \<in> at_id ` set keep
             else is_wall (rg_room r m') = wall \<and> j \<in> at_id ` set (rm_attachments (rg_room r m'))))"
        proof (cases "j \<in> at_id ` set keep")
          case True
          then have "\<not> (room_at r code = Some m' \<and> is_wall (rg_room r m') = wall
              \<and> j \<in> at_id ` set (rm_attachments (rg_room r m')))" for m'
            using none slot_iff [OF inv, of wall j code] w by auto
          with True only show ?thesis by auto
        next
          case False
          have "m' \<noteq> m" if "is_wall (rg_room r m') = wall" for m' using that w by auto
          with False show ?thesis using slot_iff [OF inv, of wall j code] w by auto
        qed
        also have "\<dots> \<longleftrightarrow> (\<exists>m'. room_at ?r code = Some m' \<and> is_wall (rg_room ?r m') = wall
          \<and> j \<in> at_id ` set (rm_attachments (rg_room ?r m')))"
          unfolding wall atts using w by (intro ex_cong1) (auto simp: oth)
        finally show ?thesis .
      qed
    qed
  qed
  moreover have eq: "rekindLocked m pop now r =
      do_all (\<lambda>a. broadcastLocked m (removed_event (at_id a) RoomDetachReasonPublisher) 0 now) gone ?r"
    using rk will by (simp add: rekindLocked_def Let_def)
  have same: "room_same_core ?r (fst (rekindLocked m pop now r))"
    unfolding eq by (rule room_same_core_do_all) simp
  ultimately show "room_inv X (fst (rekindLocked m pop now r))" by (blast intro: room_same_core_inv)
  show "rm_pop (rg_room (fst (rekindLocked m pop now r)) m) = pop"
    unfolding room_same_coreD(9) [OF same] by simp
qed

text \<open>Any other change of a room's fields that keeps what the invariants look at, but for its PoP's name.\<close>

lemma same_kind_inv:
  assumes inv: "room_inv X r" and f: "\<And>rm. rm_code (f rm) = rm_code rm" "\<And>rm. rm_kind (f rm) = rm_kind rm"
    "\<And>rm. rm_participants (f rm) = rm_participants rm" "\<And>rm. rm_attachments (f rm) = rm_attachments rm"
    "\<And>rm. rm_emptyTimer (f rm) = rm_emptyTimer rm" "\<And>rm. rm_ended (f rm) = rm_ended rm"
    "is_wall (f (rg_room r m)) = is_wall (rg_room r m)"
  shows "room_inv X (upd_room m f r)"
proof (rule room_invI)
  show "codes_ok (upd_room m f r)" using inv f by (auto simp: room_inv_def codes_ok_def)
  show "tiles_ok (rm_attachments (rg_room (upd_room m f r) m'))" for m' using tiles_okD [OF inv] f by simp
  show "seats_ok (upd_room m f r)" using inv f by (auto simp: room_inv_def seats_ok_def)
  show "grace_ok X (upd_room m f r)" using inv f by (auto simp: room_inv_def grace_ok_def)
  have "room_slots_ok r" using inv by (simp add: room_inv_def)
  moreover have "(\<exists>m'. room_at r code = Some m' \<and> is_wall (rg_room (upd_room m f r) m') = wall
      \<and> j \<in> at_id ` set (rm_attachments (rg_room (upd_room m f r) m'))) \<longleftrightarrow>
      (\<exists>m'. room_at r code = Some m' \<and> is_wall (rg_room r m') = wall
      \<and> j \<in> at_id ` set (rm_attachments (rg_room r m')))" for wall j code
    using f by (intro ex_cong1) auto
  ultimately show "room_slots_ok (upd_room m f r)" unfolding room_slots_ok_def by simp
qed

end
