(* ===== verification/RoomSteps.thy ===== *)
theory RoomSteps
  imports RoomInvariants
begin

section \<open>The room registry as a state machine\<close>

text \<open>
  Rooms come and go, people come and go, timers are set: the remaining changes that matter
  to the invariants.  Then every operation keeps them, and so they hold in every state the
  registry reaches, however the operations of its callers interleave.
\<close>

subsection \<open>Rooms\<close>

lemma map_of_update_new:
  "k \<notin> fst ` set al \<Longrightarrow> AList.update k v al = al @ [(k, v)]"
  by (induction al) auto

lemma add_room_inv:
  assumes inv: "room_inv X r" and code: "room_at r norm = None" "NormalizeCode norm = Inr norm"
    and rm: "rm_code rm = norm" "rm_participants rm = []" "rm_attachments rm = []" "\<not> rm_ended rm" "\<not> rm_emptyTimer rm"
  shows "room_inv (insert (rg_nextRoom r) X) (add_room norm rm r)"
    "room_at (add_room norm rm r) norm = Some (rg_nextRoom r)"
    "rm_kind rm = KindStatic \<Longrightarrow> room_inv X (add_room norm rm r)"
proof -
  let ?m = "rg_nextRoom r" and ?r = "add_room norm rm r"
  have new: "norm \<notin> fst ` set (rg_rooms r)" using code(1) by (simp add: room_at_def map_of_eq_None_iff)
  have rooms: "rg_rooms ?r = rg_rooms r @ [(norm, ?m)]"
    using map_of_update_new [OF new] by (simp add: add_room_def)
  have at: "room_at ?r c = (if c = norm then Some ?m else room_at r c)" for c
    using code(1) unfolding room_at_def rooms by (auto simp: map_add_def split: option.splits)
  show "room_at ?r norm = Some ?m" by (simp add: at)
  have oth: "rg_room ?r m' = (if m' = ?m then rm else rg_room r m')" "rg_nextRoom ?r = Suc ?m"
    "rg_sess ?r = rg_sess r" "rg_nextSess ?r = rg_nextSess r" "slots w ?r = slots w r" for m' w
    by (auto simp: add_room_def slots_def)
  have lt: "m' < ?m" if "room_at r c = Some m'" for c m' using registered_facts(1) [OF inv that] .
  have old: "rm_participants (rg_room r ?m) = []"
  proof (rule ccontr)
    assume "rm_participants (rg_room r ?m) \<noteq> []"
    then obtain i p where ip: "(i, p) \<in> set (rm_participants (rg_room r ?m))" by (cases "rm_participants (rg_room r ?m)") auto
    have "pt_room (rg_sess r p) < ?m"
      using inv seat_facts(2) [OF inv ip] by (simp add: room_inv_def seats_ok_def)
    then show False using seat_facts(3) [OF inv ip] by simp
  qed
  have codes: "codes_ok ?r"
    unfolding codes_ok_def
  proof (intro conjI allI impI)
    show "distinct (map fst (rg_rooms ?r))" using inv new by (simp add: rooms room_inv_def codes_ok_def)
    fix c m' assume c: "room_at ?r c = Some m'"
    then show "m' < rg_nextRoom ?r" "rm_code (rg_room ?r m') = c" "\<not> rm_ended (rg_room ?r m')" "NormalizeCode c = Inr c"
      using registered_facts [OF inv, of c m'] rm code by (auto simp: at oth split: if_splits)
  next
    fix m' assume m': "m' < rg_nextRoom ?r" "\<not> rm_ended (rg_room ?r m')"
    show "room_at ?r (rm_code (rg_room ?r m')) = Some m'"
    proof (cases "m' = ?m")
      case False
      then have "room_at r (rm_code (rg_room r m')) = Some m'"
        using live_registered [OF inv, of m'] m' by (simp add: oth)
      with False code(1) show ?thesis by (auto simp: at oth)
    qed (simp add: at oth rm)
  qed
  have slots: "room_slots_ok ?r"
    unfolding room_slots_ok_def
  proof (intro allI)
    fix wall j c
    have "(\<exists>m'. room_at ?r c = Some m' \<and> is_wall (rg_room ?r m') = wall \<and> j \<in> at_id ` set (rm_attachments (rg_room ?r m')))
        \<longleftrightarrow> (\<exists>m'. room_at r c = Some m' \<and> is_wall (rg_room r m') = wall \<and> j \<in> at_id ` set (rm_attachments (rg_room r m')))"
      using lt code(1) rm(3) by (intro ex_cong1) (auto simp: at oth dest: lt)
    then show "slots wall ?r j = Some c \<longleftrightarrow> (\<exists>m'. room_at ?r c = Some m' \<and> is_wall (rg_room ?r m') = wall
        \<and> j \<in> at_id ` set (rm_attachments (rg_room ?r m')))"
      using slot_iff [OF inv, of wall j c] by (simp add: oth)
  qed
  have tiles: "tiles_ok (rm_attachments (rg_room ?r m'))" for m'
  proof -
    have "tiles_ok []" by (simp add: tiles_ok_def)
    then show ?thesis using tiles_okD [OF inv, of m'] rm(3) by (simp add: oth)
  qed
  have parts: "rm_participants (rg_room ?r m') = rm_participants (rg_room r m')" for m'
    using old rm(2) by (simp add: oth)
  have seats: "seats_ok ?r"
    using inv unfolding room_inv_def seats_ok_def parts oth(2-5) by (auto simp: less_Suc_eq)
  have "grace_ok X r" using inv by (simp add: room_inv_def)
  then have grace: "grace_ok (insert ?m X) ?r" "rm_kind rm = KindStatic \<Longrightarrow> grace_ok X ?r"
    using rm(5) unfolding grace_ok_def by (auto simp: oth less_Suc_eq)
  show "room_inv (insert ?m X) ?r" by (intro room_invI codes slots tiles seats grace(1))
  show "room_inv X ?r" if "rm_kind rm = KindStatic" by (intro room_invI codes slots tiles seats grace(2) that)
qed

lemma start_grace_inv:
  assumes inv: "room_inv (insert m X) r"
    and m: "m < rg_nextRoom r" "rm_participants (rg_room r m) = []"
    "rm_emptyTimer (rg_room r m) \<longrightarrow> rm_kind (rg_room r m) = KindDynamic \<and> \<not> rm_ended (rg_room r m)"
  shows "room_inv X (startEmptyGraceLocked m now r)"
proof -
  let ?r = "startEmptyGraceLocked m now r"
  let ?on = "rm_kind (rg_room r m) = KindDynamic \<and> \<not> rm_ended (rg_room r m)"
  obtain f where r: "?r = upd_room m f r"
    and f: "\<And>rm. rm_code (f rm) = rm_code rm" "\<And>rm. rm_kind (f rm) = rm_kind rm"
      "\<And>rm. is_wall (f rm) = is_wall rm" "\<And>rm. rm_participants (f rm) = rm_participants rm"
      "\<And>rm. rm_attachments (f rm) = rm_attachments rm" "\<And>rm. rm_ended (f rm) = rm_ended rm"
      "rm_emptyTimer (f (rg_room r m)) = (rm_emptyTimer (rg_room r m) \<or> ?on)"
  proof (cases "?on \<and> \<not> rm_emptyTimer (rg_room r m)")
    case True
    then have eq: "?r = upd_room m (\<lambda>rm. rm\<lparr>rm_emptySince := now, rm_emptyGen := rm_emptyGen rm + 1, rm_emptyTimer := True\<rparr>) r"
      by (simp add: startEmptyGraceLocked_def Let_def)
    show ?thesis by (rule that [OF eq]) (use True in \<open>simp_all add: is_wall_def\<close>)
  next
    case False
    then have eq: "?r = upd_room m (\<lambda>rm. rm) r" by (auto simp: startEmptyGraceLocked_def Let_def upd_room_def)
    show ?thesis by (rule that [OF eq]) (use False in auto)
  qed
  have oth: "room_at ?r = room_at r" "slots w ?r = slots w r" "rg_rooms ?r = rg_rooms r" "rg_sess ?r = rg_sess r"
    "rg_nextRoom ?r = rg_nextRoom r" "rg_nextSess ?r = rg_nextSess r"
    "rm_code (rg_room ?r m') = rm_code (rg_room r m')" "rm_kind (rg_room ?r m') = rm_kind (rg_room r m')"
    "is_wall (rg_room ?r m') = is_wall (rg_room r m')" "rm_participants (rg_room ?r m') = rm_participants (rg_room r m')"
    "rm_attachments (rg_room ?r m') = rm_attachments (rg_room r m')" "rm_ended (rg_room ?r m') = rm_ended (rg_room r m')"
    "rm_emptyTimer (rg_room ?r m') = (rm_emptyTimer (rg_room r m') \<or> m' = m \<and> ?on)" for m' w
    unfolding r using f by simp_all
  have "codes_ok ?r \<longleftrightarrow> codes_ok r" "room_slots_ok ?r \<longleftrightarrow> room_slots_ok r" "seats_ok ?r \<longleftrightarrow> seats_ok r"
    unfolding codes_ok_def room_slots_ok_def seats_ok_def oth by (rule refl)+
  moreover have "grace_ok (insert m X) r" using inv by (simp add: room_inv_def)
  then have "grace_ok X ?r"
    using m unfolding grace_ok_def oth by auto
  ultimately show ?thesis using inv by (simp add: room_inv_def oth)
qed

lemma delete_slots:
  "slots w (fold (\<lambda>a. set_slot v (at_id a) None) as r) =
     (if w = v then (\<lambda>j. if j \<in> at_id ` set as then None else slots w r j) else slots w r)"
  by (induction as arbitrary: r) (auto simp: slots_set_slot fun_eq_iff)

lemma delete_slots_other:
  "rg_rooms (fold (\<lambda>a. set_slot v (at_id a) None) as r) = rg_rooms r \<and>
   rg_room (fold (\<lambda>a. set_slot v (at_id a) None) as r) = rg_room r \<and>
   rg_sess (fold (\<lambda>a. set_slot v (at_id a) None) as r) = rg_sess r \<and>
   rg_nextRoom (fold (\<lambda>a. set_slot v (at_id a) None) as r) = rg_nextRoom r \<and>
   rg_nextSess (fold (\<lambda>a. set_slot v (at_id a) None) as r) = rg_nextSess r"
  by (induction as arbitrary: r) auto

text \<open>The state in which the end of a room is told to its participants.\<close>

definition ended_room :: "room \<Rightarrow> room" where
  "ended_room rm = rm\<lparr>rm_ended := True,
     rm_leaveReason := (if rm_leaveReason rm = None then Some LeftRoomEnded else rm_leaveReason rm),
     rm_emptyTimer := False, rm_emptySince := (if rm_emptyTimer rm then zero_time else rm_emptySince rm)\<rparr>"

definition ending_state :: "nat \<Rightarrow> bytes \<Rightarrow> RoomRegistry \<Rightarrow> RoomRegistry" where
  "ending_state m norm r =
     fold (\<lambda>a. set_slot (is_wall (rg_room r m)) (at_id a) None) (rm_attachments (rg_room r m))
       ((upd_room m ended_room r)\<lparr>rg_rooms := AList.delete norm (rg_rooms r)\<rparr>)"

lemma end_room_eq:
  "end_room m norm reason now r =
     also_do (broadcastLocked m ((event RoomEventRoomEnding)\<lparr>re_Reason := reason\<rparr>) 0 now (ending_state m norm r))
       (\<lambda>r. (r, busRoomClosedLocked (rg_room r m) reason))"
proof -
  let ?r0 = "upd_room m (\<lambda>rm. rm\<lparr>rm_ended := True,
      rm_leaveReason := (if rm_leaveReason rm = None then Some LeftRoomEnded else rm_leaveReason rm)\<rparr>) r"
  have "snd (clearEmptyGraceLocked m ?r0) = upd_room m ended_room r"
  proof (cases "rm_emptyTimer (rg_room r m)")
    case False
    have "rm\<lparr>rm_ended := True, rm_leaveReason := (if rm_leaveReason rm = None then Some LeftRoomEnded else rm_leaveReason rm)\<rparr>
        = ended_room rm" if "\<not> rm_emptyTimer rm" for rm
      using that by (cases rm) (simp add: ended_room_def)
    then have "?r0 = upd_room m ended_room r" using False by (simp only: upd_room_def not_False_eq_True)
    moreover have "clearEmptyGraceLocked m ?r0 = (False, ?r0)" using False by (simp add: clearEmptyGraceLocked_def)
    ultimately show ?thesis by (simp only: snd_conv)
  qed (simp add: clearEmptyGraceLocked_def upd_room_def ended_room_def)
  moreover have "rg_rooms (upd_room m ended_room r) = rg_rooms r" by simp
  moreover have "is_wall (ended_room rm) = is_wall rm" "rm_attachments (ended_room rm) = rm_attachments rm" for rm
    by (simp_all add: ended_room_def is_wall_def)
  ultimately show ?thesis
    by (simp add: end_room_def ending_state_def Let_def case_prod_unfold)
qed

lemma ending_state_other:
  "rg_rooms (ending_state m norm r) = AList.delete norm (rg_rooms r)"
  "rg_room (ending_state m norm r) m' = (if m' = m then ended_room (rg_room r m) else rg_room r m')"
  "rg_sess (ending_state m norm r) = rg_sess r"
  "rg_nextRoom (ending_state m norm r) = rg_nextRoom r"
  "rg_nextSess (ending_state m norm r) = rg_nextSess r"
  "room_at (ending_state m norm r) c = (if c = norm then None else room_at r c)"
  using delete_slots_other [of "is_wall (rg_room r m)" "rm_attachments (rg_room r m)"
      "(upd_room m ended_room r)\<lparr>rg_rooms := AList.delete norm (rg_rooms r)\<rparr>"]
  by (auto simp: ending_state_def room_at_def delete_conv)

lemma ending_state_slots:
  "slots w (ending_state m norm r) j =
     (if w = is_wall (rg_room r m) \<and> j \<in> at_id ` set (rm_attachments (rg_room r m)) then None else slots w r j)"
  by (simp add: ending_state_def delete_slots) (simp add: slots_def upd_room_def)

lemma end_room_inv:
  assumes inv: "room_inv X r" and at: "room_at r norm = Some m"
  shows "room_inv X (fst (end_room m norm reason now r))"
proof -
  let ?r = "ending_state m norm r" and ?rm = "rg_room r m"
  note oth = ending_state_other and reg = registered_facts [OF inv at]
  have flds: "rm_code (ended_room rm) = rm_code rm" "rm_kind (ended_room rm) = rm_kind rm"
    "is_wall (ended_room rm) = is_wall rm" "rm_participants (ended_room rm) = rm_participants rm"
    "rm_attachments (ended_room rm) = rm_attachments rm" "rm_ended (ended_room rm)"
    "\<not> rm_emptyTimer (ended_room rm)" for rm
    by (simp_all add: ended_room_def is_wall_def)
  have mine: "slots (is_wall ?rm) r j = Some norm \<longleftrightarrow> j \<in> at_id ` set (rm_attachments ?rm)" for j
    using slot_iff [OF inv, of "is_wall ?rm" j norm] at by auto
  have "room_inv X ?r"
  proof (rule room_invI)
    show "codes_ok ?r"
      unfolding codes_ok_def
    proof (intro conjI allI impI)
      show "distinct (map fst (rg_rooms ?r))"
        using inv by (simp add: oth room_inv_def codes_ok_def distinct_delete)
      fix c m' assume "room_at ?r c = Some m'"
      then have c: "c \<noteq> norm" "room_at r c = Some m'" by (auto simp: oth split: if_splits)
      then have "m' \<noteq> m" using registered_facts(2) [OF inv c(2)] reg(2) by auto
      then show "m' < rg_nextRoom ?r" "rm_code (rg_room ?r m') = c" "\<not> rm_ended (rg_room ?r m')" "NormalizeCode c = Inr c"
        using registered_facts [OF inv c(2)] by (simp_all add: oth)
    next
      fix m' assume m': "m' < rg_nextRoom ?r" "\<not> rm_ended (rg_room ?r m')"
      then have ne: "m' \<noteq> m" using flds(6) by (auto simp: oth)
      then have "room_at r (rm_code (rg_room r m')) = Some m'"
        using live_registered [OF inv, of m'] m' by (simp add: oth)
      moreover from this have "rm_code (rg_room r m') \<noteq> norm" using at ne by auto
      ultimately show "room_at ?r (rm_code (rg_room ?r m')) = Some m'" using ne by (simp add: oth)
    qed
    show "room_slots_ok ?r"
      unfolding room_slots_ok_def
    proof (intro allI)
      fix wall j c
      have norm: "slots wall r j = Some norm \<longleftrightarrow> wall = is_wall ?rm \<and> j \<in> at_id ` set (rm_attachments ?rm)"
        using slot_iff [OF inv, of wall j norm] at by auto
      have "slots wall ?r j = Some c \<longleftrightarrow> c \<noteq> norm \<and> slots wall r j = Some c"
      proof (cases "wall = is_wall ?rm \<and> j \<in> at_id ` set (rm_attachments ?rm)")
        case True
        then have "slots wall r j = Some norm" "slots wall ?r j = None"
          using norm by (simp_all add: ending_state_slots)
        then show ?thesis by auto
      next
        case False
        then have "slots wall ?r j = slots wall r j" by (simp only: ending_state_slots if_False)
        then show ?thesis using False norm by auto
      qed
      also have "\<dots> \<longleftrightarrow> (\<exists>m'. room_at ?r c = Some m' \<and> is_wall (rg_room ?r m') = wall
          \<and> j \<in> at_id ` set (rm_attachments (rg_room ?r m')))"
        using slot_iff [OF inv, of wall j c] flds by (auto simp: oth)
      finally show "slots wall ?r j = Some c \<longleftrightarrow> (\<exists>m'. room_at ?r c = Some m' \<and> is_wall (rg_room ?r m') = wall
          \<and> j \<in> at_id ` set (rm_attachments (rg_room ?r m')))" .
    qed
    show "tiles_ok (rm_attachments (rg_room ?r m'))" for m'
      using tiles_okD [OF inv] by (simp add: oth flds)
    have parts: "rm_participants (rg_room ?r m') = rm_participants (rg_room r m')" for m'
      by (simp add: oth flds)
    show "seats_ok ?r" using inv unfolding room_inv_def seats_ok_def parts oth(3-5) by blast
    show "grace_ok X ?r" using inv by (auto simp: room_inv_def grace_ok_def oth flds)
  qed
  then show ?thesis unfolding end_room_eq by (simp add: room_same_core_inv [OF _ room_same_core_broadcast])
qed

subsection \<open>People\<close>

lemma uniqueNickLocked_ok:
  assumes inv: "room_inv X r"
  shows "str_ok MaxRoomNicknameLen (uniqueNickLocked r (rg_room r m) nick self)"
    "\<lbrakk>(j, q) \<in> set (rm_participants (rg_room r m)); j \<noteq> self\<rbrakk>
      \<Longrightarrow> pt_nick (rg_sess r q) \<noteq> uniqueNickLocked r (rg_room r m) nick self"
proof -
  let ?os = "map (\<lambda>(_, p). pt_nick (rg_sess r p)) (filter (\<lambda>(i, _). i \<noteq> self) (rm_participants (rg_room r m)))"
  obtain c where c: "uniqueNick ?os nick self = Some c" using uniqueNick_ends by blast
  have "length ?os \<le> length (rm_participants (rg_room r m))" by simp
  also have "\<dots> < 10 ^ 18" using seats_few [OF inv, of m] by simp
  finally have few: "length ?os < 10 ^ 18" .
  have eq: "uniqueNickLocked r (rg_room r m) nick self = c" by (simp add: uniqueNickLocked_def c name_or_empty_def)
  show "str_ok MaxRoomNicknameLen (uniqueNickLocked r (rg_room r m) nick self)"
    unfolding eq by (rule uniqueNick_ok(2) [OF c few])
  show "\<lbrakk>(j, q) \<in> set (rm_participants (rg_room r m)); j \<noteq> self\<rbrakk>
      \<Longrightarrow> pt_nick (rg_sess r q) \<noteq> uniqueNickLocked r (rg_room r m) nick self"
    using uniqueNick_ok(1) [OF c few] unfolding eq by force
qed

lemma free_pid_ok: "free_pid n live pid = Some i \<Longrightarrow> i \<noteq> 0 \<and> i \<notin> set live"
  by (induction n live pid rule: free_pid.induct) (auto split: if_splits)

lemma free_pid_None: "free_pid n live pid = None \<Longrightarrow> k < n \<Longrightarrow> pid + of_nat k = 0 \<or> pid + of_nat k \<in> set live"
proof (induction n live pid arbitrary: k rule: free_pid.induct)
  case (2 n live pid)
  then have "\<not> (pid \<noteq> 0 \<and> pid \<notin> set live)" "free_pid n live (pid + 1) = None" by (auto split: if_splits)
  with 2 show ?case
  proof (cases k)
    case (Suc k')
    then have "pid + 1 + of_nat k' = 0 \<or> pid + 1 + of_nat k' \<in> set live"
      using "2.IH" [of k'] "2.prems" \<open>\<not> (pid \<noteq> 0 \<and> pid \<notin> set live)\<close> \<open>free_pid n live (pid + 1) = None\<close> by auto
    then show ?thesis using Suc by (simp add: add.assoc)
  qed auto
qed simp

lemma free_pid_ends:
  assumes "length live < 65535"
  shows "\<exists>i. free_pid 65536 live pid = Some i"
proof (rule ccontr)
  assume "\<not> ?thesis"
  then have none: "free_pid 65536 live pid = None" by auto
  have "x = 0 \<or> x \<in> set live" for x
  proof -
    have "unat (x - pid) < 65536" using unsigned_less [of "x - pid"] by simp
    from free_pid_None [OF none this] show ?thesis by simp
  qed
  then have "UNIV = insert (0 :: u16) (set live)" by auto
  then have "card (UNIV :: u16 set) \<le> Suc (card (set live))" by (metis card_insert_le_m1 card_insert_disjoint card_insert_if finite_set le_SucI le_refl)
  also have "\<dots> \<le> Suc (length live)" using card_length [of live] by simp
  finally show False using assms by (simp add: card_word)
qed

lemma seat_inv:
  assumes inv: "room_inv X r" and m: "m < rg_nextRoom r"
    and pid: "pid \<noteq> 0" "pid \<notin> fst ` set (rm_participants (rg_room r m))"
    and kind: "rh_ClientKind hello \<le> roomClientKindMax"
  shows "room_inv (insert m X) (seat m pid hello grants tok r)"
proof (rule room_invI)
  let ?r = "seat m pid hello grants tok r" and ?p = "rg_nextSess r"
  let ?nick = "uniqueNickLocked r (rg_room r m) (rh_Nickname hello) pid"
  have oth: "rg_rooms ?r = rg_rooms r" "room_at ?r = room_at r" "slots w ?r = slots w r"
    "rg_nextRoom ?r = rg_nextRoom r" "rg_nextSess ?r = Suc ?p"
    "rg_sess ?r q = (if q = ?p then new_session m pid hello grants tok ?nick else rg_sess r q)"
    "rm_participants (rg_room ?r m') = (if m' = m then rm_participants (rg_room r m) @ [(pid, ?p)] else rm_participants (rg_room r m'))"
    "rm_code (rg_room ?r m') = rm_code (rg_room r m')" "rm_kind (rg_room ?r m') = rm_kind (rg_room r m')"
    "is_wall (rg_room ?r m') = is_wall (rg_room r m')" "rm_attachments (rg_room ?r m') = rm_attachments (rg_room r m')"
    "rm_ended (rg_room ?r m') = rm_ended (rg_room r m')" "rm_emptyTimer (rg_room ?r m') = rm_emptyTimer (rg_room r m')"
    for w q m'
    by (auto simp: seat_def Let_def upd_room_def room_at_def slots_def is_wall_def fun_eq_iff)
  show "codes_ok ?r" "room_slots_ok ?r" "tiles_ok (rm_attachments (rg_room ?r m'))" for m'
    using inv unfolding room_inv_def codes_ok_def room_slots_ok_def oth by blast+
  show "grace_ok (insert m X) ?r"
    using inv unfolding room_inv_def grace_ok_def oth by auto
  have old: "q < ?p" if "(j, q) \<in> set (rm_participants (rg_room r m'))" for j q m' using seat_facts(2) [OF inv that] .
  have sess: "rg_sess ?r q = rg_sess r q" if "(j, q) \<in> set (rm_participants (rg_room r m'))" for j q m'
    using old [OF that] by (simp add: oth)
  have new: "pt_room (rg_sess ?r ?p) = m" "pt_id (rg_sess ?r ?p) = pid" "\<not> pt_closed (rg_sess ?r ?p)"
    "pt_kind (rg_sess ?r ?p) \<le> roomClientKindMax" "pt_nick (rg_sess ?r ?p) = ?nick" "pt_identity (rg_sess ?r ?p) = []"
    using kind by (simp_all add: oth new_session_def)
  have mem: "(j, q) \<in> set (rm_participants (rg_room ?r m')) \<longleftrightarrow>
      (j, q) \<in> set (rm_participants (rg_room r m')) \<or> m' = m \<and> j = pid \<and> q = ?p" for j q m'
    by (auto simp: oth)
  show "seats_ok ?r"
    unfolding seats_ok_def
  proof (intro conjI allI impI)
    fix q assume "q < rg_nextSess ?r"
    then show "pt_room (rg_sess ?r q) < rg_nextRoom ?r"
      using inv m new(1) by (cases "q = ?p") (auto simp: oth room_inv_def seats_ok_def)
  next
    fix m' show "distinct (map fst (rm_participants (rg_room ?r m')))"
      using seats_distinct [OF inv] pid(2) by (simp add: oth)
  next
    fix m' j q assume "(j, q) \<in> set (rm_participants (rg_room ?r m'))"
    then consider "(j, q) \<in> set (rm_participants (rg_room r m'))" | "m' = m" "j = pid" "q = ?p" using mem by blast
    then have "j \<noteq> 0 \<and> q < rg_nextSess ?r \<and> pt_room (rg_sess ?r q) = m' \<and> pt_id (rg_sess ?r q) = j
      \<and> \<not> pt_closed (rg_sess ?r q) \<and> pt_kind (rg_sess ?r q) \<le> roomClientKindMax
      \<and> str_ok MaxRoomNicknameLen (pt_nick (rg_sess ?r q)) \<and> pt_identity (rg_sess ?r q) = []"
    proof cases
      case 1
      then show ?thesis using seat_facts [OF inv 1] sess [OF 1] by (simp add: oth(5))
    next
      case 2
      then show ?thesis using new pid(1) uniqueNickLocked_ok(1) [OF inv] by (simp add: oth(5))
    qed
    then show "j \<noteq> 0" "q < rg_nextSess ?r" "pt_room (rg_sess ?r q) = m'" "pt_id (rg_sess ?r q) = j"
      "\<not> pt_closed (rg_sess ?r q)" "pt_kind (rg_sess ?r q) \<le> roomClientKindMax"
      "str_ok MaxRoomNicknameLen (pt_nick (rg_sess ?r q))" "pt_identity (rg_sess ?r q) = []"
      by simp_all
  next
    fix m' i q j q'
    assume a: "(i, q) \<in> set (rm_participants (rg_room ?r m'))" and b: "(j, q') \<in> set (rm_participants (rg_room ?r m'))"
      and e: "pt_nick (rg_sess ?r q) = pt_nick (rg_sess ?r q')"
    have fresh: "pt_nick (rg_sess r q) \<noteq> ?nick" if "(i, q) \<in> set (rm_participants (rg_room r m))" for i q
    proof -
      have "i \<noteq> pid" using that pid(2) by force
      then show ?thesis using uniqueNickLocked_ok(2) [OF inv that] by simp
    qed
    consider "(i, q) \<in> set (rm_participants (rg_room r m'))" "(j, q') \<in> set (rm_participants (rg_room r m'))"
      | "(i, q) \<in> set (rm_participants (rg_room r m'))" "m' = m" "q' = ?p"
      | "(j, q') \<in> set (rm_participants (rg_room r m'))" "m' = m" "q = ?p"
      | "i = pid" "j = pid"
      using a b mem by blast
    then show "i = j"
    proof cases
      case 1
      then have "pt_nick (rg_sess r q) = pt_nick (rg_sess r q')" using e sess by metis
      then show ?thesis using inv 1 unfolding room_inv_def seats_ok_def by blast
    next
      case 2
      then show ?thesis using e new(5) fresh [of i q] sess [OF 2(1)] by simp
    next
      case 3
      then show ?thesis using e new(5) fresh [of j q'] sess [OF 3(1)] by simp
    qed simp
  qed
qed

end
