(* ===== verification/RoomReach.thy ===== *)
theory RoomReach
  imports RoomSteps
begin

section \<open>Reachable states of the room registry\<close>

text \<open>
  The operations that move people keep the invariants: joining, leaving, a new nickname.
  What a session's owner may still do with it is \<open>in_session\<close>.
\<close>

subsection \<open>People come and go\<close>

lemma room_inv_weaken: "room_inv X r \<Longrightarrow> X \<subseteq> Y \<Longrightarrow> room_inv Y r"
  unfolding room_inv_def grace_ok_def by blast

lemma same_grace:
  assumes "room_inv X r" "grace_ok Y r"
  shows "room_inv Y r"
  using assms by (simp add: room_inv_def)

lemma grace_off_inv:
  assumes inv: "room_inv (insert m X) r" and m: "m < rg_nextRoom r \<Longrightarrow> \<not> rm_emptyTimer (rg_room r m)"
    and why: "rm_participants (rg_room r m) \<noteq> [] \<or> rm_ended (rg_room r m) \<or> rm_kind (rg_room r m) \<noteq> KindDynamic"
  shows "room_inv X r"
proof (rule same_grace [OF inv])
  have "grace_ok (insert m X) r" using inv by (simp add: room_inv_def)
  then show "grace_ok X r" unfolding grace_ok_def using m why by auto
qed

lemma clear_grace_inv:
  assumes inv: "room_inv (insert m X) r" and ne: "rm_participants (rg_room r m) \<noteq> []"
  shows "room_inv X (snd (clearEmptyGraceLocked m r))"
proof (cases "rm_emptyTimer (rg_room r m)")
  case True
  let ?f = "\<lambda>rm :: room. rm\<lparr>rm_emptyTimer := False, rm_emptySince := zero_time\<rparr>"
  have r: "snd (clearEmptyGraceLocked m r) = upd_room m ?f r" using True by (simp add: clearEmptyGraceLocked_def)
  have oth: "rm_code (rg_room (upd_room m ?f r) m') = rm_code (rg_room r m')"
    "rm_kind (rg_room (upd_room m ?f r) m') = rm_kind (rg_room r m')"
    "is_wall (rg_room (upd_room m ?f r) m') = is_wall (rg_room r m')"
    "rm_participants (rg_room (upd_room m ?f r) m') = rm_participants (rg_room r m')"
    "rm_attachments (rg_room (upd_room m ?f r) m') = rm_attachments (rg_room r m')"
    "rm_ended (rg_room (upd_room m ?f r) m') = rm_ended (rg_room r m')"
    "rm_emptyTimer (rg_room (upd_room m ?f r) m') = (rm_emptyTimer (rg_room r m') \<and> m' \<noteq> m)" for m'
    by (simp_all add: is_wall_def)
  have "codes_ok (upd_room m ?f r) \<longleftrightarrow> codes_ok r" "room_slots_ok (upd_room m ?f r) \<longleftrightarrow> room_slots_ok r"
    "seats_ok (upd_room m ?f r) \<longleftrightarrow> seats_ok r"
    unfolding codes_ok_def room_slots_ok_def seats_ok_def oth upd_room_other(1-7) by (rule refl)+
  moreover have "grace_ok (insert m X) r" using inv by (simp add: room_inv_def)
  then have "grace_ok X (upd_room m ?f r)" using ne unfolding grace_ok_def oth upd_room_other(1-7) by auto
  ultimately show ?thesis unfolding r using inv by (simp add: room_inv_def)
next
  case False
  then show ?thesis using grace_off_inv [OF inv] ne by (simp add: clearEmptyGraceLocked_def)
qed

lemma unseat_inv:
  assumes inv: "room_inv X r"
  shows "room_inv (insert m X) (upd_room m (\<lambda>rm. rm\<lparr>rm_participants := AList.delete i (rm_participants rm)\<rparr>) r)"
    (is "room_inv _ ?r")
proof -
  have oth: "rm_code (rg_room ?r m') = rm_code (rg_room r m')" "rm_kind (rg_room ?r m') = rm_kind (rg_room r m')"
    "is_wall (rg_room ?r m') = is_wall (rg_room r m')" "rm_attachments (rg_room ?r m') = rm_attachments (rg_room r m')"
    "rm_ended (rg_room ?r m') = rm_ended (rg_room r m')" "rm_emptyTimer (rg_room ?r m') = rm_emptyTimer (rg_room r m')" for m'
    by (simp_all add: is_wall_def)
  have sub: "(j, q) \<in> set (rm_participants (rg_room ?r m')) \<Longrightarrow> (j, q) \<in> set (rm_participants (rg_room r m'))" for j q m'
    by (auto simp: AList.delete_eq split: if_splits)
  have dist: "distinct (map fst (rm_participants (rg_room ?r m')))" for m'
    using seats_distinct [OF inv, of m'] seats_distinct [OF inv, of m] by (simp add: distinct_delete)
  have "codes_ok ?r \<longleftrightarrow> codes_ok r" "room_slots_ok ?r \<longleftrightarrow> room_slots_ok r"
    unfolding codes_ok_def room_slots_ok_def oth upd_room_other(1-7) by (rule refl)+
  moreover have "seats_ok ?r"
    unfolding seats_ok_def upd_room_other(1-7)
  proof (intro conjI allI impI dist)
    show "pt_room (rg_sess r q) < rg_nextRoom r" if "q < rg_nextSess r" for q
      using inv that by (simp add: room_inv_def seats_ok_def)
    fix m' j q assume "(j, q) \<in> set (rm_participants (rg_room ?r m'))"
    note jq = sub [OF this]
    show "j \<noteq> 0" "q < rg_nextSess r" "pt_room (rg_sess r q) = m'" "pt_id (rg_sess r q) = j"
      "\<not> pt_closed (rg_sess r q)" "pt_kind (rg_sess r q) \<le> roomClientKindMax"
      "str_ok MaxRoomNicknameLen (pt_nick (rg_sess r q))" "pt_identity (rg_sess r q) = []"
      using seat_facts [OF inv jq] by simp_all
    fix j' q' assume "(j', q') \<in> set (rm_participants (rg_room ?r m'))" "pt_nick (rg_sess r q) = pt_nick (rg_sess r q')"
    then show "j = j'" using sub jq inv unfolding room_inv_def seats_ok_def by blast
  qed
  moreover have "grace_ok (insert m X) ?r"
    using inv unfolding room_inv_def grace_ok_def oth upd_room_other(1-7) by simp
  ultimately show ?thesis using inv unfolding room_inv_def oth by blast
qed

lemma close_sess_inv:
  assumes inv: "room_inv X r" and out: "\<And>m i. (i, p) \<notin> set (rm_participants (rg_room r m))"
    and f: "\<And>s. pt_room (f s) = pt_room s"
  shows "room_inv X (upd_sess p f r)"
proof -
  have "codes_ok (upd_sess p f r) \<longleftrightarrow> codes_ok r" "room_slots_ok (upd_sess p f r) \<longleftrightarrow> room_slots_ok r"
    "grace_ok X (upd_sess p f r) \<longleftrightarrow> grace_ok X r"
    unfolding codes_ok_def room_slots_ok_def grace_ok_def upd_sess_other(1-7) by (rule refl)+
  moreover
  have same: "rg_sess (upd_sess p f r) q = rg_sess r q" if "(i, q) \<in> set (rm_participants (rg_room r m))" for q i m
    using out that by auto
  have "seats_ok (upd_sess p f r)"
    unfolding seats_ok_def upd_sess_other(1-7)
  proof (intro conjI allI impI)
    show "pt_room (rg_sess (upd_sess p f r) q) < rg_nextRoom r" if "q < rg_nextSess r" for q
      using inv that f by (simp add: room_inv_def seats_ok_def)
    show "distinct (map fst (rm_participants (rg_room r m)))" for m by (rule seats_distinct [OF inv])
    fix m i q assume iq: "(i, q) \<in> set (rm_participants (rg_room r m))"
    show "i \<noteq> 0" "q < rg_nextSess r" "pt_room (rg_sess (upd_sess p f r) q) = m" "pt_id (rg_sess (upd_sess p f r) q) = i"
      "\<not> pt_closed (rg_sess (upd_sess p f r) q)" "pt_kind (rg_sess (upd_sess p f r) q) \<le> roomClientKindMax"
      "str_ok MaxRoomNicknameLen (pt_nick (rg_sess (upd_sess p f r) q))" "pt_identity (rg_sess (upd_sess p f r) q) = []"
      unfolding same [OF iq] using seat_facts [OF inv iq] by simp_all
    fix j q' assume jq: "(j, q') \<in> set (rm_participants (rg_room r m))"
      and "pt_nick (rg_sess (upd_sess p f r) q) = pt_nick (rg_sess (upd_sess p f r) q')"
    then have "pt_nick (rg_sess r q) = pt_nick (rg_sess r q')" unfolding same [OF iq] same [OF jq] by simp
    then show "i = j" using inv iq jq unfolding room_inv_def seats_ok_def by blast
  qed
  ultimately show ?thesis using inv by (simp add: room_inv_def)
qed

definition seated :: "RoomRegistry \<Rightarrow> nat \<Rightarrow> bool" where
  "seated r p \<longleftrightarrow> map_of (rm_participants (rg_room r (pt_room (rg_sess r p)))) (pt_id (rg_sess r p)) = Some p"

text \<open>
  The transport hands over a session's commands until it calls \<^verbatim>\<open>Leave\<close>; only the end of
  its room takes a session out of the roster before.
\<close>

definition in_session :: "RoomRegistry \<Rightarrow> nat \<Rightarrow> bool" where
  "in_session r p \<longleftrightarrow> p < rg_nextSess r \<and> (seated r p \<or> rm_ended (rg_room r (pt_room (rg_sess r p))))"

lemma seatedD: "seated r p \<Longrightarrow> (pt_id (rg_sess r p), p) \<in> set (rm_participants (rg_room r (pt_room (rg_sess r p))))"
  by (simp add: seated_def map_of_SomeD)

lemma seated_room:
  assumes "room_inv X r" "seated r p"
  shows "pt_room (rg_sess r p) < rg_nextRoom r" "p < rg_nextSess r"
  using seat_facts(2) [OF assms(1) seatedD [OF assms(2)]] assms(1) by (auto simp: room_inv_def seats_ok_def)

lemma not_seated:
  assumes "room_inv X r" "\<not> seated r p"
  shows "(i, p) \<notin> set (rm_participants (rg_room r m))"
proof
  assume ip: "(i, p) \<in> set (rm_participants (rg_room r m))"
  then have "map_of (rm_participants (rg_room r m)) i = Some p"
    using seats_distinct [OF assms(1), of m] by simp
  with assms(2) seat_facts(3,4) [OF assms(1) ip] show False by (simp add: seated_def)
qed

lemma nick_inv:
  assumes inv: "room_inv X r" and seat: "seated r p"
  shows "room_inv X (upd_sess p (\<lambda>s. s\<lparr>pt_nick := uniqueNickLocked r (rg_room r (pt_room (rg_sess r p))) nick (pt_id s)\<rparr>) r)"
    (is "room_inv X ?r")
proof -
  let ?m = "pt_room (rg_sess r p)" and ?i = "pt_id (rg_sess r p)"
  let ?n = "uniqueNickLocked r (rg_room r ?m) nick ?i"
  note ip = seatedD [OF seat]
  have oth: "pt_room (rg_sess ?r q) = pt_room (rg_sess r q)" "pt_id (rg_sess ?r q) = pt_id (rg_sess r q)"
    "pt_closed (rg_sess ?r q) = pt_closed (rg_sess r q)" "pt_kind (rg_sess ?r q) = pt_kind (rg_sess r q)"
    "pt_identity (rg_sess ?r q) = pt_identity (rg_sess r q)"
    "pt_nick (rg_sess ?r q) = (if q = p then ?n else pt_nick (rg_sess r q))" for q
    by simp_all
  have "codes_ok ?r \<longleftrightarrow> codes_ok r" "room_slots_ok ?r \<longleftrightarrow> room_slots_ok r" "grace_ok X ?r \<longleftrightarrow> grace_ok X r"
    unfolding codes_ok_def room_slots_ok_def grace_ok_def upd_sess_other(1-7) by (rule refl)+
  moreover have "seats_ok ?r"
    unfolding seats_ok_def oth upd_sess_other(1-7)
  proof (intro conjI allI impI)
    fix m j q assume jq: "(j, q) \<in> set (rm_participants (rg_room r m))"
    show "j \<noteq> 0" "q < rg_nextSess r" "pt_room (rg_sess r q) = m" "pt_id (rg_sess r q) = j" "\<not> pt_closed (rg_sess r q)"
      "pt_kind (rg_sess r q) \<le> roomClientKindMax" "pt_identity (rg_sess r q) = []"
      using seat_facts [OF inv jq] by simp_all
    show "str_ok MaxRoomNicknameLen (if q = p then ?n else pt_nick (rg_sess r q))"
      using uniqueNickLocked_ok(1) [OF inv] seat_facts(6) [OF inv jq] by simp
    fix j' q' assume jq': "(j', q') \<in> set (rm_participants (rg_room r m))"
      and e: "(if q = p then ?n else pt_nick (rg_sess r q)) = (if q' = p then ?n else pt_nick (rg_sess r q'))"
    have fresh: "j = ?i" if "(j, q) \<in> set (rm_participants (rg_room r ?m))" "pt_nick (rg_sess r q) = ?n" for j q
      using uniqueNickLocked_ok(2) [OF inv that(1), of ?i nick] that(2) by auto
    have own: "m = ?m \<and> j = ?i" if "(j, p) \<in> set (rm_participants (rg_room r m))" for j
      using seat_facts(3,4) [OF inv that] by simp
    show "j = j'"
    proof (cases "q = p")
      case True
      then have "m = ?m" "j = ?i" using own jq by auto
      then show ?thesis using e True jq' own fresh [of j' q'] by (cases "q' = p") auto
    next
      case False
      show ?thesis
      proof (cases "q' = p")
        case True
        then have "m = ?m" "j' = ?i" using own jq' by auto
        then show ?thesis using e False True jq fresh [of j q] by auto
      next
        case False
        with \<open>q \<noteq> p\<close> e have "pt_nick (rg_sess r q) = pt_nick (rg_sess r q')" by simp
        then show ?thesis using inv jq jq' unfolding room_inv_def seats_ok_def by blast
      qed
    qed
  next
    show "distinct (map fst (rm_participants (rg_room r m)))" for m by (rule seats_distinct [OF inv])
    show "pt_room (rg_sess r q) < rg_nextRoom r" if "q < rg_nextSess r" for q
      using inv that by (simp add: room_inv_def seats_ok_def)
  qed
  ultimately show ?thesis using inv by (simp add: room_inv_def)
qed

lemma room_same_core_announce: "room_same_core r (fst (announce m p pid now r))"
proof -
  let ?a = "fst (broadcastLocked m (person_event RoomEventParticipantJoined (recordLocked (rg_room r m) (rg_sess r p))) pid now r)"
  let ?b = "fst (room_enqueueLocked (stateRecordLocked ?a (rg_room ?a m) (rg_sess ?a p)) p ?a)"
  have a: "room_same_core r ?a" and b: "room_same_core ?a ?b" by (rule room_same_core_broadcast, rule room_same_core_enqueue)
  have c: "room_same_core ?b (upd_sess p (\<lambda>s. s\<lparr>pt_firstState := []\<rparr>) ?b)"
    by (rule room_same_core_upd_sess) (simp add: core_sess_def)
  show ?thesis
    unfolding announce_def also_do_fst fst_conv by (rule room_same_core_trans [OF room_same_core_trans [OF a b] c])
qed

lemma Join_cases:
  assumes "Join code hello grants tok now r = Some (res, x)"
  obtains "x = (r, [])" | norm m pid where "NormalizeCode code = Inr norm" "live_room r norm = Some m"
    "free_pid 65536 (map fst (rm_participants (rg_room r m))) (rm_nextPID (rg_room r m)) = Some pid"
    "x = (let p = rg_nextSess r; (wasEmpty, r') = clearEmptyGraceLocked m (seat m pid hello grants tok r) in
       also_do (announce m p pid now r') (\<lambda>r. (r, if wasEmpty then [OnRoomEmpty norm False] else [])))"
proof (cases "NormalizeCode code")
  case (Inr norm)
  show ?thesis
  proof (cases "live_room r norm")
    case (Some m)
    let ?rm = "rg_room r m"
    show ?thesis
    proof (cases "int (length (rm_participants ?rm)) \<ge> participantLimit r ?rm")
      case False
      show ?thesis
      proof (cases "free_pid 65536 (map fst (rm_participants ?rm)) (rm_nextPID ?rm)")
        case None
        then show ?thesis using assms Inr Some False by (simp add: Join_def del: free_pid.simps)
      next
        case pid: (Some pid)
        have "x = (let p = rg_nextSess r; (wasEmpty, r') = clearEmptyGraceLocked m (seat m pid hello grants tok r) in
            also_do (announce m p pid now r') (\<lambda>r. (r, if wasEmpty then [OnRoomEmpty norm False] else [])))"
          using assms unfolding Join_def Inr Some sum.case option.case pid Let_def
          using False by (simp add: case_prod_unfold)
        then show ?thesis using Inr Some pid that(2) by blast
      qed
    next
      case True
      have "x = (r, [])" using assms unfolding Join_def Inr Some sum.case option.case using True by simp
      then show ?thesis using that(1) by simp
    qed
  qed (use assms Inr that(1) in \<open>auto simp: Join_def\<close>)
qed (use assms that(1) in \<open>auto simp: Join_def\<close>)

lemma Join_inv:
  assumes inv: "room_inv {} r" and kind: "rh_ClientKind hello \<le> roomClientKindMax"
    and j: "Join code hello grants tok now r = Some (res, x)"
  shows "room_inv {} (fst x)"
proof -
  consider "x = (r, [])" | norm m pid where "NormalizeCode code = Inr norm" "live_room r norm = Some m"
    "free_pid 65536 (map fst (rm_participants (rg_room r m))) (rm_nextPID (rg_room r m)) = Some pid"
    "x = (let p = rg_nextSess r; (wasEmpty, r') = clearEmptyGraceLocked m (seat m pid hello grants tok r) in
       also_do (announce m p pid now r') (\<lambda>r. (r, if wasEmpty then [OnRoomEmpty norm False] else [])))"
    using j by (rule Join_cases)
  then show ?thesis
  proof cases
  case n: (2 norm m pid)
  have m: "m < rg_nextRoom r" using n(2) live_room_inv [OF inv] registered_facts(1) [OF inv] by metis
  let ?s = "seat m pid hello grants tok r"
  let ?c = "snd (clearEmptyGraceLocked m ?s)"
  have "room_inv (insert m {}) ?s"
    using free_pid_ok [OF n(3)] kind m by (intro seat_inv [OF inv]) auto
  then have "room_inv {} ?c"
    by (rule clear_grace_inv) (simp add: seat_def Let_def)
  moreover have "room_same_core ?c (fst (announce m (rg_nextSess r) pid now ?c))"
    by (rule room_same_core_announce)
  ultimately show ?thesis
    unfolding n(4) by (simp add: Let_def case_prod_unfold room_same_core_inv)
  qed (use inv in simp)
qed

lemma Leave_inv:
  assumes inv: "room_inv {} r" and p: "p < rg_nextSess r"
  shows "room_inv {} (fst (Leave p now r))"
proof (cases "pt_closed (rg_sess r p)")
  case False
  let ?s = "rg_sess r p" let ?m = "pt_room (rg_sess r p)"
  have m: "?m < rg_nextRoom r" using inv p by (simp add: room_inv_def seats_ok_def)
  define r1 where "r1 = (if seated r p
      then fst (broadcastLocked ?m (person_event RoomEventParticipantLeft (zero_participant\<lparr>rp_ID := pt_id ?s\<rparr>)) 0 now
         (upd_room ?m (\<lambda>rm. rm\<lparr>rm_participants := AList.delete (pt_id ?s) (rm_participants rm)\<rparr>) r))
      else r)"
  let ?nowEmpty = "\<not> rm_ended (rg_room r1 ?m) \<and> rm_participants (rg_room r1 ?m) = []"
  let ?r2 = "if ?nowEmpty then startEmptyGraceLocked ?m now r1 else r1"
  have res: "fst (Leave p now r) = upd_sess p (\<lambda>s. s\<lparr>pt_closed := True\<rparr>) ?r2"
  proof -
    let ?x = "if seated r p then
        also_do (broadcastLocked ?m (person_event RoomEventParticipantLeft (zero_participant\<lparr>rp_ID := pt_id ?s\<rparr>)) 0 now
            (upd_room ?m (\<lambda>rm. rm\<lparr>rm_participants := AList.delete (pt_id ?s) (rm_participants rm)\<rparr>) r))
          (\<lambda>r. (r, busParticipantLeftLocked (rg_room r ?m) (rg_sess r p)))
      else (r, [])"
    have "fst ?x = r1" unfolding r1_def by (cases "seated r p") (simp_all only: if_True if_False also_do_fst fst_conv)
    then show ?thesis
      unfolding Leave_def Let_def seated_def [symmetric] using False by (simp only: if_False also_do_fst fst_conv)
  qed
  have grace: "rm_emptyTimer (rg_room r ?m) \<longleftrightarrow> rm_kind (rg_room r ?m) = KindDynamic
      \<and> \<not> rm_ended (rg_room r ?m) \<and> rm_participants (rg_room r ?m) = []"
    using inv m by (simp add: room_inv_def grace_ok_def)
  have keep: "rm_emptyTimer (rg_room r1 ?m) = rm_emptyTimer (rg_room r ?m)"
    "rm_kind (rg_room r1 ?m) = rm_kind (rg_room r ?m)" "rm_ended (rg_room r1 ?m) = rm_ended (rg_room r ?m)"
    "rg_nextRoom r1 = rg_nextRoom r"
    by (auto simp: r1_def room_same_coreD [OF room_same_core_broadcast])
  have seated_ne: "rm_participants (rg_room r ?m) \<noteq> []" if "seated r p" using seatedD [OF that] by auto
  have inv1: "room_inv {?m} r1"
  proof (cases "seated r p")
    case True
    show ?thesis unfolding r1_def using True
      by (simp only: if_True room_same_core_inv [OF unseat_inv [OF inv, of ?m "pt_id ?s"] room_same_core_broadcast])
  qed (simp add: r1_def room_inv_weaken [OF inv, of "{?m}"])
  have out1: "(i, p) \<notin> set (rm_participants (rg_room r1 m'))" for i m'
  proof (cases "seated r p")
    case True
    have "rm_participants (rg_room r1 m') = (if m' = ?m then AList.delete (pt_id ?s) (rm_participants (rg_room r ?m))
        else rm_participants (rg_room r m'))"
      using True by (simp add: r1_def room_same_coreD [OF room_same_core_broadcast])
    moreover have "m' = ?m \<and> i = pt_id ?s" if "(i, p) \<in> set (rm_participants (rg_room r m'))"
      using seat_facts(3,4) [OF inv that] by blast
    moreover have "(i', p) \<in> set (AList.delete k al) \<Longrightarrow> (i', p) \<in> set al \<and> i' \<noteq> k" for i' k :: u16 and al :: "(u16 \<times> nat) list"
      by (auto simp: AList.delete_eq)
    ultimately show ?thesis by metis
  next
    case unseated: False
    then show ?thesis using not_seated [OF inv unseated] by (simp add: r1_def)
  qed
  have "room_inv {} ?r2 \<and> rm_participants (rg_room ?r2 m') = rm_participants (rg_room r1 m')" for m'
  proof (cases ?nowEmpty)
    case True
    have "room_inv {} (startEmptyGraceLocked ?m now r1)"
    proof (rule start_grace_inv)
      show "room_inv {?m} r1" by (rule inv1)
      show "?m < rg_nextRoom r1" "rm_participants (rg_room r1 ?m) = []"
        "rm_emptyTimer (rg_room r1 ?m) \<longrightarrow> rm_kind (rg_room r1 ?m) = KindDynamic \<and> \<not> rm_ended (rg_room r1 ?m)"
        using m True keep grace by auto
    qed
    moreover have "rm_participants (rg_room (startEmptyGraceLocked ?m now r1) m') = rm_participants (rg_room r1 m')"
      by (simp add: startEmptyGraceLocked_def Let_def)
    ultimately show ?thesis using True by simp
  next
    case busy: False
    have off: "\<not> rm_emptyTimer (rg_room r1 ?m)"
    proof
      assume "rm_emptyTimer (rg_room r1 ?m)"
      then have e: "\<not> rm_ended (rg_room r ?m)" "rm_participants (rg_room r ?m) = []" using keep grace by auto
      then have "\<not> seated r p" using seated_ne by blast
      then have "r1 = r" by (simp add: r1_def)
      with busy e show False by simp
    qed
    moreover have "rm_participants (rg_room r1 ?m) \<noteq> [] \<or> rm_ended (rg_room r1 ?m)" using busy by blast
    ultimately have "room_inv {} r1" using grace_off_inv [OF inv1] by blast
    then show ?thesis using busy by (simp only: if_False)
  qed
  then show ?thesis unfolding res using out1 by (intro close_sess_inv) auto
qed (simp add: Leave_def inv)

end
