(* ===== verification/RoomRun.thy ===== *)
theory RoomRun
  imports RoomReach
begin

section \<open>Every operation keeps the invariants\<close>

text \<open>
  The rest of the operations: ends, static rooms, commands, walls, hooks, the refresh,
  minting and adoption.
\<close>

lemma neutral_inv: "room_inv X r \<Longrightarrow> room_same_core r (fst x) \<Longrightarrow> room_inv X (fst x)"
  by (rule room_same_core_inv)

lemma tile_updated_inv [intro]: "room_inv X r \<Longrightarrow> room_inv X (fst (tile_updated m i now r))"
  by (erule room_same_core_inv) simp

lemma person_updated_inv [intro]: "room_inv X r \<Longrightarrow> room_inv X (fst (person_updated m p now r))"
  by (erule room_same_core_inv) simp

lemma broadcast_inv [intro]: "room_inv X r \<Longrightarrow> room_inv X (fst (broadcastLocked m ev skip now r))"
  by (erule room_same_core_inv) simp

lemma reject_inv [intro]: "room_inv X r \<Longrightarrow> room_inv X (fst (reject k reason msg p r))"
  by (erule room_same_core_inv) simp

subsection \<open>Ends and static rooms\<close>

lemma EndRoom_inv:
  assumes "room_inv X r"
  shows "room_inv X (fst (EndRoom code reason now r))"
proof (cases "NormalizeCode code")
  case (Inr norm)
  show ?thesis
  proof (cases "live_room r norm")
    case (Some m)
    then have at: "room_at r norm = Some m" using live_room_inv [OF assms] by simp
    have "room_same_core r' (fst (do_all (closeAfterDrain RoomCloseCodeEnded) ps r'))" for ps r'
      by (rule room_same_core_do_all) simp
    then show ?thesis
      using end_room_inv [OF assms at] unfolding EndRoom_def Inr Some sum.case option.case also_do_fst fst_conv
      by (rule room_same_core_inv [rotated])
  qed (simp add: EndRoom_def Inr assms)
qed (simp add: EndRoom_def assms)

lemma attach_keeps:
  "rg_nextRoom (fst (attachLocked m i label state owner now r)) = rg_nextRoom r"
  "rm_ended (rg_room (fst (attachLocked m i label state owner now r)) m') = rm_ended (rg_room r m')"
  "rm_participants (rg_room (fst (attachLocked m i label state owner now r)) m') = rm_participants (rg_room r m')"
  "rm_emptyTimer (rg_room (fst (attachLocked m i label state owner now r)) m') = rm_emptyTimer (rg_room r m')"
  "rm_kind (rg_room (fst (attachLocked m i label state owner now r)) m') = rm_kind (rg_room r m')"
  "is_wall (rg_room (fst (attachLocked m i label state owner now r)) m') = is_wall (rg_room r m')"
  "rm_code (rg_room (fst (attachLocked m i label state owner now r)) m') = rm_code (rg_room r m')"
  unfolding room_same_coreD [OF attachLocked_fst [where m = m and i = i and label = label and state = state and owner = owner and now = now and r = r]]
  by (simp_all add: is_wall_def)

definition live_at :: "RoomRegistry \<Rightarrow> nat \<Rightarrow> bool" where
  "live_at r m \<longleftrightarrow> m < rg_nextRoom r \<and> \<not> rm_ended (rg_room r m)"

lemma seed_tile_inv:
  assumes "room_inv X r" "live_at r m" "valid_id (pf_id s)" "utf8_valid (pf_label s)"
  shows "room_inv X (fst (seed_tile m now s r)) \<and> live_at (fst (seed_tile m now s r)) m"
proof (cases "slots (is_wall (rg_room r m)) r (pf_id s)")
  case None
  then have "room_inv X (fst (attachLocked m (pf_id s) (pf_label s) (pf_state s) 0 now r))"
    using assms by (intro add_tile_inv) (simp_all add: live_at_def)
  then show ?thesis using None assms(2) by (simp add: seed_tile_def live_at_def attach_keeps)
qed (use assms in \<open>simp add: seed_tile_def\<close>)

lemma seed_tiles_inv:
  assumes "room_inv X r" "live_at r m" "\<And>s. s \<in> set ss \<Longrightarrow> valid_id (pf_id s) \<and> utf8_valid (pf_label s)"
  shows "room_inv X (fst (do_all (seed_tile m now) ss r)) \<and> live_at (fst (do_all (seed_tile m now) ss r)) m"
proof (rule do_all_induct [where P = "\<lambda>r. room_inv X r \<and> live_at r m"])
  show "room_inv X r \<and> live_at r m" using assms by simp
  fix s r' assume "s \<in> set ss" "room_inv X r' \<and> live_at r' m"
  then show "room_inv X (fst (seed_tile m now s r')) \<and> live_at (fst (seed_tile m now s r')) m"
    using assms(3) [of s] by (intro seed_tile_inv) simp_all
qed

definition refs_ok :: "RoomAttachmentRef list \<Rightarrow> bool" where
  \<comment> \<open>the texts of a resource are valid UTF-8, as JSON text is\<close>
  "refs_ok refs \<longleftrightarrow> (\<forall>at \<in> set refs. utf8_valid (cr_Label at))"

lemma prefetchStates_ok:
  "refs_ok refs \<Longrightarrow> s \<in> set (prefetchStates src refs) \<Longrightarrow> valid_id (pf_id s) \<and> utf8_valid (pf_label s)"
  by (auto simp: prefetchStates_def refs_ok_def split: sum.splits dest: sym dest!: Normalize_Inr_iff [THEN iffD1])

lemma create_static_inv:
  assumes "room_inv X r" "room_at r norm = None" "NormalizeCode norm = Inr norm"
    "\<And>s. s \<in> set ss \<Longrightarrow> valid_id (pf_id s) \<and> utf8_valid (pf_label s)"
  shows "room_inv X (fst (create_static norm display def ss now r))"
proof -
  let ?rm = "blank_room\<lparr>rm_code := norm, rm_display := display, rm_name := sr_DisplayName def,
      rm_kind := KindStatic, rm_attachSecret := sr_AttachSecret def, rm_maxBroadcasts := sr_MaxBroadcasts def,
      rm_maxParticipants := sr_MaxParticipants def, rm_pop := sr_Pop def, rm_createdAt := now\<rparr>"
  have "room_inv X (add_room norm ?rm r)"
    by (rule add_room_inv(3) [OF assms(1-3)]) (simp_all add: blank_room_def)
  moreover have "live_at (add_room norm ?rm r) (rg_nextRoom r)"
    by (simp add: live_at_def add_room_def blank_room_def)
  ultimately show ?thesis
    unfolding create_static_def Let_def using seed_tiles_inv assms(4) by blast
qed

lemma update_static_inv:
  assumes inv: "room_inv X r" and m: "live_at r m"
  shows "room_inv X (fst (fst (update_static m display def now r)))"
proof -
  let ?r = "upd_room m (\<lambda>rm. rm\<lparr>rm_display := display, rm_name := sr_DisplayName def,
      rm_attachSecret := sr_AttachSecret def, rm_maxBroadcasts := sr_MaxBroadcasts def,
      rm_maxParticipants := sr_MaxParticipants def\<rparr>) r"
  have inv1: "room_inv X ?r"
    by (rule room_same_core_inv [OF inv room_same_core_upd_room]) (simp add: core_room_def)
  have eq: "fst (fst (update_static m display def now r)) =
      upd_room m (\<lambda>rm. rm\<lparr>rm_pop := sr_Pop def\<rparr>)
        (if is_wall (rg_room ?r m) \<noteq> (sr_Pop def \<noteq> []) then fst (rekindLocked m (sr_Pop def) now ?r) else ?r)"
    unfolding update_static_def Let_def fst_conv also_do_fst by (simp only: if_distrib [of fst] fst_conv)
  show ?thesis
  proof (cases "is_wall (rg_room ?r m) \<noteq> (sr_Pop def \<noteq> [])")
    case True
    have m': "m < rg_nextRoom ?r" "\<not> rm_ended (rg_room ?r m)" using m by (simp_all add: live_at_def)
    note rk = rekind_inv [OF inv1 m' True, of now]
    show ?thesis
      unfolding eq using True
      by (simp only: if_True simp_thms) (rule room_same_core_inv [OF rk(1) room_same_core_upd_room], simp only: core_room_def, simp add: rk(2))
  next
    case False
    then have "is_wall ((rg_room ?r m)\<lparr>rm_pop := sr_Pop def\<rparr>) = is_wall (rg_room ?r m)" by (simp add: is_wall_def)
    then show ?thesis
      unfolding eq using False by (simp only: if_False simp_thms) (rule same_kind_inv [OF inv1], simp_all)
  qed
qed

lemma UpsertStatic_inv:
  assumes inv: "room_inv X r" and refs: "refs_ok (sr_Attachments def)"
  shows "room_inv X (fst (snd (UpsertStatic def src now r)))"
proof (cases "NormalizeCode (sr_Code def)")
  case (Inr norm)
  let ?d = "if sr_DisplayCode def = [] then TrimSpace (sr_Code def) else sr_DisplayCode def"
  show ?thesis
  proof (cases "room_at r norm")
    case None
    have "room_inv X (fst (create_static norm ?d def (prefetchStates src (sr_Attachments def)) now r))"
      using None NormalizeCode_idem [OF Inr] prefetchStates_ok [OF refs] by (intro create_static_inv [OF inv])
    then show ?thesis unfolding UpsertStatic_def Inr sum.case Let_def None option.case snd_conv .
  next
    case (Some m)
    have "live_at r m" using registered_facts [OF inv Some] by (simp add: live_at_def)
    note upd = update_static_inv [OF inv this, of ?d def now]
    have "fst (snd (if rm_kind (rg_room r m) \<noteq> KindStatic then (Inl RoomAlreadyAttached, (r, []))
        else (let (x, rekinded) = update_static m ?d def now r in
              (Inr (), if rekinded then also_do x (notifyAttachments m) else x)))) =
        (if rm_kind (rg_room r m) \<noteq> KindStatic then r else fst (fst (update_static m ?d def now r)))"
      by (simp add: case_prod_unfold Let_def)
    then show ?thesis
      unfolding UpsertStatic_def Inr sum.case Let_def Some option.case
      using upd inv by (simp split: if_splits)
  qed
qed (simp add: UpsertStatic_def inv)

subsection \<open>Commands\<close>

lemma attach_free_inv:
  assumes inv: "room_inv X r" and m: "m < rg_nextRoom r" "\<not> rm_ended (rg_room r m)" "\<not> is_wall (rg_room r m)"
    and free: "\<not> (rg_attached r i \<noteq> None \<and> rg_attached r i \<noteq> Some (rm_code (rg_room r m)))" "find_tile (rg_room r m) i = None"
    and q: "valid_id i" "utf8_valid label"
  shows "room_inv X (fst (attachLocked m i label state owner now r))"
proof -
  have at: "room_at r (rm_code (rg_room r m)) = Some m" by (rule live_registered [OF inv m(1,2)])
  have "slots (is_wall (rg_room r m)) r i = None"
  proof (rule ccontr)
    assume "slots (is_wall (rg_room r m)) r i \<noteq> None"
    then have "rg_attached r i = Some (rm_code (rg_room r m))" using m(3) free(1) by (auto simp: slots_def)
    then have "slots False r i = Some (rm_code (rg_room r m))" by (simp add: slots_def)
    then have "i \<in> at_id ` set (rm_attachments (rg_room r m))" using slot_iff [OF inv] at by auto
    with free(2) find_tile_None show False by metis
  qed
  then show ?thesis using m q by (intro add_tile_inv [OF inv])
qed

lemma attach_commit_inv:
  assumes inv: "room_inv X r" and p: "pt_room (rg_sess r p) < rg_nextRoom r"
    and q: "valid_id (aq_id q)" "utf8_valid (aq_label q)"
    and plain: "\<not> is_wall (rg_room r (pt_room (rg_sess r p)))"
  shows "room_inv X (fst (attach_commit p q now r))"
proof -
  let ?m = "pt_room (rg_sess r p)"
  let ?rm = "rg_room r ?m"
  consider "rm_ended ?rm" | "\<not> rm_ended ?rm" "rg_attached r (aq_id q) \<noteq> None \<and> rg_attached r (aq_id q) \<noteq> Some (rm_code ?rm)"
    | e where "\<not> rm_ended ?rm" "\<not> (rg_attached r (aq_id q) \<noteq> None \<and> rg_attached r (aq_id q) \<noteq> Some (rm_code ?rm))"
      "find_tile ?rm (aq_id q) = Some e"
    | "\<not> rm_ended ?rm" "\<not> (rg_attached r (aq_id q) \<noteq> None \<and> rg_attached r (aq_id q) \<noteq> Some (rm_code ?rm))"
      "find_tile ?rm (aq_id q) = None"
    by (cases "find_tile ?rm (aq_id q)") blast+
  then show ?thesis
  proof cases
    case 1
    then show ?thesis by (simp add: attach_commit_def inv)
  next
    case 2
    then show ?thesis unfolding attach_commit_def Let_def by (simp only: if_False if_True simp_thms reject_inv [OF inv])
  next
    case (3 e)
    have e: "e \<in> set (rm_attachments ?rm)" "at_id e = aq_id q" using find_tile_Some [OF 3(3)] by auto
    define label where "label = (if aq_label q \<noteq> [] then uniqueLabelLocked ?rm (aq_label q) (aq_id q) else at_label e)"
    let ?f = "\<lambda>a. a\<lparr>at_ownerPID := pt_id (rg_sess r p), at_label := label,
        at_live := bs_Live (aq_state q), at_viewers := bs_Viewers (aq_state q)\<rparr>"
    have "a = e" if "at_id a = aq_id q" "a \<in> set (rm_attachments ?rm)" for a
      using tiles_okD [OF inv, of ?m] e that by (simp add: tiles_ok_def distinct_map inj_on_def)
    then have "room_inv X (set_tile ?m (aq_id q) ?f r)"
      using q(2) by (intro set_tile_inv_new_label [OF inv, where label = "aq_label q"]) (auto simp: label_def)
    then have "room_inv X (fst (reattach p e q now r))"
      unfolding reattach_def Let_def label_def [symmetric] also_do_fst by (intro person_updated_inv tile_updated_inv)
    then show ?thesis
      unfolding attach_commit_def Let_def 3(3) option.case using 3(1,2) by (simp only: if_False simp_thms also_do_fst room_same_core_notify)
  next
    case 4
    have "room_inv X (fst (attachLocked ?m (aq_id q) (aq_label q) (aq_state q) (pt_id (rg_sess r p)) now r))"
      by (rule attach_free_inv [OF inv p 4(1) plain 4(2,3) q])
    then have "room_inv X (fst (new_attach p q now r))"
      unfolding new_attach_def Let_def also_do_fst by (intro person_updated_inv broadcast_inv)
    then show ?thesis
      unfolding attach_commit_def Let_def 4(3) option.case using 4(1,2) reject_inv [OF inv]
      by (simp only: if_False simp_thms also_do_fst room_same_core_notify if_distrib [of fst] split: if_split)
  qed
qed

lemma drop_tile_inv:
  assumes "room_inv X r" "live_at r m" "at_id a \<in> at_id ` set (rm_attachments (rg_room r m))"
  shows "room_inv X (fst (drop_tile m a reason now r))"
proof -
  have "room_inv X (fst (removeAttachmentLocked m (at_id a) reason now r))"
    using assms by (intro remove_tile_inv) (simp_all add: live_at_def)
  then show ?thesis
    unfolding drop_tile_def Let_def also_do_fst by (auto split: option.split)
qed

lemma command_detach_inv:
  assumes inv: "room_inv X r" and p: "pt_room (rg_sess r p) < rg_nextRoom r"
  shows "room_inv X (fst (command_detach p cmd now r))"
proof (cases "rm_ended (rg_room r (pt_room (rg_sess r p)))")
  case False
  let ?m = "pt_room (rg_sess r p)"
  show ?thesis
  proof (cases "find_tile (rg_room r ?m) (rc_BroadcastID cmd)")
    case None
    then show ?thesis using False by (simp add: command_detach_def Let_def reject_inv [OF inv])
  next
    case (Some a)
    have "at_id a \<in> at_id ` set (rm_attachments (rg_room r ?m))" using find_tile_Some [OF Some] by blast
    then have "room_inv X (fst (drop_tile ?m a reason now r))" for reason
      using False p by (intro drop_tile_inv [OF inv]) (simp_all add: live_at_def)
    then show ?thesis
      unfolding command_detach_def Let_def Some option.case using False reject_inv [OF inv]
      by (simp only: if_False simp_thms also_do_fst room_same_core_notify if_distrib [of fst] split: if_split)
  qed
qed (simp add: command_detach_def inv)

lemma command_nickname_inv:
  assumes inv: "room_inv X r" and p: "in_session r p"
  shows "room_inv X (fst (command_nickname p cmd now r))"
proof (cases "rm_ended (rg_room r (pt_room (rg_sess r p)))")
  case False
  then have "seated r p" using p by (simp add: in_session_def)
  from nick_inv [OF inv this, of "rc_Nickname cmd"] False show ?thesis
    unfolding command_nickname_def Let_def by (simp only: if_False person_updated_inv)
qed (simp add: command_nickname_def inv)

lemma command_resync_inv: "room_inv X r \<Longrightarrow> room_inv X (fst (command_resync p r))"
  unfolding command_resync_def Let_def
  by (cases "rm_ended (rg_room r (pt_room (rg_sess r p)))") (simp_all add: room_same_core_inv [OF _ room_same_core_enqueue])

lemma command_end_inv: "room_inv X r \<Longrightarrow> room_inv X (fst (command_end p cmd now r))"
  unfolding command_end_def Let_def if_distrib [of fst] by (auto simp del: de_Morgan_disj intro: EndRoom_inv)

subsection \<open>Walls, hooks and the refresh\<close>

lemma set_tile_keeps_room:
  "rm_ended (rg_room (set_tile m i f r) m') = rm_ended (rg_room r m')"
  "rg_nextRoom (set_tile m i f r) = rg_nextRoom r"
  by (simp_all add: set_tile_def)

lemma vouch_insert_inv:
  assumes inv: "room_inv X r" and i: "valid_id i" and l: "utf8_valid label"
  shows "room_inv X (fst (snd (vouch_insert norm pop i label state now r)))"
proof (cases "live_room r norm")
  case (Some m)
  let ?rm = "rg_room r m"
  have at: "room_at r norm = Some m" using Some live_room_inv [OF inv] by simp
  note reg = registered_facts [OF inv at]
  have new: "room_inv X (fst (attachLocked m i label state 0 now r))"
    if "rm_pop ?rm \<noteq> []" "\<not> (rg_walls r i \<noteq> None \<and> rg_walls r i \<noteq> Some (rm_code ?rm))" "find_tile ?rm i = None"
  proof (rule add_tile_inv [OF inv reg(1,3) _ i l])
    have "slots True r i \<noteq> Some norm"
      using slot_iff [OF inv, of True i norm] at that(3) find_tile_None [of ?rm i] by auto
    then show "slots (is_wall ?rm) r i = None" using that(1,2) reg(2) by (auto simp: is_wall_def slots_def)
  qed
  have old: "room_inv X (set_tile m i (\<lambda>a. a\<lparr>at_label := uniqueLabelLocked ?rm label i\<rparr>) r)"
    by (rule set_tile_inv_new_label [OF inv, where label = label]) (simp_all add: l)
  show ?thesis
  proof (cases "rm_pop ?rm = [] \<or> rm_pop ?rm \<noteq> pop \<or> (rg_walls r i \<noteq> None \<and> rg_walls r i \<noteq> Some (rm_code ?rm))")
    case True
    then have t: "\<not> (rm_pop ?rm = [] \<or> rm_pop ?rm \<noteq> pop) \<Longrightarrow> rg_walls r i \<noteq> None \<and> rg_walls r i \<noteq> Some (rm_code ?rm)" by blast
    show ?thesis
      unfolding vouch_insert_def Some option.case Let_def
      by (cases "rm_pop ?rm = [] \<or> rm_pop ?rm \<noteq> pop")
        (simp_all only: if_True if_False t simp_thms snd_conv fst_conv inv)
  next
    case False
    then have n: "\<not> (rm_pop ?rm = [] \<or> rm_pop ?rm \<noteq> pop)" "\<not> (rg_walls r i \<noteq> None \<and> rg_walls r i \<noteq> Some (rm_code ?rm))"
      "rm_pop ?rm \<noteq> []" by blast+
    show ?thesis
    proof (cases "find_tile ?rm i")
      case None
      have "room_inv X (fst (attachLocked m i label state 0 now r))" by (rule new [OF n(3,2) None])
      then show ?thesis
        unfolding vouch_insert_def Some option.case Let_def None using inv n(1,2)
        by (simp only: if_False if_distrib [of snd] if_distrib [of fst] snd_conv fst_conv also_do_fst
            room_same_core_notify broadcast_inv split: if_split) simp
    next
      case e: (Some e)
      show ?thesis
        unfolding vouch_insert_def Some option.case Let_def e using inv n(1,2) old
        by (simp only: if_False if_distrib [of snd] if_distrib [of fst] snd_conv fst_conv
            tile_updated_inv split: if_split) simp
    qed
  qed
qed (simp add: vouch_insert_def inv)

lemma AttachVouched_inv:
  assumes "room_inv X r"
  shows "room_inv X (fst (snd (AttachVouched code pop i label src now r)))"
proof -
  have "utf8_valid (truncate_name (if utf8_valid label then label else []) MaxRoomLabelLen)"
    using truncate_ok [of "if utf8_valid label then label else []" MaxRoomLabelLen] by (simp add: str_ok_def)
  then show ?thesis
    using assms vouch_insert_inv [OF assms]
    by (auto simp: AttachVouched_def Normalize_Inr_iff split: sum.splits)
qed

lemma DetachVouched_inv:
  assumes inv: "room_inv X r"
  shows "room_inv X (fst (snd (DetachVouched code pop i now r)))"
proof (cases "NormalizeCode code")
  case norm: (Inr norm)
  show ?thesis
  proof (cases "Normalize i")
    case i: (Inr i')
    show ?thesis
    proof (cases "live_room r norm")
      case (Some m)
      then have at: "room_at r norm = Some m" using live_room_inv [OF inv] by simp
      have "room_inv X (fst (removeAttachmentLocked m i' RoomDetachReasonPublisher now r))"
        if "find_tile (rg_room r m) i' \<noteq> None"
        using that find_tile_None registered_facts [OF inv at] by (intro remove_tile_inv [OF inv]) auto
      then show ?thesis
        unfolding DetachVouched_def norm i prod.case sum.case Some option.case Let_def
        using inv by (simp split: if_split)
    qed (simp add: DetachVouched_def norm i inv)
  qed (simp add: DetachVouched_def norm inv)
qed (simp add: DetachVouched_def inv split: sum.split)

lemma set_live_inv: "room_inv X r \<Longrightarrow> room_inv X (fst (set_live norm live now m r))"
  unfolding set_live_def
  by (auto split: option.split intro!: tile_updated_inv set_tile_inv_same_label)

lemma setLive_inv:
  assumes "room_inv X r"
  shows "room_inv X (fst (setLive i live now r))"
  unfolding setLive_def
  by (auto split: sum.split simp: assms intro!: do_all_induct [where P = "room_inv X"] set_live_inv)

lemma roomsOf_live: "room_inv X r \<Longrightarrow> m \<in> set (roomsOfLocked i r) \<Longrightarrow> live_at r m"
  by (auto simp: roomsOfLocked_def live_at_def split: option.splits) (metis registered_facts)+

lemma drop_tile_keeps:
  "rg_nextRoom (fst (drop_tile m a reason now r)) = rg_nextRoom r"
  "rm_ended (rg_room (fst (drop_tile m a reason now r)) m') = rm_ended (rg_room r m')"
proof -
  have "room_same_core (fst (removeAttachmentLocked m (at_id a) reason now r)) (fst (drop_tile m a reason now r))"
    unfolding drop_tile_def Let_def also_do_fst by (simp split: option.split)
  note d = room_same_coreD [OF this]
  let ?r = "set_slot (is_wall (rg_room r m)) (at_id a) None
      (upd_room m (\<lambda>rm. rm\<lparr>rm_attachments := remove_tile (at_id a) (rm_attachments rm)\<rparr>) r)"
  have "room_same_core ?r (fst (removeAttachmentLocked m (at_id a) reason now r))"
    unfolding removeAttachmentLocked_def Let_def by (rule room_same_core_broadcast)
  note e = room_same_coreD [OF this]
  show "rg_nextRoom (fst (drop_tile m a reason now r)) = rg_nextRoom r"
    "rm_ended (rg_room (fst (drop_tile m a reason now r)) m') = rm_ended (rg_room r m')"
    unfolding d e by simp_all
qed

lemma expire_in_inv:
  assumes "room_inv X r" "live_at r m"
  shows "room_inv X (fst (expire_in norm now m r))" "live_at r m' \<Longrightarrow> live_at (fst (expire_in norm now m r)) m'"
proof -
  show "room_inv X (fst (expire_in norm now m r))"
  proof (cases "find_tile (rg_room r m) norm")
    case (Some a)
    have "at_id a \<in> at_id ` set (rm_attachments (rg_room r m))" using find_tile_Some [OF Some] by blast
    then show ?thesis using assms by (simp add: expire_in_def Some drop_tile_inv)
  qed (simp add: expire_in_def assms)
  show "live_at r m' \<Longrightarrow> live_at (fst (expire_in norm now m r)) m'"
    by (auto simp: expire_in_def live_at_def drop_tile_keeps split: option.split)
qed

lemma notify_all: "fst (do_all notifyAttachments ms r) = r"
  by (induction ms) auto

lemma BroadcastExpired_inv:
  assumes inv: "room_inv X r"
  shows "room_inv X (fst (room_BroadcastExpired i now r))"
proof (cases "Normalize i")
  case (Inr norm)
  let ?ms = "roomsOfLocked norm r"
  have "(\<lambda>r'. room_inv X r' \<and> (\<forall>m \<in> set ?ms. live_at r' m)) (fst (do_all (expire_in norm now) ?ms r))"
  proof (rule do_all_induct)
    show "room_inv X r \<and> (\<forall>m \<in> set ?ms. live_at r m)" using inv roomsOf_live by blast
    fix m r' assume "m \<in> set ?ms" "room_inv X r' \<and> (\<forall>m \<in> set ?ms. live_at r' m)"
    then show "room_inv X (fst (expire_in norm now m r')) \<and> (\<forall>m' \<in> set ?ms. live_at (fst (expire_in norm now m r')) m')"
      using expire_in_inv by blast
  qed
  then show ?thesis unfolding room_BroadcastExpired_def Inr sum.case Let_def also_do_fst notify_all by blast
qed (simp add: room_BroadcastExpired_def inv)

lemma refresh_probe_inv:
  assumes inv: "room_inv X r"
  shows "room_inv X (fst (refresh_probe src now pr r))"
proof -
  obtain m i where pr: "pr = (m, i)" by (cases pr)
  show ?thesis
    unfolding refresh_probe_def pr prod.case Let_def
    by (cases "src i"; cases "find_tile (rg_room r m) i")
      (auto simp: inv BroadcastExpired_inv intro!: tile_updated_inv set_tile_inv_same_label)
qed

subsection \<open>Minting and adoption\<close>

lemma seed_tile_keeps:
  "rm_participants (rg_room (fst (seed_tile m now s r)) m') = rm_participants (rg_room r m')"
  "rm_emptyTimer (rg_room (fst (seed_tile m now s r)) m') = rm_emptyTimer (rg_room r m')"
  by (simp_all add: seed_tile_def attach_keeps)

lemma seed_tiles_keep:
  "rm_participants (rg_room (fst (do_all (seed_tile m now) ss r)) m') = rm_participants (rg_room r m')"
  "rm_emptyTimer (rg_room (fst (do_all (seed_tile m now) ss r)) m') = rm_emptyTimer (rg_room r m')"
  by (induction ss arbitrary: r) (simp_all add: seed_tile_keeps)

lemma mint_insert_inv:
  assumes inv: "room_inv {} r" and q: "valid_id (mg_id q)" "utf8_valid (mg_label q)"
    and free: "room_at r (rm_code rm) = None" "rg_attached r (mg_id q) = None"
    and code: "NormalizeCode (rm_code rm) = Inr (rm_code rm)"
    and rm: "rm_participants rm = []" "rm_attachments rm = []" "\<not> rm_ended rm" "\<not> rm_emptyTimer rm" "rm_pop rm = []"
  shows "room_inv {} (fst (mint_insert q rm now r))"
proof -
  let ?m = "rg_nextRoom r" and ?r = "add_room (rm_code rm) rm r"
  let ?a = "fst (attachLocked ?m (mg_id q) (mg_label q) (mg_state q) 0 now ?r)"
  have new: "rg_room ?r ?m = rm" "rg_nextRoom ?r = Suc ?m" "slots w ?r = slots w r" for w
    by (simp_all add: add_room_def slots_def)
  have "room_inv {?m} ?r" using add_room_inv(1) [OF inv free(1) code refl rm(1-4)] by simp
  then have a: "room_inv {?m} ?a"
    using q rm free(2) by (intro add_tile_inv) (simp_all only: new is_wall_def, simp_all add: slots_def)
  have "room_inv {} (startEmptyGraceLocked ?m now ?a)"
    by (rule start_grace_inv [OF a]) (simp_all add: attach_keeps new rm)
  then show ?thesis
    unfolding mint_insert_def Let_def also_do_fst room_same_core_notify fst_conv
    by (rule room_same_core_inv [OF _ room_same_core_upd_room]) (simp add: core_room_def)
qed

lemma mint_check_Proceed:
  assumes "mint_check q raw taken now r = MintProceed rm token" "valid_id raw"
  shows "room_at r (rm_code rm) = None" "rg_attached r (mg_id q) = None"
    "rm_code rm = ToLower raw" "NormalizeCode (rm_code rm) = Inr (rm_code rm)"
    "rm_participants rm = []" "rm_attachments rm = []" "\<not> rm_ended rm" "\<not> rm_emptyTimer rm" "rm_pop rm = []"
    "int (dynamicCountLocked r) < ro_MaxRooms (rg_opts r)" "rm_kind rm = KindDynamic"
    "token = tk_MintCreator (mg_tokens q) (rm_code rm)"
proof -
  have rm: "rm = blank_room\<lparr>rm_code := ToLower raw, rm_display := raw, rm_kind := KindDynamic,
      rm_creatorFP := Fingerprint token, rm_createdAt := now, rm_minter := mg_id q\<rparr>"
    and a: "room_at r (ToLower raw) = None" "rg_attached r (mg_id q) = None"
    "int (dynamicCountLocked r) < ro_MaxRooms (rg_opts r)" "token = tk_MintCreator (mg_tokens q) (ToLower raw)"
    using assms(1) by (auto simp: mint_check_def Let_def split: option.splits if_splits)
  have "NormalizeCode raw = Inr (ToLower raw)"
    using NormalizeCode_id [OF assms(2)] valid_id_ascii [OF assms(2)] by (simp add: ToLower_def)
  then have "NormalizeCode (ToLower raw) = Inr (ToLower raw)" by (rule NormalizeCode_idem)
  then show "room_at r (rm_code rm) = None" "rg_attached r (mg_id q) = None"
    "rm_code rm = ToLower raw" "NormalizeCode (rm_code rm) = Inr (rm_code rm)"
    "rm_participants rm = []" "rm_attachments rm = []" "\<not> rm_ended rm" "\<not> rm_emptyTimer rm" "rm_pop rm = []"
    "int (dynamicCountLocked r) < ro_MaxRooms (rg_opts r)" "rm_kind rm = KindDynamic"
    "token = tk_MintCreator (mg_tokens q) (rm_code rm)"
    using a unfolding rm by (simp_all add: blank_room_def)
qed

lemma mint_gate_ok: "mint_gate req src r = Inr q \<Longrightarrow> valid_id (mg_id q) \<and> utf8_valid (mg_label q)"
  by (auto simp: mint_gate_def Let_def Normalize_Inr_iff split: sum.splits option.splits if_splits prod.splits)

lemma AdoptDynamic_inv:
  assumes inv: "room_inv {} r" and refs: "refs_ok (cr_Attachments cr)"
  shows "room_inv {} (fst (snd (AdoptDynamic cr src now r)))"
proof (cases "NormalizeCode (cr_Name cr)")
  case (Inr norm)
  show ?thesis
  proof (cases "room_at r norm = None")
    case True
    let ?m = "rg_nextRoom r"
    let ?rm = "blank_room\<lparr>rm_code := norm, rm_display := DisplayCode (Some cr), rm_kind := KindDynamic,
      rm_creatorFP := cr_CreatorTokenFingerprint cr,
      rm_createdAt := (case cr_CreatedAt cr of None \<Rightarrow> now | Some t \<Rightarrow> t),
      rm_rejoinUntil := now + rejoinWindow r\<rparr>"
    let ?r = "add_room norm ?rm r"
    let ?s = "fst (do_all (seed_tile ?m now) (prefetchStates src (cr_Attachments cr)) ?r)"
    have "room_inv {?m} ?r"
      using add_room_inv(1) [OF inv True NormalizeCode_idem [OF Inr], of ?rm] by (simp add: blank_room_def)
    moreover have "live_at ?r ?m" by (simp add: live_at_def add_room_def blank_room_def)
    ultimately have s: "room_inv {?m} ?s" "live_at ?s ?m"
      using seed_tiles_inv [of "{?m}" ?r ?m] prefetchStates_ok [OF refs] by blast+
    have "room_inv {} (startEmptyGraceLocked ?m now ?s)"
      using s(2) by (intro start_grace_inv [OF s(1)]) (simp_all add: live_at_def seed_tiles_keep add_room_def blank_room_def)
    then show ?thesis
      unfolding AdoptDynamic_def Inr sum.case Let_def using True by simp
  qed (use inv in \<open>simp add: AdoptDynamic_def Inr\<close>)
qed (simp add: AdoptDynamic_def inv)

end
