(* ===== verification/RoomMachine.thy ===== *)
theory RoomMachine
  imports RoomRun
begin

section \<open>The room registry as a state machine\<close>

text \<open>
  One rule per critical section of the registry's lock, in any interleaving.  A check that
  an operation makes before it takes the lock again is made in some earlier state \<open>r0\<close>.  The
  guards are what the callers give: parsed commands and greetings, sessions that have joined,
  resources whose texts are valid UTF-8.  One thing is assumed of the order of steps: a room
  does not turn into a party wall between the two critical sections of one attach command
  (see \<open>attach_gate\<close>).
\<close>

inductive room_act :: "RoomRegistry \<Rightarrow> acts \<Rightarrow> bool" where
  act_upsert: "refs_ok (sr_Attachments def) \<Longrightarrow> room_act r (snd (UpsertStatic def src now r))"
| act_end: "live_room r norm = Some m \<Longrightarrow> room_act r (end_room m norm reason now r)"
| act_drain: "room_act r (closeAfterDrain code p r)"
| act_timer: "room_act r (empty_timer_fires code m gen now r)"
| act_join: "Join code hello grants tok now r = Some (res, x) \<Longrightarrow> rh_ClientKind hello \<le> roomClientKindMax
    \<Longrightarrow> room_act r x"
| act_leave: "p < rg_nextSess r \<Longrightarrow> room_act r (Leave p now r)"
| act_write: "p < rg_nextSess r \<Longrightarrow> room_act r (write_next ok p now r)"
| act_write_stops: "room_act r (write_stops p r)"
| act_attach: "attach_gate p cmd src r0 = Inr q \<Longrightarrow> valid_id (rc_BroadcastID cmd) \<Longrightarrow> utf8_valid (rc_Label cmd)
    \<Longrightarrow> in_session r p \<Longrightarrow> \<not> is_wall (rg_room r (pt_room (rg_sess r p))) \<Longrightarrow> room_act r (attach_commit p q now r)"
| act_detach: "in_session r p \<Longrightarrow> room_act r (command_detach p cmd now r)"
| act_nickname: "in_session r p \<Longrightarrow> room_act r (command_nickname p cmd now r)"
| act_resync: "in_session r p \<Longrightarrow> room_act r (command_resync p r)"
| act_reject: "in_session r p \<Longrightarrow> room_act r (reject k reason msg p r)"
| act_vouch: "valid_id i \<Longrightarrow> utf8_valid label \<Longrightarrow> room_act r (snd (vouch_insert norm pop i label state now r))"
| act_unvouch: "room_act r (snd (DetachVouched code pop i now r))"
| act_live: "room_act r (setLive i live now r)"
| act_expired: "room_act r (room_BroadcastExpired i now r)"
| act_probe: "room_act r (refresh_probe src now pr r)"
| act_mint: "mint_gate req src r0 = Inr q \<Longrightarrow> valid_id raw \<Longrightarrow> mint_check q raw taken now r = MintProceed rm token
    \<Longrightarrow> room_act r (snd (mint_commit False q rm token now r))"
| act_mint_reserved: "mint_gate req src r0 = Inr q \<Longrightarrow> valid_id raw \<Longrightarrow> mint_check q raw taken now r1 = MintProceed rm token
    \<Longrightarrow> room_act r (snd (mint_commit True q rm token now r))"
| act_adopt: "refs_ok (cr_Attachments cr) \<Longrightarrow> room_act r (snd (AdoptDynamic cr src now r))"
| act_release: "room_act r (ReleaseHome code r, [])"
| act_tokens: "room_act r (SetTokens t r, [])"

definition room_step :: "RoomRegistry \<Rightarrow> RoomRegistry \<Rightarrow> bool" where
  "room_step r r' \<longleftrightarrow> (\<exists>es. room_act r (r', es))"

definition room_reachable :: "RoomRegistry \<Rightarrow> bool" where
  "room_reachable r \<longleftrightarrow> (\<exists>opts tokens. room_step\<^sup>*\<^sup>* (NewRoomRegistry opts tokens) r)"

lemma room_inv_init: "room_inv {} (NewRoomRegistry opts tokens)"
  by (simp add: room_inv_def codes_ok_def room_slots_ok_def tiles_ok_def seats_ok_def grace_ok_def NewRoomRegistry_def
      room_at_def slots_def blank_room_def no_session_def)

lemma write_inv:
  assumes inv: "room_inv {} r" and p: "p < rg_nextSess r"
  shows "room_inv {} (fst (write_next ok p now r))"
proof -
  have same: "room_same_core r (upd_sess p (\<lambda>s. s\<lparr>pt_outbox := rest, pt_writing := w\<rparr>) r)"
    "room_same_core r (upd_sess p (\<lambda>s. s\<lparr>pt_outbox := rest\<rparr>) r)" for rest w
    by (rule room_same_core_upd_sess, simp add: core_sess_def)+
  have leave: "room_inv {} (fst (Leave p now (upd_sess p (\<lambda>s. s\<lparr>pt_outbox := rest, pt_writing := w\<rparr>) r)))" for rest w
    using room_same_core_inv [OF inv same(1)] p by (intro Leave_inv) simp_all
  show ?thesis
    unfolding write_next_def Let_def
    by (cases "pt_outbox (rg_sess r p)"; cases "hd (pt_outbox (rg_sess r p))")
      (auto simp: inv intro!: leave room_same_core_inv [OF inv same(1)] room_same_core_inv [OF inv same(2)])
qed

lemma attach_gate_ok:
  assumes "attach_gate p cmd src r0 = Inr q" "valid_id (rc_BroadcastID cmd)" "utf8_valid (rc_Label cmd)"
  shows "valid_id (aq_id q)" "utf8_valid (aq_label q)"
  using assms
  by (auto simp: attach_gate_def Let_def Normalize_Inr_iff split: if_splits option.splits sum.splits prod.splits)

lemma mint_commit_inv:
  assumes inv: "room_inv {} r" and g: "mint_gate req src r0 = Inr q"
    and c: "valid_id raw" "mint_check q raw taken now r1 = MintProceed rm token"
    and free: "\<not> reserved \<Longrightarrow> r1 = r"
  shows "room_inv {} (fst (snd (mint_commit reserved q rm token now r)))"
proof -
  note rm = mint_check_Proceed [OF c(2,1)]
  consider "reserved" "room_at r (rm_code rm) \<noteq> None \<or> rg_attached r (mg_id q) \<noteq> None"
    | "room_at r (rm_code rm) = None" "rg_attached r (mg_id q) = None"
    by (cases reserved) (use rm(1,2) free in fastforce)+
  then show ?thesis
  proof cases
    case 1
    then show ?thesis using inv by (auto simp: mint_commit_def)
  next
    case 2
    have "room_inv {} (fst (mint_insert q rm now r))"
      using mint_gate_ok [OF g] by (intro mint_insert_inv [OF inv] 2 rm) simp_all
    then show ?thesis using 2 by (simp add: mint_commit_def)
  qed
qed

lemma room_act_inv:
  assumes "room_act r x" "room_inv {} r"
  shows "room_inv {} (fst x)"
  using assms
proof (cases rule: room_act.cases)
  case (act_end norm m reason now)
  then show ?thesis using end_room_inv [OF assms(2)] live_room_inv [OF assms(2)] by metis
next
  case (act_join code hello grants tok now res)
  then show ?thesis using Join_inv [OF assms(2)] by blast
next
  case (act_attach p cmd src r0 q now)
  have "pt_room (rg_sess r p) < rg_nextRoom r"
    using assms(2) act_attach by (simp add: room_inv_def seats_ok_def in_session_def)
  then show ?thesis
    using act_attach attach_gate_ok [of p cmd src r0 q] attach_commit_inv [OF assms(2)] by blast
next
  case (act_detach p cmd now)
  have "pt_room (rg_sess r p) < rg_nextRoom r"
    using assms(2) act_detach by (simp add: room_inv_def seats_ok_def in_session_def)
  then show ?thesis using act_detach command_detach_inv [OF assms(2)] by blast
next
  case (act_mint req src r0 q raw taken now rm token)
  then show ?thesis using mint_commit_inv [OF assms(2)] by blast
next
  case (act_mint_reserved req src r0 q raw taken now r1 rm token)
  show ?thesis
    unfolding act_mint_reserved(1) by (rule mint_commit_inv [OF assms(2) act_mint_reserved(2,3,4)]) simp
next
  case (act_release code)
  have "room_same_core r (ReleaseHome code r)"
    by (auto simp: ReleaseHome_def core_room_def intro!: room_same_core_upd_room split: option.split)
  then show ?thesis using act_release room_same_core_inv [OF assms(2)] by simp
next
  case (act_tokens t)
  have "room_same_core r (SetTokens t r)" by (simp add: room_same_core_def SetTokens_def)
  then show ?thesis using act_tokens room_same_core_inv [OF assms(2)] by simp
next
  case (act_write_stops p)
  have "room_same_core r (fst (write_stops p r))"
    by (simp add: write_stops_def room_same_core_upd_sess core_sess_def)
  then show ?thesis using act_write_stops room_same_core_inv [OF assms(2)] by simp
next
  case (act_timer code m gen now)
  then show ?thesis using EndRoom_inv [OF assms(2)] assms(2) by (simp add: empty_timer_fires_def)
next
  case (act_drain code p)
  then show ?thesis using room_same_core_inv [OF assms(2) room_same_core_closeAfterDrain] by blast
qed (use assms(2) in \<open>blast intro: UpsertStatic_inv Leave_inv write_inv command_nickname_inv command_resync_inv
    reject_inv vouch_insert_inv DetachVouched_inv setLive_inv BroadcastExpired_inv refresh_probe_inv AdoptDynamic_inv\<close>)+

lemma room_step_inv: "room_step r r' \<Longrightarrow> room_inv {} r \<Longrightarrow> room_inv {} r'"
  using room_act_inv unfolding room_step_def by fastforce

lemma room_reachable_inv:
  assumes "room_reachable r"
  shows "room_inv {} r"
proof -
  obtain opts tokens where "room_step\<^sup>*\<^sup>* (NewRoomRegistry opts tokens) r" using assms by (auto simp: room_reachable_def)
  then show ?thesis by (induction rule: rtranclp_induct) (auto intro: room_inv_init room_step_inv)
qed

lemma room_reachable_init: "room_reachable (NewRoomRegistry opts tokens)"
  unfolding room_reachable_def by blast

lemma room_reachable_step: "room_reachable r \<Longrightarrow> room_step r r' \<Longrightarrow> room_reachable r'"
  unfolding room_reachable_def by (blast intro: rtranclp.rtrancl_into_rtrancl)

subsection \<open>What the invariants say\<close>

lemma one_room_each:
  assumes "room_inv X r" "room_at r c = Some m" "room_at r d = Some n"
    "i \<in> at_id ` set (rm_attachments (rg_room r m))" "i \<in> at_id ` set (rm_attachments (rg_room r n))"
    "is_wall (rg_room r m) = is_wall (rg_room r n)"
  shows "m = n"
proof -
  have "slots (is_wall (rg_room r m)) r i = Some c" "slots (is_wall (rg_room r m)) r i = Some d"
    using assms slot_iff [OF assms(1)] by blast+
  with assms(2,3) show ?thesis by simp
qed

end

