(* ===== verification/RoomClient.thy ===== *)
theory RoomClient
  imports RoomCodes
begin

section \<open>The room client of the publisher library (\<^verbatim>\<open>publisher/room.go\<close>)\<close>

text \<open>
  One room membership of a native broadcaster: what it does with each record of the control
  stream, and the latch that sends an attach command once per connection or resume.  The
  network, the contexts and the log are left out; \<open>up\<close> says whether the stream is there, and
  whether a write succeeds is an argument.  The session's configuration is an argument too:
  the broadcast ID and the resume token as far as they have arrived, and the tile label.
\<close>

datatype roomMode = roomModeJoin | roomModeNew

record roomClient =
  cl_mode :: roomMode
  cl_code :: bytes
  cl_creatorToken :: bytes
  cl_up :: bool
  cl_gen :: u64
  cl_attachedGen :: u64
  cl_haveState :: bool
  cl_lastSeq :: u32
  cl_endReason :: byte

record client_config =
  cc_id :: bytes
  cc_token :: bytes
  cc_label :: bytes

datatype client_effect =
    CbRoomCreated bytes bytes
  | CbRoomState RoomState
  | CbRoomEvent RoomEvent
  | CbRejected byte byte bytes
  | CbBadAttach wire_error
  | CbRoomEnded byte
  | CbFailed u32
  | SendRecord bytes

definition newRoomClient :: "roomMode \<Rightarrow> bytes \<Rightarrow> roomClient" where
  "newRoomClient mode code = \<lparr>cl_mode = mode, cl_code = code, cl_creatorToken = [], cl_up = False,
     cl_gen = 0, cl_attachedGen = 0, cl_haveState = False, cl_lastSeq = 0, cl_endReason = 0\<rparr>"

text \<open>\<open>ok\<close>: whether the write succeeds.  The result is whether there was no error.\<close>

definition client_send :: "bytes \<Rightarrow> bool \<Rightarrow> roomClient \<Rightarrow> bool \<times> client_effect list" where
  "client_send msg ok c =
     (if \<not> cl_up c then (False, [])
      else (case AppendRoomRecord [] msg of Inl _ \<Rightarrow> (False, []) | Inr rec \<Rightarrow> (ok, [SendRecord rec])))"

definition attach_command :: "client_config \<Rightarrow> bytes \<Rightarrow> RoomCommand" where
  "attach_command cfg raw = zero_command\<lparr>rc_Kind := RoomCommandAttach, rc_BroadcastID := cc_id cfg,
     rc_ResumeToken := raw, rc_Label := cc_label cfg\<rparr>"

definition maybeAttach :: "client_config \<Rightarrow> bool \<Rightarrow> roomClient \<Rightarrow> roomClient \<times> client_effect list" where
  "maybeAttach cfg ok c =
     (if \<not> cl_up c \<or> \<not> cl_haveState c \<or> cl_attachedGen c = cl_gen c then (c, [])
      else if cc_id cfg = [] \<or> cc_token cfg = [] then (c, [])
      else (case unhex_pairs (cc_token cfg) of
          None \<Rightarrow> (c, [])
        | Some raw \<Rightarrow>
            if length raw \<noteq> ResumeTokenSize then (c, [])
            else (let c = c\<lparr>cl_attachedGen := cl_gen c\<rparr> in
              case AppendRoomCommand [] (attach_command cfg raw) of
                Inl e \<Rightarrow> (c, [CbBadAttach e])
              | Inr msg \<Rightarrow>
                  (let (sent, es) = client_send msg ok c in
                   (if sent then c else c\<lparr>cl_attachedGen := 0\<rparr>, es)))))"

definition onState :: "client_config \<Rightarrow> bool \<Rightarrow> RoomState \<Rightarrow> roomClient \<Rightarrow> roomClient \<times> client_effect list" where
  "onState cfg ok st c =
     (let created = (cl_mode c = roomModeNew \<and> length (rs_CreatorToken st) = RoomCreatorTokenSize);
          c = c\<lparr>cl_lastSeq := rs_Seq st, cl_haveState := True, cl_code := rs_Code st,
                cl_mode := roomModeJoin,
                cl_creatorToken := (if created then hex_encode (rs_CreatorToken st) else cl_creatorToken c)\<rparr>;
          (c', es) = maybeAttach cfg ok c in
      (c', (if created then [CbRoomCreated (rs_Code st) (cl_creatorToken c)] else []) @ [CbRoomState st] @ es))"

definition resync_message :: "bytes result" where
  "resync_message = AppendRoomCommand [] (zero_command\<lparr>rc_Kind := RoomCommandResync\<rparr>)"

definition event_gap :: "roomClient \<Rightarrow> RoomEvent \<Rightarrow> bool" where
  "event_gap c ev \<longleftrightarrow> re_Seq ev > cl_lastSeq c + 1"

definition onEvent :: "bool \<Rightarrow> RoomEvent \<Rightarrow> bool \<Rightarrow> roomClient \<Rightarrow> roomClient \<times> client_effect list" where
  "onEvent ok ev unknown c =
     (let gap = event_gap c ev;
          c = c\<lparr>cl_lastSeq := (if re_Seq ev > cl_lastSeq c then re_Seq ev else cl_lastSeq c),
                cl_endReason := (if re_Kind ev = RoomEventRoomEnding then re_Reason ev else cl_endReason c)\<rparr> in
      (c, (if gap then (case resync_message of Inl _ \<Rightarrow> [] | Inr msg \<Rightarrow> snd (client_send msg ok c)) else [])
        @ (if unknown then []
           else (if re_Kind ev = RoomEventCommandRejected
                 then [CbRejected (re_Command ev) (re_Reason ev) (re_Message ev)] else [])
                @ [CbRoomEvent ev])))"

text \<open>
  One record of the stream, already split off by \<^verbatim>\<open>readRoomRecord\<close> and so at least two
  bytes long.  Records that do not parse are only logged.
\<close>

definition client_handle :: "client_config \<Rightarrow> bool \<Rightarrow> bytes \<Rightarrow> roomClient \<Rightarrow> roomClient \<times> client_effect list" where
  "client_handle cfg ok rec c =
     (if rec ! 1 = TypeRoomState then
        (case ParseRoomState rec of Inl _ \<Rightarrow> (c, []) | Inr st \<Rightarrow> onState cfg ok st c)
      else if rec ! 1 = TypeRoomEvent then
        (case ParseRoomEvent rec of
           (ev, None) \<Rightarrow> onEvent ok ev False c
         | (ev, Some e) \<Rightarrow> if e = ErrUnknownRoomKind then onEvent ok ev True c else (c, []))
      else (c, []))"

subsection \<open>The life of the client\<close>

definition serve_begins :: "roomClient \<Rightarrow> roomClient" where
  "serve_begins c = c\<lparr>cl_up := True, cl_gen := cl_gen c + 1, cl_haveState := False\<rparr>"

definition serve_ends :: "roomClient \<Rightarrow> roomClient" where
  "serve_ends c = c\<lparr>cl_up := False\<rparr>"

lemma readRoomRecord_shrinks:
  assumes "readRoomRecord s = Inr (rec, rest)"
  shows "length rest < length s" "2 \<le> length rec"
  using room_stream.split_inverts [OF assms] by (auto simp: AppendRoomRecord_Inr be16_def)

text \<open>
  The loop of \<^verbatim>\<open>serve\<close> over what the stream delivers.  \<open>env n\<close> is the configuration, and
  whether a write succeeds, at the moment \<open>n\<close> bytes are unread.
\<close>

function client_serve ::
  "(nat \<Rightarrow> client_config \<times> bool) \<Rightarrow> bytes \<Rightarrow> roomClient \<Rightarrow> (roomClient \<times> client_effect list) \<times> wire_error" where
  "client_serve env s c =
     (case readRoomRecord s of
        Inl e \<Rightarrow> ((c, []), e)
      | Inr (rec, rest) \<Rightarrow>
          (let (cfg, ok) = env (length rest);
               (c, es) = client_handle cfg ok rec c;
               ((c, es'), e) = client_serve env rest c in
           ((c, es @ es'), e)))"
  by pat_completeness auto
termination by (relation "measure (\<lambda>(env, s, c). length s)") (auto simp: readRoomRecord_shrinks)

declare client_serve.simps [simp del]

definition credentialsChanged :: "client_config \<Rightarrow> bool \<Rightarrow> roomClient \<Rightarrow> roomClient \<times> client_effect list" where
  "credentialsChanged cfg ok c = maybeAttach cfg ok c"

definition client_reattach :: "client_config \<Rightarrow> bool \<Rightarrow> roomClient \<Rightarrow> roomClient \<times> client_effect list" where
  "client_reattach cfg ok c = maybeAttach cfg ok (c\<lparr>cl_gen := cl_gen c + 1\<rparr>)"

definition client_ended :: "u32 option \<Rightarrow> roomClient \<Rightarrow> bool \<times> client_effect list" where
  \<comment> \<open>\<^verbatim>\<open>ended\<close>: the close code of the session, if it had one; whether the client is done\<close>
  "client_ended code c =
     (case code of
        None \<Rightarrow> (False, [])
      | Some k \<Rightarrow>
          if k = 4007 \<or> k = 404 then (True, [CbRoomEnded (cl_endReason c)])
          else if k = 400 then (True, [CbFailed k])
          else (False, []))"

definition roomDialTerminal :: "int \<Rightarrow> bool" where
  "roomDialTerminal status \<longleftrightarrow> status = 403 \<or> status = 404 \<or> status = 409 \<or> status = 451"

fun truncateBytes_from :: "bytes \<Rightarrow> nat \<Rightarrow> nat" where
  "truncateBytes_from s 0 = 0"
| "truncateBytes_from s (Suc n) = (if (s ! Suc n) AND 0xC0 = 0x80 then truncateBytes_from s n else Suc n)"

definition truncateBytes :: "bytes \<Rightarrow> nat \<Rightarrow> bytes" where
  "truncateBytes s n = (if length s \<le> n then s else take (truncateBytes_from s n) s)"

subsection \<open>Facts\<close>

text \<open>An attach command goes out at most once per connection or resume.\<close>

lemma maybeAttach_keeps:
  "cl_gen (fst (maybeAttach cfg ok c)) = cl_gen c" "cl_lastSeq (fst (maybeAttach cfg ok c)) = cl_lastSeq c"
  "cl_haveState (fst (maybeAttach cfg ok c)) = cl_haveState c" "cl_up (fst (maybeAttach cfg ok c)) = cl_up c"
  "cl_code (fst (maybeAttach cfg ok c)) = cl_code c"
  by (simp_all add: maybeAttach_def client_send_def Let_def split: option.split sum.split)

lemma onState_seq [simp]: "cl_lastSeq (fst (onState cfg ok st c)) = rs_Seq st"
  by (simp add: onState_def Let_def case_prod_unfold maybeAttach_keeps)

lemma onEvent_seq: "cl_lastSeq (fst (onEvent ok ev unknown c)) = max (cl_lastSeq c) (re_Seq ev)"
  by (auto simp: onEvent_def Let_def max_def)

lemma resync_message_ok: "\<exists>msg. resync_message = Inr msg"
  by (simp add: resync_message_def AppendRoomCommand_def zero_command_def command_kind_defs)

lemma maybeAttach_sends:
  assumes "SendRecord rec \<in> set (snd (maybeAttach cfg ok c))"
  shows "cl_up c" "cl_haveState c" "cl_attachedGen c \<noteq> cl_gen c"
    "cl_attachedGen (fst (maybeAttach cfg ok c)) = (if ok then cl_gen c else 0)"
  using assms
  by (auto simp: maybeAttach_def client_send_def Let_def split: if_splits option.splits sum.splits)

lemma maybeAttach_quiet: "\<not> cl_up c \<Longrightarrow> maybeAttach cfg ok c = (c, [])"
  by (simp add: maybeAttach_def)

text \<open>A resync request, and that no attach command is one.\<close>

definition is_resync :: "client_effect \<Rightarrow> bool" where
  "is_resync e \<longleftrightarrow> (case e of
     SendRecord rec \<Rightarrow> (case resync_message of Inl _ \<Rightarrow> False | Inr msg \<Rightarrow> AppendRoomRecord [] msg = Inr rec)
   | _ \<Rightarrow> False)"

lemma AppendRoomCommand_kind: "AppendRoomCommand [] c = Inr m \<Longrightarrow> m ! 2 = rc_Kind c"
  by (auto simp: AppendRoomCommand_def appendBroadcastID_eq appendStr8_eq rbind_Inr_iff Let_def split: if_splits)

lemma maybeAttach_no_resync: "e \<in> set (snd (maybeAttach cfg ok c)) \<Longrightarrow> \<not> is_resync e"
proof
  assume e: "e \<in> set (snd (maybeAttach cfg ok c))" and r: "is_resync e"
  obtain raw msg rec where a: "AppendRoomCommand [] (attach_command cfg raw) = Inr msg" "AppendRoomRecord [] msg = Inr rec" "e = SendRecord rec"
    using e r by (auto simp: maybeAttach_def client_send_def is_resync_def Let_def split: if_splits option.splits sum.splits)
  obtain msg' where b: "AppendRoomCommand [] (zero_command\<lparr>rc_Kind := RoomCommandResync\<rparr>) = Inr msg'" "AppendRoomRecord [] msg' = Inr rec"
    using r a(3) by (auto simp: is_resync_def resync_message_def split: sum.splits)
  have "msg = msg'"
    using room_stream.split_frame [OF a(2), of "[]"] room_stream.split_frame [OF b(2), of "[]"] by simp
  then show False
    using AppendRoomCommand_kind [OF a(1)] AppendRoomCommand_kind [OF b(1)] by (simp add: attach_command_def command_kind_defs)
qed

lemma onState_no_resync: "e \<in> set (snd (onState cfg ok st c)) \<Longrightarrow> \<not> is_resync e"
  using maybeAttach_no_resync
  by (auto simp: onState_def Let_def case_prod_unfold is_resync_def split: if_splits)

lemma onEvent_no_resync: "\<not> event_gap c ev \<Longrightarrow> e \<in> set (snd (onEvent ok ev unknown c)) \<Longrightarrow> \<not> is_resync e"
  by (auto simp: onEvent_def Let_def is_resync_def split: if_splits)

end
