(* ===== verification/RoomFeed.thy ===== *)
theory RoomFeed
  imports RoomMachine RoomClient
begin

section \<open>What the participants of a room are told\<close>

text \<open>
  The stream of records each control session gets: the records its writer has put on the
  connection (\<open>delivered\<close>, read off the effects of a run) and the ones still queued.  A reader
  of the stream starts at a snapshot and applies the events, as the protocol describes it
  (docs/44, 4.6); \<open>follow\<close> accepts a stream only if every record parses and every event has
  the next sequence number, or the same one for a rejected command.
\<close>

subsection \<open>Runs\<close>

inductive room_run :: "RoomRegistry \<Rightarrow> room_effect list \<Rightarrow> bool" where
  run_init: "room_run (NewRoomRegistry opts tokens) []"
| run_act: "room_run r es \<Longrightarrow> room_act r (r', es') \<Longrightarrow> room_run r' (es @ es')"

definition delivered :: "nat \<Rightarrow> room_effect list \<Rightarrow> bytes list" where
  "delivered p es = concat (map (\<lambda>e. case e of
     WriteRecord q rec ok \<Rightarrow> if q = p \<and> ok then [rec] else [] | _ \<Rightarrow> []) es)"

lemma delivered_append [simp]: "delivered p (es @ es') = delivered p es @ delivered p es'"
  by (simp add: delivered_def)

lemma delivered_Nil [simp]: "delivered p [] = []"
  by (simp add: delivered_def)

lemma delivered_Cons [simp]:
  "delivered p (e # es) = (case e of WriteRecord q rec ok \<Rightarrow> if q = p \<and> ok then [rec] else [] | _ \<Rightarrow> []) @ delivered p es"
  by (simp add: delivered_def)

text \<open>The records the writer will still write: those before a \<^verbatim>\<open>nil\<close>.\<close>

fun queued :: "bytes option list \<Rightarrow> bytes list" where
  "queued [] = []"
| "queued (None # q) = []"
| "queued (Some rec # q) = rec # queued q"

lemma queued_append: "queued (q @ q') = (if None \<in> set q then queued q else queued q @ queued q')"
  by (induction q rule: queued.induct) auto

lemma room_run_reachable: "room_run r es \<Longrightarrow> room_reachable r"
proof (induction rule: room_run.induct)
  case (run_act r es r' es')
  then show ?case using room_reachable_step by (auto simp: room_step_def)
qed (rule room_reachable_init)

subsection \<open>A reader of the stream\<close>

type_synonym view = "RoomAttachment list \<times> (u16 \<Rightarrow> RoomParticipant option)"

text \<open>
  A roster entry without its streaming flag: the registry does not announce every change of
  that flag (a tile that passes to another owner, a tile dropped as a room turns into a
  wall).
\<close>

definition bare :: "RoomParticipant \<Rightarrow> RoomParticipant" where
  "bare p = p\<lparr>rp_Flags := 0\<rparr>"

definition apply_event :: "RoomEvent \<Rightarrow> view \<Rightarrow> view" where
  "apply_event ev v =
     (let (tiles, people) = v; p = re_Participant ev; a = re_Attachment ev; k = re_Kind ev in
      if k = RoomEventParticipantJoined \<or> k = RoomEventParticipantUpdated then (tiles, people(rp_ID p := Some (bare p)))
      else if k = RoomEventParticipantLeft then (tiles, people(rp_ID p := None))
      else if k = RoomEventAttachmentAdded then (tiles @ [a], people)
      else if k = RoomEventAttachmentUpdated
        then (map (\<lambda>x. if ra_BroadcastID x = ra_BroadcastID a then a else x) tiles, people)
      else if k = RoomEventAttachmentRemoved
        then (filter (\<lambda>x. ra_BroadcastID x \<noteq> ra_BroadcastID a) tiles, people)
      else (tiles, people))"

definition view_of_state :: "RoomState \<Rightarrow> view" where
  "view_of_state st = (rs_Attachments st, map_of (map (\<lambda>p. (rp_ID p, bare p)) (rs_Participants st)))"

text \<open>The position in the stream: the last sequence number and the view; nothing before a snapshot.\<close>

type_synonym position = "(u32 \<times> view) option"

definition follow_event :: "RoomEvent \<Rightarrow> position \<Rightarrow> position option" where
  "follow_event ev s =
     (case s of
        None \<Rightarrow> None
      | Some (sq, v) \<Rightarrow>
          if re_Kind ev = RoomEventCommandRejected
          then (if re_Seq ev = sq then Some (Some (sq, v)) else None)
          else if re_Seq ev = sq + 1 then Some (Some (re_Seq ev, apply_event ev v))
          else None)"

definition follow_record :: "bytes \<Rightarrow> position \<Rightarrow> position option" where
  "follow_record rec s =
     (case readRoomRecord rec of
        Inr (msg, []) \<Rightarrow>
          if msg ! 1 = TypeRoomState
          then (case ParseRoomState msg of Inl _ \<Rightarrow> None | Inr st \<Rightarrow> Some (Some (rs_Seq st, view_of_state st)))
          else if msg ! 1 = TypeRoomEvent
          then (case ParseRoomEvent msg of (ev, None) \<Rightarrow> follow_event ev s | _ \<Rightarrow> None)
          else None
      | _ \<Rightarrow> None)"

fun follow :: "bytes list \<Rightarrow> position \<Rightarrow> position option" where
  "follow [] s = Some s"
| "follow (rec # recs) s = (case follow_record rec s of None \<Rightarrow> None | Some s' \<Rightarrow> follow recs s')"

lemma follow_append: "follow (xs @ ys) s = (case follow xs s of None \<Rightarrow> None | Some s' \<Rightarrow> follow ys s')"
  by (induction xs arbitrary: s) (auto split: option.split)

subsection \<open>Events on the wire\<close>

definition plain_event :: "RoomEvent \<Rightarrow> bool" where
  "plain_event ev \<longleftrightarrow> event_payload_ok ev \<and> event_normal ev
     \<and> re_Kind ev \<noteq> RoomEventVoiceTicket \<and> re_Kind ev \<noteq> RoomEventVoiceRosterUpdated"

lemma plain_event_encodes:
  assumes "plain_event ev"
  shows "\<exists>msg. AppendRoomEvent [] ev = Inr msg \<and> msg ! 1 = TypeRoomEvent \<and> 7 \<le> length msg \<and> length msg \<le> 400"
proof -
  have ok: "event_payload_ok ev" using assms by (simp add: plain_event_def)
  have str: "length (enc_str8 s) \<le> 1 + lim" if "str_ok lim s" for s lim
    using that by (simp add: enc_str8_def str_ok_def)
  have id: "length (enc_str8 (ToUpper i)) = 7" if "valid_id (ToUpper i)" for i
    using that by (simp add: enc_str8_def valid_id_def Length_def)
  have "length (enc_event_payload ev) \<le> 393"
    using event_payload_ok_kind [OF ok] assms unfolding known_event_def plain_event_def
    by (elim disjE)
      (auto simp: event_payload_ok_def enc_event_payload_def Let_def event_kind_defs participant_ok_def
        attachment_ok_def enc_participant_def enc_attachment_def room_size_defs
        dest!: str id)
  then show ?thesis
    using ok by (auto simp: AppendRoomEvent_Inr room_size_defs)
qed

lemma framed_record:
  assumes "AppendRoomRecord [] msg = Inr rec"
  shows "readRoomRecord rec = Inr (msg, [])"
  using room_stream.split_frame [OF assms, of "[]"] by simp

lemma framed_event:
  assumes "plain_event ev" "AppendRoomEvent [] ev = Inr msg"
  shows "\<exists>rec. frame msg = Some rec \<and> readRoomRecord rec = Inr (msg, []) \<and> msg ! 1 = TypeRoomEvent
    \<and> ParseRoomEvent msg = (event_view ev, None)"
proof -
  have n: "event_normal ev" and len: "2 \<le> length msg" "length msg \<le> MaxRoomRecordSize" "msg ! 1 = TypeRoomEvent"
    using plain_event_encodes [OF assms(1)] assms by (auto simp: plain_event_def room_size_defs)
  then obtain rec where rec: "AppendRoomRecord [] msg = Inr rec" by (simp add: AppendRoomRecord_Inr)
  then show ?thesis
    using framed_record [OF rec] len(3) event_roundtrip [OF assms(2) n] by (simp add: frame_def)
qed

lemma event_view_fields: "re_Seq (event_view ev) = re_Seq ev" "re_Kind (event_view ev) = re_Kind ev"
  by (simp_all add: event_view_def Let_def zero_event_def)

lemma apply_event_view: "known_event (re_Kind ev) \<Longrightarrow> apply_event (event_view ev) v = apply_event ev v"
  unfolding known_event_def
  by (elim disjE) (simp_all add: apply_event_def event_view_def Let_def event_kind_defs zero_event_def
      zero_participant_def zero_attachment_def case_prod_unfold)

text \<open>An event that is next in the stream is followed.\<close>

lemma follow_event_record:
  assumes "plain_event ev" "AppendRoomEvent [] ev = Inr msg" "frame msg = Some rec"
  shows "follow_record rec s = follow_event (event_view ev) s"
  using framed_event [OF assms(1,2)] assms(3)
  by (auto simp: follow_record_def TypeRoomState_def TypeRoomEvent_def)

lemma follow_next:
  assumes "plain_event ev" "AppendRoomEvent [] ev = Inr msg" "frame msg = Some rec"
    and "re_Kind ev \<noteq> RoomEventCommandRejected" "re_Seq ev = sq + 1"
  shows "follow_record rec (Some (sq, v)) = Some (Some (re_Seq ev, apply_event ev v))"
proof -
  have "known_event (re_Kind ev)" using assms(1) event_payload_ok_kind by (simp add: plain_event_def)
  then show ?thesis
    using assms by (simp add: follow_event_record follow_event_def event_view_fields apply_event_view)
qed

lemma follow_reject:
  assumes "plain_event ev" "AppendRoomEvent [] ev = Inr msg" "frame msg = Some rec"
    and "re_Kind ev = RoomEventCommandRejected" "re_Seq ev = sq"
  shows "follow_record rec (Some (sq, v)) = Some (Some (sq, v))"
  using assms by (simp add: follow_event_record follow_event_def event_view_fields)

lemma follow_state:
  assumes "AppendRoomState [] st = Inr msg" "\<forall>a \<in> set (rs_Attachments st). attachment_normal a" "frame msg = Some rec"
  shows "follow_record rec s = Some (Some (rs_Seq st, view_of_state st))"
proof -
  have rec: "AppendRoomRecord [] msg = Inr rec" using assms(3) by (simp add: frame_def split: sum.splits)
  have "msg ! 1 = TypeRoomState" using assms(1) by (auto simp: AppendRoomState_eq split: if_splits)
  then show ?thesis
    using framed_record [OF rec] RoomState.roundtrip [OF assms(2,1)] by (simp add: follow_record_def)
qed

subsection \<open>Queueing, session by session\<close>

definition enqueue_sess :: "bytes option \<Rightarrow> RoomSession \<Rightarrow> RoomSession" where
  "enqueue_sess rec s =
     (if length (pt_outbox s) < outboxDepth then s\<lparr>pt_outbox := pt_outbox s @ [rec]\<rparr>
      else s\<lparr>pt_leaveReason := Some LeftTimeout\<rparr>)"

lemma enqueue_fst: "fst (room_enqueueLocked rec p r) = upd_sess p (enqueue_sess rec) r"
  by (simp add: room_enqueueLocked_def upd_sess_def enqueue_sess_def)

lemma enqueue_delivers [simp]: "delivered q (snd (room_enqueueLocked rec p r)) = []"
  by (simp add: room_enqueueLocked_def)

lemma enqueue_all_room [simp]:
  "rg_room (fst (do_all (room_enqueueLocked rec) ps r)) = rg_room r"
  "rg_nextSess (fst (do_all (room_enqueueLocked rec) ps r)) = rg_nextSess r"
  by (induction ps arbitrary: r) (simp_all add: enqueue_fst)

lemma enqueue_all_sess:
  "distinct ps \<Longrightarrow> rg_sess (fst (do_all (room_enqueueLocked rec) ps r)) p =
     (if p \<in> set ps then enqueue_sess rec (rg_sess r p) else rg_sess r p)"
  by (induction ps arbitrary: r) (auto simp: enqueue_fst)

lemma enqueue_all_delivers [simp]: "delivered q (snd (do_all (room_enqueueLocked rec) ps r)) = []"
  by (induction ps arbitrary: r) simp_all

lemma bus_delivers [simp]: "delivered q (busEventLocked rm ev now) = []"
  by (simp add: busEventLocked_def Let_def)

lemma broadcast_delivers [simp]: "delivered q (snd (broadcastLocked m ev skip now r)) = []"
  by (simp add: broadcastLocked_def Let_def split: sum.split)

text \<open>A broadcast of an event that encodes.\<close>

lemma broadcast_room:
  "rg_room (fst (broadcastLocked m ev skip now r)) m' =
     (if m' = m then (rg_room r m)\<lparr>rm_seq := rm_seq (rg_room r m) + 1\<rparr> else rg_room r m')"
  "rg_nextSess (fst (broadcastLocked m ev skip now r)) = rg_nextSess r"
  by (simp_all add: broadcastLocked_def Let_def split: sum.split)

lemma broadcast_sess:
  assumes "AppendRoomEvent [] (ev\<lparr>re_Seq := rm_seq (rg_room r m) + 1\<rparr>) = Inr msg"
    and "distinct (map snd (rm_participants (rg_room r m)))"
  shows "rg_sess (fst (broadcastLocked m ev skip now r)) p =
    (if p \<in> set (members_but skip (rg_room r m)) then enqueue_sess (frame msg) (rg_sess r p) else rg_sess r p)"
proof -
  have "distinct (members_but skip rm)" if "distinct (map snd (rm_participants rm))" for rm
    using that unfolding members_but_def by (simp add: distinct_map_filter)
  moreover have "members_but skip (rg_room (upd_room m (\<lambda>rm. rm\<lparr>rm_seq := rm_seq rm + 1\<rparr>) r) m) = members_but skip (rg_room r m)"
    by (simp add: members_but_def)
  ultimately show ?thesis
    using assms by (simp add: broadcastLocked_def Let_def enqueue_all_sess)
qed

lemma members_iff: "p \<in> set (members_but skip rm) \<longleftrightarrow> (\<exists>i. (i, p) \<in> set (rm_participants rm) \<and> i \<noteq> skip)"
  by (force simp: members_but_def)

lemma seats_okD:
  assumes "seats_ok r" "(i, p) \<in> set (rm_participants (rg_room r m))"
  shows "p < rg_nextSess r" "pt_room (rg_sess r p) = m" "pt_id (rg_sess r p) = i" "i \<noteq> 0"
    "pt_kind (rg_sess r p) \<le> roomClientKindMax" "str_ok MaxRoomNicknameLen (pt_nick (rg_sess r p))"
    "pt_identity (rg_sess r p) = []" "map_of (rm_participants (rg_room r m)) i = Some p"
proof -
  have "distinct (map fst (rm_participants (rg_room r m)))" using assms(1) by (simp add: seats_ok_def)
  then show "map_of (rm_participants (rg_room r m)) i = Some p" using assms(2) by simp
  have "i \<noteq> 0 \<and> p < rg_nextSess r \<and> pt_room (rg_sess r p) = m \<and> pt_id (rg_sess r p) = i
      \<and> \<not> pt_closed (rg_sess r p) \<and> pt_kind (rg_sess r p) \<le> roomClientKindMax
      \<and> str_ok MaxRoomNicknameLen (pt_nick (rg_sess r p)) \<and> pt_identity (rg_sess r p) = []"
    using assms unfolding seats_ok_def by blast
  then show "p < rg_nextSess r" "pt_room (rg_sess r p) = m" "pt_id (rg_sess r p) = i" "i \<noteq> 0"
    "pt_kind (rg_sess r p) \<le> roomClientKindMax" "str_ok MaxRoomNicknameLen (pt_nick (rg_sess r p))"
    "pt_identity (rg_sess r p) = []" by simp_all
qed

lemma members_distinct:
  assumes "seats_ok r"
  shows "distinct (map snd (rm_participants (rg_room r m)))"
proof -
  have "inj_on snd (set (rm_participants (rg_room r m)))"
    using seats_okD(3) [OF assms, of _ _ m] by (auto simp: inj_on_def) metis
  moreover have "distinct (rm_participants (rg_room r m))"
    using assms by (simp add: seats_ok_def distinct_map)
  ultimately show ?thesis by (simp add: distinct_map)
qed

subsection \<open>What every session has been told\<close>

text \<open>
  \<open>told E V r es\<close>: the stream of every session that has not been evicted can be followed,
  and takes a member of a room (one not in \<open>E\<close>) to the room's sequence number and to the
  view \<open>V\<close> of it.  Within an operation the view announced so far is not yet that of the
  registry, so \<open>V\<close> is an argument; between operations it is \<open>view_of r\<close>.
\<close>

definition sent_records :: "RoomRegistry \<Rightarrow> room_effect list \<Rightarrow> nat \<Rightarrow> bytes list" where
  "sent_records r es p = delivered p es @ (if pt_writing (rg_sess r p) then queued (pt_outbox (rg_sess r p)) else [])"

definition current :: "RoomRegistry \<Rightarrow> nat \<Rightarrow> bool" where
  "current r p \<longleftrightarrow> pt_writing (rg_sess r p) \<and> None \<notin> set (pt_outbox (rg_sess r p))"

definition evicted_sess :: "RoomRegistry \<Rightarrow> nat \<Rightarrow> bool" where
  "evicted_sess r p \<longleftrightarrow> pt_leaveReason (rg_sess r p) = Some LeftTimeout"

definition told :: "nat set \<Rightarrow> (nat \<Rightarrow> view) \<Rightarrow> RoomRegistry \<Rightarrow> room_effect list \<Rightarrow> bool" where
  "told E V r es \<longleftrightarrow> (\<forall>p \<ge> rg_nextSess r. delivered p es = []) \<and>
     (\<forall>p < rg_nextSess r. \<not> evicted_sess r p \<longrightarrow>
        (\<exists>pos. follow (sent_records r es p) None = Some pos \<and>
          (\<forall>m i. (i, p) \<in> set (rm_participants (rg_room r m)) \<longrightarrow> p \<notin> E \<longrightarrow> current r p \<longrightarrow>
             pos = Some (rm_seq (rg_room r m), V m))))"

lemma toldI:
  assumes "\<And>p. rg_nextSess r \<le> p \<Longrightarrow> delivered p es = []"
    and "\<And>p. p < rg_nextSess r \<Longrightarrow> \<not> evicted_sess r p \<Longrightarrow>
        (\<exists>pos. follow (sent_records r es p) None = Some pos \<and>
          (\<forall>m i. (i, p) \<in> set (rm_participants (rg_room r m)) \<longrightarrow> p \<notin> E \<longrightarrow> current r p \<longrightarrow>
             pos = Some (rm_seq (rg_room r m), V m)))"
  shows "told E V r es"
  using assms by (simp add: told_def)

lemma toldD:
  assumes "told E V r es"
  shows "rg_nextSess r \<le> p \<Longrightarrow> delivered p es = []"
    and "p < rg_nextSess r \<Longrightarrow> \<not> evicted_sess r p \<Longrightarrow>
        (\<exists>pos. follow (sent_records r es p) None = Some pos \<and>
          (\<forall>m i. (i, p) \<in> set (rm_participants (rg_room r m)) \<longrightarrow> p \<notin> E \<longrightarrow> current r p \<longrightarrow>
             pos = Some (rm_seq (rg_room r m), V m)))"
  using assms unfolding told_def by blast+

text \<open>Steps that change neither queues nor rosters, up to rooms nobody is in.\<close>

definition same_feed :: "RoomRegistry \<Rightarrow> RoomRegistry \<Rightarrow> bool" where
  "same_feed r r' \<longleftrightarrow> rg_nextSess r' = rg_nextSess r
     \<and> (\<forall>p. pt_outbox (rg_sess r' p) = pt_outbox (rg_sess r p) \<and> pt_writing (rg_sess r' p) = pt_writing (rg_sess r p)
          \<and> pt_leaveReason (rg_sess r' p) = pt_leaveReason (rg_sess r p))
     \<and> (\<forall>m. rm_participants (rg_room r' m) = rm_participants (rg_room r m)
          \<and> (rm_participants (rg_room r m) \<noteq> [] \<longrightarrow> rm_seq (rg_room r' m) = rm_seq (rg_room r m)))"

lemma told_same:
  assumes t: "told E V r es" and s: "same_feed r r'" and d: "\<And>p. delivered p es' = []"
    and v: "\<And>m. rm_participants (rg_room r m) \<noteq> [] \<Longrightarrow> V' m = V m" and e: "E \<subseteq> E'"
  shows "told E' V' r' (es @ es')"
proof (rule toldI)
  fix p
  show "delivered p (es @ es') = []" if "rg_nextSess r' \<le> p"
    using that toldD(1) [OF t] s d by (simp add: same_feed_def)
  assume p: "p < rg_nextSess r'" "\<not> evicted_sess r' p"
  then obtain pos where pos: "follow (sent_records r es p) None = Some pos"
    "\<And>m i. (i, p) \<in> set (rm_participants (rg_room r m)) \<Longrightarrow> p \<notin> E \<Longrightarrow> current r p \<Longrightarrow>
       pos = Some (rm_seq (rg_room r m), V m)"
    using toldD(2) [OF t, of p] s by (auto simp: same_feed_def evicted_sess_def)
  have "sent_records r' (es @ es') p = sent_records r es p" "current r' p = current r p"
    using s d by (simp_all add: sent_records_def current_def same_feed_def)
  moreover have "pos = Some (rm_seq (rg_room r' m), V' m)"
    if i: "(i, p) \<in> set (rm_participants (rg_room r' m))" and out: "p \<notin> E'" and cur: "current r p" for m i
  proof -
    have i: "(i, p) \<in> set (rm_participants (rg_room r m))" using i s by (simp add: same_feed_def)
    then have "rm_participants (rg_room r m) \<noteq> []" by auto
    moreover have "p \<notin> E" using out e by blast
    ultimately show ?thesis using pos(2) [OF i _ cur] s v by (simp add: same_feed_def)
  qed
  ultimately show "\<exists>pos. follow (sent_records r' (es @ es') p) None = Some pos \<and>
      (\<forall>m i. (i, p) \<in> set (rm_participants (rg_room r' m)) \<longrightarrow> p \<notin> E' \<longrightarrow> current r' p \<longrightarrow>
         pos = Some (rm_seq (rg_room r' m), V' m))"
    using pos(1) by auto
qed

lemma stream_enqueue:
  assumes "rg_sess r' p = enqueue_sess rec (rg_sess r p)" "\<not> evicted_sess r' p"
  shows "sent_records r' es p = sent_records r es p @ (case rec of None \<Rightarrow> [] | Some x \<Rightarrow> if current r p then [x] else [])"
    "current r' p \<longleftrightarrow> current r p \<and> rec \<noteq> None" "\<not> evicted_sess r p"
  using assms
  by (cases rec; auto simp: sent_records_def current_def evicted_sess_def enqueue_sess_def queued_append split: if_splits)+

text \<open>An event told to the members of a room.\<close>

lemma told_broadcast:
  assumes inv: "seats_ok r" and t: "told E V r es"
    and ev: "plain_event (ev\<lparr>re_Seq := rm_seq (rg_room r m) + 1\<rparr>)" "re_Kind ev \<noteq> RoomEventCommandRejected"
    and E: "\<And>p. p \<in> set (members_but skip (rg_room r m)) \<Longrightarrow> p \<notin> E"
      "\<And>p. (skip, p) \<in> set (rm_participants (rg_room r m)) \<Longrightarrow> p \<in> E"
  shows "told E (V(m := apply_event ev (V m))) (fst (broadcastLocked m ev skip now r))
      (es @ snd (broadcastLocked m ev skip now r))"
proof (rule toldI)
  let ?r = "fst (broadcastLocked m ev skip now r)" and ?es = "es @ snd (broadcastLocked m ev skip now r)"
  let ?ev = "ev\<lparr>re_Seq := rm_seq (rg_room r m) + 1\<rparr>"
  obtain msg where msg: "AppendRoomEvent [] ?ev = Inr msg" using plain_event_encodes [OF ev(1)] by blast
  obtain rec where rec: "frame msg = Some rec" using framed_event [OF ev(1) msg] by blast
  note sess = broadcast_sess [OF msg members_distinct [OF inv], of skip now, unfolded rec]
  fix p
  show "delivered p ?es = []" if "rg_nextSess ?r \<le> p"
    using that toldD(1) [OF t] by (simp add: broadcast_room)
  assume p: "p < rg_nextSess ?r" "\<not> evicted_sess ?r p"
  have parts: "rm_participants (rg_room ?r m') = rm_participants (rg_room r m')" for m' by (simp add: broadcast_room)
  have one: "m' = m''" if "(i, p) \<in> set (rm_participants (rg_room r m'))" "(j, p) \<in> set (rm_participants (rg_room r m''))"
    for i j m' m'' using seats_okD(2) [OF inv that(1)] seats_okD(2) [OF inv that(2)] by simp
  show "\<exists>pos. follow (sent_records ?r ?es p) None = Some pos \<and>
      (\<forall>m' i. (i, p) \<in> set (rm_participants (rg_room ?r m')) \<longrightarrow> p \<notin> E \<longrightarrow> current ?r p \<longrightarrow>
         pos = Some (rm_seq (rg_room ?r m'), (V(m := apply_event ev (V m))) m'))"
  proof (cases "p \<in> set (members_but skip (rg_room r m))")
    case True
    then have s: "rg_sess ?r p = enqueue_sess (Some rec) (rg_sess r p)" by (simp add: sess)
    note q = stream_enqueue [OF s p(2)]
    obtain i where i: "(i, p) \<in> set (rm_participants (rg_room r m))" using True by (auto simp: members_iff)
    obtain pos where pos: "follow (sent_records r es p) None = Some pos"
      "current r p \<Longrightarrow> pos = Some (rm_seq (rg_room r m), V m)"
      using toldD(2) [OF t, of p] p q(3) i E(1) [OF True] by (auto simp: broadcast_room)
    have st: "sent_records ?r ?es p = sent_records r es p @ (if current r p then [rec] else [])"
      using q(1) [of es] by (simp add: sent_records_def)
    show ?thesis
    proof (cases "current r p")
      case cur: True
      have "follow (sent_records ?r ?es p) None = Some (Some (rm_seq (rg_room r m) + 1, apply_event ev (V m)))"
        using pos cur follow_next [OF ev(1) msg rec, of "rm_seq (rg_room r m)" "V m"] ev(2)
        by (simp add: st follow_append) (simp add: apply_event_def Let_def)
      then show ?thesis using one [OF i] parts by (auto simp: broadcast_room)
    next
      case False
      then show ?thesis using pos(1) q(2) by (simp add: st)
    qed
  next
    case False
    then have s: "rg_sess ?r p = rg_sess r p" by (simp add: sess)
    have same: "sent_records ?r ?es p = sent_records r es p" "current ?r p = current r p" "evicted_sess ?r p = evicted_sess r p"
      by (simp_all add: sent_records_def current_def evicted_sess_def s)
    obtain pos where pos: "follow (sent_records r es p) None = Some pos"
      "\<And>m' i. (i, p) \<in> set (rm_participants (rg_room r m')) \<Longrightarrow> p \<notin> E \<Longrightarrow> current r p \<Longrightarrow>
         pos = Some (rm_seq (rg_room r m'), V m')"
      using toldD(2) [OF t, of p] p same(3) by (auto simp: broadcast_room)
    have "m' \<noteq> m \<or> p \<in> E" if "(i, p) \<in> set (rm_participants (rg_room r m'))" for m' i
      using that False E(2) by (auto simp: members_iff)
    then show ?thesis unfolding same parts using pos by (intro exI [of _ pos]) (auto simp: broadcast_room)
  qed
qed

end
