(* ===== verification/RoomTold.thy ===== *)
theory RoomTold
  imports RoomFeed
begin

section \<open>Every operation tells the members what it does\<close>

text \<open>
  Between operations the view that the streams lead to is the registry's own (\<open>fed\<close>).  Each
  operation is followed through its announcements, one lemma per kind of change.
\<close>

definition view_of :: "RoomRegistry \<Rightarrow> nat \<Rightarrow> view" where
  "view_of r m = (map tile_record (rm_attachments (rg_room r m)),
     \<lambda>i. map_option (\<lambda>p. bare (recordLocked (rg_room r m) (rg_sess r p))) (map_of (rm_participants (rg_room r m)) i))"

definition fed :: "RoomRegistry \<Rightarrow> room_effect list \<Rightarrow> bool" where
  "fed r es \<longleftrightarrow> told {} (view_of r) r es"

lemma bare_record: "bare (recordLocked rm s) =
    \<lparr>rp_ID = pt_id s, rp_Kind = pt_kind s, rp_Flags = 0, rp_Nickname = pt_nick s, rp_Identity = pt_identity s\<rparr>"
  by (simp add: bare_def recordLocked_def)

lemma view_same_core:
  assumes "room_same_core r r'"
  shows "view_of r' = view_of r"
  unfolding view_of_def bare_record room_same_coreD [OF assms] ..

lemma room_same_core_sym: "room_same_core r r' \<Longrightarrow> room_same_core r' r"
  by (simp add: room_same_core_def)

lemma seats_same_core: "room_same_core r r' \<Longrightarrow> seats_ok r' = seats_ok r"
  unfolding seats_ok_def by (simp only: room_same_coreD)

lemma seats_ok_inv: "room_inv X r \<Longrightarrow> seats_ok r"
  by (simp add: room_inv_def)

lemma fed_same:
  assumes "fed r es" "same_feed r r'" "\<And>p. delivered p es' = []"
    "\<And>m. rm_participants (rg_room r m) \<noteq> [] \<Longrightarrow> view_of r' m = view_of r m"
  shows "fed r' (es @ es')"
  unfolding fed_def by (rule told_same [OF assms(1) [unfolded fed_def] assms(2,3)]) (use assms(4) in auto)

lemma told_fed:
  assumes "told {} V r es" "\<And>m. rm_participants (rg_room r m) \<noteq> [] \<Longrightarrow> view_of r m = V m"
  shows "fed r es"
  using told_same [OF assms(1), of r "[]"] assms(2) by (simp add: fed_def same_feed_def)

lemma same_feed_refl [simp]: "same_feed r r"
  by (simp add: same_feed_def)

text \<open>An operation in sequence.\<close>

lemma told_also:
  assumes "told E V (fst x) (es @ snd x)"
    and "\<And>r' es'. told E V r' es' \<Longrightarrow> r' = fst x \<Longrightarrow> told E' V' (fst (f r')) (es' @ snd (f r'))"
  shows "told E' V' (fst (also_do x f)) (es @ snd (also_do x f))"
  using assms(2) [OF assms(1) refl] by simp

lemma fed_also:
  assumes "fed (fst x) (es @ snd x)"
    and "\<And>r' es'. fed r' es' \<Longrightarrow> r' = fst x \<Longrightarrow> fed (fst (f r')) (es' @ snd (f r'))"
  shows "fed (fst (also_do x f)) (es @ snd (also_do x f))"
  using assms(2) [OF assms(1) refl] by simp

lemma fed_quiet: "fed r es \<Longrightarrow> (\<And>p. delivered p es' = []) \<Longrightarrow> fed r (es @ es')"
  by (rule fed_same) simp_all

subsection \<open>The events of a room can be encoded\<close>

lemma plain_tile:
  assumes "valid_id (at_id a)" "str_ok MaxRoomLabelLen (at_label a)"
    and "k = RoomEventAttachmentAdded \<or> k = RoomEventAttachmentUpdated"
  shows "plain_event ((tile_event k a)\<lparr>re_Seq := sq\<rparr>)"
  using assms by (auto simp: plain_event_def event_payload_ok_def event_normal_def tile_event_def event_def zero_event_def
      tile_record_def attachment_ok_def event_kind_defs Let_def)

lemma plain_removed: "valid_id i \<Longrightarrow> plain_event ((removed_event i reason)\<lparr>re_Seq := sq\<rparr>)"
  by (auto simp: plain_event_def event_payload_ok_def event_normal_def removed_event_def event_def zero_event_def
      zero_attachment_def event_kind_defs Let_def)

lemma plain_person:
  assumes "seats_ok r" "(i, p) \<in> set (rm_participants (rg_room r m))"
    and "k = RoomEventParticipantJoined \<or> k = RoomEventParticipantUpdated"
  shows "plain_event ((person_event k (recordLocked rm (rg_sess r p)))\<lparr>re_Seq := sq\<rparr>)"
  using assms(3) seats_okD(5-7) [OF assms(1,2)]
  by (auto simp: plain_event_def event_payload_ok_def event_normal_def person_event_def event_def zero_event_def
      participant_ok_def recordLocked_def event_kind_defs Let_def RoomParticipantFlagStreaming_def
      roomParticipantFlagMask_def str_ok_def)

lemma plain_left: "plain_event ((person_event RoomEventParticipantLeft p)\<lparr>re_Seq := sq\<rparr>)"
  by (simp add: plain_event_def event_payload_ok_def event_normal_def person_event_def event_def zero_event_def
      event_kind_defs Let_def)

lemma plain_ending: "plain_event ((event RoomEventRoomEnding)\<lparr>re_Reason := reason, re_Seq := sq\<rparr>)"
  by (simp add: plain_event_def event_payload_ok_def event_normal_def event_def zero_event_def
      event_kind_defs Let_def)

lemmas event_shapes = tile_event_def removed_event_def person_event_def event_def zero_event_def zero_attachment_def
  event_kind_defs

text \<open>An event to everybody in the room.\<close>

lemma told_all:
  assumes "seats_ok r" "told {} V r es" "plain_event (ev\<lparr>re_Seq := rm_seq (rg_room r m) + 1\<rparr>)"
    "re_Kind ev \<noteq> RoomEventCommandRejected"
  shows "told {} (V(m := apply_event ev (V m))) (fst (broadcastLocked m ev 0 now r))
      (es @ snd (broadcastLocked m ev 0 now r))"
  using seats_okD(4) [OF assms(1), of 0 _ m] by (intro told_broadcast [OF assms]) auto

subsection \<open>Tiles\<close>

lemma tile_replaced:
  assumes "distinct (map at_id as)" "a \<in> set as" "at_id a = i" "\<And>a. at_id (f a) = at_id a"
  shows "map tile_record (set_first i f as) =
     map (\<lambda>x. if ra_BroadcastID x = i then tile_record (f a) else x) (map tile_record as)"
  using assms(1-3)
proof (induction as)
  case (Cons b as)
  have id: "ra_BroadcastID (tile_record x) = at_id x" for x by (simp add: tile_record_def)
  show ?case
  proof (cases "at_id b = i")
    case True
    then have "a = b" "\<forall>x \<in> set as. at_id x \<noteq> i" using Cons.prems by (auto simp: image_iff)
    then show ?thesis using True by (auto simp: id)
  next
    case False
    then show ?thesis using Cons by (auto simp: id)
  qed
qed simp

lemma tile_removed:
  "distinct (map at_id as) \<Longrightarrow>
   map tile_record (remove_tile i as) = filter (\<lambda>x. ra_BroadcastID x \<noteq> i) (map tile_record as)"
proof (induction as)
  case (Cons b as)
  have id: "ra_BroadcastID (tile_record x) = at_id x" for x by (simp add: tile_record_def)
  show ?case
  proof (cases "at_id b = i")
    case True
    then have "\<forall>x \<in> set as. at_id x \<noteq> i" using Cons.prems by (auto simp: image_iff)
    then show ?thesis using True by (auto simp: id filter_id_conv intro!: filter_True [symmetric])
  qed (use Cons in \<open>simp add: id\<close>)
qed simp

lemma find_tile_set_first:
  assumes "find_tile rm i = Some a" "\<And>a. at_id (f a) = at_id a"
  shows "find_tile (rm\<lparr>rm_attachments := set_first i f (rm_attachments rm)\<rparr>) i = Some (f a)"
proof -
  have "find (\<lambda>a. at_id a = i) as = Some a \<Longrightarrow> find (\<lambda>a. at_id a = i) (set_first i f as) = Some (f a)" for as
    by (induction as) (auto simp: assms(2) split: if_splits)
  then show ?thesis using assms(1) by (simp add: find_tile_def)
qed

lemma set_tile_fed:
  assumes fed: "fed r es" and inv: "room_inv X (set_tile m i f r)"
    and a: "find_tile (rg_room r m) i = Some a" "distinct (map at_id (rm_attachments (rg_room r m)))"
    and f: "\<And>a. at_id (f a) = at_id a"
  shows "fed (fst (tile_updated m i now (set_tile m i f r))) (es @ snd (tile_updated m i now (set_tile m i f r)))"
proof -
  let ?r = "set_tile m i f r"
  have r: "rg_room ?r m = (rg_room r m)\<lparr>rm_attachments := set_first i f (rm_attachments (rg_room r m))\<rparr>"
    by (simp add: set_tile_def)
  have found: "find_tile (rg_room ?r m) i = Some (f a)" unfolding r by (rule find_tile_set_first [OF a(1) f])
  have fa: "valid_id (at_id (f a))" "str_ok MaxRoomLabelLen (at_label (f a))"
    using tiles_okD [OF inv, of m] find_tile_Some [OF found] by (auto simp: tiles_ok_def)
  have "told {} (view_of r) ?r (es @ [])"
    using fed unfolding fed_def by (rule told_same) (simp_all add: same_feed_def set_tile_def)
  then have t: "told {} ((view_of r)(m := apply_event (tile_event RoomEventAttachmentUpdated (f a)) (view_of r m)))
      (fst (tile_updated m i now ?r)) (es @ snd (tile_updated m i now ?r))"
    unfolding tile_updated_def found option.case append_Nil2
    by (rule told_all [OF seats_ok_inv [OF inv]]) (use fa plain_tile in \<open>simp_all add: event_shapes\<close>)
  have w: "view_of (fst (tile_updated m i now ?r)) = view_of ?r" by (rule view_same_core) simp
  have v: "view_of ?r m' = ((view_of r)(m := apply_event (tile_event RoomEventAttachmentUpdated (f a)) (view_of r m))) m'" for m'
    using find_tile_Some [OF a(1)] tile_replaced [OF a(2) _ _ f, of a i]
    by (auto simp: view_of_def bare_record set_tile_def apply_event_def Let_def tile_record_def f event_shapes)
  show ?thesis by (rule told_fed [OF t]) (simp only: v w)
qed

lemma removal_fed:
  assumes fed: "fed r es" and inv: "room_inv X r" and i: "valid_id i"
  shows "fed (fst (removeAttachmentLocked m i reason now r)) (es @ snd (removeAttachmentLocked m i reason now r))"
proof -
  let ?r = "set_slot (is_wall (rg_room r m)) i None
    (upd_room m (\<lambda>rm. rm\<lparr>rm_attachments := remove_tile i (rm_attachments rm)\<rparr>) r)"
  let ?x = "removeAttachmentLocked m i reason now r"
  have x: "?x = broadcastLocked m (removed_event i reason) 0 now ?r"
    by (simp add: removeAttachmentLocked_def Let_def)
  have seats: "seats_ok ?r" using inv by (simp add: room_inv_def seats_ok_def)
  have "told {} (view_of r) ?r (es @ [])"
    using fed unfolding fed_def by (rule told_same) (simp_all add: same_feed_def)
  then have t: "told {} ((view_of r)(m := apply_event (removed_event i reason) (view_of r m))) (fst ?x) (es @ snd ?x)"
    unfolding x append_Nil2 by (rule told_all [OF seats]) (use i plain_removed in \<open>simp_all add: event_shapes\<close>)
  have "room_same_core ?r (fst ?x)" unfolding x by simp
  then have w: "view_of (fst ?x) = view_of ?r" by (rule view_same_core)
  have v: "view_of ?r m' = ((view_of r)(m := apply_event (removed_event i reason) (view_of r m))) m'" for m'
    using tile_removed [of "rm_attachments (rg_room r m)" i] tiles_okD [OF inv, of m]
    by (simp add: view_of_def bare_record apply_event_def Let_def event_shapes tiles_ok_def)
  show ?thesis by (rule told_fed [OF t]) (simp only: v w)
qed

text \<open>A tile is attached and announced.\<close>

lemma attach_same_feed: "same_feed r (fst (attachLocked m i label state owner now r))"
  by (simp add: attachLocked_def Let_def same_feed_def)

lemma attach_delivers [simp]: "delivered p (snd (attachLocked m i label state owner now r)) = []"
  by (simp add: attachLocked_def Let_def busRoomOpenedLocked_def busAttachedLocked_def)

lemma attach_tiles:
  "rm_attachments (rg_room (fst (attachLocked m i label state owner now r)) m') =
     (if m' = m then rm_attachments (rg_room r m) @ [new_tile (rg_room r m) i label state owner now]
      else rm_attachments (rg_room r m'))"
  unfolding room_same_coreD [OF attachLocked_fst [where m = m and i = i and label = label and state = state and owner = owner and now = now and r = r]]
  by simp

lemma attach_view:
  "view_of (fst (attachLocked m i label state owner now r)) m' =
     (if m' = m then (fst (view_of r m) @ [tile_record (new_tile (rg_room r m) i label state owner now)], snd (view_of r m))
      else view_of r m')"
proof -
  have "rg_sess (fst (attachLocked m i label state owner now r)) = rg_sess r" by (simp add: attachLocked_def Let_def)
  then show ?thesis by (simp add: view_of_def bare_record attach_tiles attach_keeps)
qed

definition tile_told :: "nat \<Rightarrow> bytes \<Rightarrow> bytes \<Rightarrow> BroadcastStatus \<Rightarrow> u16 \<Rightarrow> instant \<Rightarrow> RoomRegistry \<Rightarrow> acts" where
  "tile_told m i label state owner now r =
     also_do (attachLocked m i label state owner now r)
       (\<lambda>r. broadcastLocked m (tile_event RoomEventAttachmentAdded (last (rm_attachments (rg_room r m)))) 0 now r)"

lemma tile_told_fed:
  assumes fed: "fed r es" and inv: "room_inv X (fst (attachLocked m i label state owner now r))"
  shows "fed (fst (tile_told m i label state owner now r)) (es @ snd (tile_told m i label state owner now r))"
proof -
  let ?a = "attachLocked m i label state owner now r" and ?t = "new_tile (rg_room r m) i label state owner now"
  let ?x = "broadcastLocked m (tile_event RoomEventAttachmentAdded ?t) 0 now (fst ?a)"
  have x: "fst (tile_told m i label state owner now r) = fst ?x"
    "snd (tile_told m i label state owner now r) = snd ?a @ snd ?x"
    by (simp_all add: tile_told_def attach_tiles)
  have ok: "valid_id i" "str_ok MaxRoomLabelLen (at_label ?t)"
    using tiles_okD [OF inv, of m] by (auto simp: tiles_ok_def attach_tiles)
  have "told {} (view_of r) (fst ?a) (es @ snd ?a)"
    using fed unfolding fed_def by (rule told_same) (simp_all add: attach_same_feed)
  then have t: "told {} ((view_of r)(m := apply_event (tile_event RoomEventAttachmentAdded ?t) (view_of r m)))
      (fst ?x) ((es @ snd ?a) @ snd ?x)"
    by (rule told_all [OF seats_ok_inv [OF inv]]) (use ok plain_tile in \<open>simp_all add: event_shapes\<close>)
  have w: "view_of (fst ?x) = view_of (fst ?a)" by (rule view_same_core) simp
  have v: "view_of (fst ?a) m' = ((view_of r)(m := apply_event (tile_event RoomEventAttachmentAdded ?t) (view_of r m))) m'" for m'
    by (simp add: attach_view apply_event_def Let_def case_prod_unfold event_shapes)
  have "fed (fst ?x) ((es @ snd ?a) @ snd ?x)" by (rule told_fed [OF t]) (simp only: v w)
  then show ?thesis unfolding x by simp
qed

lemma notify_fed: "fed r es \<Longrightarrow> fed (fst (notifyAttachments m r)) (es @ snd (notifyAttachments m r))"
  by (simp add: notifyAttachments_def Let_def fed_quiet)

subsection \<open>People\<close>

lemma person_told:
  assumes t: "told {} V r es" and seats: "seats_ok r" and i: "(i, p) \<in> set (rm_participants (rg_room r m))"
    and V: "view_of r = V(m := (fst (V m), (snd (V m))(i := Some (bare (recordLocked (rg_room r m) (rg_sess r p))))))"
  shows "fed (fst (person_updated m p now r)) (es @ snd (person_updated m p now r))"
proof -
  let ?p = "recordLocked (rg_room r m) (rg_sess r p)"
  have "told {} (V(m := apply_event (person_event RoomEventParticipantUpdated ?p) (V m)))
      (fst (person_updated m p now r)) (es @ snd (person_updated m p now r))"
    unfolding person_updated_def
    by (rule told_all [OF seats t]) (use plain_person [OF seats i] in \<open>simp_all add: event_shapes\<close>)
  moreover have "rp_ID ?p = i" using seats_okD(3) [OF seats i] by (simp add: recordLocked_def)
  ultimately have t': "told {} (view_of r) (fst (person_updated m p now r)) (es @ snd (person_updated m p now r))"
    unfolding V by (simp add: apply_event_def Let_def case_prod_unfold event_shapes)
  have "view_of (fst (person_updated m p now r)) = view_of r" by (rule view_same_core) simp
  then show ?thesis by (intro told_fed [OF t']) simp
qed

lemma person_fed:
  assumes fed: "fed r es" and seats: "seats_ok r" and i: "(i, p) \<in> set (rm_participants (rg_room r m))"
  shows "fed (fst (person_updated m p now r)) (es @ snd (person_updated m p now r))"
proof (rule person_told [OF fed [unfolded fed_def] seats i])
  have "snd (view_of r m) i = Some (bare (recordLocked (rg_room r m) (rg_sess r p)))"
    using seats_okD(8) [OF seats i] by (simp add: view_of_def)
  then show "view_of r = (view_of r)(m := (fst (view_of r m),
      (snd (view_of r m))(i := Some (bare (recordLocked (rg_room r m) (rg_sess r p))))))"
    by (simp add: fun_upd_idem)
qed

lemma drop_tile_fed:
  assumes fed: "fed r es" and inv: "room_inv X r" and i: "valid_id (at_id a)"
  shows "fed (fst (drop_tile m a reason now r)) (es @ snd (drop_tile m a reason now r))"
  unfolding drop_tile_def Let_def
proof (rule fed_also)
  show "fed (fst (removeAttachmentLocked m (at_id a) reason now r)) (es @ snd (removeAttachmentLocked m (at_id a) reason now r))"
    by (rule removal_fed [OF fed inv i])
  fix r' es' assume f: "fed r' es'" and r': "r' = fst (removeAttachmentLocked m (at_id a) reason now r)"
  let ?r1 = "set_slot (is_wall (rg_room r m)) (at_id a) None
    (upd_room m (\<lambda>rm. rm\<lparr>rm_attachments := remove_tile (at_id a) (rm_attachments rm)\<rparr>) r)"
  have same: "room_same_core ?r1 r'" by (simp add: r' removeAttachmentLocked_def Let_def)
  have parts: "rm_participants (rg_room r' m) = rm_participants (rg_room r m)"
    unfolding room_same_coreD [OF same] by simp
  have "seats_ok ?r1" using inv by (simp add: room_inv_def seats_ok_def)
  then have seats: "seats_ok r'" by (simp add: seats_same_core [OF same])
  show "fed (fst (case map_of (rm_participants (rg_room r m)) (at_ownerPID a) of None \<Rightarrow> (r', [])
      | Some o' \<Rightarrow> person_updated m o' now r'))
    (es' @ snd (case map_of (rm_participants (rg_room r m)) (at_ownerPID a) of None \<Rightarrow> (r', [])
      | Some o' \<Rightarrow> person_updated m o' now r'))"
  proof (cases "map_of (rm_participants (rg_room r m)) (at_ownerPID a)")
    case (Some o')
    then have "(at_ownerPID a, o') \<in> set (rm_participants (rg_room r' m))" using parts by (simp add: map_of_SomeD)
    from person_fed [OF f seats this] Some show ?thesis by simp
  qed (use f in simp)
qed

subsection \<open>Records for one session\<close>

lemma told_enqueue:
  assumes t: "told E V r es" and seats: "seats_ok r" and i: "(i, p) \<in> set (rm_participants (rg_room r m))"
    and rec: "\<And>x pos. rec = Some x \<Longrightarrow> p \<in> E \<or> pos = Some (rm_seq (rg_room r m), V m)
      \<Longrightarrow> follow_record x pos = Some (Some (rm_seq (rg_room r m), V m))"
  shows "told (E - {p}) V (upd_sess p (enqueue_sess rec) r) es"
proof (rule toldI)
  let ?r = "upd_sess p (enqueue_sess rec) r"
  fix q
  show "delivered q es = []" if "rg_nextSess ?r \<le> q" using that toldD(1) [OF t] by simp
  assume q: "q < rg_nextSess ?r" "\<not> evicted_sess ?r q"
  show "\<exists>pos. follow (sent_records ?r es q) None = Some pos \<and>
      (\<forall>m' j. (j, q) \<in> set (rm_participants (rg_room ?r m')) \<longrightarrow> q \<notin> E - {p} \<longrightarrow> current ?r q \<longrightarrow>
         pos = Some (rm_seq (rg_room ?r m'), V m'))"
  proof (cases "q = p")
    case True
    have s: "rg_sess ?r p = enqueue_sess rec (rg_sess r p)" by simp
    have "\<not> evicted_sess ?r p" using q(2) True by simp
    note st = stream_enqueue(1) [OF s this, of es] stream_enqueue(2,3) [OF s this]
    obtain pos where pos: "follow (sent_records r es p) None = Some pos"
      "p \<notin> E \<Longrightarrow> current r p \<Longrightarrow> pos = Some (rm_seq (rg_room r m), V m)"
      using toldD(2) [OF t, of p] q st(3) i by (auto simp: True)
    have one: "m' = m" if "(j, p) \<in> set (rm_participants (rg_room r m'))" for m' j
      using seats_okD(2) [OF seats that] seats_okD(2) [OF seats i] by simp
    show ?thesis
    proof (cases "rec = None \<or> \<not> current r p")
      case True
      then have "sent_records ?r es q = sent_records r es p" "\<not> current ?r q" using st(1,2) \<open>q = p\<close> by (auto split: option.split)
      then show ?thesis using pos(1) by auto
    next
      case False
      then obtain x where x: "rec = Some x" by auto
      have "p \<in> E \<or> pos = Some (rm_seq (rg_room r m), V m)" using pos(2) False by blast
      then have "follow (sent_records ?r es q) None = Some (Some (rm_seq (rg_room r m), V m))"
        using st(1) rec [OF x] False pos(1) by (simp add: x True follow_append)
      then show ?thesis using one True by auto
    qed
  next
    case False
    then have same: "sent_records ?r es q = sent_records r es q" "current ?r q = current r q" "evicted_sess ?r q = evicted_sess r q"
      by (simp_all add: sent_records_def current_def evicted_sess_def)
    then show ?thesis using toldD(2) [OF t, of q] q False by auto
  qed
qed

lemma snapshot_view:
  assumes "seats_ok r"
  shows "view_of_state (room_snapshot r (rg_room r m) s) = view_of r m"
proof -
  let ?ps = "rm_participants (rg_room r m)" and ?ids = "sort_key unat (map fst (rm_participants (rg_room r m)))"
  let ?e = "\<lambda>i. case map_of ?ps i of None \<Rightarrow> zero_participant | Some p \<Rightarrow> recordLocked (rg_room r m) (rg_sess r p)"
  have p: "\<exists>p. map_of ?ps i = Some p \<and> rp_ID (recordLocked (rg_room r m) (rg_sess r p)) = i" if "i \<in> set (map fst ?ps)" for i
  proof -
    from that obtain p where ip: "(i, p) \<in> set ?ps" by auto
    then show ?thesis using seats_okD(3,8) [OF assms ip] by (simp add: recordLocked_def)
  qed
  have "rp_ID (?e i) = i" if "i \<in> set (map fst ?ps)" for i using p [OF that] by auto
  then have "map (\<lambda>p. (rp_ID p, bare p)) (roster r (rg_room r m)) = map (\<lambda>i. (i, bare (?e i))) ?ids"
    unfolding roster_def map_map by (intro map_cong refl) simp
  moreover have "map_of (map (\<lambda>i. (i, bare (?e i))) ?ids) i =
      map_option (\<lambda>p. bare (recordLocked (rg_room r m) (rg_sess r p))) (map_of ?ps i)" for i
    using p [of i] by (cases "i \<in> set (map fst ?ps)")
      (auto simp: map_of_map_restrict restrict_map_def map_of_eq_None_iff)
  ultimately show ?thesis
    by (simp add: view_of_state_def room_snapshot_def view_of_def fun_eq_iff)
qed

lemma state_record_follows:
  assumes "seats_ok r" "tiles_ok (rm_attachments (rg_room r m))" "stateRecordLocked r (rg_room r m) s = Some x"
  shows "follow_record x pos = Some (Some (rm_seq (rg_room r m), view_of r m))"
proof -
  let ?st = "room_snapshot r (rg_room r m) s"
  obtain msg where msg: "AppendRoomState [] ?st = Inr msg" "frame msg = Some x"
    using assms(3) by (auto simp: stateRecordLocked_def split: sum.splits)
  have "\<forall>a \<in> set (rs_Attachments ?st). attachment_normal a"
    using assms(2) by (auto simp: room_snapshot_def attachment_normal_def tiles_ok_def tile_record_def)
  from follow_state [OF msg(1) this msg(2)] show ?thesis
    by (simp add: snapshot_view [OF assms(1)]) (simp add: room_snapshot_def)
qed

lemma enqueue_keeps:
  "view_of (upd_sess p (enqueue_sess rec) r) = view_of r"
  "seats_ok (upd_sess p (enqueue_sess rec) r) = seats_ok r"
proof -
  have "room_same_core r (upd_sess p (enqueue_sess rec) r)"
    by (rule room_same_core_upd_sess) (simp add: core_sess_def enqueue_sess_def)
  then show "view_of (upd_sess p (enqueue_sess rec) r) = view_of r"
    "seats_ok (upd_sess p (enqueue_sess rec) r) = seats_ok r"
    by (simp_all add: view_same_core seats_same_core)
qed

lemma resync_fed:
  assumes fed: "fed r es" and inv: "room_inv X r" and p: "in_session r p"
  shows "fed (fst (command_resync p r)) (es @ snd (command_resync p r))"
proof (cases "rm_ended (rg_room r (pt_room (rg_sess r p)))")
  case False
  let ?m = "pt_room (rg_sess r p)"
  let ?rec = "stateRecordLocked r (rg_room r ?m) (rg_sess r p)"
  have ip: "(pt_id (rg_sess r p), p) \<in> set (rm_participants (rg_room r ?m))"
    using p False seatedD by (auto simp: in_session_def)
  have "told ({} - {p}) (view_of r) (upd_sess p (enqueue_sess ?rec) r) es"
    by (rule told_enqueue [OF fed [unfolded fed_def] seats_ok_inv [OF inv] ip])
      (rule state_record_follows [OF seats_ok_inv [OF inv] tiles_okD [OF inv]])
  then have "fed (upd_sess p (enqueue_sess ?rec) r) es" by (simp add: fed_def enqueue_keeps)
  then have "fed (fst (room_enqueueLocked ?rec p r)) (es @ snd (room_enqueueLocked ?rec p r))"
    unfolding enqueue_fst by (rule fed_quiet) simp
  then show ?thesis using False by (simp add: command_resync_def Let_def)
qed (simp add: command_resync_def fed)

lemma reject_fed:
  assumes fed: "fed r es" and inv: "room_inv X r" and p: "in_session r p"
  shows "fed (fst (reject k reason msg p r)) (es @ snd (reject k reason msg p r))"
proof (cases "rm_ended (rg_room r (pt_room (rg_sess r p)))")
  case False
  let ?m = "pt_room (rg_sess r p)"
  let ?ev = "(event RoomEventCommandRejected)\<lparr>re_Seq := rm_seq (rg_room r ?m), re_Command := k,
             re_Reason := reason, re_Message := msg\<rparr>"
  have ip: "(pt_id (rg_sess r p), p) \<in> set (rm_participants (rg_room r ?m))"
    using p False seatedD by (auto simp: in_session_def)
  show ?thesis
  proof (cases "AppendRoomEvent [] ?ev")
    case (Inr rec)
    have ev: "plain_event ?ev"
      using Inr by (auto simp: AppendRoomEvent_Inr plain_event_def event_normal_def event_shapes)
    have "told ({} - {p}) (view_of r) (upd_sess p (enqueue_sess (frame rec)) r) es"
    proof (rule told_enqueue [OF fed [unfolded fed_def] seats_ok_inv [OF inv] ip])
      fix x pos assume "frame rec = Some x" "p \<in> {} \<or> pos = Some (rm_seq (rg_room r ?m), view_of r ?m)"
      then show "follow_record x pos = Some (Some (rm_seq (rg_room r ?m), view_of r ?m))"
        using follow_reject [OF ev Inr] by (simp add: event_shapes)
    qed
    then have "fed (upd_sess p (enqueue_sess (frame rec)) r) es" by (simp add: fed_def enqueue_keeps)
    then have "fed (fst (room_enqueueLocked (frame rec) p r)) (es @ snd (room_enqueueLocked (frame rec) p r))"
      unfolding enqueue_fst by (rule fed_quiet) simp
    then show ?thesis using False Inr by (simp add: reject_def Let_def)
  qed (use False fed in \<open>simp add: reject_def Let_def\<close>)
qed (simp add: reject_def fed)

end
