(* ===== verification/RoomFollow.thy ===== *)
theory RoomFollow
  imports RoomTold
begin

section \<open>The streams keep up with the registry\<close>

text \<open>
  The operations on people, the writer, the ends of rooms and the rest of the critical
  sections; with them every run of the registry keeps \<open>fed\<close>.
\<close>

subsection \<open>People\<close>

lemma nickname_fed:
  assumes fed: "fed r es" and inv: "room_inv X r" and p: "in_session r p"
  shows "fed (fst (command_nickname p cmd now r)) (es @ snd (command_nickname p cmd now r))"
proof (cases "rm_ended (rg_room r (pt_room (rg_sess r p)))")
  case False
  let ?m = "pt_room (rg_sess r p)" and ?i = "pt_id (rg_sess r p)"
  let ?r = "upd_sess p (\<lambda>s. s\<lparr>pt_nick := uniqueNickLocked r (rg_room r ?m) (rc_Nickname cmd) (pt_id s)\<rparr>) r"
  have seat: "seated r p" using p False by (simp add: in_session_def)
  note seats = seats_ok_inv [OF inv] and seats' = seats_ok_inv [OF nick_inv [OF inv seat]]
  have ip: "(?i, p) \<in> set (rm_participants (rg_room r ?m))" by (rule seatedD [OF seat])
  have "told {} (view_of r) ?r (es @ [])"
    using fed unfolding fed_def by (rule told_same) (simp_all add: same_feed_def)
  then have t: "told {} (view_of r) ?r es" by simp
  let ?W = "(view_of r)(?m := (fst (view_of r ?m),
      (snd (view_of r ?m))(?i := Some (bare (recordLocked (rg_room ?r ?m) (rg_sess ?r p))))))"
  have only: "m' = ?m \<and> k = ?i" if "map_of (rm_participants (rg_room r m')) k = Some p" for m' k
    using seats_okD(2,3) [OF seats map_of_SomeD [OF that]] by simp
  have me: "map_of (rm_participants (rg_room r ?m)) ?i = Some p" by (rule seats_okD(8) [OF seats ip])
  have people: "snd (view_of ?r m') k = snd (?W m') k" for m' k
  proof (cases "map_of (rm_participants (rg_room r m')) k")
    case None
    then have "\<not> (m' = ?m \<and> k = ?i)" using me by auto
    then show ?thesis using None by (auto simp: view_of_def)
  next
    case (Some q)
    show ?thesis
    proof (cases "q = p")
      case True
      then have "m' = ?m" "k = ?i" using only Some by auto
      then show ?thesis using me by (simp add: view_of_def)
    next
      case False
      then have "\<not> (m' = ?m \<and> k = ?i)" using me Some by auto
      then show ?thesis using Some False by (auto simp: view_of_def bare_record)
    qed
  qed
  have "view_of ?r m' = ?W m'" for m'
    by (rule prod_eqI) (simp add: view_of_def, rule ext, rule people)
  then have V: "view_of ?r = (view_of r)(?m := (fst (view_of r ?m),
      (snd (view_of r ?m))(?i := Some (bare (recordLocked (rg_room ?r ?m) (rg_sess ?r p))))))" by (rule ext)
  have ip': "(?i, p) \<in> set (rm_participants (rg_room ?r ?m))" using ip by simp
  from person_told [OF t seats' ip' V, of now] show ?thesis
    using False unfolding command_nickname_def Let_def by (simp only: if_False)
qed (simp add: command_nickname_def fed)

lemma told_fewer:
  assumes t: "told E V r es" and s: "rg_sess r' = rg_sess r" "rg_nextSess r' = rg_nextSess r"
    and m: "\<And>m. set (rm_participants (rg_room r' m)) \<subseteq> set (rm_participants (rg_room r m))"
      "\<And>m. rm_seq (rg_room r' m) = rm_seq (rg_room r m)"
  shows "told E V r' es"
proof (rule toldI)
  have same: "sent_records r' es p = sent_records r es p" "current r' p = current r p" "evicted_sess r' p = evicted_sess r p" for p
    by (simp_all add: sent_records_def current_def evicted_sess_def s)
  fix p
  show "delivered p es = []" if "rg_nextSess r' \<le> p" using that toldD(1) [OF t] s by simp
  assume "p < rg_nextSess r'" "\<not> evicted_sess r' p"
  then have p: "p < rg_nextSess r" "\<not> evicted_sess r p" using s same by simp_all
  obtain pos where pos: "follow (sent_records r es p) None = Some pos"
    "\<And>m i. (i, p) \<in> set (rm_participants (rg_room r m)) \<Longrightarrow> p \<notin> E \<Longrightarrow> current r p \<Longrightarrow>
       pos = Some (rm_seq (rg_room r m), V m)"
    using toldD(2) [OF t p] by blast
  show "\<exists>pos. follow (sent_records r' es p) None = Some pos \<and>
      (\<forall>m i. (i, p) \<in> set (rm_participants (rg_room r' m)) \<longrightarrow> p \<notin> E \<longrightarrow> current r' p \<longrightarrow>
         pos = Some (rm_seq (rg_room r' m), V m))"
    unfolding same m(2) using pos m(1) by (intro exI [of _ pos]) blast
qed

lemma leave_fed:
  assumes fed: "fed r es" and inv: "room_inv {} r" and p: "p < rg_nextSess r"
  shows "fed (fst (Leave p now r)) (es @ snd (Leave p now r))"
proof (cases "pt_closed (rg_sess r p)")
  case False
  let ?s = "rg_sess r p" let ?m = "pt_room (rg_sess r p)"
  let ?u = "upd_room ?m (\<lambda>rm. rm\<lparr>rm_participants := AList.delete (pt_id ?s) (rm_participants rm)\<rparr>) r"
  let ?b = "also_do (broadcastLocked ?m (person_event RoomEventParticipantLeft (zero_participant\<lparr>rp_ID := pt_id ?s\<rparr>)) 0 now ?u)
      (\<lambda>r. (r, busParticipantLeftLocked (rg_room r ?m) (rg_sess r p)))"
  let ?c = "if seated r p then ?b else (r, [])"
  have c: "fed (fst ?c) (es @ snd ?c)"
  proof (cases "seated r p")
    case True
    let ?ev = "person_event RoomEventParticipantLeft (zero_participant\<lparr>rp_ID := pt_id ?s\<rparr>)"
    have seats: "seats_ok ?u" by (rule seats_ok_inv [OF unseat_inv [OF inv]])
    have "told {} (view_of r) ?u es"
      using fed unfolding fed_def by (rule told_fewer) (auto simp: AList.delete_eq)
    then have t: "told {} ((view_of r)(?m := apply_event ?ev (view_of r ?m)))
        (fst (broadcastLocked ?m ?ev 0 now ?u)) (es @ snd (broadcastLocked ?m ?ev 0 now ?u))"
      by (rule told_all [OF seats]) (use plain_left in \<open>simp_all add: event_shapes\<close>)
    have w: "view_of (fst (broadcastLocked ?m ?ev 0 now ?u)) = view_of ?u" by (rule view_same_core) simp
    have v: "view_of ?u m' = ((view_of r)(?m := apply_event ?ev (view_of r ?m))) m'" for m'
      by (auto simp: view_of_def bare_record apply_event_def Let_def event_shapes zero_participant_def delete_conv fun_eq_iff)
    have "fed (fst (broadcastLocked ?m ?ev 0 now ?u)) (es @ snd (broadcastLocked ?m ?ev 0 now ?u))"
      by (rule told_fed [OF t]) (simp only: v w)
    then have "fed (fst ?b) (es @ snd ?b)"
      by (rule fed_also) (simp add: fed_quiet busParticipantLeftLocked_def)
    then show ?thesis using True by simp
  qed (use fed in simp)
  have "Leave p now r = also_do ?c (\<lambda>r. let rm = rg_room r ?m;
                 nowEmpty = (\<not> rm_ended rm \<and> rm_participants rm = []);
                 r = (if nowEmpty then startEmptyGraceLocked ?m now r else r);
                 r = upd_sess p (\<lambda>s. s\<lparr>pt_closed := True\<rparr>) r in
             (r, if nowEmpty \<and> rm_kind rm = KindDynamic then [OnRoomEmpty (rm_code rm) True] else []))"
    using False by (simp only: Leave_def Let_def seated_def if_False)
  then show ?thesis
    using c
  proof (simp only:, elim fed_also)
    fix r' es' assume f: "fed r' es'"
    let ?r2 = "upd_sess p (\<lambda>s. s\<lparr>pt_closed := True\<rparr>)
       (if \<not> rm_ended (rg_room r' ?m) \<and> rm_participants (rg_room r' ?m) = [] then startEmptyGraceLocked ?m now r' else r')"
    have "same_feed r' ?r2" by (simp add: same_feed_def startEmptyGraceLocked_def Let_def)
    moreover have "view_of ?r2 m = view_of r' m" for m
      by (auto simp: view_of_def bare_record startEmptyGraceLocked_def Let_def fun_eq_iff map_option_case split: option.split)
    ultimately show "fed (fst (let rm = rg_room r' ?m;
                 nowEmpty = (\<not> rm_ended rm \<and> rm_participants rm = []);
                 r = (if nowEmpty then startEmptyGraceLocked ?m now r' else r');
                 r = upd_sess p (\<lambda>s. s\<lparr>pt_closed := True\<rparr>) r in
             (r, if nowEmpty \<and> rm_kind rm = KindDynamic then [OnRoomEmpty (rm_code rm) True] else [])))
        (es' @ snd (let rm = rg_room r' ?m;
                 nowEmpty = (\<not> rm_ended rm \<and> rm_participants rm = []);
                 r = (if nowEmpty then startEmptyGraceLocked ?m now r' else r');
                 r = upd_sess p (\<lambda>s. s\<lparr>pt_closed := True\<rparr>) r in
             (r, if nowEmpty \<and> rm_kind rm = KindDynamic then [OnRoomEmpty (rm_code rm) True] else [])))"
      unfolding Let_def fst_conv snd_conv by (intro fed_same [OF f]) simp_all
  qed
qed (simp add: Leave_def fed)

text \<open>A join: the newcomer is exempt until its snapshot is queued.\<close>

lemma seat_told:
  assumes fed: "fed r es" and seats: "seats_ok r"
  shows "told {rg_nextSess r} (view_of r) (seat m pid hello grants tok r) es"
proof (rule toldI)
  let ?r = "seat m pid hello grants tok r" and ?p = "rg_nextSess r"
  have r: "rg_nextSess ?r = Suc ?p" "q \<noteq> ?p \<Longrightarrow> rg_sess ?r q = rg_sess r q"
    "pt_outbox (rg_sess ?r ?p) = []" "pt_leaveReason (rg_sess ?r ?p) = None"
    "rm_seq (rg_room ?r m') = rm_seq (rg_room r m')"
    "rm_participants (rg_room ?r m') = (if m' = m then rm_participants (rg_room r m) @ [(pid, ?p)] else rm_participants (rg_room r m'))"
    for q m'
    by (simp_all add: seat_def Let_def new_session_def upd_room_def)
  note t = fed [unfolded fed_def]
  fix q
  show "delivered q es = []" if "rg_nextSess ?r \<le> q" using that r(1) toldD(1) [OF t] by simp
  assume q: "q < rg_nextSess ?r" "\<not> evicted_sess ?r q"
  show "\<exists>pos. follow (sent_records ?r es q) None = Some pos \<and>
      (\<forall>m' i. (i, q) \<in> set (rm_participants (rg_room ?r m')) \<longrightarrow> q \<notin> {?p} \<longrightarrow> current ?r q \<longrightarrow>
         pos = Some (rm_seq (rg_room ?r m'), view_of r m'))"
  proof (cases "q = ?p")
    case True
    have "sent_records ?r es q = []" using toldD(1) [OF t, of ?p] r(3) True by (simp add: sent_records_def)
    then show ?thesis using True by simp
  next
    case False
    have same: "sent_records ?r es q = sent_records r es q" "current ?r q = current r q" "evicted_sess ?r q = evicted_sess r q"
      using r(2) [OF False] by (simp_all add: sent_records_def current_def evicted_sess_def)
    have q': "q < ?p" "\<not> evicted_sess r q" using q False r(1) same by auto
    obtain pos where pos: "follow (sent_records r es q) None = Some pos"
      "\<And>m i. (i, q) \<in> set (rm_participants (rg_room r m)) \<Longrightarrow> current r q \<Longrightarrow> pos = Some (rm_seq (rg_room r m), view_of r m)"
      using toldD(2) [OF t q'] by blast
    have "(i, q) \<in> set (rm_participants (rg_room r m'))" if "(i, q) \<in> set (rm_participants (rg_room ?r m'))" for i m'
      using that False by (auto simp: r(6) split: if_splits)
    then show ?thesis unfolding same r(5) using pos by (intro exI [of _ pos]) blast
  qed
qed

lemma announce_fed:
  assumes t: "told {p} V r es" and seats: "seats_ok r" and tiles: "tiles_ok (rm_attachments (rg_room r m))"
    and ip: "(pid, p) \<in> set (rm_participants (rg_room r m))"
    and V: "view_of r = V(m := (fst (V m), (snd (V m))(pid := Some (bare (recordLocked (rg_room r m) (rg_sess r p))))))"
  shows "fed (fst (announce m p pid now r)) (es @ snd (announce m p pid now r))"
proof -
  let ?ev = "person_event RoomEventParticipantJoined (recordLocked (rg_room r m) (rg_sess r p))"
  let ?b = "broadcastLocked m ?ev pid now r"
  let ?rec = "stateRecordLocked (fst ?b) (rg_room (fst ?b) m) (rg_sess (fst ?b) p)"
  let ?r2 = "upd_sess p (enqueue_sess ?rec) (fst ?b)"
  let ?r3 = "upd_sess p (\<lambda>s. s\<lparr>pt_firstState := []\<rparr>) ?r2"
  have only: "i = pid" if "(i, p) \<in> set (rm_participants (rg_room r m))" for i
    using seats_okD(3) [OF seats that] seats_okD(3) [OF seats ip] by simp
  have other: "q = p" if "(pid, q) \<in> set (rm_participants (rg_room r m))" for q
    using seats_okD(8) [OF seats that] seats_okD(8) [OF seats ip] by simp
  have same: "room_same_core r (fst ?b)" by simp
  have id: "rp_ID (recordLocked (rg_room r m) (rg_sess r p)) = pid"
    using seats_okD(3) [OF seats ip] by (simp add: recordLocked_def)
  have "told {p} (V(m := apply_event ?ev (V m))) (fst ?b) (es @ snd ?b)"
  proof (rule told_broadcast [OF seats t])
    show "plain_event (?ev\<lparr>re_Seq := rm_seq (rg_room r m) + 1\<rparr>)" using plain_person [OF seats ip] by simp
    show "re_Kind ?ev \<noteq> RoomEventCommandRejected" by (simp add: event_shapes)
    show "q \<notin> {p}" if "q \<in> set (members_but pid (rg_room r m))" for q using that only by (auto simp: members_iff)
    show "q \<in> {p}" if "(pid, q) \<in> set (rm_participants (rg_room r m))" for q using other [OF that] by simp
  qed
  moreover have "V(m := apply_event ?ev (V m)) = view_of (fst ?b)"
    unfolding view_same_core [OF same] V by (simp add: apply_event_def Let_def case_prod_unfold event_shapes id)
  ultimately have t1: "told {p} (view_of (fst ?b)) (fst ?b) (es @ snd ?b)" by simp
  have seats1: "seats_ok (fst ?b)" using seats by (simp add: seats_same_core [OF same])
  have "told ({p} - {p}) (view_of (fst ?b)) ?r2 (es @ snd ?b)"
  proof (rule told_enqueue [OF t1 seats1])
    show "(pid, p) \<in> set (rm_participants (rg_room (fst ?b) m))" using ip by (simp add: broadcast_room)
    show "follow_record x pos = Some (Some (rm_seq (rg_room (fst ?b) m), view_of (fst ?b) m))" if "?rec = Some x" for x pos
      by (rule state_record_follows [OF seats1 _ that]) (use tiles in \<open>simp add: broadcast_room\<close>)
  qed
  then have "fed ?r2 (es @ snd ?b)" by (simp add: fed_def enqueue_keeps)
  moreover have "view_of ?r3 = view_of ?r2"
    by (rule view_same_core, rule room_same_core_upd_sess) (simp add: core_sess_def)
  ultimately have "fed ?r3 ((es @ snd ?b) @ snd (room_enqueueLocked ?rec p (fst ?b)))"
    by (rule_tac fed_same) (simp_all add: same_feed_def)
  then show ?thesis by (simp add: announce_def enqueue_fst)
qed

lemma join_fed:
  assumes fed: "fed r es" and inv: "room_inv {} r" and kind: "rh_ClientKind hello \<le> roomClientKindMax"
    and j: "Join code hello grants tok now r = Some (res, x)"
  shows "fed (fst x) (es @ snd x)"
proof -
  consider "x = (r, [])" | norm m pid where "NormalizeCode code = Inr norm" "live_room r norm = Some m"
    "free_pid 65536 (map fst (rm_participants (rg_room r m))) (rm_nextPID (rg_room r m)) = Some pid"
    "x = (let p = rg_nextSess r; (wasEmpty, r') = clearEmptyGraceLocked m (seat m pid hello grants tok r) in
       also_do (announce m p pid now r') (\<lambda>r. (r, if wasEmpty then [OnRoomEmpty norm False] else [])))"
    using j by (rule Join_cases)
  then show ?thesis
  proof cases
    case n: (2 norm m pid)
    let ?p = "rg_nextSess r"
    let ?s = "seat m pid hello grants tok r"
    let ?c = "snd (clearEmptyGraceLocked m ?s)"
    have m: "m < rg_nextRoom r" using n(2) live_room_inv [OF inv] registered_facts(1) [OF inv] by metis
    have pid: "pid \<noteq> 0" "pid \<notin> fst ` set (rm_participants (rg_room r m))" using free_pid_ok [OF n(3)] by auto
    note si = seat_inv [OF inv m pid kind, of grants tok]
    have same: "same_feed ?s ?c" "rg_sess ?c = rg_sess ?s" "rm_participants (rg_room ?c m') = rm_participants (rg_room ?s m')"
      "rm_attachments (rg_room ?c m') = rm_attachments (rg_room ?s m')" "rg_nextRoom ?c = rg_nextRoom ?s" "rg_nextSess ?c = rg_nextSess ?s" for m'
      by (simp_all add: clearEmptyGraceLocked_def same_feed_def)
    have vs: "view_of ?c = view_of ?s" by (simp add: view_of_def bare_record same fun_eq_iff)
    have "told {?p} (view_of r) ?c (es @ [])"
      by (rule told_same [OF seat_told [OF fed seats_ok_inv [OF inv]] same(1)]) simp_all
    then have t: "told {?p} (view_of r) ?c es" by simp
    have seats: "seats_ok ?c" using seats_ok_inv [OF si] unfolding seats_ok_def same by simp
    have parts: "rm_participants (rg_room ?c m') = (if m' = m then rm_participants (rg_room r m) @ [(pid, ?p)] else rm_participants (rg_room r m'))"
      and atts: "rm_attachments (rg_room ?c m') = rm_attachments (rg_room r m')"
      and sess: "q \<noteq> ?p \<Longrightarrow> rg_sess ?c q = rg_sess r q" for m' q
      unfolding same by (simp_all add: seat_def Let_def upd_room_def)
    have ip: "(pid, ?p) \<in> set (rm_participants (rg_room ?c m))" by (simp add: parts)
    have tiles: "tiles_ok (rm_attachments (rg_room ?c m))" using tiles_okD [OF inv] by (simp add: atts)
    let ?W = "(view_of r)(m := (fst (view_of r m), (snd (view_of r m))(pid := Some (bare (recordLocked (rg_room ?c m) (rg_sess ?c ?p))))))"
    have people: "snd (view_of ?c m') k = snd (?W m') k" for m' k
    proof (cases "m' = m \<and> k = pid")
      case True
      then show ?thesis using seats_okD(8) [OF seats ip] by (simp add: view_of_def)
    next
      case False
      have "map_of (rm_participants (rg_room ?c m')) k = map_of (rm_participants (rg_room r m')) k"
        using False by (auto simp: parts map_add_def split: option.split)
      moreover have "q \<noteq> ?p" if "map_of (rm_participants (rg_room r m')) k = Some q" for q
        using seat_facts(2) [OF inv map_of_SomeD [OF that]] by simp
      ultimately have "snd (view_of ?c m') k = snd (view_of r m') k"
        using sess by (auto simp: view_of_def bare_record map_option_case split: option.split)
      then show ?thesis using False by auto
    qed
    have "view_of ?c m' = ?W m'" for m'
      by (rule prod_eqI) (simp add: view_of_def atts, rule ext, rule people)
    then have V: "view_of ?c = ?W" by (rule ext)
    have "fed (fst (announce m ?p pid now ?c)) (es @ snd (announce m ?p pid now ?c))"
      by (rule announce_fed [OF t seats tiles ip V])
    then have "fed (fst (announce m ?p pid now ?c)) ((es @ snd (announce m ?p pid now ?c)) @
        (if fst (clearEmptyGraceLocked m ?s) then [OnRoomEmpty norm False] else []))"
      by (rule fed_quiet) simp
    then show ?thesis unfolding n(4) by (simp add: Let_def case_prod_unfold)
  qed (use fed in simp)
qed

subsection \<open>The writer and the ends of rooms\<close>

lemma stream_shorter:
  assumes t: "fed r es" and s: "rg_nextSess r' = rg_nextSess r" "\<And>m. rm_participants (rg_room r' m) = rm_participants (rg_room r m)"
    "\<And>m. rm_seq (rg_room r' m) = rm_seq (rg_room r m)" "view_of r' = view_of r"
    and q: "\<And>q. evicted_sess r' q = evicted_sess r q" "\<And>q. current r' q \<Longrightarrow> current r q \<and> sent_records r' es' q = sent_records r es q"
      "\<And>q. \<exists>rest. sent_records r es q = sent_records r' es' q @ rest"
    and d: "\<And>q. rg_nextSess r \<le> q \<Longrightarrow> delivered q es' = delivered q es"
  shows "fed r' es'"
  unfolding fed_def
proof (rule toldI)
  note t = t [unfolded fed_def]
  fix p
  show "delivered p es' = []" if "rg_nextSess r' \<le> p" using that toldD(1) [OF t] d s(1) by simp
  assume "p < rg_nextSess r'" "\<not> evicted_sess r' p"
  then have p: "p < rg_nextSess r" "\<not> evicted_sess r p" using s(1) q(1) by simp_all
  obtain pos where pos: "follow (sent_records r es p) None = Some pos"
    "\<And>m i. (i, p) \<in> set (rm_participants (rg_room r m)) \<Longrightarrow> current r p \<Longrightarrow> pos = Some (rm_seq (rg_room r m), view_of r m)"
    using toldD(2) [OF t p] by blast
  obtain pos' where pos': "follow (sent_records r' es' p) None = Some pos'"
    using pos(1) q(3) [of p] by (auto simp: follow_append split: option.splits)
  show "\<exists>pos. follow (sent_records r' es' p) None = Some pos \<and>
      (\<forall>m i. (i, p) \<in> set (rm_participants (rg_room r' m)) \<longrightarrow> p \<notin> {} \<longrightarrow> current r' p \<longrightarrow>
         pos = Some (rm_seq (rg_room r' m), view_of r' m))"
    unfolding s(2-4) using pos pos' q(2) [of p] by (intro exI [of _ pos']) auto
qed

lemma core_sess_view:
  assumes "\<And>s. core_sess (f s) = core_sess s"
  shows "view_of (upd_sess p f r) = view_of r"
  by (rule view_same_core, rule room_same_core_upd_sess, rule assms)

lemma write_fed:
  assumes fed: "fed r es" and inv: "room_inv {} r" and p: "p < rg_nextSess r"
  shows "fed (fst (write_next ok p now r)) (es @ snd (write_next ok p now r))"
proof (cases "pt_writing (rg_sess r p)")
  case w: True
  show ?thesis
  proof (cases "pt_outbox (rg_sess r p)")
    case (Cons x rest)
    show ?thesis
    proof (cases x)
      case None
      let ?f = "\<lambda>s :: RoomSession. s\<lparr>pt_outbox := rest, pt_writing := False\<rparr>"
      have core: "core_sess (?f s) = core_sess s" for s by (simp add: core_sess_def)
      have "fed (upd_sess p ?f r) es"
        by (rule stream_shorter [OF fed])
          (auto simp: core_sess_view [OF core] evicted_sess_def current_def sent_records_def Cons None)
      then have f: "fed (upd_sess p ?f r) (es @ [CloseConn p (pt_closeCode (rg_sess r p))])"
        by (rule fed_quiet) simp
      have inv': "room_inv {} (upd_sess p ?f r)"
        by (rule room_same_core_inv [OF inv room_same_core_upd_sess]) (rule core)
      show ?thesis
        using leave_fed [OF f inv', of p now] p w Cons None by (simp add: write_next_def Let_def)
    next
      case (Some rec)
      show ?thesis
      proof (cases ok)
        case True
        let ?f = "\<lambda>s :: RoomSession. s\<lparr>pt_outbox := rest\<rparr>"
        have core: "core_sess (?f s) = core_sess s" for s by (simp add: core_sess_def)
        have "fed (upd_sess p ?f r) (es @ [WriteRecord p rec True])"
          by (rule stream_shorter [OF fed])
            (use p in \<open>auto simp: core_sess_view [OF core] evicted_sess_def current_def sent_records_def Cons Some w\<close>)
        then show ?thesis using w Cons Some True by (simp add: write_next_def Let_def)
      next
        case False
        let ?f = "\<lambda>s :: RoomSession. s\<lparr>pt_outbox := rest, pt_writing := False\<rparr>"
        have core: "core_sess (?f s) = core_sess s" for s by (simp add: core_sess_def)
        have "fed (upd_sess p ?f r) (es @ [WriteRecord p rec False, CloseConn p 500])"
          by (rule stream_shorter [OF fed])
            (use p in \<open>auto simp: core_sess_view [OF core] evicted_sess_def current_def sent_records_def Cons Some w\<close>)
        then show ?thesis using w Cons Some False by (simp add: write_next_def Let_def)
      qed
    qed
  qed (use w fed in \<open>simp add: write_next_def\<close>)
qed (simp add: write_next_def fed)

lemma write_stops_fed:
  assumes fed: "fed r es"
  shows "fed (fst (write_stops p r)) (es @ snd (write_stops p r))"
proof (cases "pt_closed (rg_sess r p)")
  case True
  let ?f = "\<lambda>s :: RoomSession. s\<lparr>pt_writing := False\<rparr>"
  have core: "core_sess (?f s) = core_sess s" for s by (simp add: core_sess_def)
  have "fed (upd_sess p ?f r) es"
    by (rule stream_shorter [OF fed]) (auto simp: core_sess_view [OF core] evicted_sess_def current_def sent_records_def)
  then show ?thesis using True by (simp add: write_stops_def)
qed (simp add: write_stops_def fed)

lemma drain_fed:
  assumes fed: "fed r es"
  shows "fed (fst (closeAfterDrain code p r)) (es @ snd (closeAfterDrain code p r))"
proof -
  let ?f = "\<lambda>s :: RoomSession. s\<lparr>pt_closeCode := code, pt_outbox := pt_outbox s @ [None]\<rparr>"
  let ?g = "\<lambda>s :: RoomSession. s\<lparr>pt_closeCode := code\<rparr>"
  have core: "core_sess (?f s) = core_sess s" "core_sess (?g s) = core_sess s" for s by (simp_all add: core_sess_def)
  have f: "fed (upd_sess p ?f r) es"
    by (rule stream_shorter [OF fed])
      (auto simp: core_sess_view [OF core(1)] evicted_sess_def current_def sent_records_def queued_append)
  have "fed (upd_sess p ?g r) (es @ [CloseConn p code])"
    by (rule stream_shorter [OF fed])
      (auto simp: core_sess_view [OF core(2)] evicted_sess_def current_def sent_records_def)
  moreover have "upd_sess p (\<lambda>s. s\<lparr>pt_outbox := pt_outbox s @ [None]\<rparr>) (upd_sess p ?g r) = upd_sess p ?f r"
    by (simp add: upd_sess_def)
  ultimately show ?thesis using f by (simp add: closeAfterDrain_def Let_def)
qed

lemma fed_do_all:
  assumes "fed r es" "P r" "\<And>x r es. x \<in> set xs \<Longrightarrow> fed r es \<Longrightarrow> P r \<Longrightarrow> fed (fst (f x r)) (es @ snd (f x r)) \<and> P (fst (f x r))"
  shows "fed (fst (do_all f xs r)) (es @ snd (do_all f xs r)) \<and> P (fst (do_all f xs r))"
  using assms
proof (induction xs arbitrary: r es)
  case (Cons x xs)
  have "fed (fst (f x r)) (es @ snd (f x r)) \<and> P (fst (f x r))" using Cons.prems by simp
  then show ?case using Cons.IH [of "fst (f x r)" "es @ snd (f x r)"] Cons.prems(3) by simp
qed simp

lemma end_room_fed:
  assumes fed: "fed r es" and inv: "room_inv X r"
  shows "fed (fst (end_room m norm reason now r)) (es @ snd (end_room m norm reason now r))"
  unfolding end_room_eq
proof (rule fed_also)
  let ?r = "ending_state m norm r" and ?ev = "(event RoomEventRoomEnding)\<lparr>re_Reason := reason\<rparr>"
  note oth = ending_state_other
  have flds: "rm_participants (ended_room rm) = rm_participants rm" "rm_attachments (ended_room rm) = rm_attachments rm"
    "rm_seq (ended_room rm) = rm_seq rm" for rm by (simp_all add: ended_room_def)
  have parts: "rm_participants (rg_room ?r m') = rm_participants (rg_room r m')" for m' by (simp add: oth flds)
  have seats: "seats_ok ?r" using inv unfolding room_inv_def seats_ok_def parts oth(3-5) by blast
  have v: "view_of ?r = view_of r" by (simp add: view_of_def bare_record oth flds fun_eq_iff)
  have "told {} (view_of r) ?r (es @ [])"
    using fed unfolding fed_def by (rule told_same) (simp_all add: same_feed_def oth flds)
  then have t: "told {} ((view_of r)(m := apply_event ?ev (view_of r m)))
      (fst (broadcastLocked m ?ev 0 now ?r)) (es @ snd (broadcastLocked m ?ev 0 now ?r))"
    unfolding append_Nil2 by (rule told_all [OF seats]) (use plain_ending in \<open>simp_all add: event_shapes\<close>)
  have w: "view_of (fst (broadcastLocked m ?ev 0 now ?r)) = view_of ?r" by (rule view_same_core) simp
  have "(view_of r)(m := apply_event ?ev (view_of r m)) = view_of r"
    by (simp add: apply_event_def Let_def case_prod_unfold event_shapes)
  then show "fed (fst (broadcastLocked m ?ev 0 now ?r)) (es @ snd (broadcastLocked m ?ev 0 now ?r))"
    using t by (intro told_fed) (simp_all add: w v)
qed (simp add: fed_quiet busRoomClosedLocked_def)

lemma EndRoom_fed:
  assumes fed: "fed r es" and inv: "room_inv X r"
  shows "fed (fst (EndRoom code reason now r)) (es @ snd (EndRoom code reason now r))"
proof (cases "NormalizeCode code")
  case (Inr norm)
  show ?thesis
  proof (cases "live_room r norm")
    case (Some m)
    have 1: "fed (fst (end_room m norm reason now r)) (es @ snd (end_room m norm reason now r))"
      by (rule end_room_fed [OF fed inv])
    have 2: "fed (fst (do_all (closeAfterDrain RoomCloseCodeEnded) ps r')) (es' @ snd (do_all (closeAfterDrain RoomCloseCodeEnded) ps r'))"
      if "fed r' es'" for ps r' es'
      by (rule fed_do_all [where P = "\<lambda>_. True", OF that, THEN conjunct1]) (simp_all add: drain_fed)
    let ?x = "also_do (end_room m norm reason now r)
        (\<lambda>r. do_all (closeAfterDrain RoomCloseCodeEnded) (map snd (rm_participants (rg_room r m))) r)"
    have 3: "fed (fst ?x) (es @ snd ?x)" by (rule fed_also [OF 1]) (rule 2)
    have "fed (fst ?x) ((es @ snd ?x) @ [OnRoomEnded norm reason])" by (rule fed_quiet [OF 3]) simp
    then show ?thesis unfolding EndRoom_def Inr Some sum.case option.case also_do_fst also_do_snd fst_conv snd_conv append_assoc .
  qed (simp add: EndRoom_def Inr fed)
qed (simp add: EndRoom_def fed)

end
