(* ===== verification/RoomFed.thy ===== *)
theory RoomFed
  imports RoomFollow
begin

section \<open>Every run is told\<close>

text \<open>
  The commands, the hooks, the walls and the new rooms, and then whole runs: at every moment
  the records that a participant has been given and those still in its queue lead to the
  room as the registry has it.
\<close>

subsection \<open>Commands\<close>

lemma tiles_distinct: "room_inv X r \<Longrightarrow> distinct (map at_id (rm_attachments (rg_room r m)))"
  using tiles_okD by (simp add: tiles_ok_def)

lemma tile_updated_parts: "rm_participants (rg_room (fst (tile_updated m i now r)) m') = rm_participants (rg_room r m')"
  by (simp add: tile_updated_def broadcast_room split: option.split)

lemma reattach_fed:
  assumes fed: "fed r es" and inv: "room_inv X r" and p: "seated r p"
    and q: "utf8_valid (aq_label q)" and e: "find_tile (rg_room r (pt_room (rg_sess r p))) (aq_id q) = Some e"
  shows "fed (fst (reattach p e q now r)) (es @ snd (reattach p e q now r))"
proof -
  let ?m = "pt_room (rg_sess r p)"
  let ?rm = "rg_room r ?m"
  have mem: "e \<in> set (rm_attachments ?rm)" "at_id e = aq_id q" using find_tile_Some [OF e] by auto
  define label where "label = (if aq_label q \<noteq> [] then uniqueLabelLocked ?rm (aq_label q) (aq_id q) else at_label e)"
  let ?f = "\<lambda>a. a\<lparr>at_ownerPID := pt_id (rg_sess r p), at_label := label,
      at_live := bs_Live (aq_state q), at_viewers := bs_Viewers (aq_state q)\<rparr>"
  have "a = e" if "at_id a = aq_id q" "a \<in> set (rm_attachments ?rm)" for a
    using tiles_okD [OF inv, of ?m] mem that by (simp add: tiles_ok_def distinct_map inj_on_def)
  then have inv1: "room_inv X (set_tile ?m (aq_id q) ?f r)"
    using q by (intro set_tile_inv_new_label [OF inv, where label = "aq_label q"]) (auto simp: label_def)
  let ?x = "tile_updated ?m (aq_id q) now (set_tile ?m (aq_id q) ?f r)"
  have x: "fed (fst ?x) (es @ snd ?x)"
    by (rule set_tile_fed [OF fed inv1 e tiles_distinct [OF inv]]) simp
  have "reattach p e q now r = also_do ?x (person_updated ?m p now)"
    by (simp add: reattach_def Let_def label_def)
  moreover have "fed (fst (also_do ?x (person_updated ?m p now))) (es @ snd (also_do ?x (person_updated ?m p now)))"
  proof (rule fed_also [OF x])
    fix r' es' assume f: "fed r' es'" and r': "r' = fst ?x"
    have "(pt_id (rg_sess r p), p) \<in> set (rm_participants (rg_room r' ?m))"
      using seatedD [OF p] by (simp add: r' tile_updated_parts set_tile_def)
    moreover have "seats_ok r'" unfolding r' by (rule seats_ok_inv, rule tile_updated_inv, rule inv1)
    ultimately show "fed (fst (person_updated ?m p now r')) (es' @ snd (person_updated ?m p now r'))"
      using person_fed [OF f] by blast
  qed
  ultimately show ?thesis by simp
qed

lemma tile_told_keeps:
  "rm_participants (rg_room (fst (tile_told m i label state owner now r)) m') = rm_participants (rg_room r m')"
  by (simp add: tile_told_def broadcast_room attach_keeps)

lemma tile_told_inv:
  "room_inv X (fst (attachLocked m i label state owner now r)) \<Longrightarrow> room_inv X (fst (tile_told m i label state owner now r))"
  unfolding tile_told_def also_do_fst by (rule broadcast_inv)

lemma new_attach_fed:
  assumes fed: "fed r es" and p: "seated r p"
    and inv: "room_inv X (fst (attachLocked (pt_room (rg_sess r p)) (aq_id q) (aq_label q) (aq_state q) (pt_id (rg_sess r p)) now r))"
  shows "fed (fst (new_attach p q now r)) (es @ snd (new_attach p q now r))"
proof -
  let ?m = "pt_room (rg_sess r p)"
  let ?x = "tile_told ?m (aq_id q) (aq_label q) (aq_state q) (pt_id (rg_sess r p)) now r"
  have "new_attach p q now r = also_do ?x (person_updated ?m p now)"
    by (simp add: new_attach_def tile_told_def Let_def)
  moreover have "fed (fst (also_do ?x (person_updated ?m p now))) (es @ snd (also_do ?x (person_updated ?m p now)))"
  proof (rule fed_also)
    show "fed (fst ?x) (es @ snd ?x)" by (rule tile_told_fed [OF fed inv])
    fix r' es' assume f: "fed r' es'" and r': "r' = fst ?x"
    have "(pt_id (rg_sess r p), p) \<in> set (rm_participants (rg_room r' ?m))"
      using seatedD [OF p] by (simp add: r' tile_told_keeps)
    moreover have "seats_ok r'" unfolding r' by (rule seats_ok_inv, rule tile_told_inv, rule inv)
    ultimately show "fed (fst (person_updated ?m p now r')) (es' @ snd (person_updated ?m p now r'))"
      using person_fed [OF f] by blast
  qed
  ultimately show ?thesis by simp
qed

lemma fed_notify: "fed (fst x) (es @ snd x) \<Longrightarrow> fed (fst (also_do x (notifyAttachments m))) (es @ snd (also_do x (notifyAttachments m)))"
  by (erule fed_also) (rule notify_fed)

lemma attach_commit_fed:
  assumes fed: "fed r es" and inv: "room_inv X r" and p: "in_session r p"
    and q: "valid_id (aq_id q)" "utf8_valid (aq_label q)"
    and plain: "\<not> is_wall (rg_room r (pt_room (rg_sess r p)))"
  shows "fed (fst (attach_commit p q now r)) (es @ snd (attach_commit p q now r))"
proof -
  let ?m = "pt_room (rg_sess r p)"
  let ?rm = "rg_room r ?m"
  note reject = reject_fed [OF fed inv p]
  show ?thesis
  proof (cases "rm_ended ?rm")
    case True
    then show ?thesis by (simp add: attach_commit_def fed)
  next
    case live: False
    then have seat: "seated r p" using p by (simp add: in_session_def)
    show ?thesis
    proof (cases "rg_attached r (aq_id q) \<noteq> None \<and> rg_attached r (aq_id q) \<noteq> Some (rm_code ?rm)")
      case True
      then show ?thesis unfolding attach_commit_def Let_def using live by (simp only: if_False if_True simp_thms reject)
    next
      case free: False
      show ?thesis
      proof (cases "find_tile ?rm (aq_id q)")
        case (Some e)
        have "fed (fst (reattach p e q now r)) (es @ snd (reattach p e q now r))"
          by (rule reattach_fed [OF fed inv seat q(2) Some])
        from fed_notify [OF this] show ?thesis
          unfolding attach_commit_def Let_def Some option.case using live free by (simp only: if_False simp_thms)
      next
        case None
        have m: "?m < rg_nextRoom r" using seated_room(1) [OF inv seat] .
        have a: "room_inv X (fst (attachLocked ?m (aq_id q) (aq_label q) (aq_state q) (pt_id (rg_sess r p)) now r))"
          by (rule attach_free_inv [OF inv m live plain free None q])
        show ?thesis
          unfolding attach_commit_def Let_def None option.case using live free
          by (simp only: if_False simp_thms reject fed_notify [OF new_attach_fed [OF fed seat a]] split: if_split)
      qed
    qed
  qed
qed

lemma command_detach_fed:
  assumes fed: "fed r es" and inv: "room_inv X r" and p: "in_session r p"
  shows "fed (fst (command_detach p cmd now r)) (es @ snd (command_detach p cmd now r))"
proof (cases "rm_ended (rg_room r (pt_room (rg_sess r p)))")
  case live: False
  let ?m = "pt_room (rg_sess r p)"
  note reject = reject_fed [OF fed inv p]
  show ?thesis
  proof (cases "find_tile (rg_room r ?m) (rc_BroadcastID cmd)")
    case None
    then show ?thesis using live reject by (simp add: command_detach_def Let_def)
  next
    case (Some a)
    have "valid_id (at_id a)" using find_tile_Some [OF Some] tiles_okD [OF inv, of ?m] by (auto simp: tiles_ok_def)
    then have "fed (fst (drop_tile ?m a reason now r)) (es @ snd (drop_tile ?m a reason now r))" for reason
      by (rule drop_tile_fed [OF fed inv])
    note fed_notify [OF this]
    then show ?thesis
      unfolding command_detach_def Let_def Some option.case using live reject
      by (simp only: if_False simp_thms split: if_split)
  qed
qed (simp add: command_detach_def fed)

subsection \<open>Walls, hooks and the refresh\<close>

lemma vouch_insert_fed:
  assumes fed: "fed r es" and inv: "room_inv X r" and i: "valid_id i" and l: "utf8_valid label"
  shows "fed (fst (snd (vouch_insert norm pop i label state now r))) (es @ snd (snd (vouch_insert norm pop i label state now r)))"
proof (cases "live_room r norm")
  case (Some m)
  let ?rm = "rg_room r m"
  let ?a = "attachLocked m i label state 0 now r"
  let ?t = "tile_told m i label state 0 now r"
  have inv': "room_inv X (fst (snd (vouch_insert norm pop i label state now r)))" by (rule vouch_insert_inv [OF inv i l])
  show ?thesis
  proof (cases "rm_pop ?rm = [] \<or> rm_pop ?rm \<noteq> pop \<or> (rg_walls r i \<noteq> None \<and> rg_walls r i \<noteq> Some (rm_code ?rm))")
    case True
    then have "snd (vouch_insert norm pop i label state now r) = (r, [])"
      unfolding vouch_insert_def Some option.case Let_def by (simp only: if_True if_False if_distrib [of snd] snd_conv de_Morgan_disj split: if_split) blast
    then show ?thesis using fed by simp
  next
    case False
    then have n: "\<not> (rm_pop ?rm = [] \<or> rm_pop ?rm \<noteq> pop)" "\<not> (rg_walls r i \<noteq> None \<and> rg_walls r i \<noteq> Some (rm_code ?rm))"
      by blast+
    show ?thesis
    proof (cases "find_tile ?rm i")
      case None
      show ?thesis
      proof (cases "int (length (rm_attachments ?rm)) \<ge> broadcast_limit r ?rm")
        case full: True
        have "snd (vouch_insert norm pop i label state now r) = (r, [])"
          unfolding vouch_insert_def Some option.case Let_def None using n full by (simp only: if_False if_True snd_conv)
        then show ?thesis using fed by simp
      next
        case room: False
        have eq: "snd (vouch_insert norm pop i label state now r) = also_do ?t (notifyAttachments m)"
          unfolding vouch_insert_def Some option.case Let_def None tile_told_def using n room by (simp only: if_False snd_conv)
        have "room_inv X (fst ?t)" using inv' unfolding eq also_do_fst room_same_core_notify .
        then have "room_inv X (fst ?a)"
          by (rule room_same_core_inv) (rule room_same_core_sym, simp add: tile_told_def)
        then show ?thesis unfolding eq by (intro fed_notify tile_told_fed [OF fed])
      qed
    next
      case e: (Some e)
      let ?f = "\<lambda>a. a\<lparr>at_label := uniqueLabelLocked ?rm label i\<rparr>"
      have old: "room_inv X (set_tile m i ?f r)"
        by (rule set_tile_inv_new_label [OF inv, where label = label]) (simp_all add: l)
      have upd: "fed (fst (tile_updated m i now (set_tile m i ?f r))) (es @ snd (tile_updated m i now (set_tile m i ?f r)))"
        by (rule set_tile_fed [OF fed old e tiles_distinct [OF inv]]) simp
      have eq: "snd (vouch_insert norm pop i label state now r) =
          (if label \<noteq> [] \<and> label \<noteq> at_label e then tile_updated m i now (set_tile m i ?f r) else (r, []))"
        unfolding vouch_insert_def Some option.case Let_def e using n by (simp only: if_False snd_conv)
      show ?thesis unfolding eq using upd fed by simp
    qed
  qed
qed (simp add: vouch_insert_def fed)

lemma DetachVouched_fed:
  assumes fed: "fed r es" and inv: "room_inv X r"
  shows "fed (fst (snd (DetachVouched code pop i now r))) (es @ snd (snd (DetachVouched code pop i now r)))"
proof -
  have "snd (DetachVouched code pop i now r) = (r, []) \<or> (\<exists>m j. valid_id j \<and>
      snd (DetachVouched code pop i now r) = also_do (removeAttachmentLocked m j RoomDetachReasonPublisher now r) (notifyAttachments m))"
    by (auto simp: DetachVouched_def Let_def Normalize_Inr_iff split: sum.splits option.splits)
  then show ?thesis
    using fed fed_notify [OF removal_fed [OF fed inv]] by auto
qed

lemma change_tile_fed:
  assumes fed: "fed r es" and inv: "room_inv X r" and a: "find_tile (rg_room r m) i = Some a"
    and f: "\<And>a. at_id (f a) = at_id a" "\<And>a. at_label (f a) = at_label a"
  shows "fed (fst (tile_updated m i now (set_tile m i f r))) (es @ snd (tile_updated m i now (set_tile m i f r)))"
  by (rule set_tile_fed [OF fed set_tile_inv_same_label [OF inv f] a tiles_distinct [OF inv] f(1)])

lemma set_live_fed:
  assumes "fed r es" "room_inv X r"
  shows "fed (fst (set_live norm live now m r)) (es @ snd (set_live norm live now m r))"
  using assms(1) change_tile_fed [OF assms, where f = "\<lambda>a. a\<lparr>at_live := live\<rparr>"]
  by (simp add: set_live_def split: option.split)

lemma setLive_fed:
  assumes fed: "fed r es" and inv: "room_inv X r"
  shows "fed (fst (setLive i live now r)) (es @ snd (setLive i live now r))"
proof (cases "Normalize i")
  case (Inr norm)
  have "fed (fst (do_all (set_live norm live now) ms r)) (es @ snd (do_all (set_live norm live now) ms r))" for ms
    by (rule fed_do_all [where P = "room_inv X", OF fed inv, THEN conjunct1]) (blast intro: set_live_fed set_live_inv)
  then show ?thesis by (simp add: setLive_def Inr)
qed (simp add: setLive_def fed)

lemma expire_in_fed:
  assumes "fed r es" "room_inv X r"
  shows "fed (fst (expire_in norm now m r)) (es @ snd (expire_in norm now m r))"
proof (cases "find_tile (rg_room r m) norm")
  case (Some a)
  then have "valid_id (at_id a)" using find_tile_Some [OF Some] tiles_okD [OF assms(2), of m] by (auto simp: tiles_ok_def)
  from drop_tile_fed [OF assms this] Some show ?thesis by (simp add: expire_in_def)
qed (simp add: expire_in_def assms)

lemma notify_delivers [simp]: "delivered p (snd (do_all notifyAttachments ms r)) = []"
  by (induction ms arbitrary: r) (simp_all add: notifyAttachments_def Let_def)

lemma BroadcastExpired_fed:
  assumes fed: "fed r es" and inv: "room_inv X r"
  shows "fed (fst (room_BroadcastExpired i now r)) (es @ snd (room_BroadcastExpired i now r))"
proof (cases "Normalize i")
  case (Inr norm)
  let ?ms = "roomsOfLocked norm r"
  let ?P = "\<lambda>r'. room_inv X r' \<and> (\<forall>m \<in> set ?ms. live_at r' m)"
  let ?x = "do_all (expire_in norm now) ?ms r"
  have "?P r" using inv roomsOf_live by blast
  then have "fed (fst ?x) (es @ snd ?x)"
    by (rule fed_do_all [where P = ?P, OF fed, THEN conjunct1]) (blast intro: expire_in_fed expire_in_inv)
  then have "fed (fst ?x) ((es @ snd ?x) @ snd (do_all notifyAttachments ?ms (fst ?x)))" by (rule fed_quiet) simp
  then show ?thesis by (simp add: room_BroadcastExpired_def Inr Let_def notify_all)
qed (simp add: room_BroadcastExpired_def fed)

lemma refresh_probe_fed:
  assumes fed: "fed r es" and inv: "room_inv X r"
  shows "fed (fst (refresh_probe src now pr r)) (es @ snd (refresh_probe src now pr r))"
proof -
  obtain m i state known where pr: "pr = (m, i)" "src i = (state, known)" by (metis prod.exhaust)
  show ?thesis
    using fed BroadcastExpired_fed [OF fed inv]
      change_tile_fed [OF fed inv, where f = "\<lambda>a. a\<lparr>at_live := bs_Live state, at_viewers := bs_Viewers state\<rparr>"]
    by (simp add: refresh_probe_def pr split: option.split)
qed

lemma empty_timer_fed:
  assumes "fed r es" "room_inv X r"
  shows "fed (fst (empty_timer_fires code m gen now r)) (es @ snd (empty_timer_fires code m gen now r))"
  using EndRoom_fed [OF assms] assms(1) by (simp add: empty_timer_fires_def)

subsection \<open>Static rooms\<close>

lemma gone_told:
  assumes "told {} V r es" "seats_ok r" "\<forall>a \<in> set gone. valid_id (at_id a)"
  shows "told {} (V(m := (filter (\<lambda>x. ra_BroadcastID x \<notin> at_id ` set gone) (fst (V m)), snd (V m))))
      (fst (do_all (\<lambda>a. broadcastLocked m (removed_event (at_id a) reason) 0 now) gone r))
      (es @ snd (do_all (\<lambda>a. broadcastLocked m (removed_event (at_id a) reason) 0 now) gone r))"
  using assms
proof (induction gone arbitrary: V r es)
  case (Cons a gone)
  let ?b = "broadcastLocked m (removed_event (at_id a) reason) 0 now r"
  let ?V = "V(m := apply_event (removed_event (at_id a) reason) (V m))"
  have same: "room_same_core r (fst ?b)" by simp
  have t1: "told {} ?V (fst ?b) (es @ snd ?b)"
    by (rule told_all [OF Cons.prems(2,1)]) (use Cons.prems(3) plain_removed in \<open>simp_all add: event_shapes\<close>)
  have s1: "seats_ok (fst ?b)" using Cons.prems(2) seats_same_core [OF same] by simp
  have "told {} (?V(m := (filter (\<lambda>x. ra_BroadcastID x \<notin> at_id ` set gone) (fst (?V m)), snd (?V m))))
      (fst (do_all (\<lambda>a. broadcastLocked m (removed_event (at_id a) reason) 0 now) gone (fst ?b)))
      ((es @ snd ?b) @ snd (do_all (\<lambda>a. broadcastLocked m (removed_event (at_id a) reason) 0 now) gone (fst ?b)))"
    by (rule Cons.IH [OF t1 s1]) (use Cons.prems(3) in simp)
  moreover have "?V(m := (filter (\<lambda>x. ra_BroadcastID x \<notin> at_id ` set gone) (fst (?V m)), snd (?V m))) =
      V(m := (filter (\<lambda>x. ra_BroadcastID x \<notin> at_id ` set (a # gone)) (fst (V m)), snd (V m)))"
    by (simp add: apply_event_def Let_def case_prod_unfold event_shapes conj_commute)
  ultimately show ?case by (simp only: do_all.simps also_do_fst also_do_snd append_assoc)
qed simp

lemma rekind_fed:
  assumes fed: "fed r es" and inv: "room_inv X r" and m: "m < rg_nextRoom r" "\<not> rm_ended (rg_room r m)"
    and turns: "is_wall (rg_room r m) \<noteq> (pop \<noteq> [])"
  shows "fed (fst (rekindLocked m pop now r)) (es @ snd (rekindLocked m pop now r))"
proof -
  let ?rm = "rg_room r m"
  let ?was = "is_wall ?rm" and ?code = "rm_code ?rm" and ?as = "rm_attachments ?rm"
  have will: "(pop \<noteq> []) = (\<not> ?was)" using turns by auto
  obtain r1 keep gone where rk: "rekind_tiles ?was (\<not> ?was) ?code ?as r = (r1, keep, gone)"
    by (metis prod_cases3)
  note oth = rekind_tiles_other [OF rk]
  have at: "room_at r ?code = Some m" by (rule live_registered [OF inv m])
  have notmine: "slots (\<not> ?was) r j \<noteq> Some ?code" for j
    using slot_iff [OF inv, of "\<not> ?was" j ?code] at by auto
  have spec: "keep = filter (\<lambda>a. slots (\<not> ?was) r (at_id a) = None) ?as"
    "gone = filter (\<lambda>a. slots (\<not> ?was) r (at_id a) \<noteq> None) ?as"
    using rekind_tiles_spec [OF rk tiles_distinct [OF inv] notmine] by blast+
  let ?r = "upd_room m (\<lambda>rm. rm\<lparr>rm_pop := pop, rm_attachments := keep\<rparr>) r1"
  let ?x = "do_all (\<lambda>a. broadcastLocked m (removed_event (at_id a) RoomDetachReasonPublisher) 0 now) gone ?r"
  have eq: "rekindLocked m pop now r = ?x" using rk will by (simp add: rekindLocked_def Let_def)
  have parts: "rm_participants (rg_room ?r m') = rm_participants (rg_room r m')" for m' by (simp add: oth)
  have seats: "seats_ok ?r" using seats_ok_inv [OF inv] unfolding seats_ok_def parts by (simp add: oth)
  have valid: "\<forall>a \<in> set gone. valid_id (at_id a)" using tiles_okD [OF inv, of m] spec(2) by (simp add: tiles_ok_def)
  let ?V = "(view_of r)(m := (filter (\<lambda>x. ra_BroadcastID x \<notin> at_id ` set gone) (fst (view_of r m)), snd (view_of r m)))"
  have "told {} (view_of r) ?r (es @ [])"
    using fed unfolding fed_def by (rule told_same) (simp_all add: same_feed_def oth)
  then have "told {} (view_of r) ?r es" by simp
  from gone_told [OF this seats valid] have t: "told {} ?V (fst ?x) (es @ snd ?x)" .
  have "room_same_core ?r (fst ?x)" by (rule room_same_core_do_all) simp
  then have w: "view_of (fst ?x) = view_of ?r" by (rule view_same_core)
  have tiles: "filter (\<lambda>x. ra_BroadcastID x \<notin> at_id ` set gone) (map tile_record ?as) = map tile_record keep"
    unfolding spec filter_map comp_def
  proof (rule arg_cong [where f = "map tile_record"], rule filter_cong [OF refl])
    fix a assume "a \<in> set ?as"
    then show "(ra_BroadcastID (tile_record a) \<notin> at_id ` set (filter (\<lambda>a. slots (\<not> ?was) r (at_id a) \<noteq> None) ?as)) =
        (slots (\<not> ?was) r (at_id a) = None)"
      by (auto simp: tile_record_def)
  qed
  have v: "view_of ?r m' = ?V m'" for m'
    using tiles by (simp add: view_of_def bare_record oth)
  show ?thesis unfolding eq by (rule told_fed [OF t]) (simp only: v w)
qed

lemma pop_fed:
  assumes "fed r es"
  shows "fed (upd_room m (\<lambda>rm. rm\<lparr>rm_pop := pop\<rparr>) r) es"
proof -
  have "fed (upd_room m (\<lambda>rm. rm\<lparr>rm_pop := pop\<rparr>) r) (es @ [])"
    by (rule fed_same [OF assms]) (simp_all add: same_feed_def view_of_def bare_record)
  then show ?thesis by simp
qed

lemma update_static_fed:
  assumes fed: "fed r es" and inv: "room_inv X r" and m: "live_at r m"
  shows "fed (fst (fst (update_static m display def now r))) (es @ snd (fst (update_static m display def now r)))"
proof -
  let ?r = "upd_room m (\<lambda>rm. rm\<lparr>rm_display := display, rm_name := sr_DisplayName def,
      rm_attachSecret := sr_AttachSecret def, rm_maxBroadcasts := sr_MaxBroadcasts def,
      rm_maxParticipants := sr_MaxParticipants def\<rparr>) r"
  let ?k = "if is_wall (rg_room ?r m) \<noteq> (sr_Pop def \<noteq> []) then rekindLocked m (sr_Pop def) now ?r else (?r, [])"
  have inv1: "room_inv X ?r"
    by (rule room_same_core_inv [OF inv room_same_core_upd_room]) (simp add: core_room_def)
  have "fed ?r (es @ [])" by (rule fed_same [OF fed]) (simp_all add: same_feed_def view_of_def bare_record)
  then have fed1: "fed ?r es" by simp
  have m': "m < rg_nextRoom ?r" "\<not> rm_ended (rg_room ?r m)" using m by (simp_all add: live_at_def)
  have k: "fed (fst ?k) (es @ snd ?k)" using fed1 rekind_fed [OF fed1 inv1 m'] by (simp split: if_split)
  have "fst (update_static m display def now r) = also_do ?k (\<lambda>r. (upd_room m (\<lambda>rm. rm\<lparr>rm_pop := sr_Pop def\<rparr>) r, []))"
    by (simp only: update_static_def Let_def fst_conv)
  moreover have "fed (fst (also_do ?k (\<lambda>r. (upd_room m (\<lambda>rm. rm\<lparr>rm_pop := sr_Pop def\<rparr>) r, []))))
      (es @ snd (also_do ?k (\<lambda>r. (upd_room m (\<lambda>rm. rm\<lparr>rm_pop := sr_Pop def\<rparr>) r, []))))"
    by (rule fed_also [OF k]) (simp only: fst_conv snd_conv append_Nil2 pop_fed)
  ultimately show ?thesis by simp
qed

subsection \<open>New rooms\<close>

lemma nobody_new:
  assumes "room_inv X r"
  shows "rm_participants (rg_room r (rg_nextRoom r)) = []"
proof (rule ccontr)
  assume "rm_participants (rg_room r (rg_nextRoom r)) \<noteq> []"
  then obtain i p where ip: "(i, p) \<in> set (rm_participants (rg_room r (rg_nextRoom r)))" by (metis list.set_intros(1) neq_Nil_conv surj_pair)
  show False using seat_facts(2,3) [OF assms ip] assms by (auto simp: room_inv_def seats_ok_def)
qed

lemma add_room_fed:
  assumes fed: "fed r es" and inv: "room_inv X r" and rm: "rm_participants rm = []"
  shows "fed (add_room norm rm r) es"
proof -
  have "fed (add_room norm rm r) (es @ [])"
    by (rule fed_same [OF fed])
      (use nobody_new [OF inv] rm in \<open>auto simp: same_feed_def add_room_def view_of_def bare_record\<close>)
  then show ?thesis by simp
qed

lemma attach_empty_fed:
  assumes fed: "fed r es" and nobody: "rm_participants (rg_room r m) = []"
  shows "fed (fst (attachLocked m i label state owner now r)) (es @ snd (attachLocked m i label state owner now r))"
  by (rule fed_same [OF fed attach_same_feed]) (use nobody in \<open>auto simp: attach_view\<close>)

lemma seed_tiles_fed:
  assumes fed: "fed r es" and nobody: "rm_participants (rg_room r m) = []"
  shows "fed (fst (do_all (seed_tile m now) ss r)) (es @ snd (do_all (seed_tile m now) ss r))"
proof (rule fed_do_all [where P = "\<lambda>r. rm_participants (rg_room r m) = []", OF fed nobody, THEN conjunct1])
  fix s r' es' assume "fed r' es'" "rm_participants (rg_room r' m) = []"
  then show "fed (fst (seed_tile m now s r')) (es' @ snd (seed_tile m now s r')) \<and>
      rm_participants (rg_room (fst (seed_tile m now s r')) m) = []"
    by (simp add: seed_tile_keeps) (simp add: seed_tile_def attach_empty_fed)
qed

lemma start_grace_fed:
  assumes "fed r es"
  shows "fed (startEmptyGraceLocked m now r) es"
proof -
  have "fed (startEmptyGraceLocked m now r) (es @ [])"
    by (rule fed_same [OF assms]) (auto simp: same_feed_def startEmptyGraceLocked_def Let_def view_of_def bare_record)
  then show ?thesis by simp
qed

lemma create_static_fed:
  assumes "fed r es" "room_inv X r"
  shows "fed (fst (create_static norm display def ss now r)) (es @ snd (create_static norm display def ss now r))"
  unfolding create_static_def Let_def
  by (rule seed_tiles_fed [OF add_room_fed [OF assms]]) (simp_all add: add_room_def blank_room_def)

lemma UpsertStatic_fed:
  assumes fed: "fed r es" and inv: "room_inv X r"
  shows "fed (fst (snd (UpsertStatic def src now r))) (es @ snd (snd (UpsertStatic def src now r)))"
proof (cases "NormalizeCode (sr_Code def)")
  case (Inr norm)
  let ?d = "if sr_DisplayCode def = [] then TrimSpace (sr_Code def) else sr_DisplayCode def"
  show ?thesis
  proof (cases "room_at r norm")
    case None
    show ?thesis
      unfolding UpsertStatic_def Inr sum.case Let_def None option.case snd_conv
      by (rule create_static_fed [OF fed inv])
  next
    case (Some m)
    have "live_at r m" using registered_facts [OF inv Some] by (simp add: live_at_def)
    note upd = update_static_fed [OF fed inv this, of ?d def now]
    have "snd (UpsertStatic def src now r) = (if rm_kind (rg_room r m) \<noteq> KindStatic then (r, [])
        else let x = update_static m ?d def now r in if snd x then also_do (fst x) (notifyAttachments m) else fst x)"
      unfolding UpsertStatic_def Inr sum.case Let_def Some option.case by (simp add: case_prod_unfold)
    then show ?thesis using upd fed fed_notify [OF upd] by (simp only: Let_def split: if_split) simp
  qed
qed (simp add: UpsertStatic_def fed)

lemma mint_insert_fed:
  assumes fed: "fed r es" and inv: "room_inv X r" and rm: "rm_participants rm = []"
  shows "fed (fst (mint_insert q rm now r)) (es @ snd (mint_insert q rm now r))"
  unfolding mint_insert_def Let_def
proof (rule fed_notify, rule fed_also)
  let ?r = "add_room (rm_code rm) rm r"
  show "fed (fst (attachLocked (rg_nextRoom r) (mg_id q) (mg_label q) (mg_state q) 0 now ?r))
      (es @ snd (attachLocked (rg_nextRoom r) (mg_id q) (mg_label q) (mg_state q) 0 now ?r))"
    by (rule attach_empty_fed [OF add_room_fed [OF fed inv rm]]) (simp add: add_room_def rm)
  fix r' es' assume "fed r' es'"
  then have "fed (startEmptyGraceLocked (rg_nextRoom r) now r') es'" by (rule start_grace_fed)
  then have "fed (upd_room (rg_nextRoom r) (\<lambda>rm. rm\<lparr>rm_openedPublished := True\<rparr>) (startEmptyGraceLocked (rg_nextRoom r) now r'))
      (es' @ busRoomOpenedLocked rm)"
    by (rule fed_same) (simp_all add: same_feed_def view_of_def bare_record busRoomOpenedLocked_def)
  then show "fed (fst (upd_room (rg_nextRoom r) (\<lambda>rm. rm\<lparr>rm_openedPublished := True\<rparr>) (startEmptyGraceLocked (rg_nextRoom r) now r'),
      busRoomOpenedLocked rm)) (es' @ snd (upd_room (rg_nextRoom r) (\<lambda>rm. rm\<lparr>rm_openedPublished := True\<rparr>)
        (startEmptyGraceLocked (rg_nextRoom r) now r'), busRoomOpenedLocked rm))"
    by simp
qed

lemma mint_commit_fed:
  assumes fed: "fed r es" and inv: "room_inv X r" and rm: "rm_participants rm = []"
  shows "fed (fst (snd (mint_commit reserved q rm token now r))) (es @ snd (snd (mint_commit reserved q rm token now r)))"
  using mint_insert_fed [OF assms] fed_quiet [OF fed, of "[Unreserve (rm_code rm)]"] by (simp add: mint_commit_def)

lemma AdoptDynamic_fed:
  assumes fed: "fed r es" and inv: "room_inv X r"
  shows "fed (fst (snd (AdoptDynamic cr src now r))) (es @ snd (snd (AdoptDynamic cr src now r)))"
proof (cases "NormalizeCode (cr_Name cr)")
  case (Inr norm)
  show ?thesis
  proof (cases "room_at r norm = None")
    case True
    let ?m = "rg_nextRoom r"
    let ?rm = "blank_room\<lparr>rm_code := norm, rm_display := DisplayCode (Some cr), rm_kind := KindDynamic,
      rm_creatorFP := cr_CreatorTokenFingerprint cr,
      rm_createdAt := (case cr_CreatedAt cr of None \<Rightarrow> now | Some t \<Rightarrow> t),
      rm_rejoinUntil := now + rejoinWindow r\<rparr>"
    let ?pod = "case cr_LeaseHolder cr of None \<Rightarrow> [] | Some h \<Rightarrow> h"
    let ?r = "add_room norm ?rm r"
    let ?s = "do_all (seed_tile ?m now) (prefetchStates src (cr_Attachments cr)) ?r"
    have rm: "rm_participants ?rm = []" by (simp add: blank_room_def)
    have f: "fed ?r (es @ busHomeChangedLocked ?rm ?pod)"
      by (rule fed_quiet [OF add_room_fed [OF fed inv rm]]) (simp add: busHomeChangedLocked_def)
    have "rm_participants (rg_room ?r ?m) = []" by (simp add: add_room_def rm)
    from start_grace_fed [OF seed_tiles_fed [OF f this]] have
      "fed (startEmptyGraceLocked ?m now (fst ?s)) ((es @ busHomeChangedLocked ?rm ?pod) @ snd ?s)" .
    then show ?thesis
      unfolding AdoptDynamic_def Inr sum.case Let_def using True by simp
  qed (use fed in \<open>simp add: AdoptDynamic_def Inr\<close>)
qed (simp add: AdoptDynamic_def fed)

subsection \<open>Whole runs\<close>

lemma fed_init: "fed (NewRoomRegistry opts tokens) []"
  by (simp add: fed_def told_def NewRoomRegistry_def)

lemma room_act_fed:
  assumes "room_act r x" "fed r es" "room_inv {} r"
  shows "fed (fst x) (es @ snd x)"
  using assms(1)
proof (cases rule: room_act.cases)
  case (act_attach p cmd src r0 q now)
  then show ?thesis
    using attach_commit_fed [OF assms(2,3), of p q now] attach_gate_ok [of p cmd src r0 q] by blast
next
  case (act_mint req src r0 q raw taken now rm token)
  then show ?thesis using mint_commit_fed [OF assms(2,3)] mint_check_Proceed(5) by blast
next
  case (act_mint_reserved req src r0 q raw taken now r1 rm token)
  then show ?thesis using mint_commit_fed [OF assms(2,3)] mint_check_Proceed(5) by blast
next
  case (act_release code)
  have "fed (ReleaseHome code r) (es @ [])"
    by (rule fed_same [OF assms(2)]) (auto simp: ReleaseHome_def same_feed_def view_of_def bare_record split: option.split)
  then show ?thesis using act_release by simp
next
  case (act_tokens t)
  have "fed (SetTokens t r) (es @ [])"
    by (rule fed_same [OF assms(2)]) (auto simp: SetTokens_def same_feed_def view_of_def bare_record)
  then show ?thesis using act_tokens by simp
next
  case (act_join code hello grants tok now res)
  then show ?thesis using join_fed [OF assms(2,3)] by blast
qed (use assms(2,3) in \<open>blast intro: UpsertStatic_fed end_room_fed drain_fed empty_timer_fed leave_fed write_fed
    write_stops_fed command_detach_fed nickname_fed resync_fed reject_fed vouch_insert_fed DetachVouched_fed
    setLive_fed BroadcastExpired_fed refresh_probe_fed AdoptDynamic_fed\<close>)+

lemma room_run_fed: "room_run r es \<Longrightarrow> fed r es"
proof (induction rule: room_run.induct)
  case (run_act r es r' es')
  then show ?case
    using room_act_fed [OF run_act.hyps(2) run_act.IH] room_reachable_inv [OF room_run_reachable] by simp
qed (rule fed_init)

end
