(* ===== verification/RoomExample.thy ===== *)
theory RoomExample
  imports RoomFed
begin

section \<open>A small room registry\<close>

text \<open>
  A lobby without an attach key, one participant who has joined it and then changed its
  nickname: a run in which the hypotheses of the properties of the rooms hold.
\<close>

definition demo_options :: RoomOptions where
  "demo_options = \<lparr>ro_EmptyGrace = 0, ro_MaxRooms = 0, ro_MaxBroadcasts = 0, ro_MaxParticipants = 0,
     ro_CreateSecret = [], ro_Obfuscate = (\<lambda>_. []), ro_RefreshInterval = 0, ro_UnknownIsExpired = False\<rparr>"

definition demo_code :: bytes where "demo_code = ascii ''lobby''"

definition demo_lobby :: StaticRoom where
  "demo_lobby = \<lparr>sr_Code = demo_code, sr_DisplayCode = [], sr_DisplayName = [], sr_AttachSecret = [],
     sr_MaxBroadcasts = 0, sr_MaxParticipants = 0, sr_Pop = [], sr_Attachments = []\<rparr>"

definition demo_source :: source where
  "demo_source = (\<lambda>_. (\<lparr>bs_Live = True, bs_Viewers = 3\<rparr>, True))"

definition demo_open :: acts where
  "demo_open = snd (UpsertStatic demo_lobby demo_source 0 (NewRoomRegistry demo_options None))"

definition demo_hello :: RoomHello where
  "demo_hello = \<lparr>rh_Protocol = 1, rh_ClientKind = 1, rh_WantCaps = 0, rh_Nickname = ascii ''ann''\<rparr>"

definition demo_grants :: Grants where
  "demo_grants = \<lparr>g_Creator = False, g_AttachOK = True, g_VouchedBy = Some (\<lambda>_. True)\<rparr>"

definition demo_room :: room where
  "demo_room = blank_room\<lparr>rm_code := demo_code, rm_display := demo_code, rm_createdAt := 0\<rparr>"

definition demo_rooms :: RoomRegistry where
  "demo_rooms = add_room demo_code demo_room (NewRoomRegistry demo_options None)"

lemma demo_code_norm: "NormalizeCode demo_code = Inr demo_code" "TrimSpace demo_code = demo_code"
  by code_simp+

lemma demo_opened: "demo_open = (demo_rooms, [])"
proof -
  have at: "room_at (NewRoomRegistry demo_options None) demo_code = None" by (simp add: room_at_def NewRoomRegistry_def)
  show ?thesis
    by (simp add: demo_open_def UpsertStatic_def demo_lobby_def demo_code_norm at Let_def create_static_def
        prefetchStates_def demo_rooms_def demo_room_def blank_room_def)
qed

lemma demo_rooms_facts:
  "live_room demo_rooms demo_code = Some 0" "rg_room demo_rooms 0 = demo_room" "rg_nextSess demo_rooms = 0"
  "rg_sess demo_rooms = (\<lambda>_. no_session)" "rg_nextRoom demo_rooms = 1" "room_at demo_rooms demo_code = Some 0"
  "rg_opts demo_rooms = rg_opts (NewRoomRegistry demo_options None)" "participantLimit demo_rooms demo_room = 50"
  by (simp_all add: demo_rooms_def add_room_def NewRoomRegistry_def live_room_def room_at_def demo_room_def
      blank_room_def participantLimit_def demo_options_def or_unset_def DefaultMaxParticipants_def)

lemma demo_room_facts: "rm_participants demo_room = []" "rm_nextPID demo_room = 1" "rm_emptyTimer demo_room = False"
  "rm_ended demo_room = False" "rm_attachments demo_room = []" "rm_seq demo_room = 0" "rm_kind demo_room = KindStatic"
  "rm_display demo_room = demo_code" "rm_name demo_room = []" "rm_code demo_room = demo_code"
  by (simp_all add: demo_room_def blank_room_def)

lemma free_pid_first: "pid \<noteq> 0 \<Longrightarrow> pid \<notin> set live \<Longrightarrow> free_pid 65536 live pid = Some pid"
  using free_pid.simps(2) [of 65535 live pid] by simp

text \<open>The join: the session is number 0 and the participant number 1.\<close>

definition demo_seated :: RoomRegistry where
  "demo_seated = seat 0 1 demo_hello demo_grants [] demo_rooms"

definition demo_session :: RoomSession where
  "demo_session = new_session 0 1 demo_hello demo_grants [] (ascii ''ann'')"

lemma demo_nick: "uniqueNickLocked demo_rooms demo_room (ascii ''ann'') 1 = ascii ''ann''"
proof -
  have "uniqueNick [] (ascii ''ann'') 1 = Some (ascii ''ann'')" by code_simp
  then show ?thesis by (simp add: uniqueNickLocked_def demo_room_facts name_or_empty_def)
qed

lemma demo_seated_facts:
  "rg_sess demo_seated 0 = demo_session" "rg_nextSess demo_seated = 1"
  "rg_room demo_seated 0 = demo_room\<lparr>rm_nextPID := 2, rm_participants := [(1, 0)]\<rparr>"
  "rg_opts demo_seated = rg_opts (NewRoomRegistry demo_options None)"
  by (simp_all add: demo_seated_def seat_def Let_def demo_rooms_facts demo_hello_def demo_nick demo_session_def
      demo_room_facts upd_room_def)

definition demo_counted :: RoomRegistry where
  "demo_counted = upd_room 0 (\<lambda>rm. rm\<lparr>rm_seq := rm_seq rm + 1\<rparr>) demo_seated"

lemma demo_record: "\<exists>rec. stateRecordLocked demo_counted (rg_room demo_counted 0) (rg_sess demo_counted 0) = Some rec"
proof -
  have "room_snapshot demo_counted (rg_room demo_counted 0) (rg_sess demo_counted 0) =
      \<lparr>rs_Flags = 4, rs_Caps = 0, rs_Seq = 1, rs_YourID = 1, rs_Code = demo_code, rs_DisplayName = [],
       rs_CreatorToken = [], rs_Key = [], rs_Attachments = [],
       rs_Participants = [\<lparr>rp_ID = 1, rp_Kind = 1, rp_Flags = 0, rp_Nickname = ascii ''ann'', rp_Identity = []\<rparr>]\<rparr>"
    by (simp add: room_snapshot_def state_flags_def roster_def recordLocked_def roomKey_def demo_counted_def
        demo_seated_facts demo_session_def new_session_def demo_grants_def demo_room_facts NewRoomRegistry_def
        demo_options_def RoomStateFlagAttachOK_def RoomKeySize_def demo_hello_def)
  moreover have "is_ok (AppendRoomState [] \<lparr>rs_Flags = 4, rs_Caps = 0, rs_Seq = 1, rs_YourID = 1, rs_Code = demo_code,
       rs_DisplayName = [], rs_CreatorToken = [], rs_Key = [], rs_Attachments = [],
       rs_Participants = [\<lparr>rp_ID = 1, rp_Kind = 1, rp_Flags = 0, rp_Nickname = ascii ''ann'', rp_Identity = []\<rparr>]\<rparr>)"
  proof -
    have "length demo_code = 5" "length (ascii ''ann'') = 3" "utf8_valid demo_code" "utf8_valid (ascii ''ann'')" "utf8_valid []"
      by code_simp+
    moreover have "demo_code \<noteq> []" by code_simp
    ultimately show ?thesis
      by (simp add: roomStateFlagMask_def AppendRoomState_eq room_state_ok_def participant_ok_def str_ok_def room_size_defs enc_room_state_def
          enc_participant_def enc_str8_def is_ok_def roomClientKindMax_def)
  qed
  moreover have "\<exists>rec. frame msg = Some rec" if "AppendRoomState [] st = Inr msg" for msg st
    using that by (auto simp: frame_def AppendRoomRecord_def AppendRoomState_eq split: if_splits)
  ultimately show ?thesis by (auto simp: stateRecordLocked_def is_ok_def split: sum.split)
qed

definition demo_joined :: acts where
  "demo_joined = announce 0 0 1 0 demo_seated"

lemma demo_join: "Join demo_code demo_hello demo_grants [] 0 demo_rooms = Some (Inr 0, demo_joined)"
proof -
  have "clearEmptyGraceLocked 0 demo_seated = (False, demo_seated)"
    by (simp add: clearEmptyGraceLocked_def demo_seated_facts demo_room_facts)
  then show ?thesis
    unfolding Join_def demo_code_norm sum.case demo_rooms_facts demo_room_facts option.case
    using free_pid_first [of 1 "[]"] by (simp add: demo_seated_def demo_joined_def also_do_def)
qed

lemma demo_joined_fst: "\<exists>rec. fst demo_joined =
    upd_sess 0 (\<lambda>s. s\<lparr>pt_firstState := []\<rparr>) (upd_sess 0 (\<lambda>s. s\<lparr>pt_outbox := [Some rec]\<rparr>) demo_counted)"
proof -
  let ?b = "broadcastLocked 0 (person_event RoomEventParticipantJoined (recordLocked (rg_room demo_seated 0) (rg_sess demo_seated 0)))
      1 0 demo_seated"
  have "members_but 1 (rg_room demo_counted 0) = []"
    by (simp add: members_but_def demo_counted_def demo_seated_facts)
  then have b: "fst ?b = demo_counted"
    unfolding broadcastLocked_def Let_def demo_counted_def [symmetric] by (simp split: sum.split)
  have "pt_outbox (rg_sess demo_counted 0) = []"
    by (simp add: demo_counted_def demo_seated_facts demo_session_def new_session_def)
  then show ?thesis
    using demo_record unfolding demo_joined_def announce_def also_do_fst fst_conv b enqueue_fst
    by (auto simp: enqueue_sess_def outboxDepth_def upd_sess_def)
qed

text \<open>The record is written.\<close>

definition demo_written :: acts where
  "demo_written = write_next True 0 0 (fst demo_joined)"

definition demo_effects :: "room_effect list" where
  "demo_effects = snd demo_joined @ snd demo_written"

lemma demo_run: "room_run (fst demo_written) demo_effects"
proof -
  have "room_run (NewRoomRegistry demo_options None) []" by (rule run_init)
  moreover have "room_act (NewRoomRegistry demo_options None) demo_open"
    unfolding demo_open_def by (rule act_upsert) (simp add: refs_ok_def demo_lobby_def)
  ultimately have "room_run demo_rooms []" using run_act unfolding demo_opened by fastforce
  moreover have "room_act demo_rooms demo_joined"
    by (rule act_join [OF demo_join]) (simp add: demo_hello_def roomClientKindMax_def)
  ultimately have "room_run (fst demo_joined) (snd demo_joined)" using run_act by (metis append_Nil prod.collapse)
  moreover have "room_act (fst demo_joined) demo_written"
    unfolding demo_written_def using demo_joined_fst
    by (intro act_write) (auto simp: demo_counted_def demo_seated_facts)
  ultimately show ?thesis unfolding demo_effects_def using run_act by (metis prod.collapse)
qed

lemma demo_room_reachable: "room_reachable (fst demo_written)"
  by (rule room_run_reachable [OF demo_run])

lemma demo_facts:
  "rm_participants (rg_room (fst demo_written) 0) = [(1, 0)]" "rg_nextSess (fst demo_written) = 1"
  "pt_outbox (rg_sess (fst demo_written) 0) = []" "pt_writing (rg_sess (fst demo_written) 0)"
  "pt_leaveReason (rg_sess (fst demo_written) 0) = None" "\<exists>rec. delivered 0 demo_effects = [rec]"
  "room_at (fst demo_written) demo_code = Some 0" "rg_nextRoom (fst demo_written) = 1"
  "rm_ended (rg_room (fst demo_written) 0) = False" "rm_attachments (rg_room (fst demo_written) 0) = []"
  "rm_kind (rg_room (fst demo_written) 0) = KindStatic" "rm_seq (rg_room (fst demo_written) 0) = 1"
  "pt_room (rg_sess (fst demo_written) 0) = 0" "pt_id (rg_sess (fst demo_written) 0) = 1"
proof -
  obtain rec where j: "fst demo_joined =
    upd_sess 0 (\<lambda>s. s\<lparr>pt_firstState := []\<rparr>) (upd_sess 0 (\<lambda>s. s\<lparr>pt_outbox := [Some rec]\<rparr>) demo_counted)"
    using demo_joined_fst by blast
  have c: "rg_sess demo_counted 0 = demo_session" "rg_nextSess demo_counted = 1" "rg_nextRoom demo_counted = 1"
    "rg_room demo_counted 0 = demo_room\<lparr>rm_nextPID := 2, rm_participants := [(1, 0)], rm_seq := 1\<rparr>"
    by (simp_all add: demo_counted_def demo_seated_facts demo_room_facts)
      (simp add: demo_seated_def seat_def Let_def demo_rooms_facts)
  have at: "room_at demo_counted demo_code = Some 0"
    using demo_rooms_facts(6) by (simp add: demo_counted_def demo_seated_def seat_def Let_def) (simp add: room_at_def)
  have "delivered 0 (snd demo_joined) = []"
    by (simp add: demo_joined_def announce_def)
  then show "\<exists>rec. delivered 0 demo_effects = [rec]"
    by (simp add: demo_effects_def demo_written_def write_next_def j c demo_session_def new_session_def)
  show "rm_participants (rg_room (fst demo_written) 0) = [(1, 0)]" "rg_nextSess (fst demo_written) = 1"
  "pt_outbox (rg_sess (fst demo_written) 0) = []" "pt_writing (rg_sess (fst demo_written) 0)"
  "pt_leaveReason (rg_sess (fst demo_written) 0) = None"
  "room_at (fst demo_written) demo_code = Some 0" "rg_nextRoom (fst demo_written) = 1"
  "rm_ended (rg_room (fst demo_written) 0) = False" "rm_attachments (rg_room (fst demo_written) 0) = []"
  "rm_kind (rg_room (fst demo_written) 0) = KindStatic" "rm_seq (rg_room (fst demo_written) 0) = 1"
  "pt_room (rg_sess (fst demo_written) 0) = 0" "pt_id (rg_sess (fst demo_written) 0) = 1"
    by (simp_all add: demo_written_def write_next_def j c at demo_session_def new_session_def demo_room_facts)
qed

lemma demo_settings:
  "rm_maxParticipants (rg_room (fst demo_written) 0) = 0" "rm_attachSecret (rg_room (fst demo_written) 0) = []"
  "rm_pop (rg_room (fst demo_written) 0) = []" "rg_opts (fst demo_written) = rg_opts (NewRoomRegistry demo_options None)"
  "rm_maxBroadcasts (rg_room (fst demo_written) 0) = 0" "rm_code (rg_room (fst demo_written) 0) = demo_code"
  "rg_attached (fst demo_written) = (\<lambda>_. None)" "pt_grants (rg_sess (fst demo_written) 0) = demo_grants"
  "rg_tokens (fst demo_written) = None"
proof -
  obtain rec where j: "fst demo_joined =
    upd_sess 0 (\<lambda>s. s\<lparr>pt_firstState := []\<rparr>) (upd_sess 0 (\<lambda>s. s\<lparr>pt_outbox := [Some rec]\<rparr>) demo_counted)"
    using demo_joined_fst by blast
  have w: "fst demo_written = upd_sess 0 (\<lambda>s. s\<lparr>pt_outbox := []\<rparr>) (fst demo_joined)"
    by (simp add: demo_written_def write_next_def j demo_counted_def demo_seated_facts demo_session_def new_session_def)
  show "rm_maxParticipants (rg_room (fst demo_written) 0) = 0" "rm_attachSecret (rg_room (fst demo_written) 0) = []"
  "rm_pop (rg_room (fst demo_written) 0) = []" "rg_opts (fst demo_written) = rg_opts (NewRoomRegistry demo_options None)"
  "rm_maxBroadcasts (rg_room (fst demo_written) 0) = 0" "rm_code (rg_room (fst demo_written) 0) = demo_code"
  "pt_grants (rg_sess (fst demo_written) 0) = demo_grants"
    unfolding w j by (simp_all add: demo_counted_def demo_seated_facts demo_room_def blank_room_def demo_session_def new_session_def)
  show "rg_attached (fst demo_written) = (\<lambda>_. None)" "rg_tokens (fst demo_written) = None"
    unfolding w j
    by (simp_all add: upd_sess_def demo_counted_def upd_room_def demo_seated_def seat_def Let_def demo_rooms_def
        add_room_def NewRoomRegistry_def)
qed

lemma demo_limit: "participantLimit (fst demo_written) (rg_room (fst demo_written) 0) = 50"
  by (simp add: participantLimit_def demo_settings NewRoomRegistry_def demo_options_def or_unset_def DefaultMaxParticipants_def)

lemma demo_not_wall: "\<not> is_wall (rg_room (fst demo_written) 0)"
  by (simp add: is_wall_def demo_settings)

lemma demo_current: "current (fst demo_written) 0" "\<not> evicted_sess (fst demo_written) 0"
  using demo_facts(3-5) by (auto simp: current_def evicted_sess_def)

end
