(* ===== verification/RoomProperties.thy ===== *)
theory RoomProperties
  imports RoomExample
begin

section \<open>The properties of the rooms\<close>

text \<open>
  What the invariants, the operations and the streams come to, and a small registry with a
  lobby and one participant on which their hypotheses hold.
\<close>

subsection \<open>The reader of the publisher library\<close>

definition event_seq :: "bytes \<Rightarrow> u32 option" where
  "event_seq rec =
     (case readRoomRecord rec of
        Inr (msg, _) \<Rightarrow> if msg ! 1 = TypeRoomEvent then Some (re_Seq (fst (ParseRoomEvent msg))) else None
      | Inl _ \<Rightarrow> None)"

definition at_wrap :: "bytes \<Rightarrow> bool" where
  \<comment> \<open>an event with the last 32-bit sequence number or the one after it\<close>
  "at_wrap rec \<longleftrightarrow> event_seq rec = Some 0xFFFFFFFF \<or> event_seq rec = Some 0"

lemma read_followed:
  assumes "follow_record rec pos = Some pos'"
  shows "\<exists>msg. readRoomRecord rec = Inr (msg, []) \<and> readRoomRecord (rec @ rest) = Inr (msg, rest)"
proof -
  obtain msg where m: "readRoomRecord rec = Inr (msg, [])"
    using assms by (auto simp: follow_record_def split: sum.splits list.splits)
  then have "AppendRoomRecord [] msg = Inr rec" using room_stream.split_inverts by fastforce
  with m room_stream.split_frame show ?thesis by blast
qed

lemma no_event_before: "follow_record rec None = Some pos \<Longrightarrow> event_seq rec = None"
  by (auto simp: follow_record_def follow_event_def event_seq_def TypeRoomState_def TypeRoomEvent_def
      split: sum.splits list.splits if_splits prod.splits option.splits)

lemma word_inverse_one: "(x :: u32) \<noteq> 0xFFFFFFFF \<Longrightarrow> x + 1 \<noteq> 0"
proof
  assume "x + 1 = 0" and ne: "x \<noteq> 0xFFFFFFFF"
  then have "x = - 1" by (simp add: eq_neg_iff_add_eq_0)
  also have "\<dots> = 0xFFFFFFFF" by simp
  finally show False using ne by simp
qed

lemma seq_grows: "(sq :: u32) + 1 \<noteq> 0 \<Longrightarrow> sq < sq + 1"
  using unatSuc [of sq] by (simp add: word_less_nat_alt add.commute)

text \<open>One followed record leaves the client at the position and asks for nothing.\<close>

lemma handle_followed:
  assumes f: "follow_record rec pos = Some pos'" and m: "readRoomRecord rec = Inr (msg, [])"
    and nz: "\<not> at_wrap rec" and at: "\<And>sq v. pos = Some (sq, v) \<Longrightarrow> cl_lastSeq c = sq"
  shows "\<exists>sq v. pos' = Some (sq, v) \<and> cl_lastSeq (fst (client_handle cfg ok msg c)) = sq"
    "e \<in> set (snd (client_handle cfg ok msg c)) \<Longrightarrow> \<not> is_resync e"
proof -
  consider st where "msg ! 1 = TypeRoomState" "ParseRoomState msg = Inr st" "pos' = Some (rs_Seq st, view_of_state st)"
    | ev where "msg ! 1 = TypeRoomEvent" "ParseRoomEvent msg = (ev, None)" "follow_event ev pos = Some pos'"
    using f m by (auto simp: follow_record_def split: if_splits sum.splits prod.splits option.splits)
  then have "(\<exists>sq v. pos' = Some (sq, v) \<and> cl_lastSeq (fst (client_handle cfg ok msg c)) = sq)
      \<and> (\<forall>e \<in> set (snd (client_handle cfg ok msg c)). \<not> is_resync e)"
  proof cases
    case (1 st)
    then show ?thesis using onState_no_resync by (auto simp: client_handle_def)
  next
    case (2 ev)
    obtain sq v where pos: "pos = Some (sq, v)" using 2(3) by (auto simp: follow_event_def split: option.splits)
    have c: "cl_lastSeq c = sq" by (rule at [OF pos])
    have "re_Seq ev \<noteq> 0" "re_Seq ev \<noteq> 0xFFFFFFFF" using nz 2 m by (simp_all add: event_seq_def at_wrap_def)
    then have "re_Seq ev + 1 \<noteq> 0" using word_inverse_one [of "re_Seq ev"] by simp
    moreover note \<open>re_Seq ev \<noteq> 0\<close>
    moreover have "re_Seq ev = sq + 1 \<or> re_Seq ev = sq" "\<exists>v'. pos' = Some (re_Seq ev, v')"
      using 2(3) pos by (auto simp: follow_event_def split: if_splits)
    ultimately have "max sq (re_Seq ev) = re_Seq ev" "\<not> event_gap c ev"
      using seq_grows [of sq] seq_grows [of "re_Seq ev"] by (auto simp: event_gap_def c max_def not_le dest: less_imp_le)
    then show ?thesis
      using 2 \<open>\<exists>v'. _\<close> onEvent_no_resync [of c ev] by (auto simp: client_handle_def TypeRoomEvent_def TypeRoomState_def onEvent_seq c)
  qed
  then show "\<exists>sq v. pos' = Some (sq, v) \<and> cl_lastSeq (fst (client_handle cfg ok msg c)) = sq"
    "e \<in> set (snd (client_handle cfg ok msg c)) \<Longrightarrow> \<not> is_resync e" by blast+
qed

lemma serve_followed:
  assumes "follow recs pos = Some pos'" "\<forall>rec \<in> set recs. \<not> at_wrap rec"
    "\<And>sq v. pos = Some (sq, v) \<Longrightarrow> cl_lastSeq c = sq"
  shows "snd (client_serve env (concat recs) c) = EOF \<and>
    (\<forall>e \<in> set (snd (fst (client_serve env (concat recs) c))). \<not> is_resync e) \<and>
    (\<forall>sq v. pos' = Some (sq, v) \<longrightarrow> cl_lastSeq (fst (fst (client_serve env (concat recs) c))) = sq)"
  using assms
proof (induction recs arbitrary: pos c)
  case Nil
  have "readRoomRecord [] = Inl EOF" by (simp add: readRoomRecord_def ReadFull_def RoomRecordHeaderSize_def)
  then show ?case using Nil by (subst (1 2 3) client_serve.simps) simp
next
  case (Cons rec recs)
  obtain pos1 where p1: "follow_record rec pos = Some pos1" "follow recs pos1 = Some pos'"
    using Cons.prems(1) by (auto split: option.splits)
  obtain msg where msg: "readRoomRecord rec = Inr (msg, [])" "readRoomRecord (rec @ concat recs) = Inr (msg, concat recs)"
    using read_followed [OF p1(1)] by blast
  obtain cfg ok where env: "env (length (concat recs)) = (cfg, ok)" by (metis surj_pair)
  let ?h = "client_handle cfg ok msg c"
  have nz: "\<not> at_wrap rec" using Cons.prems(2) by simp
  note h = handle_followed [OF p1(1) msg(1) nz Cons.prems(3), where cfg = cfg and ok = ok]
  have IH: "snd (client_serve env (concat recs) (fst ?h)) = EOF \<and>
    (\<forall>e \<in> set (snd (fst (client_serve env (concat recs) (fst ?h)))). \<not> is_resync e) \<and>
    (\<forall>sq v. pos' = Some (sq, v) \<longrightarrow> cl_lastSeq (fst (fst (client_serve env (concat recs) (fst ?h)))) = sq)"
    by (rule Cons.IH [OF p1(2)]) (use Cons.prems(2) h(1) in auto)
  have "client_serve env (concat (rec # recs)) c = (let r = client_serve env (concat recs) (fst ?h) in
      ((fst (fst r), snd ?h @ snd (fst r)), snd r))"
    by (subst client_serve.simps) (simp add: msg(2) env Let_def case_prod_unfold del: length_concat)
  then show ?case using IH h(2) by (auto simp: Let_def)
qed

subsection \<open>The streams\<close>

lemma followed_first: "(\<exists>rec. delivered p es = [rec]) \<Longrightarrow> room_run r es \<Longrightarrow> p < rg_nextSess r \<Longrightarrow> \<not> evicted_sess r p
   \<Longrightarrow> \<forall>rec \<in> set (delivered p es). \<not> at_wrap rec"
  using room_run_fed [of r es] toldD(2) [of "{}" "view_of r" r es p] no_event_before
  by (fastforce simp: fed_def sent_records_def follow_append at_wrap_def split: option.splits)

text \<open>C3: The stream of a participant is the room.  In every run, the records written to a
  session that is in a room and has not been evicted, followed by those still queued for it, can
  be read as the protocol says: a snapshot first, every further event numbered one above the last,
  every rejected command with the number of the last event.  Reading them leads to the sequence
  number and to the tiles and the roster that the registry has at that moment.  (The streaming flag
  of a roster entry is left out: see \<open>bare\<close>.)\<close>

theorem participant_follows_room:
  assumes "room_run r es" "(i, p) \<in> set (rm_participants (rg_room r m))" "\<not> evicted_sess r p" "current r p"
  shows "follow (delivered p es @ queued (pt_outbox (rg_sess r p))) None
     = Some (Some (rm_seq (rg_room r m), view_of r m))"
proof -
  have "told {} (view_of r) r es" using room_run_fed [OF assms(1)] by (simp add: fed_def)
  moreover have "p < rg_nextSess r"
    using seat_facts(2) [OF room_reachable_inv [OF room_run_reachable [OF assms(1)]] assms(2)] .
  moreover have "sent_records r es p = delivered p es @ queued (pt_outbox (rg_sess r p))"
    using assms(4) by (simp add: sent_records_def current_def)
  ultimately show ?thesis using toldD(2) assms(2-4) by fastforce
qed

theorem participant_follows_room_witness:
  "\<exists>recs. delivered 0 demo_effects = recs \<and> length recs = 1 \<and>
     follow recs None = Some (Some (1, view_of (fst demo_written) 0))"
  using participant_follows_room [OF demo_run, of 1 0 0] demo_current demo_facts by auto

lemma follow_delivered:
  assumes "room_run r es" "p < rg_nextSess r" "\<not> evicted_sess r p"
  shows "\<exists>pos. follow (delivered p es) None = Some pos"
proof -
  have "told {} (view_of r) r es" using room_run_fed [OF assms(1)] by (simp add: fed_def)
  then obtain pos where "follow (sent_records r es p) None = Some pos" using toldD(2) assms(2,3) by blast
  then show ?thesis by (auto simp: sent_records_def follow_append split: option.splits)
qed

text \<open>C4: The relay gives a native broadcaster no reason to resync.  The publisher library
  reads the records written to a session that has not been evicted, up to the end of the stream,
  and never sends a resync command, as long as no event carries the last 32-bit sequence number
  or the one after it; and when nothing is queued any more, the library's number is the room's.\<close>

theorem no_spurious_resync:
  assumes "room_run r es" "p < rg_nextSess r" "\<not> evicted_sess r p" "\<forall>rec \<in> set (delivered p es). \<not> at_wrap rec"
  shows "snd (client_serve env (concat (delivered p es)) c) = EOF \<and>
    (\<forall>e \<in> set (snd (fst (client_serve env (concat (delivered p es)) c))). \<not> is_resync e) \<and>
    (\<forall>m i. (i, p) \<in> set (rm_participants (rg_room r m)) \<and> pt_writing (rg_sess r p) \<and> pt_outbox (rg_sess r p) = [] \<longrightarrow>
       cl_lastSeq (fst (fst (client_serve env (concat (delivered p es)) c))) = rm_seq (rg_room r m))"
proof -
  have at: "follow (delivered p es) None = Some (Some (rm_seq (rg_room r m), view_of r m))"
    if "(i, p) \<in> set (rm_participants (rg_room r m))" "pt_writing (rg_sess r p)" "pt_outbox (rg_sess r p) = []" for m i
    using told_fed [of "view_of r" r es] that assms(3) follow_delivered [OF assms(1-3)]
      toldD(2) [OF room_run_fed [OF assms(1), unfolded fed_def] assms(2,3)]
    by (auto simp: sent_records_def current_def)
  obtain pos where pos: "follow (delivered p es) None = Some pos" using follow_delivered [OF assms(1-3)] by blast
  note s = serve_followed [OF pos assms(4), of c env, simplified]
  show ?thesis using s at pos by (intro conjI allI impI) auto
qed

theorem no_spurious_resync_witness:
  "\<exists>recs. delivered 0 demo_effects = recs \<and> recs \<noteq> [] \<and>
     (\<forall>e \<in> set (snd (fst (client_serve (\<lambda>_. (\<lparr>cc_id = [], cc_token = [], cc_label = []\<rparr>, True)) (concat recs)
        (serve_begins (newRoomClient roomModeJoin demo_code))))). \<not> is_resync e)"
proof -
  obtain rec where rec: "delivered 0 demo_effects = [rec]" using demo_facts(6) by blast
  have "\<forall>rec \<in> set (delivered 0 demo_effects). \<not> at_wrap rec"
    by (rule followed_first [OF demo_facts(6) demo_run]) (simp_all add: demo_facts demo_current)
  with no_spurious_resync [OF demo_run, of 0] rec demo_current(2) demo_facts(2) show ?thesis by auto
qed

subsection \<open>Tiles, rosters and the empty timer\<close>



text \<open>C35: What a snapshot holds fits its format.  In every reachable registry the tiles and the
  roster of a room satisfy the checks of the encoder: valid broadcast identifiers, labels and
  nicknames that are UTF-8 within their limits, known kinds and flags.  Participant and broadcast
  identifiers and nicknames are unique in it, labels are where they are set, and no participant has
  the identifier 0.\<close>

theorem snapshot_well_formed:
  assumes "room_reachable r"
  shows "(\<forall>a \<in> set (rs_Attachments (room_snapshot r (rg_room r m) s)). attachment_ok a) \<and>
    (\<forall>p \<in> set (rs_Participants (room_snapshot r (rg_room r m) s)). participant_ok p \<and> rp_ID p \<noteq> 0) \<and>
    distinct (map ra_BroadcastID (rs_Attachments (room_snapshot r (rg_room r m) s))) \<and>
    distinct (filter (\<lambda>l. l \<noteq> []) (map ra_Label (rs_Attachments (room_snapshot r (rg_room r m) s)))) \<and>
    distinct (map rp_ID (rs_Participants (room_snapshot r (rg_room r m) s))) \<and>
    distinct (map rp_Nickname (rs_Participants (room_snapshot r (rg_room r m) s)))"
proof -
  note inv = room_reachable_inv [OF assms]
  let ?as = "rm_attachments (rg_room r m)" and ?ps = "rm_participants (rg_room r m)"
  have tiles: "rs_Attachments (room_snapshot r (rg_room r m) s) = map tile_record ?as"
    and people: "rs_Participants (room_snapshot r (rg_room r m) s) = roster r (rg_room r m)"
    by (simp_all add: room_snapshot_def)
  have rec: "ra_BroadcastID (tile_record a) = at_id a" "ra_Label (tile_record a) = at_label a" for a
    by (simp_all add: tile_record_def)
  note ok = tiles_okD [OF inv, of m, unfolded tiles_ok_def]
  have labels: "distinct (filter (\<lambda>l. l \<noteq> []) (map at_label ?as))"
  proof -
    have "distinct (map at_label (filter (\<lambda>a. at_label a \<noteq> []) ?as))"
      using ok by (auto simp: distinct_map inj_on_def)
    then show ?thesis by (simp add: filter_map comp_def)
  qed
  define ids where "ids = sort_key unat (map fst ?ps)"
  define who where "who i = recordLocked (rg_room r m) (rg_sess r (the (map_of ?ps i)))" for i
  have dist: "distinct ids" "set ids = fst ` set ?ps" using seats_distinct [OF inv] by (simp_all add: ids_def)
  have seat: "(i, the (map_of ?ps i)) \<in> set ?ps" if i: "i \<in> set ids" for i
  proof -
    from i dist(2) obtain p where "(i, p) \<in> set ?ps" by auto
    then show ?thesis using seats_distinct [OF inv] by simp
  qed
  have some: "\<exists>p. map_of ?ps i = Some p" if "i \<in> set ids" for i
    using that dist(2) map_of_eq_None_iff [of ?ps i] by auto
  have roster: "roster r (rg_room r m) = map who ids"
    unfolding roster_def ids_def [symmetric] who_def
    using some unfolding ids_def by (intro map_cong refl) fastforce
  have id: "rp_ID (who i) = i" if "i \<in> set ids" for i
    using seat_facts(4) [OF inv seat [OF that]] by (simp add: who_def recordLocked_def)
  have "participant_ok (who i)" "rp_ID (who i) \<noteq> 0" if "i \<in> set ids" for i
    using seat_facts [OF inv seat [OF that]]
    by (simp_all add: who_def recordLocked_def participant_ok_def str_ok_def RoomParticipantFlagStreaming_def roomParticipantFlagMask_def)
  moreover have "map rp_ID (map who ids) = ids" using id by (simp add: map_idI)
  moreover have "inj_on (rp_Nickname \<circ> who) (set ids)"
  proof (rule inj_onI)
    fix i j assume ij: "i \<in> set ids" "j \<in> set ids" "(rp_Nickname \<circ> who) i = (rp_Nickname \<circ> who) j"
    then have "pt_nick (rg_sess r (the (map_of ?ps i))) = pt_nick (rg_sess r (the (map_of ?ps j)))"
      by (simp add: who_def recordLocked_def)
    then show "i = j" using inv seat [OF ij(1)] seat [OF ij(2)] unfolding room_inv_def seats_ok_def by blast
  qed
  ultimately show ?thesis
    unfolding tiles people roster using ok labels dist(1)
    by (auto simp: attachment_ok_def tile_record_def comp_def distinct_map)
qed

theorem snapshot_well_formed_witness:
  "list_all participant_ok (rs_Participants (room_snapshot (fst demo_written) (rg_room (fst demo_written) 0) demo_session))
   \<and> distinct (map rp_ID (rs_Participants (room_snapshot (fst demo_written) (rg_room (fst demo_written) 0) demo_session)))
   \<and> length (rs_Participants (room_snapshot (fst demo_written) (rg_room (fst demo_written) 0) demo_session)) = 1"
  using snapshot_well_formed [OF demo_room_reachable, of 0 demo_session]
  by (auto simp: list_all_iff room_snapshot_def roster_def demo_facts)



end
