(* ===== verification/RoomAdmission.thy ===== *)
theory RoomAdmission
  imports RoomExample
begin

section \<open>Joining, authority, the end of a room and minting again\<close>

subsection \<open>Joining\<close>

lemma announce_outbox:
  assumes seats: "seats_ok r" and ip: "(pid, p) \<in> set (rm_participants (rg_room r m))" and new: "pt_outbox (rg_sess r p) = []"
  shows "\<exists>rec. pt_outbox (rg_sess (fst (announce m p pid now r)) p) = [rec]"
proof -
  let ?ev = "person_event RoomEventParticipantJoined (recordLocked (rg_room r m) (rg_sess r p))"
  let ?b = "fst (broadcastLocked m ?ev pid now r)"
  obtain msg where msg: "AppendRoomEvent [] (?ev\<lparr>re_Seq := rm_seq (rg_room r m) + 1\<rparr>) = Inr msg"
    using plain_event_encodes plain_person [OF seats ip, where k = RoomEventParticipantJoined] by blast
  have "i = pid" if "(i, p) \<in> set (rm_participants (rg_room r m))" for i
    using seats_okD(3) [OF seats that] seats_okD(3) [OF seats ip] by simp
  then have "p \<notin> set (members_but pid (rg_room r m))" by (auto simp: members_iff)
  then have "rg_sess ?b p = rg_sess r p" using broadcast_sess [OF msg members_distinct [OF seats], of pid now p] by simp
  then show ?thesis
    using new unfolding announce_def also_do_fst fst_conv enqueue_fst
    by (simp add: enqueue_sess_def outboxDepth_def)
qed

text \<open>C37: A join is answered.  With a limit of at most 65535 participants the search for a free
  participant identifier ends, so joining a live room gives an answer: the room is full, and nothing
  changes, or the newcomer gets the next session and a non-zero identifier nobody in the room has, is
  the last of the roster, and has one record in its queue.\<close>

theorem join_answers:
  assumes "room_reachable r" "NormalizeCode code = Inr norm" "live_room r norm = Some m"
    "rh_ClientKind hello \<le> roomClientKindMax" "participantLimit r (rg_room r m) \<le> 65535"
  shows "if int (length (rm_participants (rg_room r m))) \<ge> participantLimit r (rg_room r m)
     then Join code hello grants tok now r = Some (Inl RoomFull, (r, []))
     else (\<exists>pid x rec. Join code hello grants tok now r = Some (Inr (rg_nextSess r), x)
        \<and> pid \<noteq> 0 \<and> pid \<notin> fst ` set (rm_participants (rg_room r m))
        \<and> rm_participants (rg_room (fst x) m) = rm_participants (rg_room r m) @ [(pid, rg_nextSess r)]
        \<and> pt_outbox (rg_sess (fst x) (rg_nextSess r)) = [rec])"
proof (cases "int (length (rm_participants (rg_room r m))) \<ge> participantLimit r (rg_room r m)")
  case True
  then show ?thesis by (simp add: Join_def assms(2,3))
next
  case False
  note inv = room_reachable_inv [OF assms(1)]
  let ?ps = "rm_participants (rg_room r m)" and ?p = "rg_nextSess r"
  have m: "m < rg_nextRoom r" using assms(3) live_room_inv [OF inv] registered_facts(1) [OF inv] by metis
  have "length (map fst ?ps) < 65535" using False assms(5) by simp
  from free_pid_ends [OF this] obtain pid where pid: "free_pid 65536 (map fst ?ps) (rm_nextPID (rg_room r m)) = Some pid" by blast
  have ok: "pid \<noteq> 0" "pid \<notin> fst ` set ?ps" using free_pid_ok [OF pid] by auto
  let ?s = "seat m pid hello grants tok r"
  let ?c = "snd (clearEmptyGraceLocked m ?s)"
  let ?x = "also_do (announce m ?p pid now ?c) (\<lambda>r. (r, if fst (clearEmptyGraceLocked m ?s) then [OnRoomEmpty norm False] else []))"
  have join: "Join code hello grants tok now r = Some (Inr ?p, ?x)"
    unfolding Join_def assms(2,3) sum.case option.case pid Let_def using False by (simp add: case_prod_unfold)
  have parts: "rm_participants (rg_room ?s m) = ?ps @ [(pid, ?p)]"
    by (simp add: seat_def Let_def upd_room_def)
  have c: "rm_participants (rg_room ?c m') = rm_participants (rg_room ?s m')" "rg_sess ?c = rg_sess ?s"
    "rg_nextSess ?c = rg_nextSess ?s" "rg_nextRoom ?c = rg_nextRoom ?s" for m'
    by (simp_all add: clearEmptyGraceLocked_def)
  have seats: "seats_ok ?c"
    using seats_ok_inv [OF seat_inv [OF inv m ok assms(4)]] unfolding seats_ok_def c .
  have "pt_outbox (rg_sess ?c ?p) = []" unfolding c by (simp add: seat_def Let_def new_session_def)
  then obtain rec where "pt_outbox (rg_sess (fst (announce m ?p pid now ?c)) ?p) = [rec]"
    using announce_outbox [OF seats, of pid ?p m now] c(1) parts by auto
  moreover have "rm_participants (rg_room (fst (announce m ?p pid now ?c)) m) = ?ps @ [(pid, ?p)]"
    using room_same_coreD(10) [OF room_same_core_announce] c(1) parts by simp
  ultimately show ?thesis using False join ok by (intro if_not_P [THEN iffD2]) auto
qed

theorem join_answers_witness:
  "\<exists>pid x. Join demo_code demo_hello demo_grants [] 0 (fst demo_written) = Some (Inr 1, x)
     \<and> rm_participants (rg_room (fst x) 0) = [(1, 0), (pid, 1)]"
proof -
  have live: "live_room (fst demo_written) demo_code = Some 0" by (simp add: live_room_def demo_facts)
  have limit: "participantLimit (fst demo_written) (rg_room (fst demo_written) 0) = 50" by (rule demo_limit)
  have kind: "rh_ClientKind demo_hello \<le> roomClientKindMax" by (simp add: demo_hello_def roomClientKindMax_def)
  show ?thesis
    using join_answers [OF demo_room_reachable demo_code_norm(1) live kind, of demo_grants "[]" 0]
    by (auto simp: limit demo_facts)
qed

subsection \<open>Admission\<close>



subsection \<open>Commands\<close>



lemma EndRoom_tiles: "rm_attachments (rg_room (fst (EndRoom code reason now r)) m) = rm_attachments (rg_room r m)"
proof -
  have d: "room_same_core r' (fst (do_all (closeAfterDrain c) ps r'))" for c ps r'
    by (rule room_same_core_do_all) simp
  have "rm_attachments (rg_room (fst (end_room m' norm reason now r)) m) = rm_attachments (rg_room r m)" for m' norm
    unfolding end_room_eq also_do_fst fst_conv room_same_coreD(11) [OF room_same_core_broadcast]
    by (simp add: ending_state_other ended_room_def)
  then show ?thesis
    by (simp add: EndRoom_def room_same_coreD(11) [OF d] split: sum.split option.split)
qed









subsection \<open>The end of a room\<close>

definition drain_sess :: "u32 \<Rightarrow> RoomSession \<Rightarrow> RoomSession" where
  "drain_sess code s =
     (if length (pt_outbox s) < outboxDepth then s\<lparr>pt_closeCode := code, pt_outbox := pt_outbox s @ [None]\<rparr>
      else s\<lparr>pt_closeCode := code\<rparr>)"

lemma drain_fst: "fst (closeAfterDrain code p r) = upd_sess p (drain_sess code) r"
  by (simp add: closeAfterDrain_def Let_def upd_sess_def drain_sess_def)

lemma drain_all_sess:
  "distinct ps \<Longrightarrow> rg_sess (fst (do_all (closeAfterDrain code) ps r)) p =
     (if p \<in> set ps then drain_sess code (rg_sess r p) else rg_sess r p)"
  by (induction ps arbitrary: r) (auto simp: drain_fst)

text \<open>C39: The end of a room.  Ending a live room unregisters its code, frees the slots of its tiles
  and queues for every participant with room for two more records the announcement that the room ends,
  with the reason, and then the marker on which the writer closes the session with the code for an
  ended room.\<close>

theorem end_room_tells_everyone:
  assumes "room_reachable r" "NormalizeCode code = Inr norm" "live_room r norm = Some m"
  shows "room_at (fst (EndRoom code reason now r)) norm = None
    \<and> rm_ended (rg_room (fst (EndRoom code reason now r)) m)
    \<and> (\<forall>a \<in> set (rm_attachments (rg_room r m)). slots (is_wall (rg_room r m)) (fst (EndRoom code reason now r)) (at_id a) = None)
    \<and> (\<exists>rec msg ev. readRoomRecord rec = Inr (msg, []) \<and> ParseRoomEvent msg = (ev, None)
        \<and> re_Kind ev = RoomEventRoomEnding \<and> re_Reason ev = reason
        \<and> (\<forall>(i, p) \<in> set (rm_participants (rg_room r m)). length (pt_outbox (rg_sess r p)) + 2 \<le> outboxDepth \<longrightarrow>
             pt_outbox (rg_sess (fst (EndRoom code reason now r)) p) = pt_outbox (rg_sess r p) @ [Some rec, None]
             \<and> pt_closeCode (rg_sess (fst (EndRoom code reason now r)) p) = RoomCloseCodeEnded))"
proof -
  note inv = room_reachable_inv [OF assms(1)]
  let ?ev = "(event RoomEventRoomEnding)\<lparr>re_Reason := reason\<rparr>" and ?e = "ending_state m norm r"
  let ?b = "fst (broadcastLocked m ?ev 0 now ?e)" and ?ps = "map snd (rm_participants (rg_room r m))"
  let ?r = "fst (EndRoom code reason now r)"
  have parts: "rm_participants (rg_room ?e m) = rm_participants (rg_room r m)" "rg_sess ?e = rg_sess r"
    by (simp_all add: ending_state_other ended_room_def)
  have partsb: "rm_participants (rg_room ?b m) = rm_participants (rg_room r m)"
    unfolding room_same_coreD(10) [OF room_same_core_broadcast] by (rule parts)
  have r: "?r = fst (do_all (closeAfterDrain RoomCloseCodeEnded) ?ps ?b)"
    unfolding EndRoom_def assms(2,3) sum.case option.case also_do_fst fst_conv end_room_eq partsb ..
  have core: "room_same_core ?e ?r"
    unfolding r by (rule room_same_core_trans [OF room_same_core_broadcast]) (rule room_same_core_do_all, simp)
  have dist: "distinct ?ps" by (rule members_distinct [OF seats_ok_inv [OF inv]])
  have plain: "plain_event (?ev\<lparr>re_Seq := sq\<rparr>)" for sq using plain_ending by simp
  obtain msg where msg: "AppendRoomEvent [] (?ev\<lparr>re_Seq := rm_seq (rg_room ?e m) + 1\<rparr>) = Inr msg"
    using plain_event_encodes [OF plain] by blast
  obtain rec where rec: "frame msg = Some rec" "readRoomRecord rec = Inr (msg, [])"
    "ParseRoomEvent msg = (event_view (?ev\<lparr>re_Seq := rm_seq (rg_room ?e m) + 1\<rparr>), None)"
    using framed_event [OF plain msg] by blast
  have reason: "re_Kind (event_view (?ev\<lparr>re_Seq := sq\<rparr>)) = RoomEventRoomEnding"
    "re_Reason (event_view (?ev\<lparr>re_Seq := sq\<rparr>)) = reason" for sq
    by (simp_all add: event_view_def Let_def event_shapes)
  have told: "pt_outbox (rg_sess ?r p) = pt_outbox (rg_sess r p) @ [Some rec, None]
      \<and> pt_closeCode (rg_sess ?r p) = RoomCloseCodeEnded"
    if ip: "(i, p) \<in> set (rm_participants (rg_room r m))" and fits: "length (pt_outbox (rg_sess r p)) + 2 \<le> outboxDepth" for i p
  proof -
    have "p \<in> set (members_but 0 (rg_room ?e m))"
      using ip seat_facts(1) [OF inv ip] by (auto simp: members_iff parts)
    then have b: "rg_sess ?b p = enqueue_sess (Some rec) (rg_sess r p)"
      using broadcast_sess [OF msg, of 0 now p] dist by (simp add: parts rec)
    have "p \<in> set ?ps" using ip by force
    then have "rg_sess ?r p = drain_sess RoomCloseCodeEnded (rg_sess ?b p)"
      unfolding r drain_all_sess [OF dist] by simp
    then show ?thesis using fits by (simp add: b enqueue_sess_def drain_sess_def)
  qed
  have "distinct (map fst (rg_rooms r))" using inv by (simp add: room_inv_def codes_ok_def)
  then have "room_at ?r norm = None"
    unfolding room_same_coreD(2) [OF core] by (simp add: room_at_def ending_state_other delete_conv)
  moreover have "rm_ended (rg_room ?r m)"
    unfolding room_same_coreD(13) [OF core] by (simp add: ending_state_other ended_room_def)
  moreover have "slots (is_wall (rg_room r m)) ?r (at_id a) = None" if "a \<in> set (rm_attachments (rg_room r m))" for a
    unfolding room_same_coreD(3) [OF core] using that by (simp add: ending_state_slots)
  ultimately show ?thesis
    using rec(2,3) reason told
    by (intro conjI ballI exI [of _ rec] exI [of _ msg] exI [of _ "event_view (?ev\<lparr>re_Seq := rm_seq (rg_room ?e m) + 1\<rparr>)"]) auto
qed

theorem end_room_tells_everyone_witness:
  "\<exists>rec. pt_outbox (rg_sess (fst (EndRoom demo_code RoomEndReasonOperator 0 (fst demo_written))) 0) = [Some rec, None]"
proof -
  have live: "live_room (fst demo_written) demo_code = Some 0" by (simp add: live_room_def demo_facts)
  show ?thesis
    using end_room_tells_everyone [OF demo_room_reachable demo_code_norm(1) live, of RoomEndReasonOperator 0]
    by (auto simp: demo_facts outboxDepth_def)
qed

subsection \<open>Minting again\<close>

definition minted_room :: "bytes \<Rightarrow> MintResult \<Rightarrow> RoomRegistry \<Rightarrow> bool" where
  "minted_room i res r \<longleftrightarrow> (\<exists>c m. rg_attached r i = Some c \<and> room_at r c = Some m \<and> rm_minter (rg_room r m) = i
     \<and> rm_code (rg_room r m) = mr_Code res \<and> rm_display (rg_room r m) = mr_Display res)"

lemma mint_insert_room:
  assumes "\<not> is_wall rm" "rm_minter rm = mg_id q" "rm_code rm = mr_Code res" "rm_display rm = mr_Display res"
    "room_at r (rm_code rm) = None"
  shows "minted_room (mg_id q) res (fst (mint_insert q rm now r))"
proof -
  have new: "room_at (add_room (rm_code rm) rm r) (rm_code rm) = Some (rg_nextRoom r)"
    by (simp add: room_at_def add_room_def update_conv')
  have r: "rg_room (add_room c rm r) (rg_nextRoom r) = rm" for c by (simp add: add_room_def)
  have at: "room_at (upd_room m f r') = room_at r'" for m f r' by simp
  show ?thesis
    unfolding minted_room_def using assms new
    by (intro exI [of _ "rm_code rm"] exI [of _ "rg_nextRoom r"])
      (simp add: mint_insert_def Let_def attachLocked_def r startEmptyGraceLocked_def set_slot_def upd_room_def room_at_def)
qed

lemma mint_check_Answer:
  "mint_check q raw taken now r = MintAnswer (Inr res) \<Longrightarrow> minted_room (mg_id q) res r"
  by (auto simp: mint_check_def minted_room_def Let_def split: if_splits option.splits)

lemma mint_check_Proceed_room:
  "mint_check q raw taken now r = MintProceed rm token \<Longrightarrow> \<not> is_wall rm \<and> rm_minter rm = mg_id q \<and> room_at r (rm_code rm) = None"
  by (auto simp: mint_check_def Let_def is_wall_def blank_room_def split: if_splits option.splits)

lemma mint_commit_room:
  assumes "mint_check q raw taken now r0 = MintProceed rm token" "\<not> reserved \<Longrightarrow> r0 = r"
    "mint_commit reserved q rm token now r = (Some (Inr res), x)"
  shows "minted_room (mg_id q) res (fst x)"
proof -
  note rm = mint_check_Proceed_room [OF assms(1)]
  have x: "x = mint_insert q rm now r" "mr_Code res = rm_code rm" "mr_Display res = rm_display rm"
    and free: "reserved \<longrightarrow> room_at r (rm_code rm) = None"
    using assms(3) by (auto simp: mint_commit_def split: if_splits)
  have "room_at r (rm_code rm) = None" using free rm assms(2) by (cases reserved) auto
  then show ?thesis using rm by (auto simp: x intro!: mint_insert_room)
qed

lemma mint_loop_room: "mint_loop reserve q src now ds r = (Inr res, x) \<Longrightarrow> minted_room (mg_id q) res (fst x)"
proof (induction ds arbitrary: r res x)
  case (Cons d ds)
  show ?case
  proof (cases d)
    case (Inr raw)
    show ?thesis
    proof (cases "mint_check q raw (snd (src raw)) now r")
      case (MintProceed rm token)
      let ?res = "case reserve of None \<Rightarrow> None | Some f \<Rightarrow> f (rm_code rm)"
      show ?thesis
      proof (cases ?res)
        case None
        obtain v y where v: "mint_commit (reserve \<noteq> None) q rm token now r = (v, y)" by (metis surj_pair)
        show ?thesis
        proof (cases v)
          case r: None
          obtain r2 es2 where y: "y = (r2, es2)" by (cases y)
          obtain res3 r3 es3 where l: "mint_loop reserve q src now ds r2 = (res3, r3, es3)" by (metis prod_cases3)
          have "res3 = Inr res" "fst x = r3"
            using Cons.prems unfolding mint_loop.simps Inr sum.case MintProceed mint_verdict.case None option.case v r y prod.case l
            by auto
          with Cons.IH l show ?thesis by fastforce
        next
          case (Some res2)
          have "res2 = Inr res" "y = x"
            using Cons.prems unfolding mint_loop.simps Inr sum.case MintProceed mint_verdict.case None option.case v Some prod.case
            by auto
          with mint_commit_room [OF MintProceed, of "reserve \<noteq> None" r] v Some show ?thesis by simp
        qed
      next
        case (Some e)
        have "mint_loop reserve q src now ds r = (Inr res, x)"
          using Cons.prems unfolding mint_loop.simps Inr sum.case MintProceed mint_verdict.case Some option.case
          by (simp split: if_splits)
        then show ?thesis by (rule Cons.IH)
      qed
    qed (use Cons.prems Cons.IH mint_check_Answer in \<open>auto simp: Inr\<close>)
  qed (use Cons.prems in simp)
qed simp

lemma mint_check_again:
  assumes "minted_room (mg_id q) res r" "\<not> (taken \<or> room_at r (ToLower raw) \<noteq> None)"
  shows "\<exists>res'. mint_check q raw taken now r = MintAnswer (Inr res') \<and> mr_Code res' = mr_Code res
    \<and> mr_Display res' = mr_Display res \<and> mr_Repeated res'"
  using assms by (auto simp: minted_room_def mint_check_def Let_def)

lemma mint_loop_again:
  assumes "minted_room (mg_id q) res r" "\<forall>d \<in> set ds. is_ok d"
    "\<exists>raw. Inr raw \<in> set ds \<and> \<not> snd (src raw) \<and> room_at r (ToLower raw) = None"
  shows "\<exists>res'. mint_loop reserve q src now ds r = (Inr res', (r, [])) \<and> mr_Code res' = mr_Code res
    \<and> mr_Display res' = mr_Display res \<and> mr_Repeated res'"
  using assms(2,3)
proof (induction ds)
  case (Cons d ds)
  obtain raw where d: "d = Inr raw" using Cons.prems(1) by (auto simp: is_ok_def split: sum.splits)
  show ?case
  proof (cases "snd (src raw) \<or> room_at r (ToLower raw) \<noteq> None")
    case True
    then have "mint_check q raw (snd (src raw)) now r = MintRetry" by (auto simp: mint_check_def Let_def)
    moreover have "\<exists>raw. Inr raw \<in> set ds \<and> \<not> snd (src raw) \<and> room_at r (ToLower raw) = None"
      using Cons.prems(2) True d by auto
    ultimately show ?thesis using Cons by (simp add: d)
  next
    case False
    from mint_check_again [OF assms(1) this, of now] show ?thesis by (auto simp: d)
  qed
qed simp

text \<open>C40: Minting is idempotent for its broadcast.  When a mint has succeeded and the same broadcast
  mints again with a valid request, from the registry the first mint left, the answer is the same room
  and the registry is unchanged, provided the random source works and one of its ten draws is neither a
  broadcast nor a room.\<close>

theorem mint_again_same_room:
  assumes "room_Mint reserve req src now draws r = (Inr res, x)"
    and "mint_gate req' src' (fst x) = Inr q'" "Normalize (mq_BroadcastID req') = Normalize (mq_BroadcastID req)"
    and "\<forall>d \<in> set (take 10 draws'). is_ok d"
    and "\<exists>raw. Inr raw \<in> set (take 10 draws') \<and> \<not> snd (src' raw) \<and> room_at (fst x) (ToLower raw) = None"
  shows "\<exists>res'. room_Mint reserve' req' src' now' draws' (fst x) = (Inr res', (fst x, []))
    \<and> mr_Code res' = mr_Code res \<and> mr_Display res' = mr_Display res \<and> mr_Repeated res'"
proof -
  obtain q where q: "mint_gate req src r = Inr q" "mint_loop reserve q src now (take 10 draws) r = (Inr res, x)"
    using assms(1) by (auto simp: room_Mint_def split: sum.splits)
  have "Normalize (mq_BroadcastID req) = Inr (mg_id q)" "Normalize (mq_BroadcastID req') = Inr (mg_id q')"
    using q(1) assms(2) by (auto simp: mint_gate_def Let_def split: if_splits sum.splits prod.splits option.splits)
  then have id: "mg_id q' = mg_id q" using assms(3) by simp
  have "minted_room (mg_id q') res (fst x)" using mint_loop_room [OF q(2)] id by simp
  from mint_loop_again [OF this assms(4,5)] show ?thesis by (simp add: room_Mint_def assms(2))
qed

definition demo_tokens :: RoomTokens where
  "demo_tokens = \<lparr>tk_MintCreator = (\<lambda>_. [7]), tk_VerifyCreator = (\<lambda>_ _. True), tk_VerifyResume = (\<lambda>_ _. True)\<rparr>"

definition demo_mint_source :: source where
  "demo_mint_source i = (\<lparr>bs_Live = True, bs_Viewers = 0\<rparr>, i = ascii ''ABC234'')"

definition demo_mint :: MintRequest where
  "demo_mint = \<lparr>mq_BroadcastID = ascii ''ABC234'', mq_ResumeToken = [], mq_Label = [], mq_CreateSecret = []\<rparr>"

theorem mint_again_same_room_witness:
  "\<exists>x res. room_Mint None demo_mint demo_mint_source 0 [Inr (ascii ''XYZ789'')] (NewRoomRegistry demo_options (Some demo_tokens)) = (Inr res, x)
     \<and> \<not> mr_Repeated res
     \<and> (\<exists>res'. room_Mint None demo_mint demo_mint_source 9 [Inr (ascii ''QRS456'')] (fst x) = (Inr res', (fst x, []))
         \<and> mr_Code res' = mr_Code res \<and> mr_Repeated res')"
proof -
  let ?r = "NewRoomRegistry demo_options (Some demo_tokens)" and ?i = "ascii ''ABC234''"
  have ids: "Normalize ?i = Inr ?i" "ascii ''XYZ789'' \<noteq> ?i" "ascii ''QRS456'' \<noteq> ?i"
    "ToLower (ascii ''QRS456'') \<noteq> ToLower (ascii ''XYZ789'')"
    by code_simp+
  let ?q = "\<lparr>mg_id = ?i, mg_label = [], mg_state = \<lparr>bs_Live = True, bs_Viewers = 0\<rparr>, mg_tokens = demo_tokens\<rparr>"
  have gate: "mint_gate demo_mint demo_mint_source r = Inr ?q"
    if "ro_CreateSecret (rg_opts r) = []" "rg_tokens r = Some demo_tokens" for r
    using that utf8_valid.simps by (simp add: mint_gate_def demo_mint_def ids demo_mint_source_def demo_tokens_def)
  have opts: "ro_CreateSecret (rg_opts ?r) = []" "rg_tokens ?r = Some demo_tokens" "room_at ?r c = None" "rg_attached ?r i = None"
    "dynamicCountLocked ?r = 0" "ro_MaxRooms (rg_opts ?r) = 10" for c i
    by (simp_all add: NewRoomRegistry_def demo_options_def room_at_def dynamicCountLocked_def or_unset_def DefaultMaxRooms_def)
  have tok: "tk_MintCreator demo_tokens c = [7]" for c by (simp add: demo_tokens_def)
  obtain rm where rm: "mint_check ?q (ascii ''XYZ789'') False 0 ?r = MintProceed rm [7]"
    "rm_code rm = ToLower (ascii ''XYZ789'')"
    by (simp add: mint_check_def Let_def opts tok)
  let ?x = "mint_insert ?q rm 0 ?r"
  let ?res = "\<lparr>mr_Code = rm_code rm, mr_Display = rm_display rm, mr_CreatorToken = [7], mr_Repeated = False\<rparr>"
  have first: "room_Mint None demo_mint demo_mint_source 0 [Inr (ascii ''XYZ789'')] ?r = (Inr ?res, ?x)"
    by (simp add: room_Mint_def gate opts demo_mint_source_def ids rm mint_commit_def)
  have keep: "ro_CreateSecret (rg_opts (fst ?x)) = []" "rg_tokens (fst ?x) = Some demo_tokens"
    "room_at (fst ?x) c = (if c = rm_code rm then Some 0 else None)" for c
    using opts(1-3) by (simp_all add: mint_insert_def Let_def attachLocked_def startEmptyGraceLocked_def set_slot_def
        upd_room_def add_room_def room_at_def) (auto simp: NewRoomRegistry_def)
  have "\<exists>res'. room_Mint None demo_mint demo_mint_source 9 [Inr (ascii ''QRS456'')] (fst ?x) = (Inr res', (fst ?x, []))
    \<and> mr_Code res' = mr_Code ?res \<and> mr_Display res' = mr_Display ?res \<and> mr_Repeated res'"
    by (rule mint_again_same_room [OF first gate [OF keep(1,2)]])
      (simp_all add: is_ok_def demo_mint_source_def ids keep(3) rm(2))
  with first show ?thesis by auto
qed

end
