(* ===== verification/GF256.thy ===== *)
theory GF256
  imports WireBase
begin

section \<open>Arithmetic in GF(2^8) (\<^verbatim>\<open>gawk-server/wire/parity.go\<close>)\<close>

text \<open>
  The log and antilog tables as the package's \<^verbatim>\<open>init\<close> builds them, and
  multiplication and division by table lookup.  The theory shows that the table
  lookups are multiplication by a linear map, which gives the field laws that
  erasure recovery rests on; they are collected in the locale \<open>parity_field\<close>.
\<close>

subsection \<open>The tables\<close>

definition gf_double :: "byte \<Rightarrow> byte" where
  \<comment> \<open>\<^verbatim>\<open>hi := x&0x80 != 0; x <<= 1; if hi { x ^= 0x1d }\<close>\<close>
  "gf_double x = (if x AND 0x80 \<noteq> 0 then push_bit 1 x XOR 0x1d else push_bit 1 x)"

definition gf_init_step :: "nat \<Rightarrow> byte \<times> bytes \<times> bytes \<Rightarrow> byte \<times> bytes \<times> bytes" where
  "gf_init_step i = (\<lambda>(x, ex, lg). (gf_double x, ex[i := x], lg[unat x := of_nat i]))"

definition gf_init :: "bytes \<times> bytes" where
  "gf_init =
     (let (x, ex, lg) = fold gf_init_step [0..<255] (1, replicate 512 0, replicate 256 0);
          ex' = fold (\<lambda>i e. e[i := e ! (i - 255)]) [255..<512] ex
      in (ex', lg))"

definition gfExp :: bytes where "gfExp = fst gf_init"
definition gfLog :: bytes where "gfLog = snd gf_init"

definition gfMul :: "byte \<Rightarrow> byte \<Rightarrow> byte" where
  "gfMul a b =
     (if a = 0 \<or> b = 0 then 0 else gfExp ! (unat (gfLog ! unat a) + unat (gfLog ! unat b)))"

definition gfDiv :: "byte \<Rightarrow> byte \<Rightarrow> byte result" where
  "gfDiv a b =
     (if b = 0 then Inl RuntimePanic
      else if a = 0 then Inr 0
      else Inr (gfExp ! nat (int (unat (gfLog ! unat a)) - int (unat (gfLog ! unat b)) + 255)))"

definition gfPow2 :: "nat \<Rightarrow> byte" where
  "gfPow2 i = gfExp ! (i mod 255)"

subsection \<open>Doubling is linear and injective\<close>

lemma bit_80_iff: "(x AND 0x80 \<noteq> 0) = bit (x :: byte) 7"
  using and_exp_eq_0_iff_not_bit [of x 7] by simp

lemma xor_eq_zero_iff: "(x :: byte) XOR y = 0 \<longleftrightarrow> x = y"
  by (metis xor.assoc xor.right_neutral xor_self_eq xor.commute)

lemma gf_double_bit: "gf_double x = push_bit 1 x XOR (if bit x 7 then 0x1d else 0)"
  by (simp add: gf_double_def bit_80_iff)

lemma gf_double_xor [simp]: "gf_double (x XOR y) = gf_double x XOR gf_double y"
  by (auto simp: gf_double_bit bit_simps push_bit_xor ac_simps)

lemma gf_double_0 [simp]: "gf_double 0 = 0"
  by (simp add: gf_double_bit)

lemma gf_double_eq_0: "gf_double x = 0 \<Longrightarrow> x = 0"
proof -
  assume z: "gf_double x = 0"
  have "bit (gf_double x) 0 \<longleftrightarrow> bit x 7"
    by (auto simp: gf_double_bit bit_0 even_xor_iff)
  with z have hi: "\<not> bit x 7" by simp
  with z have sh: "push_bit 1 x = 0" by (simp add: gf_double_bit)
  show "x = 0"
  proof (rule bit_word_eqI)
    fix n assume "n < LENGTH(8)"
    then have "n = 7 \<or> n < 7" by auto
    moreover have "bit (push_bit 1 x) (Suc n) = bit x n" if "n < 7"
      unfolding bit_push_bit_iff using that by simp
    ultimately show "bit x n = bit 0 n" using hi sh by auto
  qed
qed

lemma gf_double_inj: "gf_double x = gf_double y \<Longrightarrow> x = y"
  using gf_double_eq_0 [of "x XOR y"] by (simp add: xor_eq_zero_iff)

abbreviation gf_pow :: "nat \<Rightarrow> byte \<Rightarrow> byte" where
  "gf_pow n \<equiv> gf_double ^^ n"

lemma gf_pow_xor [simp]: "gf_pow n (x XOR y) = gf_pow n x XOR gf_pow n y"
  by (induction n) auto

lemma gf_pow_0 [simp]: "gf_pow n 0 = 0"
  by (induction n) auto

lemma gf_pow_inj: "gf_pow n x = gf_pow n y \<Longrightarrow> x = y"
  by (induction n arbitrary: x y) (auto dest: gf_double_inj)

lemma gf_pow_eq_0 [simp]: "gf_pow n x = 0 \<longleftrightarrow> x = 0"
  using gf_pow_inj [of n x 0] by auto

subsection \<open>The generator has order 255\<close>

lemma gf_pow_numeral: "gf_pow (numeral k) x = gf_pow (pred_numeral k) (gf_double x)"
  by (simp add: numeral_eq_Suc funpow_swap1)

lemma gf_pow_Suc0: "gf_pow (Suc 0) x = gf_double x" "gf_pow 0 x = x"
  by simp_all

lemma gf_period: "gf_pow 255 1 = 1"
  by (simp add: gf_pow_numeral gf_pow_Suc0 gf_double_def)

lemma gf_proper_divisors: "gf_pow 85 1 \<noteq> 1" "gf_pow 51 1 \<noteq> 1" "gf_pow 15 1 \<noteq> 1"
  by (simp_all add: gf_pow_numeral gf_pow_Suc0 gf_double_def)

lemma gf_pow_add: "gf_pow (m + n) x = gf_pow m (gf_pow n x)"
  by (simp add: funpow_add)

lemma gf_pow_mult_fix: "gf_pow n 1 = 1 \<Longrightarrow> gf_pow (k * n) 1 = 1"
  by (induction k) (simp_all add: gf_pow_add)

lemma divisors_255: "(g :: nat) dvd 255 \<Longrightarrow> g < 255 \<Longrightarrow> g \<in> {1, 3, 5, 15, 17, 51, 85}"
proof -
  assume "g dvd 255" "g < 255"
  moreover have "\<forall>g \<in> {0..<255 :: nat}. g dvd 255 \<longrightarrow> g \<in> {1, 3, 5, 15, 17, 51, 85}"
    by code_simp
  ultimately show ?thesis by (metis atLeastLessThan_iff zero_le)
qed

text \<open>A return to 1 before step 255 would come back at a proper divisor of 255.\<close>

lemma gf_no_early_return:
  assumes "0 < d" "d < 255"
  shows "gf_pow d 1 \<noteq> 1"
proof
  assume ret: "gf_pow d 1 = 1"
  define g where "g = gcd d 255"
  obtain x y where xy: "d * x = 255 * y + g"
    using bezout_nat [of d 255] assms(1) unfolding g_def by auto
  have "gf_pow (d * x) 1 = 1" "gf_pow (255 * y) 1 = 1"
    using gf_pow_mult_fix [OF ret, of x] gf_pow_mult_fix [OF gf_period, of y]
    by (simp_all add: mult.commute)
  then have "gf_pow (255 * y) (gf_pow g 1) = gf_pow (255 * y) 1"
    using xy gf_pow_add [of "255 * y" g 1] by simp
  then have g1: "gf_pow g 1 = 1" by (rule gf_pow_inj)
  have "g dvd 255" "g \<le> d" unfolding g_def using assms(1) by (auto intro: dvd_imp_le)
  then have "g \<in> {1, 3, 5, 15, 17, 51, 85}"
    using assms(2) divisors_255 by auto
  then have "\<exists>k. k * g = 85 \<or> k * g = 51 \<or> k * g = 15"
    by (auto intro: exI [of _ 85] exI [of _ 17] exI [of _ 3] exI [of _ 1] exI [of _ 5])
  then show False
    using gf_pow_mult_fix [OF g1] gf_proper_divisors by metis
qed

lemma gf_orbit_inj:
  assumes "i < 255" "j < 255" "gf_pow i 1 = gf_pow j 1"
  shows "i = j"
proof -
  have False if "a < b" "b < 255" "gf_pow a 1 = gf_pow b 1" for a b
  proof -
    have "gf_pow a 1 = gf_pow a (gf_pow (b - a) 1)"
      using that gf_pow_add [of a "b - a" 1] by simp
    then have "gf_pow (b - a) 1 = 1" by (metis gf_pow_inj)
    then show False using gf_no_early_return [of "b - a"] that by simp
  qed
  then show ?thesis using assms by (metis linorder_neqE_nat)
qed

lemma gf_orbit_onto:
  assumes "b \<noteq> 0"
  obtains i where "i < 255" "b = gf_pow i 1"
proof -
  let ?S = "(\<lambda>i. gf_pow i 1) ` {..<255}"
  have "card ?S = 255"
    by (subst card_image) (auto simp: inj_on_def intro: gf_orbit_inj)
  moreover have "?S \<subseteq> UNIV - {0}" by auto
  moreover have "card (UNIV - {0 :: byte}) = 255" by (simp add: card_word)
  ultimately have "?S = UNIV - {0}" by (intro card_subset_eq) auto
  with assms that show thesis by auto
qed

subsection \<open>What the tables hold\<close>

lemma gf_init_loop:
  assumes "n \<le> 255"
  shows "\<exists>ex lg. fold gf_init_step [0..<n] (1, replicate 512 0, replicate 256 0) = (gf_pow n 1, ex, lg)
    \<and> length ex = 512 \<and> length lg = 256
    \<and> (\<forall>i < n. ex ! i = gf_pow i 1 \<and> lg ! unat (gf_pow i 1) = of_nat i)"
  using assms
proof (induction n)
  case (Suc n)
  then obtain ex lg where st: "fold gf_init_step [0..<n] (1, replicate 512 0, replicate 256 0) = (gf_pow n 1, ex, lg)"
    and len: "length ex = 512" "length lg = 256"
    and inv: "\<forall>i < n. ex ! i = gf_pow i 1 \<and> lg ! unat (gf_pow i 1) = of_nat i" by auto
  have "lg[unat (gf_pow n 1) := of_nat n] ! unat (gf_pow i 1) = of_nat i" if "i < Suc n" for i
  proof (cases "i = n")
    case True
    then show ?thesis using len unat_byte_less [of "gf_pow n 1"] by simp
  next
    case False
    with that Suc.prems have "gf_pow i 1 \<noteq> gf_pow n 1" using gf_orbit_inj [of i n] by auto
    then have "unat (gf_pow n 1) \<noteq> unat (gf_pow i 1)" by (simp add: word_unat_eq_iff)
    then show ?thesis using inv that False by simp
  qed
  moreover have "ex[n := gf_pow n 1] ! i = gf_pow i 1" if "i < Suc n" for i
    using that inv len Suc.prems by (auto simp: nth_list_update less_Suc_eq)
  moreover have "fold gf_init_step [0..<Suc n] (1, replicate 512 0, replicate 256 0) =
      (gf_pow (Suc n) 1, ex[n := gf_pow n 1], lg[unat (gf_pow n 1) := of_nat n])"
    by (simp add: st) (simp add: gf_init_step_def)
  ultimately show ?case using len by auto
qed simp

lemma gf_copy_loop:
  assumes "m = 255 + n" "n \<le> 257" "length ex = 512" "\<forall>i < 255. ex ! i = gf_pow i 1"
  shows "length (fold (\<lambda>i e. e[i := e ! (i - 255)]) [255..<m] ex) = 512 \<and>
    (\<forall>i < m. fold (\<lambda>i e. e[i := e ! (i - 255)]) [255..<m] ex ! i = gf_pow i 1)"
  using assms
proof (induction n arbitrary: m)
  case (Suc n)
  let ?e = "fold (\<lambda>i e. e[i := e ! (i - 255)]) [255..<255 + n] ex"
  from Suc have IH: "length ?e = 512" "\<forall>i < 255 + n. ?e ! i = gf_pow i 1" by auto
  have m: "m = Suc (255 + n)" using Suc.prems(1) by simp
  have step: "fold (\<lambda>i e. e[i := e ! (i - 255)]) [255..<m] ex = ?e[255 + n := ?e ! n]"
  proof -
    have "[255..<m] = [255..<255 + n] @ [255 + n]" unfolding m by (rule upt_Suc_append) simp
    then show ?thesis by (simp only: fold_append o_apply fold.simps id_apply add_diff_cancel_left')
  qed
  have "?e ! n = gf_pow (255 + n) 1"
    using IH(2) gf_pow_add [of n 255 1] gf_period by (simp add: add.commute)
  with IH Suc.prems(2) show ?case
    unfolding step by (auto simp: m nth_list_update less_Suc_eq)
qed simp

lemma gf_tables:
  "length gfExp = 512" "length gfLog = 256"
  "i < 512 \<Longrightarrow> gfExp ! i = gf_pow i 1"
  "j < 255 \<Longrightarrow> gfLog ! unat (gf_pow j 1) = of_nat j"
proof -
  obtain ex lg where st: "fold gf_init_step [0..<255] (1, replicate 512 0, replicate 256 0) = (gf_pow 255 1, ex, lg)"
    and t: "length ex = 512" "length lg = 256"
      "\<forall>i < 255. ex ! i = gf_pow i 1 \<and> lg ! unat (gf_pow i 1) = of_nat i"
    using gf_init_loop [OF order.refl] by blast
  have tabs: "gfExp = fold (\<lambda>i e. e[i := e ! (i - 255)]) [255..<512] ex" "gfLog = lg"
    unfolding gfExp_def gfLog_def gf_init_def st Let_def by (simp_all only: case_prod_conv fst_conv snd_conv)
  show "length gfExp = 512" "i < 512 \<Longrightarrow> gfExp ! i = gf_pow i 1"
    unfolding tabs using gf_copy_loop [OF _ order.refl t(1), of 512] t(3) by (fastforce simp only:)+
  show "length gfLog = 256" "j < 255 \<Longrightarrow> gfLog ! unat (gf_pow j 1) = of_nat j"
    using t unfolding tabs by auto
qed

lemma gfLog_less:
  assumes "b \<noteq> 0"
  shows "unat (gfLog ! unat b) < 255 \<and> gf_pow (unat (gfLog ! unat b)) 1 = b"
proof -
  from assms obtain j where "j < 255" "b = gf_pow j 1" by (rule gf_orbit_onto)
  then show ?thesis by (simp add: gf_tables(4))
qed

subsection \<open>The field laws\<close>

text \<open>Multiplying by a table lookup is doubling as often as the logarithm says.\<close>

lemma gfMul_linear: "a \<noteq> 0 \<Longrightarrow> gfMul a b = gf_pow (unat (gfLog ! unat a)) b"
proof (cases "b = 0")
  case False
  assume "a \<noteq> 0"
  let ?la = "unat (gfLog ! unat a)" and ?lb = "unat (gfLog ! unat b)"
  have "?la + ?lb < 512" using gfLog_less [OF \<open>a \<noteq> 0\<close>] gfLog_less [OF False] by linarith
  then have "gfMul a b = gf_pow (?la + ?lb) 1"
    using \<open>a \<noteq> 0\<close> False by (simp add: gfMul_def gf_tables(3))
  then show ?thesis using gfLog_less [OF False] by (simp add: gf_pow_add)
qed (simp add: gfMul_def)

lemma gfMul_0 [simp]: "gfMul 0 b = 0" "gfMul a 0 = 0"
  by (simp_all add: gfMul_def)

lemma gfMul_commute: "gfMul a b = gfMul b a"
  by (auto simp: gfMul_def add.commute)

lemma gfMul_xor_right: "gfMul a (b XOR c) = gfMul a b XOR gfMul a c"
  by (cases "a = 0") (simp_all add: gfMul_linear)

lemma gfMul_xor_left: "gfMul (a XOR b) c = gfMul a c XOR gfMul b c"
  by (metis gfMul_commute gfMul_xor_right)

lemma gfMul_eq_0: "gfMul a b = 0 \<longleftrightarrow> a = 0 \<or> b = 0"
  by (cases "a = 0") (simp_all add: gfMul_linear)

lemma gfDiv_gfMul:
  assumes "b \<noteq> 0"
  shows "gfDiv (gfMul b a) b = Inr a"
proof (cases "a = 0")
  case False
  let ?la = "unat (gfLog ! unat a)" and ?lb = "unat (gfLog ! unat b)"
    and ?l = "unat (gfLog ! unat (gfMul b a))"
  have ab: "gfMul b a \<noteq> 0" using assms False by (simp add: gfMul_eq_0)
  note l = gfLog_less [OF False] gfLog_less [OF assms] gfLog_less [OF ab]
  have idx: "nat (int ?l - int ?lb + 255) = ?l + 255 - ?lb" "?l + 255 - ?lb < 512"
    using l by linarith+
  have "gf_pow ?lb (gf_pow (?l + 255 - ?lb) 1) = gf_pow (?l + 255) 1"
    using l gf_pow_add [of ?lb "?l + 255 - ?lb" 1] by simp
  also have "\<dots> = gf_pow ?l 1" using gf_pow_add [of ?l 255 1] gf_period by simp
  also have "\<dots> = gf_pow ?lb a" using l gfMul_linear [OF assms, of a] by simp
  finally have "gf_pow (?l + 255 - ?lb) 1 = a" by (rule gf_pow_inj)
  then show ?thesis using ab assms idx by (simp add: gfDiv_def gf_tables(3))
qed (simp add: gfDiv_def assms)

lemma gfPow2_eq: "i < 255 \<Longrightarrow> gfPow2 i = gf_pow i 1"
  by (simp add: gfPow2_def gf_tables(3))

lemma gfPow2_nonzero: "gfPow2 i \<noteq> 0"
  by (simp add: gfPow2_def gf_tables(3))

lemma gfPow2_inj: "i < 255 \<Longrightarrow> j < 255 \<Longrightarrow> gfPow2 i = gfPow2 j \<Longrightarrow> i = j"
  by (auto simp: gfPow2_eq intro: gf_orbit_inj)

text \<open>
  The reference multiplication: polynomials over GF(2) modulo
  \<open>x^8 + x^4 + x^3 + x^2 + 1\<close>, by shift and add over the bits of the first factor.
\<close>

primrec shift_add :: "nat \<Rightarrow> byte \<Rightarrow> byte \<Rightarrow> byte" where
  "shift_add 0 a b = 0"
| "shift_add (Suc n) a b = (if bit a n then gf_pow n b else 0) XOR shift_add n a b"

lemma gf_pow_one: "n < 8 \<Longrightarrow> gf_pow n 1 = 2 ^ n"
proof -
  assume "n < 8"
  then have "n \<in> {0, 1, 2, 3, 4, 5, 6, 7}" by auto
  then show ?thesis by (elim insertE emptyE) (simp_all add: gf_double_def eval_nat_numeral)
qed

lemma gfMul_power: "n < 8 \<Longrightarrow> gfMul (2 ^ n) b = gf_pow n b"
  using gfMul_linear [of "gf_pow n 1" b] gf_tables(4) [of n]
  by (simp add: gf_pow_one [symmetric])

lemma take_bit_Suc_xor:
  "take_bit (Suc n) (a :: byte) = (if bit a n then 2 ^ n else 0) XOR take_bit n a"
  by (rule bit_word_eqI) (auto simp: bit_simps less_Suc_eq)

lemma gfMul_take_bit: "n \<le> 8 \<Longrightarrow> gfMul (take_bit n a) b = shift_add n a b"
  by (induction n) (auto simp: take_bit_Suc_xor gfMul_xor_left gfMul_power simp del: take_bit_Suc)

lemma gfMul_shift_add: "gfMul a b = shift_add 8 a b"
  using gfMul_take_bit [of 8 a b] by (simp add: take_bit_word_eq_self)

subsection \<open>What recovery needs of the field\<close>

text \<open>
  The laws of the coefficient arithmetic, and the two systems of equations the
  erasure decoder solves with them: one unknown weighted by its coefficient, and
  two unknowns of which the sum and the weighted sum are known.
\<close>

locale parity_field =
  fixes mul :: "byte \<Rightarrow> byte \<Rightarrow> byte"
    and quot :: "byte \<Rightarrow> byte \<Rightarrow> byte result"
    and pow2 :: "nat \<Rightarrow> byte"
  assumes mul_zero: "mul a 0 = 0"
    and mul_xor_right: "mul a (b XOR c) = mul a b XOR mul a c"
    and mul_xor_left: "mul (a XOR b) c = mul a c XOR mul b c"
    and div_mul: "b \<noteq> 0 \<Longrightarrow> quot (mul b a) b = Inr a"
    and pow2_nonzero: "pow2 i \<noteq> 0"
    and pow2_inj: "i < 255 \<Longrightarrow> j < 255 \<Longrightarrow> pow2 i = pow2 j \<Longrightarrow> i = j"
begin

lemma solve_one: "quot (mul (pow2 x) d) (pow2 x) = Inr d"
  by (simp add: div_mul pow2_nonzero)

lemma coefficients_differ:
  assumes "x < 255" "y < 255" "x \<noteq> y"
  shows "pow2 x XOR pow2 y \<noteq> 0"
  using assms pow2_inj [of x y] by (auto simp: xor_eq_zero_iff)

lemma solve_two:
  assumes "x < 255" "y < 255" "x \<noteq> y"
  shows "quot (mul (pow2 y) (dx XOR dy) XOR (mul (pow2 x) dx XOR mul (pow2 y) dy))
           (pow2 x XOR pow2 y) = Inr dx"
proof -
  have "mul (pow2 y) (dx XOR dy) XOR (mul (pow2 x) dx XOR mul (pow2 y) dy)
      = mul (pow2 x XOR pow2 y) dx"
    by (rule bit_word_eqI) (auto simp: mul_xor_right mul_xor_left bit_xor_iff)
  then show ?thesis by (simp add: div_mul coefficients_differ [OF assms])
qed

end

interpretation gf: parity_field gfMul gfDiv gfPow2
  by unfold_locales
    (simp_all add: gfMul_xor_right gfMul_xor_left gfDiv_gfMul gfPow2_nonzero gfPow2_inj)

end
