(* ===== verification/ParityCode.thy ===== *)
theory ParityCode
  imports GF256 WireSession
begin

section \<open>Forward parity (\<^verbatim>\<open>gawk-server/wire/parity.go\<close>)\<close>

text \<open>
  P/Q parity over the chunks of a delta frame, recovery of erased chunks, and the
  ParityChunk datagram.  The theorem of the theory: what \<open>ComputeParity\<close> computes
  lets \<open>RecoverChunks\<close> restore any erasure pattern that leaves at least as many
  parity symbols as it takes chunks.
\<close>

definition MaxParityDataChunks :: nat where "MaxParityDataChunks = 255"
definition ParityChunkHeaderSize :: nat where "ParityChunkHeaderSize = 13"

subsection \<open>Computing parity\<close>

text \<open>\<^verbatim>\<open>for b, v := range c { acc[b] ^= f(v) }\<close>, for a \<open>c\<close> no longer than \<open>acc\<close>.\<close>

definition xor_into :: "(byte \<Rightarrow> byte) \<Rightarrow> bytes \<Rightarrow> bytes \<Rightarrow> bytes" where
  "xor_into f acc c =
     map (\<lambda>b. if b < length c then acc ! b XOR f (c ! b) else acc ! b) [0..<length acc]"

fun parity_loop :: "nat \<Rightarrow> nat \<Rightarrow> bytes list \<Rightarrow> bytes list \<Rightarrow> bytes list" where
  "parity_loop k i out [] = out"
| "parity_loop k i out (c # cs) =
     (let out1 = out[0 := xor_into (\<lambda>v. v) (out ! 0) c];
          out2 = (if k > 1 then out1[1 := xor_into (gfMul (gfPow2 i)) (out1 ! 1) c] else out1)
      in parity_loop k (Suc i) out2 cs)"

definition max_width :: "bytes list \<Rightarrow> nat" where
  "max_width cs = fold (\<lambda>c w. if length c > w then length c else w) cs 0"

definition ComputeParity :: "bytes list \<Rightarrow> int \<Rightarrow> bytes list result" where
  "ComputeParity chunks k =
     (if k < 0 \<or> k > int MaxParitySymbols then Inl ErrParityUnsupported else
      let n = length chunks in
      if k = 0 \<or> n = 0 then Inr []
      else if n > MaxParityDataChunks then Inl ErrParityUnsupported
      else let k' = (if k > int n then n else nat k); width = max_width chunks in
           if width > MaxChunkPayload then Inl ErrParityUnsupported
           else Inr (parity_loop k' 0 (replicate k' (replicate width 0)) chunks))"

subsection \<open>Recovering chunks\<close>

text \<open>
  An absent (\<^verbatim>\<open>nil\<close>) chunk or symbol is \<open>None\<close>.  The source overwrites the absent
  entries of its argument; the model returns the updated list, and leaves the
  argument alone on an error, as the source does.
\<close>

definition pad :: "nat \<Rightarrow> bytes \<Rightarrow> bytes" where
  "pad width c = take width (c @ replicate width 0)"

fun xor_others :: "(nat \<Rightarrow> byte \<Rightarrow> byte) \<Rightarrow> nat set \<Rightarrow> nat \<Rightarrow> bytes \<Rightarrow> bytes list \<Rightarrow> bytes" where
  "xor_others f skip i acc [] = acc"
| "xor_others f skip i acc (c # cs) =
     xor_others f skip (Suc i) (if i \<in> skip then acc else xor_into (f i) acc c) cs"

fun rmap :: "('a \<Rightarrow> 'e + 'b) \<Rightarrow> 'a list \<Rightarrow> 'e + 'b list" where
  "rmap f [] = Inr []"
| "rmap f (x # xs) = rbind (f x) (\<lambda>y. rbind (rmap f xs) (\<lambda>ys. Inr (y # ys)))"

definition parity_weight :: "nat \<Rightarrow> byte \<Rightarrow> byte" where
  "parity_weight i = gfMul (gfPow2 i)"

definition recover_one :: "nat \<Rightarrow> bytes option \<Rightarrow> bytes option \<Rightarrow> bytes list \<Rightarrow> nat \<Rightarrow> bytes list result" where
  "recover_one width haveP haveQ padded x =
     (case haveP of
        Some p \<Rightarrow> Inr (padded[x := xor_others (\<lambda>i v. v) {x} 0 p padded])
      | None \<Rightarrow>
          let acc = xor_others parity_weight {x} 0
                      (case haveQ of Some q \<Rightarrow> q | None \<Rightarrow> replicate width 0) padded
          in rbind (rmap (\<lambda>v. gfDiv v (gfPow2 x)) acc) (\<lambda>d. Inr (padded[x := d])))"

definition recover_two :: "nat \<Rightarrow> bytes option \<Rightarrow> bytes option \<Rightarrow> bytes list \<Rightarrow> nat \<Rightarrow> nat \<Rightarrow> bytes list result" where
  "recover_two width haveP haveQ padded x y =
     (let pm = xor_others (\<lambda>i v. v) {x, y} 0
                 (case haveP of Some p \<Rightarrow> p | None \<Rightarrow> replicate width 0) padded;
          qm = xor_others parity_weight {x, y} 0
                 (case haveQ of Some q \<Rightarrow> q | None \<Rightarrow> replicate width 0) padded;
          gx = gfPow2 x; gy = gfPow2 y; den = gx XOR gy in
      if den = 0 then Inl ErrParityUnsupported
      else rbind (rmap (\<lambda>(p, q). gfDiv (gfMul gy p XOR q) den) (zip pm qm)) (\<lambda>dx.
           Inr (padded[x := dx, y := map2 (XOR) pm dx])))"

definition RecoverChunks ::
  "bytes option list \<Rightarrow> bytes option list \<Rightarrow> int \<Rightarrow> bytes option list result" where
  "RecoverChunks chunks parity frameBytes =
     (let n = length chunks in
      if n = 0 then Inl ErrParityUnsupported
      else if n > MaxParityDataChunks then Inl ErrParityUnsupported else
      let missing = filter (\<lambda>i. chunks ! i = None) [0..<n] in
      if length missing = 0 then Inr chunks else
      let haveP = (case parity of p # _ \<Rightarrow> p | [] \<Rightarrow> None);
          haveQ = (case parity of _ # q # _ \<Rightarrow> q | _ \<Rightarrow> None);
          avail = of_bool (haveP \<noteq> None) + of_bool (haveQ \<noteq> None) in
      if length missing > avail then Inl ErrParityUnrecoverable else
      let width = (case haveP of Some p \<Rightarrow> length p
                   | None \<Rightarrow> (case haveQ of Some q \<Rightarrow> length q | None \<Rightarrow> 0)) in
      if width = 0 then Inl ErrParityUnrecoverable
      else if (case (haveP, haveQ) of (Some p, Some q) \<Rightarrow> length p \<noteq> length q | _ \<Rightarrow> False)
        then Inl ErrParityUnsupported else
      let lastLen = frameBytes - (int n - 1) * int width in
      if lastLen \<le> 0 \<or> lastLen > int width then Inl ErrParityUnsupported
      else if \<exists>i < n. case chunks ! i of None \<Rightarrow> False
                | Some c \<Rightarrow> int (length c) \<noteq> (if i = n - 1 then lastLen else int width)
        then Inl ErrParityUnsupported else
      let padded = map (\<lambda>c. case c of None \<Rightarrow> replicate width 0 | Some c \<Rightarrow> pad width c) chunks in
      rbind (case missing of
               [x] \<Rightarrow> recover_one width haveP haveQ padded x
             | [x, y] \<Rightarrow> recover_two width haveP haveQ padded x y
             | _ \<Rightarrow> Inr padded) (\<lambda>padded.
      Inr (fold (\<lambda>i cs. cs[i := Some (if i = n - 1 then take (nat lastLen) (padded ! i)
                                      else padded ! i)]) missing chunks)))"

subsection \<open>Both directions as sums over the frame\<close>

text \<open>Byte \<open>b\<close> of a chunk read as zero-padded.\<close>

definition byte_at :: "bytes \<Rightarrow> nat \<Rightarrow> byte" where
  "byte_at c b = (if b < length c then c ! b else 0)"

interpretation xorsum: comm_monoid_set "(XOR) :: byte \<Rightarrow> byte \<Rightarrow> byte" 0
  by unfold_locales

lemma length_xor_into [simp]: "length (xor_into f acc c) = length acc"
  by (simp add: xor_into_def)

lemma nth_xor_into:
  "b < length acc \<Longrightarrow> f 0 = 0 \<Longrightarrow> xor_into f acc c ! b = acc ! b XOR f (byte_at c b)"
  by (simp add: xor_into_def byte_at_def)

lemma length_xor_others [simp]: "length (xor_others f skip i acc cs) = length acc"
  by (induction f skip i acc cs rule: xor_others.induct) auto

lemma nth_xor_others:
  assumes "b < length acc" "\<And>i. f i 0 = 0"
  shows "xor_others f skip i acc cs ! b =
    acc ! b XOR xorsum.F (\<lambda>j. f j (byte_at (cs ! (j - i)) b)) ({i..<i + length cs} - skip)"
  using assms(1)
proof (induction cs arbitrary: i acc)
  case (Cons c cs)
  let ?g = "\<lambda>j. f j (byte_at ((c # cs) ! (j - i)) b)"
    and ?S = "{Suc i..<Suc i + length cs} - skip"
  have split: "{i..<i + length (c # cs)} - skip = (if i \<in> skip then {} else {i}) \<union> ?S"
    by (auto simp: le_less Suc_le_eq)
  have "xorsum.F (\<lambda>j. f j (byte_at (cs ! (j - Suc i)) b)) ?S = xorsum.F ?g ?S"
    by (rule xorsum.cong) (auto simp: nth_Cons' Suc_diff_le)
  then show ?case
    unfolding split using Cons by (simp add: nth_xor_into assms(2) xor.assoc)
qed simp

lemma parity_loop_P: "parity_loop 1 i [p] cs = [xor_others (\<lambda>_ v. v) {} i p cs]"
  by (induction cs arbitrary: i p) (auto simp: Let_def)

lemma parity_loop_PQ:
  "parity_loop 2 i [p, q] cs =
     [xor_others (\<lambda>_ v. v) {} i p cs, xor_others parity_weight {} i q cs]"
  by (induction cs arbitrary: i p q) (auto simp: Let_def parity_weight_def)

lemma parity_weight_0 [simp]: "parity_weight i 0 = 0"
  by (simp add: parity_weight_def)

definition symbol :: "(nat \<Rightarrow> byte \<Rightarrow> byte) \<Rightarrow> nat \<Rightarrow> bytes list \<Rightarrow> bytes" where
  "symbol f w cs = xor_others f {} 0 (replicate w 0) cs"

abbreviation "P_symbol \<equiv> symbol (\<lambda>_ v. v)"
abbreviation "Q_symbol \<equiv> symbol parity_weight"

lemma length_symbol [simp]: "length (symbol f w cs) = w"
  by (simp add: symbol_def)

lemma nth_symbol:
  assumes "b < w" "\<And>i. f i 0 = 0"
  shows "symbol f w cs ! b = xorsum.F (\<lambda>j. f j (byte_at (cs ! j) b)) {0..<length cs}"
  using assms by (simp add: symbol_def nth_xor_others)

lemma ComputeParity_symbols:
  assumes "ComputeParity cs k = Inr ps"
  shows "ps = take (length ps) [P_symbol (max_width cs) cs, Q_symbol (max_width cs) cs]"
    and "length ps = (if cs = [] then 0 else min (nat k) (length cs))"
proof -
  have lim: "\<not> k < 0" "\<not> k > int MaxParitySymbols"
    using assms by (auto simp: ComputeParity_def split: if_splits)
  then have "nat k \<le> 2" by (simp add: MaxParitySymbols_def)
  define k' where "k' = (if k > int (length cs) then length cs else nat k)"
  have k': "k' = min (nat k) (length cs)" using lim by (auto simp: k'_def)
  have "ps = [] \<and> (k = 0 \<or> cs = []) \<or>
      ps = parity_loop k' 0 (replicate k' (replicate (max_width cs) 0)) cs \<and> k' > 0"
    using assms lim by (auto simp: ComputeParity_def Let_def k'_def split: if_splits)
  moreover have "k' = 0 \<or> k' = 1 \<or> k' = 2" using k' \<open>nat k \<le> 2\<close> by linarith
  ultimately have "ps = take (length ps) [P_symbol (max_width cs) cs, Q_symbol (max_width cs) cs]
      \<and> (ps = [] \<and> (k = 0 \<or> cs = []) \<or> length ps = k' \<and> k' > 0)"
    using parity_loop_P [of 0 "replicate (max_width cs) 0" cs]
      parity_loop_PQ [of 0 "replicate (max_width cs) 0" "replicate (max_width cs) 0" cs]
    by (auto simp: symbol_def numeral_2_eq_2)
  then show "ps = take (length ps) [P_symbol (max_width cs) cs, Q_symbol (max_width cs) cs]"
    and "length ps = (if cs = [] then 0 else min (nat k) (length cs))"
    using k' by auto
qed

subsection \<open>Solving for the erased chunks\<close>

lemma length_pad [simp]: "length (pad w c) = w"
  by (simp add: pad_def)

lemma byte_at_pad: "length c \<le> w \<Longrightarrow> byte_at (pad w c) b = byte_at c b"
  by (auto simp: byte_at_def pad_def nth_append)

lemma nth_pad: "b < w \<Longrightarrow> pad w c ! b = byte_at c b"
  by (auto simp: byte_at_def pad_def nth_append)

lemma rmap_pointwise:
  "(\<forall>i < length xs. f (xs ! i) = Inr (ys ! i)) \<Longrightarrow> length ys = length xs \<Longrightarrow> rmap f xs = Inr ys"
proof (induction xs arbitrary: ys)
  case (Cons x xs)
  then obtain z zs where ys: "ys = z # zs" by (cases ys) auto
  with Cons.prems have "f x = Inr z" "\<forall>i < length xs. f (xs ! i) = Inr (zs ! i)" by fastforce+
  then show ?case using Cons.IH [of zs] Cons.prems(2) by (simp add: ys)
qed simp

text \<open>
  \<open>survivors w skip cs padded\<close>: every chunk but those of \<open>skip\<close> has survived, and
  \<open>padded\<close> is the rectangle the decoder works on.
\<close>

definition survivors :: "nat \<Rightarrow> nat set \<Rightarrow> bytes list \<Rightarrow> bytes list \<Rightarrow> bool" where
  "survivors w skip cs padded \<longleftrightarrow> length padded = length cs
     \<and> (\<forall>i < length cs. length (cs ! i) \<le> w)
     \<and> (\<forall>i < length cs. i \<notin> skip \<longrightarrow> padded ! i = pad w (cs ! i))"

text \<open>Adding the survivors to a symbol leaves the sum over the erased chunks.\<close>

lemma survivors_cancel:
  assumes s: "survivors w skip cs padded" and b: "b < w" and f: "\<And>i. f i 0 = 0"
    and skip: "skip \<subseteq> {0..<length cs}"
  shows "xor_others f skip 0 (symbol f w cs) padded ! b
    = xorsum.F (\<lambda>j. f j (byte_at (cs ! j) b)) skip"
proof -
  let ?g = "\<lambda>j. f j (byte_at (cs ! j) b)" and ?N = "{0..<length cs}"
  have "xor_others f skip 0 (symbol f w cs) padded ! b =
      symbol f w cs ! b XOR xorsum.F (\<lambda>j. f j (byte_at (padded ! j) b)) (?N - skip)"
    using s b f by (simp add: nth_xor_others survivors_def)
  also have "xorsum.F (\<lambda>j. f j (byte_at (padded ! j) b)) (?N - skip) = xorsum.F ?g (?N - skip)"
    using s by (intro xorsum.cong) (auto simp: survivors_def byte_at_pad)
  also have "symbol f w cs ! b = xorsum.F ?g (?N - skip) XOR xorsum.F ?g skip"
    using xorsum.subset_diff [OF skip, of ?g] b f by (simp add: nth_symbol)
  finally show ?thesis by (simp add: xor.left_commute xor.assoc)
qed

lemma recover_one_correct:
  assumes s: "survivors w {x} cs padded" and x: "x < length cs"
    and p: "haveP \<in> {None, Some (P_symbol w cs)}" and q: "haveQ \<in> {None, Some (Q_symbol w cs)}"
    and some: "haveP \<noteq> None \<or> haveQ \<noteq> None"
  shows "recover_one w haveP haveQ padded x = Inr (padded[x := pad w (cs ! x)])"
proof (cases haveP)
  case (Some a)
  have "xor_others (\<lambda>_ v. v) {x} 0 (P_symbol w cs) padded = pad w (cs ! x)"
    using survivors_cancel [OF s, of _ "\<lambda>_ v. v"] x by (intro nth_equalityI) (auto simp: nth_pad)
  with Some p show ?thesis by (simp add: recover_one_def)
next
  case None
  with some q have Q: "haveQ = Some (Q_symbol w cs)" by auto
  have "rmap (\<lambda>v. gfDiv v (gfPow2 x)) (xor_others parity_weight {x} 0 (Q_symbol w cs) padded)
      = Inr (pad w (cs ! x))"
    using survivors_cancel [OF s, of _ parity_weight] x
    by (intro rmap_pointwise) (auto simp: nth_pad parity_weight_def gf.solve_one)
  with None Q show ?thesis by (simp add: recover_one_def)
qed

lemma recover_two_correct:
  assumes s: "survivors w {x, y} cs padded" and x: "x < length cs" and y: "y < length cs"
    and xy: "x \<noteq> y" and n: "length cs \<le> 255"
    and p: "haveP = Some (P_symbol w cs)" and q: "haveQ = Some (Q_symbol w cs)"
  shows "recover_two w haveP haveQ padded x y
    = Inr (padded[x := pad w (cs ! x), y := pad w (cs ! y)])"
proof -
  let ?pm = "xor_others (\<lambda>_ v. v) {x, y} 0 (P_symbol w cs) padded"
    and ?qm = "xor_others parity_weight {x, y} 0 (Q_symbol w cs) padded"
  have lt: "x < 255" "y < 255" using x y n by auto
  have pm: "?pm ! b = byte_at (cs ! x) b XOR byte_at (cs ! y) b" if "b < w" for b
    using survivors_cancel [OF s that, of "\<lambda>_ v. v"] x y xy by simp
  have qm: "?qm ! b = gfMul (gfPow2 x) (byte_at (cs ! x) b) XOR gfMul (gfPow2 y) (byte_at (cs ! y) b)"
    if "b < w" for b
    using survivors_cancel [OF s that, of parity_weight] x y xy by (simp add: parity_weight_def)
  have dx: "rmap (\<lambda>(p, q). gfDiv (gfMul (gfPow2 y) p XOR q) (gfPow2 x XOR gfPow2 y)) (zip ?pm ?qm)
      = Inr (pad w (cs ! x))"
    by (rule rmap_pointwise) (auto simp: pm qm nth_pad gf.solve_two [OF lt xy])
  have dy: "map2 (XOR) ?pm (pad w (cs ! x)) = pad w (cs ! y)"
    by (rule nth_equalityI) (auto simp: pm nth_pad xor.commute xor.left_commute)
  show ?thesis
    using gf.coefficients_differ [OF lt xy] by (simp add: recover_two_def p q dx dy)
qed

subsection \<open>Any erasure within the parity budget is repaired\<close>

text \<open>
  The shape \<^verbatim>\<open>AppendVideoChunk\<close> callers give a frame: every chunk but the last
  has the width \<open>w\<close>, the last is no longer and not empty, and a frame of one
  chunk is its own width.
\<close>

definition frame_shape :: "nat \<Rightarrow> bytes list \<Rightarrow> bool" where
  "frame_shape w cs \<longleftrightarrow> cs \<noteq> [] \<and> (\<forall>c \<in> set (butlast cs). length c = w)
     \<and> 0 < length (last cs) \<and> length (last cs) \<le> w \<and> (length cs = 1 \<longrightarrow> length (last cs) = w)"

text \<open>\<open>rx\<close> is what is left of \<open>tx\<close> after erasures.\<close>

definition erasure :: "'a list \<Rightarrow> 'a option list \<Rightarrow> bool" where
  "erasure tx rx \<longleftrightarrow> length rx = length tx \<and> (\<forall>i < length tx. rx ! i = None \<or> rx ! i = Some (tx ! i))"

definition erased :: "'a option list \<Rightarrow> nat list" where
  "erased rx = filter (\<lambda>i. rx ! i = None) [0..<length rx]"

definition received :: "'a option list \<Rightarrow> nat" where
  "received rx = length (filter (\<lambda>x. x \<noteq> None) rx)"

lemma frame_shape_lengths:
  assumes "frame_shape w cs"
  shows "i < length cs \<Longrightarrow> length (cs ! i) = (if i = length cs - 1 then length (last cs) else w)"
    and "int (sum_list (map length cs)) = (int (length cs) - 1) * int w + int (length (last cs))"
proof -
  obtain bs l where cs: "cs = bs @ [l]" using assms by (cases cs rule: rev_cases) (auto simp: frame_shape_def)
  then have "\<forall>c \<in> set bs. length c = w" using assms by (simp add: frame_shape_def)
  moreover from this have "map length bs = replicate (length bs) w"
    by (intro nth_equalityI) auto
  ultimately show "i < length cs \<Longrightarrow> length (cs ! i) = (if i = length cs - 1 then length (last cs) else w)"
    and "int (sum_list (map length cs)) = (int (length cs) - 1) * int w + int (length (last cs))"
    by (auto simp: cs nth_append sum_list_replicate)
qed

lemma max_width_fold_le:
  "\<forall>c \<in> set cs. length c \<le> w \<Longrightarrow> v \<le> w \<Longrightarrow>
     fold (\<lambda>c w. if length c > w then length c else w) cs v \<le> w"
  by (induction cs arbitrary: v) auto

lemma max_width_fold_ge:
  "v \<le> fold (\<lambda>c w. if length c > w then length c else w) cs v"
  by (induction cs arbitrary: v) (auto intro: order.trans less_imp_le)

lemma max_width_ge_first: "length c \<le> max_width (c # cs)"
  using max_width_fold_ge [of "length c" cs] by (simp add: max_width_def)

lemma frame_shape_max_width:
  assumes "frame_shape w cs"
  shows "max_width cs = w"
proof (rule antisym)
  have "\<forall>c \<in> set cs. length c \<le> w"
    using frame_shape_lengths(1) [OF assms] assms
    by (auto simp: in_set_conv_nth frame_shape_def)
  then show "max_width cs \<le> w" by (simp add: max_width_def max_width_fold_le)
  obtain c cs' where cs: "cs = c # cs'" using assms by (cases cs) (auto simp: frame_shape_def)
  then have "length c = w" using assms by (cases cs') (auto simp: frame_shape_def)
  then show "w \<le> max_width cs" using max_width_ge_first [of c cs'] cs by simp
qed

lemma fold_update_nth:
  assumes "j < length l"
  shows "fold (\<lambda>i cs. cs[i := g i]) xs l ! j = (if j \<in> set xs then g j else l ! j)"
  using assms by (induction xs arbitrary: l) auto

lemma length_fold_update [simp]: "length (fold (\<lambda>i cs. cs[i := g i]) xs l) = length l"
  by (induction xs arbitrary: l) auto

definition solve_missing ::
  "nat \<Rightarrow> bytes option \<Rightarrow> bytes option \<Rightarrow> bytes list \<Rightarrow> nat list \<Rightarrow> bytes list result" where
  "solve_missing w haveP haveQ padded missing =
     (case missing of
        [x] \<Rightarrow> recover_one w haveP haveQ padded x
      | [x, y] \<Rightarrow> recover_two w haveP haveQ padded x y
      | _ \<Rightarrow> Inr padded)"

definition rectangle :: "nat \<Rightarrow> bytes option list \<Rightarrow> bytes list" where
  "rectangle w rc = map (\<lambda>c. case c of None \<Rightarrow> replicate w 0 | Some c \<Rightarrow> pad w c) rc"

lemma erased_props: "distinct (erased rx)" "set (erased rx) = {i. i < length rx \<and> rx ! i = None}"
  by (auto simp: erased_def)

lemma rectangle_survivors:
  assumes "erasure cs rc" "\<forall>i < length cs. length (cs ! i) \<le> w"
  shows "survivors w (set (erased rc)) cs (rectangle w rc)"
  using assms by (auto simp: survivors_def rectangle_def erased_props erasure_def)

lemma solve_missing_correct:
  assumes e: "erasure cs rc" and w: "\<forall>i < length cs. length (cs ! i) \<le> w" and n: "length cs \<le> 255"
    and p: "haveP \<in> {None, Some (P_symbol w cs)}" and q: "haveQ \<in> {None, Some (Q_symbol w cs)}"
    and some: "erased rc \<noteq> []"
    and enough: "length (erased rc) \<le> of_bool (haveP \<noteq> None) + of_bool (haveQ \<noteq> None)"
  shows "solve_missing w haveP haveQ (rectangle w rc) (erased rc) = Inr (map (pad w) cs)"
proof -
  have len: "length rc = length cs" using e by (simp add: erasure_def)
  note S = rectangle_survivors [OF e w]
  have fill: "fold (\<lambda>i ps. ps[i := pad w (cs ! i)]) (erased rc) (rectangle w rc) = map (pad w) cs"
    using e by (intro nth_equalityI)
      (auto simp: fold_update_nth erased_props rectangle_def erasure_def)
  consider x where "erased rc = [x]" | x y where "erased rc = [x, y]" "haveP \<noteq> None" "haveQ \<noteq> None"
    using some enough by (cases "erased rc" rule: remdups_adj.cases; cases haveP; cases haveQ) auto
  then show ?thesis
  proof cases
    case (1 x)
    then have "x < length cs" using erased_props(2) [of rc] len by auto
    moreover have "haveP \<noteq> None \<or> haveQ \<noteq> None" using enough 1 by (cases haveP; cases haveQ) auto
    ultimately show ?thesis
      using recover_one_correct [OF _ _ p q, of x "rectangle w rc"] S fill by (simp add: solve_missing_def 1)
  next
    case (2 x y)
    then have "x < length cs" "y < length cs" "x \<noteq> y"
      using erased_props [of rc] len by auto
    then show ?thesis
      using recover_two_correct [of w x y cs "rectangle w rc" haveP haveQ] S fill n p q 2
      by (simp add: solve_missing_def)
  qed
qed

text \<open>\<^verbatim>\<open>parity[0]\<close> and \<^verbatim>\<open>parity[1]\<close> where present.\<close>

definition parity_at :: "nat \<Rightarrow> bytes option list \<Rightarrow> bytes option" where
  "parity_at j rp = (if j < length rp then rp ! j else None)"

lemma parity_at_cases:
  "(case rp of p # _ \<Rightarrow> p | [] \<Rightarrow> None) = parity_at 0 rp"
  "(case rp of _ # q # _ \<Rightarrow> q | _ \<Rightarrow> None) = parity_at 1 rp"
  by (auto simp: parity_at_def split: list.splits)

lemma RecoverChunks_solves:
  assumes n: "length rc \<noteq> 0" "length rc \<le> MaxParityDataChunks" and some: "erased rc \<noteq> []"
    and budget: "length (erased rc) \<le> of_bool (parity_at 0 rp \<noteq> None) + of_bool (parity_at 1 rp \<noteq> None)"
    and width: "\<And>j p. j < 2 \<Longrightarrow> parity_at j rp = Some p \<Longrightarrow> length p = w" "0 < w"
    and last: "last_len = frameBytes - (int (length rc) - 1) * int w" "0 < last_len" "last_len \<le> int w"
    and lens: "\<And>i c. i < length rc \<Longrightarrow> rc ! i = Some c \<Longrightarrow>
        int (length c) = (if i = length rc - 1 then last_len else int w)"
  shows "RecoverChunks rc rp frameBytes =
    rbind (solve_missing w (parity_at 0 rp) (parity_at 1 rp) (rectangle w rc) (erased rc)) (\<lambda>padded.
    Inr (fold (\<lambda>i cs. cs[i := Some (if i = length rc - 1 then take (nat last_len) (padded ! i)
                                    else padded ! i)]) (erased rc) rc))"
proof -
  have w: "(case parity_at 0 rp of Some p \<Rightarrow> length p
            | None \<Rightarrow> (case parity_at 1 rp of Some q \<Rightarrow> length q | None \<Rightarrow> 0)) = w"
    using budget some width(1) [of 0] width(1) [of 1] by (auto split: option.splits)
  have agree: "\<not> (case (parity_at 0 rp, parity_at 1 rp) of (Some p, Some q) \<Rightarrow> length p \<noteq> length q | _ \<Rightarrow> False)"
    using width(1) [of 0] width(1) [of 1] by (auto split: option.splits)
  have shape: "\<not> (\<exists>i < length rc. case rc ! i of None \<Rightarrow> False
                | Some c \<Rightarrow> int (length c) \<noteq> (if i = length rc - 1 then last_len else int w))"
    using lens by (auto split: option.splits)
  show ?thesis
    unfolding RecoverChunks_def Let_def parity_at_cases erased_def [symmetric] w
      last(1) [symmetric] rectangle_def [symmetric] solve_missing_def [symmetric]
      if_not_P [OF shape] if_not_P [OF agree]
    using n some budget width(2) last(2,3) by simp
qed

text \<open>What a receiver can hold of the symbols that were sent.\<close>

definition symbols_received :: "bytes list \<Rightarrow> bytes option list \<Rightarrow> bool" where
  "symbols_received ps rp \<longleftrightarrow>
     (\<forall>j < length rp. rp ! j = None \<or> (j < length ps \<and> rp ! j = Some (ps ! j)))"

lemma received_budget:
  assumes "symbols_received ps rp" "length ps \<le> 2"
  shows "received rp = of_bool (parity_at 0 rp \<noteq> None) + of_bool (parity_at 1 rp \<noteq> None)"
proof -
  have none: "rp ! j = None" if "2 \<le> j" "j < length rp" for j
    using assms that by (auto simp: symbols_received_def)
  have "filter (\<lambda>x. x \<noteq> None) (drop 2 rp) = []"
    by (auto simp: filter_empty_conv in_set_conv_nth none)
  then have "received rp = length (filter (\<lambda>x. x \<noteq> None) (take 2 rp))"
    unfolding received_def by (metis append_Nil2 append_take_drop_id filter_append)
  also have "\<dots> = of_bool (parity_at 0 rp \<noteq> None) + of_bool (parity_at 1 rp \<noteq> None)"
    by (cases rp rule: remdups_adj.cases) (auto simp: parity_at_def)
  finally show ?thesis .
qed

lemma parity_at_sent:
  assumes "ComputeParity cs k = Inr ps" "symbols_received ps rp"
  shows "parity_at 0 rp \<in> {None, Some (P_symbol (max_width cs) cs)}"
    and "parity_at 1 rp \<in> {None, Some (Q_symbol (max_width cs) cs)}"
    and "length ps \<le> 2"
proof -
  note ps = ComputeParity_symbols(1) [OF assms(1)]
  show len: "length ps \<le> 2" by (subst ps) simp
  have nth: "ps ! j = [P_symbol (max_width cs) cs, Q_symbol (max_width cs) cs] ! j"
    if "j < length ps" for j
    using that by (subst ps) simp
  have "parity_at j rp = None \<or> j < length ps \<and> parity_at j rp = Some (ps ! j)" for j
    using assms(2) by (auto simp: parity_at_def symbols_received_def)
  from this [of 0] this [of 1]
  show "parity_at 0 rp \<in> {None, Some (P_symbol (max_width cs) cs)}"
    and "parity_at 1 rp \<in> {None, Some (Q_symbol (max_width cs) cs)}"
    using nth [of 0] nth [of 1] by auto
qed

lemma take_pad: "length c \<le> w \<Longrightarrow> take (length c) (pad w c) = c"
  by (simp add: pad_def)

lemma erasure_lengths:
  assumes "frame_shape w cs" "erasure cs rc" "i < length rc" "rc ! i = Some c"
  shows "int (length c) = (if i = length rc - 1 then int (length (last cs)) else int w)"
proof -
  from assms(2-4) have "c = cs ! i" "length rc = length cs" by (auto simp: erasure_def)
  with frame_shape_lengths(1) [OF assms(1), of i] assms(3) show ?thesis by simp
qed

lemma filled_frame:
  assumes "frame_shape w cs" "erasure cs rc"
  shows "fold (\<lambda>i cs'. cs'[i := Some (if i = length rc - 1 then take (length (last cs)) (map (pad w) cs ! i)
                                    else map (pad w) cs ! i)]) (erased rc) rc = map Some cs"
proof -
  have "(if i = length rc - 1 then take (length (last cs)) (map (pad w) cs ! i)
         else map (pad w) cs ! i) = cs ! i" if "i < length cs" for i
    using frame_shape_lengths(1) [OF assms(1) that] assms that take_pad [of "cs ! i" w]
    by (auto simp: erasure_def frame_shape_def split: if_splits)
  with assms(2) show ?thesis
    by (intro nth_equalityI)
      (auto simp: fold_update_nth erased_props erasure_def simp del: One_nat_def)
qed

lemma RecoverChunks_complete:
  assumes shape: "frame_shape w cs" and n: "length cs \<le> MaxParityDataChunks"
    and sent: "ComputeParity cs k = Inr ps"
    and e: "erasure cs rc" and r: "symbols_received ps rp"
    and enough: "length (erased rc) \<le> received rp"
  shows "RecoverChunks rc rp (int (sum_list (map length cs))) = Inr (map Some cs)"
proof (cases "erased rc = []")
  case True
  then have "rc = map Some cs"
    using e erased_props(2) [of rc] by (intro nth_equalityI) (fastforce simp: erasure_def)+
  with True n shape show ?thesis
    by (simp add: RecoverChunks_def erased_def [symmetric] frame_shape_def Let_def)
next
  case False
  have len: "length rc = length cs" and cs: "cs \<noteq> []" using e shape by (auto simp: erasure_def frame_shape_def)
  note w = frame_shape_max_width [OF shape]
  note lens = frame_shape_lengths [OF shape]
  note sym = parity_at_sent [OF sent r, unfolded w]
  let ?l = "length (last cs)"
  have l: "0 < ?l" "?l \<le> w" using shape by (auto simp: frame_shape_def)
  have le: "\<forall>i < length cs. length (cs ! i) \<le> w" using lens(1) l by auto
  have budget: "length (erased rc) \<le> of_bool (parity_at 0 rp \<noteq> None) + of_bool (parity_at 1 rp \<noteq> None)"
    using enough received_budget [OF r sym(3)] by simp
  have wd: "length p = w" if "j < 2" "parity_at j rp = Some p" for j p
    using sym(1,2) that by (auto simp: less_2_cases_iff)
  have sol: "solve_missing w (parity_at 0 rp) (parity_at 1 rp) (rectangle w rc) (erased rc)
      = Inr (map (pad w) cs)"
    using n by (intro solve_missing_correct [OF e le _ sym(1,2) False budget]) (simp add: MaxParityDataChunks_def)
  have "RecoverChunks rc rp (int (sum_list (map length cs))) =
    Inr (fold (\<lambda>i cs'. cs'[i := Some (if i = length rc - 1 then take ?l (map (pad w) cs ! i)
                                    else map (pad w) cs ! i)]) (erased rc) rc)"
  proof (subst RecoverChunks_solves [OF _ _ _ budget])
    show "length rc \<noteq> 0" "length rc \<le> MaxParityDataChunks" "0 < int ?l" "int ?l \<le> int w"
      using len cs n l by simp_all
    show "0 < w" using l by linarith
    show "int ?l = int (sum_list (map length cs)) - (int (length rc) - 1) * int w"
      using lens(2) len by simp
    show "erased rc \<noteq> []" by (fact False)
  qed (erule (1) wd, erule (1) erasure_lengths [OF shape e], simp only: sol rbind_simps nat_int)
  also have "\<dots> = Inr (map Some cs)" by (simp only: filled_frame [OF shape e])
  finally show ?thesis .
qed

subsection \<open>On any input\<close>

text \<open>
  Whatever arrives, recovery does not divide by zero, leaves every received chunk
  as it is and, when it succeeds, leaves no chunk absent.
\<close>

lemma gfDiv_defined: "b \<noteq> 0 \<Longrightarrow> \<exists>c. gfDiv a b = Inr c"
  by (auto simp: gfDiv_def)

lemma rmap_defined: "\<forall>x \<in> set xs. \<exists>y. f x = Inr y \<Longrightarrow> \<exists>ys. rmap f xs = Inr ys"
  by (induction xs) auto

lemma solve_missing_no_panic: "solve_missing w haveP haveQ padded missing \<noteq> Inl RuntimePanic"
proof -
  have div: "rmap (\<lambda>v. gfDiv v (gfPow2 x)) acc \<noteq> Inl e" for acc x e
    using rmap_defined [of acc "\<lambda>v. gfDiv v (gfPow2 x)"] gfDiv_defined gfPow2_nonzero by fastforce
  have one: "recover_one w haveP haveQ padded x \<noteq> Inl RuntimePanic" for x
    by (auto simp: recover_one_def Let_def rbind_Inl_iff div split: option.splits)
  have "rmap (\<lambda>(p, q). gfDiv (gfMul a p XOR q) d) zs \<noteq> Inl e" if "d \<noteq> 0" for a d zs e
    using rmap_defined [of zs "\<lambda>(p, q). gfDiv (gfMul a p XOR q) d"] gfDiv_defined [OF that] by fastforce
  then have two: "recover_two w haveP haveQ padded x y \<noteq> Inl RuntimePanic" for x y
    by (auto simp: recover_two_def Let_def rbind_Inl_iff)
  show ?thesis using one two by (auto simp: solve_missing_def split: list.splits)
qed

definition write_back :: "int \<Rightarrow> bytes option list \<Rightarrow> bytes list \<Rightarrow> bytes option list" where
  "write_back lastLen rc padded =
     fold (\<lambda>i cs. cs[i := Some (if i = length rc - 1 then take (nat lastLen) (padded ! i)
                                else padded ! i)]) (erased rc) rc"

definition recovery_outcomes :: "bytes option list \<Rightarrow> bytes option list \<Rightarrow> bytes option list result set" where
  "recovery_outcomes rc rp =
     {Inl ErrParityUnsupported, Inl ErrParityUnrecoverable} \<union> {Inr rc | x :: unit. erased rc = []}
     \<union> {rbind (solve_missing w (parity_at 0 rp) (parity_at 1 rp) (rectangle w rc) (erased rc))
             (\<lambda>padded. Inr (write_back lastLen rc padded)) | w lastLen. True}"

lemma if_member: "(c \<Longrightarrow> a \<in> S) \<Longrightarrow> (\<not> c \<Longrightarrow> b \<in> S) \<Longrightarrow> (if c then a else b) \<in> S"
  by simp

lemma RecoverChunks_outcomes: "RecoverChunks rc rp frameBytes \<in> recovery_outcomes rc rp"
  unfolding RecoverChunks_def Let_def parity_at_cases erased_def [symmetric]
    rectangle_def [symmetric] solve_missing_def [symmetric] length_0_conv write_back_def [symmetric]
  by (intro if_member) (auto simp only: recovery_outcomes_def)

lemma RecoverChunks_no_panic: "RecoverChunks rc rp frameBytes \<noteq> Inl RuntimePanic"
  using RecoverChunks_outcomes [of rc rp frameBytes]
  by (auto simp: recovery_outcomes_def rbind_Inl_iff solve_missing_no_panic)

lemma RecoverChunks_conservative:
  assumes "RecoverChunks rc rp frameBytes = Inr out"
  shows "length out = length rc \<and>
    (\<forall>i < length rc. out ! i \<noteq> None \<and> (rc ! i \<noteq> None \<longrightarrow> out ! i = rc ! i))"
proof -
  have "out = rc \<and> erased rc = [] \<or> (\<exists>lastLen padded. out = write_back lastLen rc padded)"
    using RecoverChunks_outcomes [of rc rp frameBytes] assms
    by (auto simp: recovery_outcomes_def rbind_Inr_iff dest!: sym [of "Inr _"]) blast+
  moreover have "i \<in> set (erased rc) \<longleftrightarrow> rc ! i = None" if "i < length rc" for i
    using that by (simp add: erased_props)
  ultimately show ?thesis
    by (elim disjE exE conjE) (auto simp: write_back_def fold_update_nth)
qed

subsection \<open>The ParityChunk datagram (0x0E)\<close>

record ParityChunkHeader =
  pc_FrameID :: u32
  pc_ParityIndex :: byte
  pc_ChunkCount :: u16
  pc_FrameBytes :: u32

definition AppendParityChunk :: "bytes \<Rightarrow> ParityChunkHeader \<Rightarrow> bytes \<Rightarrow> bytes result" where
  "AppendParityChunk dst h payload =
     (if length payload > MaxChunkPayload then Inl ErrPayloadTooLarge
      else if pc_ChunkCount h = 0 \<or> unat (pc_ChunkCount h) > MaxParityDataChunks
        then Inl ErrBadChunkCount
      else if unat (pc_ParityIndex h) \<ge> MaxParitySymbols then Inl ErrBadChunkCount
      else Inr (dst @ [Version, TypeParityChunk] @ be32 (pc_FrameID h) @ [pc_ParityIndex h]
                @ be16 (pc_ChunkCount h) @ be32 (pc_FrameBytes h) @ payload))"

definition ParseParityChunk :: "bytes \<Rightarrow> (ParityChunkHeader \<times> bytes) result" where
  "ParseParityChunk dgram =
     (if length dgram < ParityChunkHeaderSize then Inl ErrShortDatagram
      else if length dgram > MaxDatagramSize then Inl ErrPayloadTooLarge else
      rbind (expect_prefix dgram TypeParityChunk) (\<lambda>_.
      rbind (slice32 dgram 2 6) (\<lambda>fid.
      rbind (go_index dgram 6) (\<lambda>pidx.
      rbind (slice16 dgram 7 9) (\<lambda>cc.
      rbind (slice32 dgram 9 13) (\<lambda>fb.
      if cc = 0 \<or> unat cc > MaxParityDataChunks then Inl ErrBadChunkCount
      else if unat pidx \<ge> MaxParitySymbols then Inl ErrBadChunkCount
      else rbind (go_from dgram ParityChunkHeaderSize) (\<lambda>payload.
           Inr (\<lparr>pc_FrameID = fid, pc_ParityIndex = pidx, pc_ChunkCount = cc,
                 pc_FrameBytes = fb\<rparr>, payload))))))))"

lemma ParseParityChunk_eq:
  "ParseParityChunk d =
     (if length d < 13 then Inl ErrShortDatagram
      else if length d > MaxDatagramSize then Inl ErrPayloadTooLarge
      else if d ! 0 \<noteq> Version then Inl ErrBadVersion
      else if d ! 1 \<noteq> TypeParityChunk then Inl ErrBadType
      else let cc = join16 (d ! 7) (d ! 8) in
           if cc = 0 \<or> unat cc > MaxParityDataChunks \<or> unat (d ! 6) \<ge> MaxParitySymbols
           then Inl ErrBadChunkCount
           else Inr (\<lparr>pc_FrameID = join32 (d ! 2) (d ! 3) (d ! 4) (d ! 5), pc_ParityIndex = d ! 6,
                      pc_ChunkCount = cc, pc_FrameBytes = join32 (d ! 9) (d ! 10) (d ! 11) (d ! 12)\<rparr>,
                     drop 13 d))"
  by (simp add: ParseParityChunk_def ParityChunkHeaderSize_def expect_prefix_eq Let_def)

interpretation ParityChunk: wire_codec TypeParityChunk
  "\<lambda>(h, p). AppendParityChunk [] h p" ParseParityChunk "\<lambda>_. True"
proof
  fix m x
  assume "ParseParityChunk m = Inr x"
  then show "\<exists>r. m = Version # TypeParityChunk # r"
    by (intro prefixI) (auto simp: ParseParityChunk_eq Let_def split: if_splits)
qed (auto simp: AppendParityChunk_def ParseParityChunk_eq Let_def be16_def be32_def size_defs
      split: if_splits)

end
