(* ===== verification/VoiceWire.thy ===== *)
theory VoiceWire
  imports RoomWire
begin

section \<open>Voice messages (\<^verbatim>\<open>gawk-server/wire/voice.go\<close>)\<close>

text \<open>
  VoiceHello, VoiceFrame, VoiceState and VoiceControl, and the truncation of a
  Mumble name to what VoiceState and the voice roster can carry.
\<close>

definition VoiceProtocolVersion :: byte where "VoiceProtocolVersion = 1"
definition VoiceFrameHeaderSize :: nat where "VoiceFrameHeaderSize = 12"
definition MaxVoicePayload :: nat where "MaxVoicePayload = MaxDatagramSize - VoiceFrameHeaderSize"
definition MaxVoiceTarget :: byte where "MaxVoiceTarget = 31"
definition voiceHelloFlagMask :: byte where "voiceHelloFlagMask = 0x01 OR 0x02 OR 0x04"
definition VoiceFrameFlagEnd :: byte where "VoiceFrameFlagEnd = 0x01"
definition voiceFrameFlagMask :: byte where "voiceFrameFlagMask = VoiceFrameFlagEnd"
definition voiceStateFlagMask :: byte where "voiceStateFlagMask = 0x3f"
definition voiceControlFlagMask :: byte where "voiceControlFlagMask = 0x01 OR 0x02"

record VoiceHello =
  vh_Protocol :: byte
  vh_Flags :: byte
  vh_Ticket :: bytes

record VoiceFrameHeader =
  vf_End :: bool
  vf_Target :: byte
  vf_Speaker :: u32
  vf_Seq :: u32

record VoiceState =
  vs_Flags :: byte
  vs_Session :: u32
  vs_Name :: bytes

subsection \<open>VoiceHello (0x1A)\<close>

definition AppendVoiceHello :: "bytes \<Rightarrow> VoiceHello \<Rightarrow> bytes result" where
  "AppendVoiceHello dst h =
     (if vh_Protocol h \<noteq> VoiceProtocolVersion then Inl ErrBadVoiceHello
      else if vh_Flags h AND NOT voiceHelloFlagMask \<noteq> 0 then Inl ErrBadVoiceHello
      else if length (vh_Ticket h) = 0 \<or> length (vh_Ticket h) > MaxVoiceTicketLen then Inl ErrBadVoiceHello
      else Inr (dst @ [Version, TypeVoiceHello, vh_Protocol h, vh_Flags h]
                @ be16 (of_nat (length (vh_Ticket h))) @ vh_Ticket h))"

definition ParseVoiceHello :: "bytes \<Rightarrow> VoiceHello result" where
  "ParseVoiceHello msg =
     rbind (checkPrefix msg TypeVoiceHello 6) (\<lambda>_.
     rbind (go_index msg 2) (\<lambda>protocol.
     rbind (go_index msg 3) (\<lambda>flags.
     if protocol \<noteq> VoiceProtocolVersion then Inl ErrBadVoiceHello
     else if flags AND NOT voiceHelloFlagMask \<noteq> 0 then Inl ErrBadVoiceHello else
     rbind (slice16 msg 4 6) (\<lambda>w. let n = unat w in
     if n = 0 \<or> n > MaxVoiceTicketLen then Inl ErrBadVoiceHello
     else if 6 + n \<noteq> length msg then Inl ErrBadVoiceHello
     else rbind (go_from msg 6) (\<lambda>ticket.
          Inr \<lparr>vh_Protocol = protocol, vh_Flags = flags, vh_Ticket = ticket\<rparr>)))))"

lemma be16_of_length: "unat (join16 a b) = n \<Longrightarrow> be16 (of_nat n) = [a, b]"
  by auto

lemma ParseVoiceHello_eq:
  "ParseVoiceHello m =
     (if length m < 6 then Inl ErrShortDatagram
      else if m ! 0 \<noteq> Version then Inl ErrBadVersion
      else if m ! 1 \<noteq> TypeVoiceHello then Inl ErrBadType
      else let n = unat (join16 (m ! 4) (m ! 5)) in
        if m ! 2 \<noteq> VoiceProtocolVersion \<or> m ! 3 AND NOT voiceHelloFlagMask \<noteq> 0
           \<or> n = 0 \<or> n > MaxVoiceTicketLen \<or> 6 + n \<noteq> length m then Inl ErrBadVoiceHello
        else Inr \<lparr>vh_Protocol = m ! 2, vh_Flags = m ! 3, vh_Ticket = drop 6 m\<rparr>)"
  by (simp add: ParseVoiceHello_def checkPrefix_eq Let_def)

interpretation VoiceHello: strict_codec TypeVoiceHello "AppendVoiceHello []" ParseVoiceHello "\<lambda>_. True"
proof
  fix m x
  assume p: "ParseVoiceHello m = Inr x"
  then have len: "6 \<le> length m" by (auto simp: ParseVoiceHello_eq not_less split: if_splits)
  with p show "\<exists>r. m = Version # TypeVoiceHello # r"
    by (intro prefixI) (auto simp: ParseVoiceHello_eq Let_def split: if_splits)
  from split_len6 [OF len] p show "True \<and> AppendVoiceHello [] x = Inr m"
    by (auto simp: ParseVoiceHello_eq Let_def AppendVoiceHello_def MaxVoiceTicketLen_def be16_of_length
        split: if_splits)
next
  fix x m
  assume "AppendVoiceHello [] x = Inr m"
  then show "ParseVoiceHello m = Inr x"
    by (auto simp: AppendVoiceHello_def ParseVoiceHello_eq be16_def MaxVoiceTicketLen_def unat_of_nat_u16
        split: if_splits)
qed (auto simp: AppendVoiceHello_def ParseVoiceHello_eq Let_def split: if_splits)

subsection \<open>VoiceFrame (0x1B)\<close>

definition AppendVoiceFrame :: "bytes \<Rightarrow> VoiceFrameHeader \<Rightarrow> bytes \<Rightarrow> bytes result" where
  "AppendVoiceFrame dst h payload =
     (if length payload > MaxVoicePayload \<or> (length payload = 0 \<and> \<not> vf_End h) then Inl ErrBadVoiceFrame
      else if vf_Target h > MaxVoiceTarget then Inl ErrBadVoiceFrame
      else Inr (dst @ [Version, TypeVoiceFrame, bool_flag (vf_End h) VoiceFrameFlagEnd, vf_Target h]
                @ be32 (vf_Speaker h) @ be32 (vf_Seq h) @ payload))"

definition ParseVoiceFrame :: "bytes \<Rightarrow> (VoiceFrameHeader \<times> bytes) result" where
  "ParseVoiceFrame dgram =
     rbind (checkPrefix dgram TypeVoiceFrame VoiceFrameHeaderSize) (\<lambda>_.
     rbind (go_index dgram 2) (\<lambda>flags.
     if flags AND NOT voiceFrameFlagMask \<noteq> 0 then Inl ErrBadVoiceFrame else
     rbind (go_index dgram 3) (\<lambda>target.
     rbind (slice32 dgram 4 8) (\<lambda>speaker.
     rbind (slice32 dgram 8 12) (\<lambda>sq.
     let h = \<lparr>vf_End = (flags AND VoiceFrameFlagEnd \<noteq> 0), vf_Target = target,
              vf_Speaker = speaker, vf_Seq = sq\<rparr> in
     if vf_Target h > MaxVoiceTarget then Inl ErrBadVoiceFrame else
     rbind (go_from dgram VoiceFrameHeaderSize) (\<lambda>payload.
     if length payload = 0 \<and> \<not> vf_End h then Inl ErrBadVoiceFrame else Inr (h, payload)))))))"

lemma ParseVoiceFrame_eq:
  "ParseVoiceFrame m =
     (if length m < 12 then Inl ErrShortDatagram
      else if m ! 0 \<noteq> Version then Inl ErrBadVersion
      else if m ! 1 \<noteq> TypeVoiceFrame then Inl ErrBadType
      else if m ! 2 AND NOT voiceFrameFlagMask \<noteq> 0 \<or> m ! 3 > MaxVoiceTarget
        \<or> (length m = 12 \<and> m ! 2 AND VoiceFrameFlagEnd = 0) then Inl ErrBadVoiceFrame
      else Inr (\<lparr>vf_End = (m ! 2 AND VoiceFrameFlagEnd \<noteq> 0), vf_Target = m ! 3,
                 vf_Speaker = join32 (m ! 4) (m ! 5) (m ! 6) (m ! 7),
                 vf_Seq = join32 (m ! 8) (m ! 9) (m ! 10) (m ! 11)\<rparr>, drop 12 m))"
  by (auto simp: ParseVoiceFrame_def checkPrefix_eq VoiceFrameHeaderSize_def Let_def)

interpretation VoiceFrame: wire_codec TypeVoiceFrame
  "\<lambda>(h, p). AppendVoiceFrame [] h p" ParseVoiceFrame "\<lambda>_. True"
proof
  fix m x
  assume "ParseVoiceFrame m = Inr x"
  then show "\<exists>r. m = Version # TypeVoiceFrame # r"
    by (intro prefixI) (auto simp: ParseVoiceFrame_eq split: if_splits)
next
  fix x m
  assume a: "(case x of (h, p) \<Rightarrow> AppendVoiceFrame [] h p) = Inr m"
  obtain h p where x: "x = (h, p)" by (cases x)
  from a show "ParseVoiceFrame m = Inr x"
    by (cases "vf_End h")
      (auto simp: x AppendVoiceFrame_def ParseVoiceFrame_eq be32_def voiceFrameFlagMask_def
        VoiceFrameFlagEnd_def bool_flag_def split: if_splits)
qed (auto simp: AppendVoiceFrame_def ParseVoiceFrame_eq split: if_splits)

subsection \<open>VoiceState (0x1C)\<close>

definition AppendVoiceState :: "bytes \<Rightarrow> VoiceState \<Rightarrow> bytes result" where
  "AppendVoiceState dst s =
     (if vs_Flags s AND NOT voiceStateFlagMask \<noteq> 0 then Inl ErrBadVoiceState
      else appendStr8 (dst @ [Version, TypeVoiceState, vs_Flags s] @ be32 (vs_Session s))
             (vs_Name s) MaxVoiceNameLen ErrBadVoiceState)"

definition voice_state :: "VoiceState reader" where
  "voice_state = do {
     flags \<leftarrow> u8 ErrBadVoiceState;
     _ \<leftarrow> fail_if (flags AND NOT voiceStateFlagMask \<noteq> 0) ErrBadVoiceState;
     session \<leftarrow> u32_field ErrBadVoiceState;
     name \<leftarrow> str8 ErrBadVoiceState MaxVoiceNameLen;
     State_Monad.return \<lparr>vs_Flags = flags, vs_Session = session, vs_Name = name\<rparr> }"

definition ParseVoiceState :: "bytes \<Rightarrow> VoiceState result" where
  "ParseVoiceState msg =
     rbind (checkPrefix msg TypeVoiceState 8) (\<lambda>_. read_record ErrBadVoiceState voice_state msg)"

definition p_voice_state :: "VoiceState parser" where
  "p_voice_state =
     p_bind (p_u8 ErrBadVoiceState) (\<lambda>flags.
     p_bind (p_check (flags AND NOT voiceStateFlagMask \<noteq> 0) ErrBadVoiceState) (\<lambda>_.
     p_bind (p_u32 ErrBadVoiceState) (\<lambda>session.
     p_bind (p_str8 ErrBadVoiceState MaxVoiceNameLen) (\<lambda>name.
     p_return \<lparr>vs_Flags = flags, vs_Session = session, vs_Name = name\<rparr>))))"

lemma voice_state_refines: "refines voice_state p_voice_state" "only_fails ErrBadVoiceState p_voice_state"
  unfolding voice_state_def p_voice_state_def by (intro refine_rules, intro fail_rules)

lemma p_voice_state_accepts:
  "p_voice_state s = Inr (v, r) \<longleftrightarrow> vs_Flags v AND NOT voiceStateFlagMask = 0 \<and>
     str_ok MaxVoiceNameLen (vs_Name v) \<and> s = vs_Flags v # be32 (vs_Session v) @ enc_str8 (vs_Name v) @ r"
  by (cases v) (auto simp: p_voice_state_def accepts MaxVoiceNameLen_def)

lemma ParseVoiceState_iff: "ParseVoiceState m = Inr v \<longleftrightarrow> AppendVoiceState [] v = Inr m"
  unfolding ParseVoiceState_def record_Inr_iff [OF voice_state_refines(1)] p_voice_state_accepts
  by (auto simp: AppendVoiceState_def appendStr8_eq enc_str8_def)

interpretation VoiceState: strict_codec TypeVoiceState "AppendVoiceState []" ParseVoiceState "\<lambda>_. True"
proof
  show "ParseVoiceState m \<noteq> Inl RuntimePanic" for m
    unfolding ParseVoiceState_def by (rule record_no_panic [OF voice_state_refines]) simp_all
qed (auto simp: ParseVoiceState_iff AppendVoiceState_def appendStr8_eq split: if_splits)

subsection \<open>VoiceControl (0x1D)\<close>

definition AppendVoiceControl :: "bytes \<Rightarrow> byte \<Rightarrow> bytes result" where
  "AppendVoiceControl dst flags =
     (if flags AND NOT voiceControlFlagMask \<noteq> 0 then Inl ErrBadVoiceControl
      else Inr (dst @ [Version, TypeVoiceControl, flags]))"

definition ParseVoiceControl :: "bytes \<Rightarrow> byte result" where
  "ParseVoiceControl msg =
     rbind (checkPrefix msg TypeVoiceControl 3) (\<lambda>_.
     if length msg \<noteq> 3 then Inl ErrBadVoiceControl else
     rbind (go_index msg 2) (\<lambda>flags.
     if flags AND NOT voiceControlFlagMask \<noteq> 0 then Inl ErrBadVoiceControl else Inr flags))"

lemma ParseVoiceControl_iff: "ParseVoiceControl m = Inr f \<longleftrightarrow> AppendVoiceControl [] f = Inr m"
proof
  assume p: "ParseVoiceControl m = Inr f"
  then have "length m = 3"
    by (auto simp: ParseVoiceControl_def rbind_Inr_iff split: if_splits)
  then obtain a b c where "m = [a, b, c]" by (auto simp: numeral_3_eq_3 length_Suc_conv)
  with p show "AppendVoiceControl [] f = Inr m"
    by (auto simp: ParseVoiceControl_def checkPrefix_eq AppendVoiceControl_def split: if_splits)
qed (auto simp: ParseVoiceControl_def checkPrefix_eq AppendVoiceControl_def split: if_splits)

interpretation VoiceControl: strict_codec TypeVoiceControl "AppendVoiceControl []" ParseVoiceControl "\<lambda>_. True"
proof
  show "ParseVoiceControl m \<noteq> Inl RuntimePanic" for m
    by (auto simp: ParseVoiceControl_def checkPrefix_eq)
qed (auto simp: ParseVoiceControl_iff AppendVoiceControl_def split: if_splits)

subsection \<open>TruncateVoiceName\<close>

definition TruncateVoiceName :: "bytes \<Rightarrow> bytes" where
  "TruncateVoiceName s = fit_runes MaxVoiceNameLen (if \<not> utf8_valid s then runes_repaired s else s)"

text \<open>A truncated name is always one the encoders accept.\<close>

lemma TruncateVoiceName_ok: "str_ok MaxVoiceNameLen (TruncateVoiceName s)"
  using fit_runes_valid [of s] fit_runes_valid [OF runes_repaired_valid, of _ s]
  by (simp add: TruncateVoiceName_def str_ok_def fit_runes_length)

lemma TruncateVoiceName_keeps: "str_ok MaxVoiceNameLen s \<Longrightarrow> TruncateVoiceName s = s"
  by (simp add: TruncateVoiceName_def str_ok_def fit_runes_id)

end
