(* ===== verification/LocalRelayWire.thy ===== *)
theory LocalRelayWire
  imports RoomWire
begin

section \<open>Local-relay messages (\<^verbatim>\<open>gawk-server/wire/localrelay.go\<close>)\<close>

text \<open>
  LocalRelayInfo and LocalRelayOffer, and the hand-written checks of the origins
  and URLs they carry.  Both messages tolerate bytes past their last field.
\<close>

definition LocalRelayLinked :: byte where "LocalRelayLinked = 0x01"
definition LocalRelayOnWall :: byte where "LocalRelayOnWall = 0x02"
definition LocalRelayInfoMinSize :: nat where "LocalRelayInfoMinSize = 7"
definition MaxLocalRelayOriginLen :: nat where "MaxLocalRelayOriginLen = 128"
definition MaxLocalRelayHandleLen :: nat where "MaxLocalRelayHandleLen = 64"
definition MaxLocalRelayURLLen :: nat where "MaxLocalRelayURLLen = 256"
definition MaxLocalRelayCandidates :: nat where "MaxLocalRelayCandidates = 4"
definition MaxLocalRelayHashes :: nat where "MaxLocalRelayHashes = 2"
definition localRelayOfferMinSize :: nat where "localRelayOfferMinSize = 3 + 1 + 1 + 1 + 4 + 1"

lemmas local_relay_sizes =
  LocalRelayInfoMinSize_def MaxLocalRelayOriginLen_def MaxLocalRelayHandleLen_def
  MaxLocalRelayURLLen_def MaxLocalRelayCandidates_def MaxLocalRelayHashes_def
  localRelayOfferMinSize_def MaxRelayIdentityNameLen_def MaxRoomCodeLen_def

record LocalRelayInfo =
  lr_Linked :: bool
  lr_OnWall :: bool
  lr_Name :: bytes
  lr_HomeOrigin :: bytes
  lr_WallCode :: bytes

record LocalRelayCandidate =
  lc_URL :: bytes
  lc_Hashes :: "bytes list"

record LocalRelayOffer =
  lo_Handle :: bytes
  lo_Name :: bytes
  lo_Validity :: u32
  lo_Candidates :: "LocalRelayCandidate list"

subsection \<open>URL checks\<close>

definition urlBytesOK :: "bytes \<Rightarrow> bool" where
  "urlBytesOK s \<longleftrightarrow> (\<forall>b \<in> set s. \<not> (b \<le> 0x20 \<or> b > 0x7e))"

text \<open>The port loop: \<open>None\<close> at a byte that is no digit.\<close>

fun port_value :: "nat \<Rightarrow> bytes \<Rightarrow> nat option" where
  "port_value n [] = Some n"
| "port_value n (b # r) =
     (if b < 0x30 \<or> b > 0x39 then None else port_value (n * 10 + unat (b - 0x30)) r)"

definition port_ok :: "bytes \<Rightarrow> bool" where
  "port_ok port =
     (if length port = 0 \<or> length port > 5 then False
      else case port_value 0 port of None \<Rightarrow> False | Some n \<Rightarrow> \<not> (n = 0 \<or> n > 65535))"

text \<open>
  The host (with its brackets, if any) and the port, where there is one, before the
  port is checked.
\<close>

definition split_host_port :: "bytes \<Rightarrow> (bytes \<times> bytes option) option" where
  "split_host_port auth =
     (if HasPrefix auth (ascii ''['') then
        (case IndexByte auth 0x5D of
           None \<Rightarrow> None
         | Some e \<Rightarrow>
             if e < 2 then None else
             let host = take (e + 1) auth; rest = drop (e + 1) auth in
             if 0x5B \<in> set (take (e - 1) (drop 1 host)) then None
             else (case rest of
                     [] \<Rightarrow> Some (host, None)
                   | c # port \<Rightarrow> if c \<noteq> 0x3A then None else Some (host, Some port)))
      else
        let (host, port) = (case IndexByte auth 0x3A of
              None \<Rightarrow> (auth, None)
            | Some i \<Rightarrow> (take i auth, Some (drop (i + 1) auth))) in
        if host = [] \<or> ContainsAny host (ascii ''[]'') then None else Some (host, port))"

definition splitLocalRelayAuthority :: "bytes \<Rightarrow> bytes option" where
  "splitLocalRelayAuthority auth =
     (case split_host_port auth of
        None \<Rightarrow> None
      | Some (host, None) \<Rightarrow> Some host
      | Some (host, Some port) \<Rightarrow> if port_ok port then Some host else None)"

definition validateLocalRelayOrigin :: "bytes \<Rightarrow> unit result" where
  "validateLocalRelayOrigin origin =
     (if origin = [] then Inr ()
      else if length origin > MaxLocalRelayOriginLen then Inl ErrBadLocalRelayInfo
      else if \<not> urlBytesOK origin then Inl ErrBadLocalRelayInfo
      else rbind (if HasPrefix origin (ascii ''https://'') then Inr (drop 8 origin, False)
                  else if HasPrefix origin (ascii ''http://'') then Inr (drop 7 origin, True)
                  else Inl ErrBadLocalRelayInfo) (\<lambda>(auth, loopbackOnly).
           if ContainsAny auth (ascii ''/?#@'') then Inl ErrBadLocalRelayInfo else
           case splitLocalRelayAuthority auth of
             None \<Rightarrow> Inl ErrBadLocalRelayInfo
           | Some host \<Rightarrow>
               if loopbackOnly \<and> host \<noteq> ascii ''localhost'' \<and> host \<noteq> ascii ''127.0.0.1''
               then Inl ErrBadLocalRelayInfo else Inr ()))"

definition validateLocalRelayURL :: "bytes \<Rightarrow> unit result" where
  "validateLocalRelayURL raw =
     (if length raw = 0 \<or> length raw > MaxLocalRelayURLLen then Inl ErrBadLocalRelayOffer
      else if \<not> urlBytesOK raw then Inl ErrBadLocalRelayOffer
      else if \<not> HasPrefix raw (ascii ''https://'') then Inl ErrBadLocalRelayOffer
      else if ContainsAny raw (ascii ''?#'') then Inl ErrBadLocalRelayOffer
      else let auth = drop 8 raw;
               auth = (case IndexByte auth 0x2F of None \<Rightarrow> auth | Some i \<Rightarrow> take i auth) in
           if 0x40 \<in> set auth then Inl ErrBadLocalRelayOffer
           else case splitLocalRelayAuthority auth of
                  None \<Rightarrow> Inl ErrBadLocalRelayOffer | Some _ \<Rightarrow> Inr ())"

definition validateLocalRelayHandle :: "bytes \<Rightarrow> unit result" where
  "validateLocalRelayHandle handle =
     (if length handle = 0 \<or> length handle > MaxLocalRelayHandleLen then Inl ErrBadLocalRelayOffer
      else if \<exists>b \<in> set handle. b < 0x20 \<or> b > 0x7e then Inl ErrBadLocalRelayOffer
      else Inr ())"

subsection \<open>LocalRelayInfo (0x18)\<close>

definition AppendLocalRelayInfo :: "bytes \<Rightarrow> LocalRelayInfo \<Rightarrow> bytes result" where
  "AppendLocalRelayInfo dst m =
     rbind (validateLocalRelayOrigin (lr_HomeOrigin m)) (\<lambda>_.
     let state = bool_flag (lr_Linked m) LocalRelayLinked OR bool_flag (lr_OnWall m) LocalRelayOnWall in
     rbind (appendStr8 (dst @ [Version, TypeLocalRelayInfo, 0, state]) (lr_Name m)
              MaxRelayIdentityNameLen ErrBadLocalRelayInfo) (\<lambda>out.
     rbind (appendStr8 out (lr_HomeOrigin m) MaxLocalRelayOriginLen ErrBadLocalRelayInfo) (\<lambda>out.
     appendStr8 out (lr_WallCode m) MaxRoomCodeLen ErrBadLocalRelayInfo)))"

definition local_relay_info :: "LocalRelayInfo reader" where
  "local_relay_info = do {
     state \<leftarrow> u8 ErrBadLocalRelayInfo;
     name \<leftarrow> str8 ErrBadLocalRelayInfo MaxRelayIdentityNameLen;
     origin \<leftarrow> str8 ErrBadLocalRelayInfo MaxLocalRelayOriginLen;
     wall \<leftarrow> str8 ErrBadLocalRelayInfo MaxRoomCodeLen;
     State_Monad.return \<lparr>lr_Linked = (state AND LocalRelayLinked \<noteq> 0),
       lr_OnWall = (state AND LocalRelayOnWall \<noteq> 0), lr_Name = name, lr_HomeOrigin = origin,
       lr_WallCode = wall\<rparr> }"

definition ParseLocalRelayInfo :: "bytes \<Rightarrow> LocalRelayInfo result" where
  "ParseLocalRelayInfo msg =
     rbind (checkPrefix msg TypeLocalRelayInfo LocalRelayInfoMinSize) (\<lambda>_.
     let (flags, r) = run_state (u8 ErrBadLocalRelayInfo) \<lparr>rr_buf = msg, rr_off = 2, rr_err = None\<rparr> in
     if flags \<noteq> 0 then Inl ErrBadLocalRelayInfo else
     rbind (finish_open local_relay_info r) (\<lambda>m.
     rbind (validateLocalRelayOrigin (lr_HomeOrigin m)) (\<lambda>_. Inr m)))"

subsection \<open>LocalRelayOffer (0x19)\<close>

definition append_candidate :: "bytes \<Rightarrow> LocalRelayCandidate \<Rightarrow> bytes" where
  "append_candidate out c =
     out @ be16 (of_nat (length (lc_URL c))) @ lc_URL c @ [of_nat (length (lc_Hashes c))]
     @ concat (lc_Hashes c)"

definition AppendLocalRelayOffer :: "bytes \<Rightarrow> LocalRelayOffer \<Rightarrow> bytes result" where
  "AppendLocalRelayOffer dst m =
     rbind (validateLocalRelayHandle (lo_Handle m)) (\<lambda>_.
     if lo_Validity m = 0 then Inl ErrBadLocalRelayOffer
     else if length (lo_Candidates m) = 0 \<or> length (lo_Candidates m) > MaxLocalRelayCandidates
       then Inl ErrBadLocalRelayOffer
     else if \<exists>c \<in> set (lo_Candidates m). \<not> is_ok (validateLocalRelayURL (lc_URL c))
               \<or> length (lc_Hashes c) > MaxLocalRelayHashes then Inl ErrBadLocalRelayOffer
     else rbind (appendStr8 (dst @ [Version, TypeLocalRelayOffer, 0, of_nat (length (lo_Handle m))]
                   @ lo_Handle m) (lo_Name m) MaxRelayIdentityNameLen ErrBadLocalRelayOffer) (\<lambda>out.
          Inr (fold (\<lambda>c out. append_candidate out c) (lo_Candidates m)
                 (out @ be32 (lo_Validity m) @ [of_nat (length (lo_Candidates m))]))))"

text \<open>
  One candidate.  The source returns at the first bad field; a cursor that keeps its
  first error and reads nothing after it gives the same result.  The hashes are read
  one by one, which overruns the message exactly when the source's check of their
  total size fails.
\<close>

definition candidate :: "LocalRelayCandidate reader" where
  "candidate = do {
     n \<leftarrow> u16_field ErrBadLocalRelayOffer;
     _ \<leftarrow> fail_if (n = 0 \<or> unat n > MaxLocalRelayURLLen) ErrBadLocalRelayOffer;
     url \<leftarrow> take_bytes ErrBadLocalRelayOffer MaxLocalRelayURLLen (unat n);
     _ \<leftarrow> fail_if (\<not> is_ok (validateLocalRelayURL url)) ErrBadLocalRelayOffer;
     k \<leftarrow> u8 ErrBadLocalRelayOffer;
     _ \<leftarrow> fail_if (unat k > MaxLocalRelayHashes) ErrBadLocalRelayOffer;
     hs \<leftarrow> read_loop (take_bytes ErrBadLocalRelayOffer 32 32) (unat k);
     State_Monad.return \<lparr>lc_URL = url, lc_Hashes = hs\<rparr> }"

definition local_relay_offer :: "LocalRelayOffer reader" where
  "local_relay_offer = do {
     handle \<leftarrow> bytes8 ErrBadLocalRelayOffer MaxLocalRelayHandleLen;
     _ \<leftarrow> fail_if (\<not> is_ok (validateLocalRelayHandle handle)) ErrBadLocalRelayOffer;
     name \<leftarrow> str8 ErrBadLocalRelayOffer MaxRelayIdentityNameLen;
     validity \<leftarrow> u32_field ErrBadLocalRelayOffer;
     _ \<leftarrow> fail_if (validity = 0) ErrBadLocalRelayOffer;
     count \<leftarrow> u8 ErrBadLocalRelayOffer;
     _ \<leftarrow> fail_if (count = 0 \<or> unat count > MaxLocalRelayCandidates) ErrBadLocalRelayOffer;
     cs \<leftarrow> read_loop candidate (unat count);
     State_Monad.return \<lparr>lo_Handle = handle, lo_Name = name, lo_Validity = validity,
       lo_Candidates = cs\<rparr> }"

definition ParseLocalRelayOffer :: "bytes \<Rightarrow> LocalRelayOffer result" where
  "ParseLocalRelayOffer msg =
     rbind (checkPrefix msg TypeLocalRelayOffer localRelayOfferMinSize) (\<lambda>_.
     let (flags, r) = run_state (u8 ErrBadLocalRelayOffer) \<lparr>rr_buf = msg, rr_off = 2, rr_err = None\<rparr> in
     if flags \<noteq> 0 then Inl ErrBadLocalRelayOffer else finish_open local_relay_offer r)"

subsection \<open>The readers as parsers\<close>

definition p_local_relay_info :: "LocalRelayInfo parser" where
  "p_local_relay_info =
     p_bind (p_u8 ErrBadLocalRelayInfo) (\<lambda>state.
     p_bind (p_str8 ErrBadLocalRelayInfo MaxRelayIdentityNameLen) (\<lambda>name.
     p_bind (p_str8 ErrBadLocalRelayInfo MaxLocalRelayOriginLen) (\<lambda>origin.
     p_bind (p_str8 ErrBadLocalRelayInfo MaxRoomCodeLen) (\<lambda>wall.
     p_return \<lparr>lr_Linked = (state AND LocalRelayLinked \<noteq> 0),
       lr_OnWall = (state AND LocalRelayOnWall \<noteq> 0), lr_Name = name, lr_HomeOrigin = origin,
       lr_WallCode = wall\<rparr>))))"

definition p_candidate :: "LocalRelayCandidate parser" where
  "p_candidate =
     p_bind (p_u16 ErrBadLocalRelayOffer) (\<lambda>n.
     p_bind (p_check (n = 0 \<or> unat n > MaxLocalRelayURLLen) ErrBadLocalRelayOffer) (\<lambda>_.
     p_bind (p_take ErrBadLocalRelayOffer MaxLocalRelayURLLen (unat n)) (\<lambda>url.
     p_bind (p_check (\<not> is_ok (validateLocalRelayURL url)) ErrBadLocalRelayOffer) (\<lambda>_.
     p_bind (p_u8 ErrBadLocalRelayOffer) (\<lambda>k.
     p_bind (p_check (unat k > MaxLocalRelayHashes) ErrBadLocalRelayOffer) (\<lambda>_.
     p_bind (p_loop (p_take ErrBadLocalRelayOffer 32 32) (unat k)) (\<lambda>hs.
     p_return \<lparr>lc_URL = url, lc_Hashes = hs\<rparr>)))))))"

definition p_local_relay_offer :: "LocalRelayOffer parser" where
  "p_local_relay_offer =
     p_bind (p_bytes8 ErrBadLocalRelayOffer MaxLocalRelayHandleLen) (\<lambda>handle.
     p_bind (p_check (\<not> is_ok (validateLocalRelayHandle handle)) ErrBadLocalRelayOffer) (\<lambda>_.
     p_bind (p_str8 ErrBadLocalRelayOffer MaxRelayIdentityNameLen) (\<lambda>name.
     p_bind (p_u32 ErrBadLocalRelayOffer) (\<lambda>validity.
     p_bind (p_check (validity = 0) ErrBadLocalRelayOffer) (\<lambda>_.
     p_bind (p_u8 ErrBadLocalRelayOffer) (\<lambda>count.
     p_bind (p_check (count = 0 \<or> unat count > MaxLocalRelayCandidates) ErrBadLocalRelayOffer) (\<lambda>_.
     p_bind (p_loop p_candidate (unat count)) (\<lambda>cs.
     p_return \<lparr>lo_Handle = handle, lo_Name = name, lo_Validity = validity,
       lo_Candidates = cs\<rparr>))))))))"

lemma local_relay_info_refines: "refines local_relay_info p_local_relay_info"
    "only_fails ErrBadLocalRelayInfo p_local_relay_info"
  unfolding local_relay_info_def p_local_relay_info_def by (intro refine_rules, intro fail_rules)

lemma candidate_refines: "refines candidate p_candidate" "only_fails ErrBadLocalRelayOffer p_candidate"
  unfolding candidate_def p_candidate_def by (intro refine_rules, intro fail_rules)

lemma local_relay_offer_refines: "refines local_relay_offer p_local_relay_offer"
    "only_fails ErrBadLocalRelayOffer p_local_relay_offer"
  unfolding local_relay_offer_def p_local_relay_offer_def
  by (intro refine_rules candidate_refines, intro fail_rules candidate_refines)

text \<open>A record with a flags byte that must be zero, and an extension space.\<close>

lemma run_flags:
  "run_state (u8 e) \<lparr>rr_buf = v # t # f # rest, rr_off = 2, rr_err = None\<rparr> = (f, reader_at [v, t, f] rest)"
  by (simp add: u8_def reader_at_def)

lemma flagged_msg_cases:
  assumes "checkPrefix m ty k = Inr u" "3 \<le> k"
  obtains f rest where "m = Version # ty # f # rest"
proof -
  from assms(1) obtain r where m: "m = Version # ty # r" "k \<le> length m" by (auto simp: checkPrefix_Inr)
  with assms(2) obtain f rest where "r = f # rest" by (cases r) auto
  with m that show thesis by simp
qed

lemma ParseLocalRelayInfo_Inr:
  "ParseLocalRelayInfo m = Inr x \<longleftrightarrow>
     (\<exists>rest r. m = Version # TypeLocalRelayInfo # 0 # rest \<and> 7 \<le> length m
        \<and> p_local_relay_info rest = Inr (x, r) \<and> is_ok (validateLocalRelayOrigin (lr_HomeOrigin x)))"
proof (cases "checkPrefix m TypeLocalRelayInfo 7")
  case (Inl e)
  then show ?thesis by (auto simp: ParseLocalRelayInfo_def LocalRelayInfoMinSize_def checkPrefix_def split: if_splits)
next
  case (Inr u)
  then obtain f rest where m: "m = Version # TypeLocalRelayInfo # f # rest" by (rule flagged_msg_cases) simp
  have "7 \<le> length m" using Inr by (simp add: checkPrefix_Inr)
  then show ?thesis
    unfolding ParseLocalRelayInfo_def LocalRelayInfoMinSize_def Inr
    by (auto simp: m run_flags finish_open_refines [OF local_relay_info_refines(1)] rbind_Inr_iff is_ok_def
        split: sum.splits)
qed

lemma ParseLocalRelayOffer_Inr:
  "ParseLocalRelayOffer m = Inr x \<longleftrightarrow>
     (\<exists>rest r. m = Version # TypeLocalRelayOffer # 0 # rest \<and> 11 \<le> length m
        \<and> p_local_relay_offer rest = Inr (x, r))"
proof (cases "checkPrefix m TypeLocalRelayOffer 11")
  case (Inl e)
  then show ?thesis by (auto simp: ParseLocalRelayOffer_def localRelayOfferMinSize_def checkPrefix_def split: if_splits)
next
  case (Inr u)
  then obtain f rest where m: "m = Version # TypeLocalRelayOffer # f # rest" by (rule flagged_msg_cases) simp
  have "11 \<le> length m" using Inr by (simp add: checkPrefix_Inr)
  then show ?thesis
    unfolding ParseLocalRelayOffer_def localRelayOfferMinSize_def
    by (auto simp: m run_flags finish_open_refines [OF local_relay_offer_refines(1)] rbind_Inr_iff
        checkPrefix_eq)
qed

subsection \<open>What the readers accept\<close>

definition info_ok :: "LocalRelayInfo \<Rightarrow> bool" where
  "info_ok m \<longleftrightarrow> str_ok MaxRelayIdentityNameLen (lr_Name m) \<and> str_ok MaxLocalRelayOriginLen (lr_HomeOrigin m)
     \<and> str_ok MaxRoomCodeLen (lr_WallCode m)"

definition enc_info_fields :: "LocalRelayInfo \<Rightarrow> bytes" where
  "enc_info_fields m = enc_str8 (lr_Name m) @ enc_str8 (lr_HomeOrigin m) @ enc_str8 (lr_WallCode m)"

lemma p_local_relay_info_accepts:
  "p_local_relay_info s = Inr (m, r) \<longleftrightarrow> info_ok m \<and>
     (\<exists>st. s = st # enc_info_fields m @ r \<and> lr_Linked m = (st AND LocalRelayLinked \<noteq> 0)
        \<and> lr_OnWall m = (st AND LocalRelayOnWall \<noteq> 0))"
  unfolding p_local_relay_info_def
  by (cases m) (auto simp: accepts info_ok_def enc_info_fields_def local_relay_sizes)

lemma state_bits:
  "(bool_flag a LocalRelayLinked OR bool_flag b LocalRelayOnWall) AND LocalRelayLinked \<noteq> 0 \<longleftrightarrow> a"
  "(bool_flag a LocalRelayLinked OR bool_flag b LocalRelayOnWall) AND LocalRelayOnWall \<noteq> 0 \<longleftrightarrow> b"
  by (cases a; cases b; simp add: bool_flag_def LocalRelayLinked_def LocalRelayOnWall_def)+

definition candidate_ok :: "LocalRelayCandidate \<Rightarrow> bool" where
  "candidate_ok c \<longleftrightarrow> is_ok (validateLocalRelayURL (lc_URL c)) \<and> length (lc_Hashes c) \<le> MaxLocalRelayHashes
     \<and> (\<forall>h \<in> set (lc_Hashes c). length h = 32)"

lemma validateLocalRelayURL_length:
  "is_ok (validateLocalRelayURL u) \<Longrightarrow> u \<noteq> [] \<and> length u \<le> 256"
  by (auto simp: validateLocalRelayURL_def MaxLocalRelayURLLen_def split: if_splits)

lemma p_hash_accepts: "p_take e 32 32 s = Inr (h, r) \<longleftrightarrow> length h = 32 \<and> s = (\<lambda>x. x) h @ r"
  by (auto simp: accepts)

lemma p_candidate_accepts:
  "p_candidate s = Inr (c, r) \<longleftrightarrow> candidate_ok c \<and> s = append_candidate [] c @ r"
proof -
  note hs = p_loop_accepts [of "p_take ErrBadLocalRelayOffer 32 32", OF p_hash_accepts]
  have "p_candidate s = Inr (c, r) \<longleftrightarrow> (\<exists>n k. n \<noteq> 0 \<and> unat n \<le> 256 \<and> length (lc_URL c) = unat n
      \<and> is_ok (validateLocalRelayURL (lc_URL c)) \<and> unat k \<le> 2 \<and> length (lc_Hashes c) = unat k
      \<and> (\<forall>h \<in> set (lc_Hashes c). length h = 32)
      \<and> s = be16 n @ lc_URL c @ k # concat (lc_Hashes c) @ r)"
    unfolding p_candidate_def
    by (cases c) (auto simp: accepts hs local_relay_sizes not_less, blast)
  also have "\<dots> \<longleftrightarrow> candidate_ok c \<and> s = append_candidate [] c @ r"
  proof
    assume "candidate_ok c \<and> s = append_candidate [] c @ r"
    moreover from this have "lc_URL c \<noteq> []" "length (lc_URL c) \<le> 256"
      using validateLocalRelayURL_length [of "lc_URL c"] by (auto simp: candidate_ok_def)
    ultimately show "\<exists>n k. n \<noteq> 0 \<and> unat n \<le> 256 \<and> length (lc_URL c) = unat n
      \<and> is_ok (validateLocalRelayURL (lc_URL c)) \<and> unat k \<le> 2 \<and> length (lc_Hashes c) = unat k
      \<and> (\<forall>h \<in> set (lc_Hashes c). length h = 32)
      \<and> s = be16 n @ lc_URL c @ k # concat (lc_Hashes c) @ r"
      by (intro exI [of _ "of_nat (length (lc_URL c))"] exI [of _ "of_nat (length (lc_Hashes c))"])
        (auto simp: candidate_ok_def append_candidate_def local_relay_sizes unat_of_nat_u16 unat_of_nat_byte
          word_unat_eq_iff)
  qed (auto simp: candidate_ok_def append_candidate_def local_relay_sizes)
  finally show ?thesis .
qed

definition offer_ok :: "LocalRelayOffer \<Rightarrow> bool" where
  "offer_ok m \<longleftrightarrow> is_ok (validateLocalRelayHandle (lo_Handle m)) \<and> lo_Validity m \<noteq> 0
     \<and> str_ok MaxRelayIdentityNameLen (lo_Name m) \<and> lo_Candidates m \<noteq> []
     \<and> length (lo_Candidates m) \<le> MaxLocalRelayCandidates \<and> (\<forall>c \<in> set (lo_Candidates m). candidate_ok c)"

definition enc_offer :: "LocalRelayOffer \<Rightarrow> bytes" where
  "enc_offer m = enc_str8 (lo_Handle m) @ enc_str8 (lo_Name m) @ be32 (lo_Validity m)
     @ [of_nat (length (lo_Candidates m))] @ concat (map (append_candidate []) (lo_Candidates m))"

lemma validateLocalRelayHandle_length:
  "is_ok (validateLocalRelayHandle h) \<Longrightarrow> h \<noteq> [] \<and> length h \<le> 64"
  by (auto simp: validateLocalRelayHandle_def MaxLocalRelayHandleLen_def split: if_splits)

lemma p_local_relay_offer_accepts:
  "p_local_relay_offer s = Inr (m, r) \<longleftrightarrow> offer_ok m \<and> s = enc_offer m @ r"
proof -
  note cs = p_loop_accepts [of p_candidate, OF p_candidate_accepts]
  have "p_local_relay_offer s = Inr (m, r) \<longleftrightarrow> (\<exists>k. is_ok (validateLocalRelayHandle (lo_Handle m))
      \<and> length (lo_Handle m) \<le> 64 \<and> str_ok 64 (lo_Name m) \<and> lo_Validity m \<noteq> 0
      \<and> k \<noteq> 0 \<and> unat k \<le> 4 \<and> length (lo_Candidates m) = unat k \<and> (\<forall>c \<in> set (lo_Candidates m). candidate_ok c)
      \<and> s = enc_str8 (lo_Handle m) @ enc_str8 (lo_Name m) @ be32 (lo_Validity m) @ k
            # concat (map (append_candidate []) (lo_Candidates m)) @ r)"
    unfolding p_local_relay_offer_def
    by (cases m) (auto simp: accepts cs local_relay_sizes not_less enc_str8_def, blast)
  also have "\<dots> \<longleftrightarrow> offer_ok m \<and> s = enc_offer m @ r"
  proof
    assume "offer_ok m \<and> s = enc_offer m @ r"
    moreover from this have "length (lo_Handle m) \<le> 64" "lo_Candidates m \<noteq> []"
      using validateLocalRelayHandle_length [of "lo_Handle m"] by (auto simp: offer_ok_def)
    ultimately show "\<exists>k. is_ok (validateLocalRelayHandle (lo_Handle m))
      \<and> length (lo_Handle m) \<le> 64 \<and> str_ok 64 (lo_Name m) \<and> lo_Validity m \<noteq> 0
      \<and> k \<noteq> 0 \<and> unat k \<le> 4 \<and> length (lo_Candidates m) = unat k \<and> (\<forall>c \<in> set (lo_Candidates m). candidate_ok c)
      \<and> s = enc_str8 (lo_Handle m) @ enc_str8 (lo_Name m) @ be32 (lo_Validity m) @ k
            # concat (map (append_candidate []) (lo_Candidates m)) @ r"
      by (intro exI [of _ "of_nat (length (lo_Candidates m))"])
        (auto simp: offer_ok_def enc_offer_def local_relay_sizes unat_of_nat_byte word_unat_eq_iff)
  qed (auto simp: offer_ok_def enc_offer_def local_relay_sizes unat_eq_0)
  finally show ?thesis .
qed

subsection \<open>The codecs\<close>

lemma AppendLocalRelayInfo_Inr:
  "AppendLocalRelayInfo dst x = Inr m \<longleftrightarrow> is_ok (validateLocalRelayOrigin (lr_HomeOrigin x)) \<and> info_ok x \<and>
     m = dst @ [Version, TypeLocalRelayInfo, 0,
       bool_flag (lr_Linked x) LocalRelayLinked OR bool_flag (lr_OnWall x) LocalRelayOnWall] @ enc_info_fields x"
  by (cases "validateLocalRelayOrigin (lr_HomeOrigin x)")
    (auto simp: AppendLocalRelayInfo_def appendStr8_eq info_ok_def enc_info_fields_def Let_def)

lemma validateLocalRelayOrigin_error:
  "validateLocalRelayOrigin orig = Inl e \<Longrightarrow> e = ErrBadLocalRelayInfo"
  unfolding validateLocalRelayOrigin_def
  by (auto simp: rbind_Inl_iff split: if_splits option.splits)

interpretation LocalRelayInfo: wire_codec TypeLocalRelayInfo
  "AppendLocalRelayInfo []" ParseLocalRelayInfo "\<lambda>_. True"
proof
  fix x m
  assume "AppendLocalRelayInfo [] x = Inr m"
  then show "ParseLocalRelayInfo m = Inr x"
    using state_bits [of "lr_Linked x" "lr_OnWall x"]
    by (auto simp: AppendLocalRelayInfo_Inr ParseLocalRelayInfo_Inr p_local_relay_info_accepts
        enc_info_fields_def enc_str8_def)
next
  fix m
  show "ParseLocalRelayInfo m \<noteq> Inl RuntimePanic"
  proof (cases "checkPrefix m TypeLocalRelayInfo 7")
    case (Inl e)
    then show ?thesis using checkPrefix_no_panic [of 7 m TypeLocalRelayInfo]
      by (auto simp: ParseLocalRelayInfo_def LocalRelayInfoMinSize_def)
  next
    case (Inr u)
    then obtain f rest where m: "m = Version # TypeLocalRelayInfo # f # rest" by (rule flagged_msg_cases) simp
    show ?thesis
      unfolding ParseLocalRelayInfo_def LocalRelayInfoMinSize_def Inr
      by (auto simp: m run_flags finish_open_refines [OF local_relay_info_refines(1)] rbind_Inl_iff
          dest!: only_failsD [OF local_relay_info_refines(2)] validateLocalRelayOrigin_error)
  qed
qed (auto simp: AppendLocalRelayInfo_Inr ParseLocalRelayInfo_Inr)

lemma fold_append_candidate:
  "fold (\<lambda>c out. append_candidate out c) cs out = out @ concat (map (append_candidate []) cs)"
  by (induction cs arbitrary: out) (auto simp: append_candidate_def)

definition hash_sizes :: "LocalRelayOffer \<Rightarrow> bool" where
  "hash_sizes m \<longleftrightarrow> (\<forall>c \<in> set (lo_Candidates m). \<forall>h \<in> set (lc_Hashes c). length h = 32)"

lemma AppendLocalRelayOffer_Inr:
  assumes "hash_sizes x"
  shows "AppendLocalRelayOffer dst x = Inr m \<longleftrightarrow> offer_ok x \<and>
     m = dst @ [Version, TypeLocalRelayOffer, 0] @ enc_offer x"
  using assms
  by (cases "validateLocalRelayHandle (lo_Handle x)")
    (auto simp: AppendLocalRelayOffer_def appendStr8_eq offer_ok_def enc_offer_def fold_append_candidate
      candidate_ok_def hash_sizes_def enc_str8_def not_less, force)

lemma AppendLocalRelayOffer_prefix:
  "AppendLocalRelayOffer [] x = Inr m \<Longrightarrow> \<exists>r. m = Version # TypeLocalRelayOffer # r"
  by (auto simp: AppendLocalRelayOffer_def rbind_Inr_iff appendStr8_eq fold_append_candidate split: if_splits)

interpretation LocalRelayOffer: wire_codec TypeLocalRelayOffer
  "AppendLocalRelayOffer []" ParseLocalRelayOffer hash_sizes
proof
  fix x m
  assume h: "hash_sizes x" and a: "AppendLocalRelayOffer [] x = Inr m"
  from a have ok: "offer_ok x" and m: "m = Version # TypeLocalRelayOffer # 0 # enc_offer x"
    by (auto simp: AppendLocalRelayOffer_Inr [OF h])
  have "8 \<le> length (enc_offer x)"
    using ok validateLocalRelayHandle_length [of "lo_Handle x"] by (cases "lo_Handle x") (auto simp: enc_offer_def enc_str8_def offer_ok_def)
  then show "ParseLocalRelayOffer m = Inr x"
    using ok by (auto simp: m ParseLocalRelayOffer_Inr p_local_relay_offer_accepts)
next
  fix m
  show "ParseLocalRelayOffer m \<noteq> Inl RuntimePanic"
  proof (cases "checkPrefix m TypeLocalRelayOffer 11")
    case (Inl e)
    then show ?thesis using checkPrefix_no_panic [of 11 m TypeLocalRelayOffer]
      by (auto simp: ParseLocalRelayOffer_def localRelayOfferMinSize_def)
  next
    case (Inr u)
    then obtain f rest where m: "m = Version # TypeLocalRelayOffer # f # rest" by (rule flagged_msg_cases) simp
    have "p_local_relay_offer rest \<noteq> Inl RuntimePanic"
      using only_failsD [OF local_relay_offer_refines(2)] by force
    then show ?thesis
      unfolding ParseLocalRelayOffer_def localRelayOfferMinSize_def
      by (auto simp: m checkPrefix_eq run_flags finish_open_refines [OF local_relay_offer_refines(1)] rbind_Inl_iff)
  qed
qed (auto simp: ParseLocalRelayOffer_Inr dest: AppendLocalRelayOffer_prefix)

subsection \<open>What a validated authority and origin look like\<close>

definition authority :: "bytes \<Rightarrow> bytes option \<Rightarrow> bytes" where
  "authority host port = host @ (case port of None \<Rightarrow> [] | Some p \<Rightarrow> 0x3A # p)"

lemma split_host_port_inverts:
  assumes "split_host_port auth = Some (host, port)"
  shows "auth = authority host port \<and> host \<noteq> []"
proof (cases "HasPrefix auth (ascii ''['')")
  case True
  with assms show ?thesis
    by (auto simp: split_host_port_def authority_def Let_def split: option.splits if_splits list.splits)
      (metis append_take_drop_id append_Nil2)+
next
  case False
  with assms show ?thesis
    by (auto simp: split_host_port_def authority_def Let_def id_take_nth_drop [symmetric]
        dest!: IndexByte_Some split: option.splits if_splits)
      (metis id_take_nth_drop)+
qed

lemma splitLocalRelayAuthority_sound:
  assumes "splitLocalRelayAuthority auth = Some host"
  shows "\<exists>port. auth = authority host port \<and> host \<noteq> [] \<and> (\<forall>p. port = Some p \<longrightarrow> port_ok p)"
  using assms split_host_port_inverts [of auth]
  by (auto simp: splitLocalRelayAuthority_def split: option.splits if_splits)

text \<open>A home origin over plain http is a loopback origin.\<close>

lemma loopback_only:
  assumes "validateLocalRelayOrigin orig = Inr ()" "HasPrefix orig (ascii ''http://'')"
  shows "\<exists>host port. host \<in> {ascii ''localhost'', ascii ''127.0.0.1''} \<and>
    orig = ascii ''http://'' @ authority host port \<and> (\<forall>p. port = Some p \<longrightarrow> port_ok p)"
proof -
  have "take 7 orig = ascii ''http://''" using assms(2) by (simp add: HasPrefix_def numeral_eq_Suc)
  then have o: "orig = ascii ''http://'' @ drop 7 orig" by (metis append_take_drop_id)
  have ns: "\<not> HasPrefix orig (ascii ''https://'')"
    by (subst o) (simp add: HasPrefix_def ascii_def)
  have ne: "orig \<noteq> []" using assms(2) by (auto simp: HasPrefix_def ascii_def)
  obtain host where h: "splitLocalRelayAuthority (drop 7 orig) = Some host"
      "host = ascii ''localhost'' \<or> host = ascii ''127.0.0.1''"
    using assms ns ne
    by (auto simp: validateLocalRelayOrigin_def simp del: drop_eq_Nil split: if_splits option.splits)
  from splitLocalRelayAuthority_sound [OF h(1)] obtain port where
    "drop 7 orig = authority host port" "\<forall>p. port = Some p \<longrightarrow> port_ok p" by blast
  with o h(2) show ?thesis
    by (intro exI [of _ host] exI [of _ port]) (metis insert_iff)
qed

end
