(* ===== verification/TelemetryToken.thy ===== *)
theory TelemetryToken
  imports WireBase SHA256 "HOL-Library.Signed_Division"
begin

section \<open>Telemetry session tokens (\<^verbatim>\<open>gawk-server/wire/telemetry_token.go\<close>)\<close>

text \<open>
  Minting and verifying the tokens that let a client submit telemetry: an expiry
  hour, a nonce and a truncated HMAC over both, the broadcast key and the role.  The
  result of \<^verbatim>\<open>rand.Read\<close> is an argument: \<open>Inl\<close> when it fails, otherwise the bytes it
  wrote.  A time is its Unix second.
\<close>

definition TelemetryNonceSize :: nat where "TelemetryNonceSize = 12"
definition TelemetryTagSize :: nat where "TelemetryTagSize = 8"
definition TelemetryTokenTTL :: int where "TelemetryTokenTTL = 24 * 3600"
definition TelemetryKeySize :: nat where "TelemetryKeySize = 32"
definition TelemetryIssuerKeySize :: nat where "TelemetryIssuerKeySize = 3"
definition telemetryIssuerBit :: byte where "telemetryIssuerBit = 0x80"

definition TelemetryRoleViewer :: bytes where "TelemetryRoleViewer = ascii ''viewer''"
definition TelemetryRoleBroadcaster :: bytes where "TelemetryRoleBroadcaster = ascii ''broadcaster''"

lemmas token_sizes =
  TelemetryNonceSize_def TelemetryTagSize_def TelemetryKeySize_def TelemetryIssuerKeySize_def
  TelemetrySessionTokenSize_def TelemetryBroadcastKeySize_def

definition ValidTelemetryRole :: "bytes \<Rightarrow> bool" where
  "ValidTelemetryRole r \<longleftrightarrow> r = TelemetryRoleViewer \<or> r = TelemetryRoleBroadcaster"

definition telemetryExpHour :: "int \<Rightarrow> u32" where
  "telemetryExpHour t = word_of_int (t sdiv 3600)"

definition telemetryTag :: "bytes \<Rightarrow> bytes \<Rightarrow> bytes \<Rightarrow> bytes \<Rightarrow> bytes" where
  "telemetryTag key prefix broadcastKey role =
     take TelemetryTagSize (hmac_sha256 key (prefix @ broadcastKey @ role))"

definition mintTelemetrySessionToken ::
  "bytes \<Rightarrow> bytes \<Rightarrow> bytes \<Rightarrow> int \<Rightarrow> bytes \<Rightarrow> bytes result" where
  "mintTelemetrySessionToken key broadcastKey role now nonce =
     (if length key \<noteq> TelemetryKeySize then Inl ErrTelemetryKey
      else if length broadcastKey \<noteq> TelemetryBroadcastKeySize then Inl ErrTelemetryTokenInvalid
      else if \<not> ValidTelemetryRole role then Inl ErrTelemetryTokenInvalid
      else if length nonce \<noteq> TelemetryNonceSize then Inl ErrTelemetryTokenInvalid
      else let token = be32 (telemetryExpHour (now + TelemetryTokenTTL)) @ nonce in
           Inr (token @ telemetryTag key (take (4 + TelemetryNonceSize) token) broadcastKey role))"

definition MintTelemetrySessionToken ::
  "bytes \<Rightarrow> bytes \<Rightarrow> bytes \<Rightarrow> int \<Rightarrow> unit + bytes \<Rightarrow> bytes result" where
  "MintTelemetrySessionToken key broadcastKey role now rand =
     (case rand of
        Inl _ \<Rightarrow> Inl ErrRandUnavailable
      | Inr nonce \<Rightarrow>
          rbind (go_index nonce 0) (\<lambda>b.
          mintTelemetrySessionToken key broadcastKey role now (nonce[0 := b AND NOT telemetryIssuerBit])))"

definition TelemetryIssuerKey :: "bytes \<Rightarrow> bytes \<Rightarrow> bytes" where
  "TelemetryIssuerKey key popUID =
     take TelemetryIssuerKeySize (hmac_sha256 key (ascii ''gawk-telemetry-pop'' @ [0] @ popUID))"

definition telemetryIssuerCheck :: "bytes \<Rightarrow> bytes \<Rightarrow> u16" where
  "telemetryIssuerCheck key issuer =
     (let d = hmac_sha256 key (ascii ''gawk-telemetry-issuer'' @ [0] @ issuer)
      in join16 (d ! 0) (d ! 1) AND 0x7FFF)"

definition MintTelemetrySessionTokenForIssuer ::
  "bytes \<Rightarrow> bytes \<Rightarrow> bytes \<Rightarrow> int \<Rightarrow> bytes \<Rightarrow> unit + bytes \<Rightarrow> bytes result" where
  "MintTelemetrySessionTokenForIssuer key broadcastKey role now issuer rand =
     (if length key \<noteq> TelemetryKeySize then Inl ErrTelemetryKey
      else if length issuer \<noteq> TelemetryIssuerKeySize then Inl ErrTelemetryTokenInvalid
      else case rand of
             Inl _ \<Rightarrow> Inl ErrRandUnavailable
           | Inr r \<Rightarrow>
               mintTelemetrySessionToken key broadcastKey role now
                 (be16 (push_bit 8 (ucast telemetryIssuerBit) OR telemetryIssuerCheck key issuer)
                  @ issuer @ r))"

definition TelemetryTokenIssuer :: "bytes \<Rightarrow> bytes \<Rightarrow> bytes option" where
  "TelemetryTokenIssuer key token =
     (if length key \<noteq> TelemetryKeySize \<or> length token \<noteq> TelemetrySessionTokenSize then None
      else let nonce = take TelemetryNonceSize (drop 4 token) in
           if nonce ! 0 AND telemetryIssuerBit = 0 then None
           else let issuer = take 3 (drop 2 nonce) in
                if join16 (nonce ! 0) (nonce ! 1) AND 0x7FFF \<noteq> telemetryIssuerCheck key issuer then None
                else Some issuer)"

definition VerifyTelemetrySessionToken ::
  "bytes \<Rightarrow> bytes \<Rightarrow> bytes \<Rightarrow> bytes \<Rightarrow> int \<Rightarrow> bytes result" where
  "VerifyTelemetrySessionToken key token broadcastKey role now =
     (if length key \<noteq> TelemetryKeySize then Inl ErrTelemetryKey
      else if length token \<noteq> TelemetrySessionTokenSize \<or> length broadcastKey \<noteq> TelemetryBroadcastKeySize
              \<or> \<not> ValidTelemetryRole role then Inl ErrTelemetryTokenInvalid
      else rbind (slice32 token 0 4) (\<lambda>expHour.
      if telemetryExpHour now > expHour then Inl ErrTelemetryTokenExpired
      else let want = telemetryTag key (take (4 + TelemetryNonceSize) token) broadcastKey role in
           if drop (4 + TelemetryNonceSize) token \<noteq> want then Inl ErrTelemetryTokenInvalid
           else Inr (hex_encode (take TelemetryNonceSize (drop 4 token)))))"

definition TelemetrySessionID :: "bytes \<Rightarrow> bytes result" where
  "TelemetrySessionID token =
     (if length token \<noteq> TelemetrySessionTokenSize then Inl ErrTelemetryTokenInvalid
      else Inr (hex_encode (take TelemetryNonceSize (drop 4 token))))"

subsection \<open>What a token is\<close>

lemma length_telemetryTag [simp]: "length (telemetryTag key p bk role) = 8"
  by (simp add: telemetryTag_def TelemetryTagSize_def)

lemma Uint32_be32_only: "Uint32 (be32 w) = Inr w"
  by (simp add: Uint32_def be32_def)

lemma mint_Inr:
  "mintTelemetrySessionToken key bk role now nonce = Inr tok \<longleftrightarrow>
     length key = 32 \<and> length bk = 6 \<and> ValidTelemetryRole role \<and> length nonce = 12 \<and>
     tok = be32 (telemetryExpHour (now + TelemetryTokenTTL)) @ nonce
       @ telemetryTag key (be32 (telemetryExpHour (now + TelemetryTokenTTL)) @ nonce) bk role"
  by (auto simp: mintTelemetrySessionToken_def token_sizes Let_def)

lemma verify_Inr:
  "VerifyTelemetrySessionToken key tok bk role now = Inr sid \<longleftrightarrow>
     length key = 32 \<and> length bk = 6 \<and> ValidTelemetryRole role \<and>
     (\<exists>h nonce. length nonce = 12 \<and> telemetryExpHour now \<le> h \<and> sid = hex_encode nonce \<and>
        tok = be32 h @ nonce @ telemetryTag key (be32 h @ nonce) bk role)"
    (is "?L \<longleftrightarrow> ?R")
proof
  assume L: ?L
  then have len: "length key = 32" "length tok = 24" "length bk = 6" "ValidTelemetryRole role"
    by (auto simp: VerifyTelemetrySessionToken_def token_sizes split: if_splits)
  let ?h = "join32 (tok ! 0) (tok ! 1) (tok ! 2) (tok ! 3)" and ?n = "take 12 (drop 4 tok)"
  have "4 \<le> length tok" using len by simp
  then have h: "be32 ?h = take 4 tok" using split_len4 [of tok] by auto
  have pre: "take 16 tok = be32 ?h @ ?n" unfolding h using take_add [of 4 12 tok] by simp
  have v: "telemetryExpHour now \<le> ?h" "sid = hex_encode ?n"
      "drop 16 tok = telemetryTag key (take 16 tok) bk role"
    using L len by (auto simp: VerifyTelemetrySessionToken_def token_sizes Let_def not_less numeral_2_eq_2
        split: if_splits)
  have "tok = take 16 tok @ drop 16 tok" by simp
  then have "tok = be32 ?h @ ?n @ telemetryTag key (be32 ?h @ ?n) bk role"
    unfolding v(3) pre by simp
  with v(1,2) len show ?R
    by (intro conjI exI [of _ ?h] exI [of _ ?n]) (assumption | simp)+
next
  assume ?R
  then obtain h nonce where "length key = 32" "length bk = 6" "ValidTelemetryRole role" "length nonce = 12"
      "telemetryExpHour now \<le> h" "sid = hex_encode nonce"
      "tok = be32 h @ nonce @ telemetryTag key (be32 h @ nonce) bk role" by blast
  then show ?L
    by (simp add: VerifyTelemetrySessionToken_def token_sizes slice32_def Uint32_be32_only)
qed

subsection \<open>Expiry\<close>

lemma telemetryExpHour_unat:
  assumes "0 \<le> t" "t div 3600 < 2 ^ 32"
  shows "int (unat (telemetryExpHour t)) = t div 3600"
proof -
  have "t sdiv 3600 = t div 3600" using assms(1) by (cases "t = 0") (simp_all add: signed_divide_int_def)
  moreover have "0 \<le> t div 3600" using assms(1) by simp
  ultimately show ?thesis
    using assms(2) by (simp add: telemetryExpHour_def uint_word_of_int take_bit_eq_mod flip: uint_nat)
qed

lemma telemetryExpHour_le_iff:
  assumes "0 \<le> s" "0 \<le> t" "s div 3600 < 2 ^ 32" "t div 3600 < 2 ^ 32"
  shows "telemetryExpHour s \<le> telemetryExpHour t \<longleftrightarrow> s div 3600 \<le> t div 3600"
  using telemetryExpHour_unat [OF assms(1,3)] telemetryExpHour_unat [OF assms(2,4)]
  by (simp add: word_le_def)

lemma minted_token_verifies:
  assumes "mintTelemetrySessionToken key bk role minted nonce = Inr tok"
    and "telemetryExpHour now \<le> telemetryExpHour (minted + TelemetryTokenTTL)"
  shows "VerifyTelemetrySessionToken key tok bk role now = Inr (hex_encode nonce)"
  using assms by (auto simp: verify_Inr mint_Inr)

lemma minted_token_expires:
  assumes "mintTelemetrySessionToken key bk role minted nonce = Inr tok"
    and "telemetryExpHour now > telemetryExpHour (minted + TelemetryTokenTTL)"
  shows "VerifyTelemetrySessionToken key tok bk role now = Inl ErrTelemetryTokenExpired"
  using assms by (auto simp: mint_Inr VerifyTelemetrySessionToken_def token_sizes slice32_def Uint32_be32_only)

text \<open>
  A minted token is accepted for the whole of its lifetime, whatever the minute it
  was minted at, and refused as expired from one hour after it.
\<close>

lemma token_lifetime:
  assumes "mintTelemetrySessionToken key bk role minted nonce = Inr tok"
    and "0 \<le> minted" "minted \<le> now" "now div 3600 < 2 ^ 32" "(minted + TelemetryTokenTTL) div 3600 < 2 ^ 32"
  shows "now \<le> minted + TelemetryTokenTTL \<Longrightarrow>
      VerifyTelemetrySessionToken key tok bk role now = Inr (hex_encode nonce)"
    and "minted + TelemetryTokenTTL + 3600 \<le> now \<Longrightarrow>
      VerifyTelemetrySessionToken key tok bk role now = Inl ErrTelemetryTokenExpired"
proof -
  have pos: "0 \<le> now" "0 \<le> minted + TelemetryTokenTTL" using assms(2,3) by (auto simp: TelemetryTokenTTL_def)
  note cmp = telemetryExpHour_le_iff [OF pos assms(4,5)]
  show "VerifyTelemetrySessionToken key tok bk role now = Inr (hex_encode nonce)"
    if "now \<le> minted + TelemetryTokenTTL"
    using that cmp by (intro minted_token_verifies [OF assms(1)]) (simp add: zdiv_mono1)
  show "VerifyTelemetrySessionToken key tok bk role now = Inl ErrTelemetryTokenExpired"
    if "minted + TelemetryTokenTTL + 3600 \<le> now"
  proof (rule minted_token_expires [OF assms(1)])
    have "(minted + TelemetryTokenTTL) div 3600 < now div 3600"
      using zdiv_mono1 [OF that, of 3600] by simp
    then show "telemetryExpHour (minted + TelemetryTokenTTL) < telemetryExpHour now"
      using cmp by (simp add: not_le [symmetric])
  qed
qed

subsection \<open>Issuers\<close>

lemma issuer_bit_clear: "(b AND NOT telemetryIssuerBit) AND telemetryIssuerBit = 0"
  by (rule bit_word_eqI) (auto simp: bit_simps)

lemma plain_token_names_no_issuer:
  assumes "MintTelemetrySessionToken key bk role now (Inr nonce) = Inr tok"
  shows "TelemetryTokenIssuer key tok = None"
proof -
  obtain b r where n: "nonce = b # r" using assms
    by (cases nonce) (auto simp: MintTelemetrySessionToken_def go_index_def)
  with assms have "\<exists>h t. length r = 11 \<and> length t = 8 \<and> tok = be32 h @ ((b AND NOT telemetryIssuerBit) # r) @ t"
    by (auto simp: MintTelemetrySessionToken_def mint_Inr)
  then show ?thesis by (auto simp: TelemetryTokenIssuer_def token_sizes issuer_bit_clear nth_append Let_def)
qed

lemma issuer_marker:
  fixes c :: u16
  assumes "c AND 0x7FFF = c"
  shows "\<exists>hi lo. be16 (push_bit 8 (ucast telemetryIssuerBit) OR c) = [hi, lo] \<and>
    hi AND telemetryIssuerBit \<noteq> 0 \<and> join16 hi lo AND 0x7FFF = c"
proof -
  define w where "w = push_bit 8 (ucast telemetryIssuerBit) OR c"
  let ?hi = "ucast (drop_bit 8 w) :: byte" and ?lo = "ucast w :: byte"
  have "bit ?hi 7" by (simp add: w_def bit_simps telemetryIssuerBit_def)
  then have "?hi AND telemetryIssuerBit \<noteq> 0"
    using and_exp_eq_0_iff_not_bit [of ?hi 7] by (simp add: telemetryIssuerBit_def)
  moreover have "w AND 0x7FFF = c"
  proof -
    have "push_bit 8 (ucast telemetryIssuerBit) AND (0x7FFF :: u16) = 0" by (simp add: telemetryIssuerBit_def)
    then show ?thesis by (simp add: w_def bit.conj_disj_distrib2 assms)
  qed
  moreover have "be16 w = [?hi, ?lo]" by (simp add: be16_def)
  ultimately show ?thesis unfolding w_def [symmetric] by fastforce
qed

lemma issuer_token_names_issuer:
  assumes "MintTelemetrySessionTokenForIssuer key bk role now issuer (Inr r) = Inr tok"
  shows "TelemetryTokenIssuer key tok = Some issuer"
proof -
  have c: "telemetryIssuerCheck key issuer AND 0x7FFF = telemetryIssuerCheck key issuer"
    by (simp add: telemetryIssuerCheck_def Let_def and.assoc)
  from issuer_marker [OF this] obtain hi lo where m:
    "be16 (push_bit 8 (ucast telemetryIssuerBit) OR telemetryIssuerCheck key issuer) = [hi, lo]"
    "hi AND telemetryIssuerBit \<noteq> 0" "join16 hi lo AND 0x7FFF = telemetryIssuerCheck key issuer" by blast
  from assms have "length key = 32" "length issuer = 3" "length r = 7"
      "\<exists>h t. length t = 8 \<and> tok = be32 h @ ([hi, lo] @ issuer @ r) @ t"
    by (auto simp: MintTelemetrySessionTokenForIssuer_def mint_Inr m(1) token_sizes split: if_splits)
  then show ?thesis using m by (auto simp: TelemetryTokenIssuer_def token_sizes nth_append Let_def)
qed

end
