(* ===== verification/HubIngress.thy ===== *)
theory HubIngress
  imports Prelude
begin

section \<open>Ingress-loss tracking (\<^verbatim>\<open>gawk-server/internal/hub/ingress.go\<close>)\<close>

text \<open>
  The ring of the last 1024 frame IDs through which the relay measures what was lost
  between the broadcaster and itself.  A slot is scored when its frame leaves the
  window.  Frame IDs are 32-bit serial numbers and wrap.

  The theory shows what the ring stands for: a finite map from the frame IDs of the
  window to what was seen of them (\<open>tracked\<close>), which every observation updates as the
  serial window moves; and that the chunk bitmaps count what they should.
\<close>

definition ingressWindowFrames :: nat where "ingressWindowFrames = 1024"
definition maxIngressChunkWords :: int where "maxIngressChunkWords = 16"

record ingressTally =
  t_framesLost :: u64
  t_framesDamaged :: u64
  t_framesExpected :: u64
  t_chunksLost :: u64
  t_chunksExpected :: u64

definition zero_tally :: ingressTally where
  "zero_tally = \<lparr>t_framesLost = 0, t_framesDamaged = 0, t_framesExpected = 0, t_chunksLost = 0, t_chunksExpected = 0\<rparr>"

definition tally_add :: "ingressTally \<Rightarrow> ingressTally \<Rightarrow> ingressTally" where
  "tally_add t o' =
     \<lparr>t_framesLost = t_framesLost t + t_framesLost o',
      t_framesDamaged = t_framesDamaged t + t_framesDamaged o',
      t_framesExpected = t_framesExpected t + t_framesExpected o',
      t_chunksLost = t_chunksLost t + t_chunksLost o',
      t_chunksExpected = t_chunksExpected t + t_chunksExpected o'\<rparr>"

text \<open>\<open>f_chunkBits\<close> is \<open>None\<close> until the bitmap is allocated (\<^verbatim>\<open>nil\<close>).\<close>

record ingressFrame =
  f_frameID :: u32
  f_active :: bool
  f_seen :: bool
  f_chunkCount :: int
  f_chunksSeen :: int
  f_chunkBits :: "u64 list option"

definition zero_frame :: ingressFrame where
  "zero_frame = \<lparr>f_frameID = 0, f_active = False, f_seen = False, f_chunkCount = 0, f_chunksSeen = 0, f_chunkBits = None\<rparr>"

definition fresh_frame :: "u32 \<Rightarrow> ingressFrame" where
  "fresh_frame i = zero_frame\<lparr>f_frameID := i, f_active := True\<rparr>"

record ingressWindow =
  w_slots :: "ingressFrame list"
  w_started :: bool
  w_maxSeen :: u32

definition new_window :: ingressWindow where
  "new_window = \<lparr>w_slots = replicate ingressWindowFrames zero_frame, w_started = False, w_maxSeen = 0\<rparr>"

definition reset_window :: "ingressWindow \<Rightarrow> ingressWindow" where
  "reset_window w = \<lparr>w_slots = map (\<lambda>_. zero_frame) (w_slots w), w_started = False, w_maxSeen = 0\<rparr>"

definition finalize :: "ingressFrame \<Rightarrow> ingressTally" where
  "finalize f =
     (if \<not> f_active f then zero_tally else
      let t = zero_tally\<lparr>t_framesExpected := 1\<rparr> in
      if \<not> f_seen f then t\<lparr>t_framesLost := 1\<rparr> else
      let t = t\<lparr>t_chunksExpected := word_of_int (f_chunkCount f)\<rparr> in
      if f_chunksSeen f < f_chunkCount f
      then t\<lparr>t_framesDamaged := 1, t_chunksLost := word_of_int (f_chunkCount f - f_chunksSeen f)\<rparr>
      else t)"

definition markChunk :: "int \<Rightarrow> int \<Rightarrow> ingressFrame \<Rightarrow> ingressFrame" where
  "markChunk chunkIndex chunkCount f =
     (let f = f\<lparr>f_seen := True\<rparr> in
      if chunkCount \<le> 0 \<or> chunkIndex < 0 \<or> chunkIndex \<ge> chunkCount then f else
      let words = (chunkCount + 63) div 64 in
      if words > maxIngressChunkWords then f else
      let f = (if f_chunkBits f = None \<or> f_chunkCount f \<noteq> chunkCount
               then f\<lparr>f_chunkBits := Some (replicate (nat words) 0), f_chunkCount := chunkCount, f_chunksSeen := 0\<rparr>
               else f);
          bits = the (f_chunkBits f); word = nat (chunkIndex div 64); b = nat (chunkIndex mod 64) in
      if bits ! word AND push_bit b 1 = 0
      then f\<lparr>f_chunkBits := Some (bits[word := bits ! word OR push_bit b 1]), f_chunksSeen := f_chunksSeen f + 1\<rparr>
      else f)"

definition slot_of :: "u32 \<Rightarrow> nat" where
  "slot_of i = unat i mod ingressWindowFrames"

definition finalizeAll :: "ingressFrame list \<Rightarrow> ingressFrame list \<times> ingressTally" where
  "finalizeAll slots =
     (map (\<lambda>_. zero_frame) slots, fold (\<lambda>f out. tally_add out (finalize f)) slots zero_tally)"

text \<open>The advance loop: \<^verbatim>\<open>for id := maxSeen + 1; ; id++\<close>, ending with the new frame ID.\<close>

function advance :: "u32 \<Rightarrow> u32 \<Rightarrow> ingressFrame list \<Rightarrow> ingressTally \<Rightarrow> ingressFrame list \<times> ingressTally" where
  "advance frameID i slots out =
     (let out = tally_add out (finalize (slots ! slot_of i));
          slots = slots[slot_of i := fresh_frame i] in
      if i = frameID then (slots, out) else advance frameID (i + 1) slots out)"
  by pat_completeness auto

lemma word_minus_one_less: "x \<noteq> 0 \<Longrightarrow> unat (x - 1) < unat (x :: 'a::len word)"
  by (simp add: unat_gt_0 unat_minus_one)

termination advance
proof (relation "measure (\<lambda>(frameID, i, slots, out). unat (frameID - i))", goal_cases)
  case (2 frameID i slots out out' slots')
  then show ?case using word_minus_one_less [of "frameID - i"] by (simp add: diff_diff_eq)
qed simp

declare advance.simps [simp del]

definition observeChunk :: "ingressWindow \<Rightarrow> u32 \<Rightarrow> int \<Rightarrow> int \<Rightarrow> ingressWindow \<times> ingressTally" where
  "observeChunk w frameID chunkIndex chunkCount =
     (if \<not> w_started w then
        (\<lparr>w_slots = (w_slots w)[slot_of frameID := markChunk chunkIndex chunkCount (fresh_frame frameID)],
          w_started = True, w_maxSeen = frameID\<rparr>, zero_tally)
      else
        let d = sint (frameID - w_maxSeen w) in
        if d > 0 \<and> d \<ge> int ingressWindowFrames then
          let (slots, out) = finalizeAll (w_slots w) in
          (w\<lparr>w_slots := slots[slot_of frameID := markChunk chunkIndex chunkCount (fresh_frame frameID)],
             w_maxSeen := frameID\<rparr>, out)
        else if \<not> d > 0 \<and> d \<le> - int ingressWindowFrames then (w, zero_tally)
        else
          let (slots, out) = (if d > 0 then advance frameID (w_maxSeen w + 1) (w_slots w) zero_tally
                              else (w_slots w, zero_tally));
              maxSeen = (if d > 0 then frameID else w_maxSeen w);
              slot = slots ! slot_of frameID;
              slot = (if \<not> f_active slot \<or> f_frameID slot \<noteq> frameID then fresh_frame frameID else slot) in
          (w\<lparr>w_slots := slots[slot_of frameID := markChunk chunkIndex chunkCount slot], w_maxSeen := maxSeen\<rparr>, out))"

definition observeFrame :: "ingressWindow \<Rightarrow> u32 \<Rightarrow> ingressWindow \<times> ingressTally" where
  "observeFrame w frameID = observeChunk w frameID 0 1"

subsection \<open>Chunk bitmaps\<close>

definition chunk_set :: "u64 list \<Rightarrow> nat set" where
  "chunk_set bits = {i. i < 64 * length bits \<and> bit (bits ! (i div 64)) (i mod 64)}"

definition chunks :: "ingressFrame \<Rightarrow> nat set" where
  "chunks f = (case f_chunkBits f of None \<Rightarrow> {} | Some bits \<Rightarrow> chunk_set bits)"

definition frame_ok :: "ingressFrame \<Rightarrow> bool" where
  "frame_ok f \<longleftrightarrow>
     (case f_chunkBits f of
        None \<Rightarrow> f_chunkCount f = 0
      | Some bits \<Rightarrow> f_seen f \<and> 0 < f_chunkCount f \<and> f_chunkCount f \<le> 64 * maxIngressChunkWords \<and>
          int (length bits) = (f_chunkCount f + 63) div 64 \<and> chunk_set bits \<subseteq> {..< nat (f_chunkCount f)}) \<and>
     f_chunksSeen f = int (card (chunks f))"

lemma chunk_set_replicate [simp]: "chunk_set (replicate n 0) = {}"
proof -
  have "replicate n (0 :: u64) ! (i div 64) = 0" if "i < 64 * n" for i
    using that by (intro nth_replicate) (simp add: less_mult_imp_div_less mult.commute)
  then show ?thesis by (auto simp: chunk_set_def)
qed

lemma finite_chunk_set [simp]: "finite (chunk_set bits)"
  by (rule finite_subset [of _ "{..< 64 * length bits}"]) (auto simp: chunk_set_def)

lemma finite_chunks [simp]: "finite (chunks f)"
  by (simp add: chunks_def split: option.split)

lemma push_bit_test: "b < 64 \<Longrightarrow> (w AND push_bit b 1 = 0) = (\<not> bit (w :: u64) b)"
  using and_exp_eq_0_iff_not_bit [of w b] by (simp add: push_bit_eq_mult)

lemma chunk_set_insert:
  assumes "i < 64 * length bits"
  shows "chunk_set (bits[i div 64 := bits ! (i div 64) OR push_bit (i mod 64) 1]) = insert i (chunk_set bits)"
proof -
  have d: "j div 64 < length bits" if "j < 64 * length bits" for j
    using that by (simp add: less_mult_imp_div_less mult.commute)
  have "j = i" if "j div 64 = i div 64" "j mod 64 = i mod 64" for j :: nat
    using that by (metis div_mult_mod_eq)
  then show ?thesis
    using assms d by (auto simp: chunk_set_def nth_list_update bit_simps)
qed

lemma frame_ok_fresh [simp]: "frame_ok (fresh_frame i)" "frame_ok zero_frame"
  by (simp_all add: frame_ok_def fresh_frame_def zero_frame_def chunks_def)

subsection \<open>What a frame's slot says\<close>

text \<open>
  A slot's meaning: whether anything of the frame was seen, the chunk count that was
  announced, and the set of chunks that arrived.
\<close>

type_synonym frame_view = "bool \<times> nat \<times> nat set"

definition view :: "ingressFrame \<Rightarrow> frame_view" where
  "view f = (f_seen f, nat (f_chunkCount f), chunks f)"

definition unseen :: frame_view where "unseen = (False, 0, {})"

definition spec_mark :: "int \<Rightarrow> int \<Rightarrow> frame_view \<Rightarrow> frame_view" where
  "spec_mark ci cc = (\<lambda>(_, n, S).
     if 0 \<le> ci \<and> ci < cc \<and> cc \<le> 64 * maxIngressChunkWords
     then (True, nat cc, insert (nat ci) (if n = nat cc then S else {}))
     else (True, n, S))"

definition score :: "frame_view option \<Rightarrow> ingressTally" where
  "score v = (case v of
      None \<Rightarrow> zero_tally
    | Some (seen, n, S) \<Rightarrow>
        if \<not> seen then zero_tally\<lparr>t_framesExpected := 1, t_framesLost := 1\<rparr>
        else zero_tally\<lparr>t_framesExpected := 1, t_chunksExpected := of_nat n,
               t_framesDamaged := of_bool (card S < n), t_chunksLost := of_nat (n - card S)\<rparr>)"

lemma view_fresh [simp]: "view (fresh_frame i) = unseen"
  by (simp add: view_def fresh_frame_def zero_frame_def chunks_def unseen_def)

lemma fresh_frame_simps [simp]:
  "f_frameID (fresh_frame i) = i" "f_active (fresh_frame i)" "\<not> f_active zero_frame"
  by (simp_all add: fresh_frame_def zero_frame_def)

lemma words_bound: "0 < cc \<Longrightarrow> (cc + 63) div 64 > maxIngressChunkWords \<longleftrightarrow> cc > 64 * maxIngressChunkWords"
  by (simp add: maxIngressChunkWords_def) linarith

lemma frame_ok_chunks:
  assumes "frame_ok f"
  shows "f_chunksSeen f = int (card (chunks f))" "chunks f \<subseteq> {..< nat (f_chunkCount f)}" "0 \<le> f_chunkCount f"
  using assms by (auto simp: frame_ok_def chunks_def split: option.splits)

lemma markChunk_keeps [simp]:
  "f_frameID (markChunk ci cc f) = f_frameID f" "f_active (markChunk ci cc f) = f_active f"
  "f_seen (markChunk ci cc f)"
  by (simp_all add: markChunk_def Let_def)

lemma markChunk_correct:
  assumes ok: "frame_ok f"
  shows "frame_ok (markChunk ci cc f) \<and> view (markChunk ci cc f) = spec_mark ci cc (view f)"
proof (cases "0 \<le> ci \<and> ci < cc \<and> cc \<le> 64 * maxIngressChunkWords")
  case False
  then have "markChunk ci cc f = f\<lparr>f_seen := True\<rparr>"
    using words_bound [of cc] by (auto simp: markChunk_def Let_def)
  then show ?thesis
    using ok False by (auto simp: frame_ok_def view_def spec_mark_def chunks_def split: option.splits)
next
  case True
  define restart where "restart \<longleftrightarrow> f_chunkBits f = None \<or> f_chunkCount f \<noteq> cc"
  define bits where "bits = (if restart then replicate (nat ((cc + 63) div 64)) 0 else the (f_chunkBits f))"
  define S where "S = (if restart then {} else chunks f)"
  have cs: "chunk_set bits = S" "int (length bits) = (cc + 63) div 64" "S \<subseteq> {..< nat cc}"
    using ok True by (auto simp: bits_def S_def restart_def frame_ok_def chunks_def)
  have S: "S = (if nat (f_chunkCount f) = nat cc then chunks f else {})"
    using ok True by (auto simp: S_def restart_def frame_ok_def chunks_def split: option.splits)
  have len: "nat ci < 64 * length bits" using True cs(2) by linarith
  have seen: "(if restart then 0 else f_chunksSeen f) = int (card S)"
    using ok by (simp add: S_def frame_ok_def)
  have idx: "nat (ci div 64) = nat ci div 64" "nat (ci mod 64) = nat ci mod 64"
    using True by (simp_all add: nat_div_distrib nat_mod_distrib)
  let ?w = "bits ! (nat ci div 64)"
  have test: "(?w AND push_bit (nat ci mod 64) 1 = 0) = (nat ci \<notin> S)"
    using len cs(1) by (subst push_bit_test) (auto simp: chunk_set_def)
  define f1 where "f1 = (if restart then f\<lparr>f_seen := True, f_chunkBits := Some bits, f_chunkCount := cc, f_chunksSeen := 0\<rparr>
                        else f\<lparr>f_seen := True\<rparr>)"
  have f1: "f_seen f1" "f_chunkCount f1 = cc" "f_chunkBits f1 = Some bits" "f_chunksSeen f1 = int (card S)"
    using seen by (auto simp: f1_def restart_def bits_def split: if_splits)
  have "f1 = (let f = f\<lparr>f_seen := True\<rparr> in
      if f_chunkBits f = None \<or> f_chunkCount f \<noteq> cc
      then f\<lparr>f_chunkBits := Some (replicate (nat ((cc + 63) div 64)) 0), f_chunkCount := cc, f_chunksSeen := 0\<rparr> else f)"
    by (simp add: f1_def restart_def bits_def Let_def)
  then have "markChunk ci cc f = (if ?w AND push_bit (nat ci mod 64) 1 = 0
      then f1\<lparr>f_chunkBits := Some (bits[nat ci div 64 := ?w OR push_bit (nat ci mod 64) 1]), f_chunksSeen := f_chunksSeen f1 + 1\<rparr>
      else f1)"
    using True words_bound [of cc] f1(3) by (simp add: markChunk_def Let_def idx)
  then have "f_chunkBits (markChunk ci cc f) =
        Some (if nat ci \<in> S then bits else bits[nat ci div 64 := ?w OR push_bit (nat ci mod 64) 1]) \<and>
      f_chunkCount (markChunk ci cc f) = cc \<and> f_chunksSeen (markChunk ci cc f) = int (card (insert (nat ci) S))"
    using test f1 cs(1) finite_chunk_set [of bits] by (auto simp: insert_absorb)
  moreover have "chunk_set (if nat ci \<in> S then bits else bits[nat ci div 64 := ?w OR push_bit (nat ci mod 64) 1])
      = insert (nat ci) S"
    using chunk_set_insert [OF len] cs(1) by auto
  ultimately show ?thesis
    using True cs S by (auto simp: frame_ok_def view_def spec_mark_def chunks_def)
qed

lemma finalize_score:
  assumes "frame_ok f" "f_active f"
  shows "finalize f = score (Some (view f))"
proof -
  obtain n where n: "f_chunkCount f = int n"
    using frame_ok_chunks(3) [OF assms(1)] by (rule nonneg_int_cases)
  then have "card (chunks f) \<le> n"
    using frame_ok_chunks(2) [OF assms(1)] card_mono [of "{..< n}" "chunks f"] by simp
  then have "word_of_int (int n - int (card (chunks f))) = (of_nat (n - card (chunks f)) :: u64)"
    by (simp flip: of_nat_diff)
  then show ?thesis
    using assms(2) frame_ok_chunks(1) [OF assms(1)] \<open>card (chunks f) \<le> n\<close>
    by (auto simp: finalize_def score_def view_def Let_def zero_tally_def n)
qed

subsection \<open>The ring as a map over the serial window\<close>

definition ring_ok :: "ingressFrame list \<Rightarrow> bool" where
  "ring_ok slots \<longleftrightarrow> length slots = ingressWindowFrames \<and>
     (\<forall>j < ingressWindowFrames. frame_ok (slots ! j) \<and>
        (f_active (slots ! j) \<longrightarrow> slot_of (f_frameID (slots ! j)) = j))"

text \<open>Every tracked frame is one of the 1024 IDs that end with \<open>newest\<close>.\<close>

definition within_window :: "u32 \<Rightarrow> ingressFrame list \<Rightarrow> bool" where
  "within_window newest slots \<longleftrightarrow>
     (\<forall>j < ingressWindowFrames. f_active (slots ! j) \<longrightarrow> unat (newest - f_frameID (slots ! j)) < ingressWindowFrames)"

definition tracked :: "ingressFrame list \<Rightarrow> u32 \<Rightarrow> frame_view option" where
  "tracked slots i =
     (let f = slots ! slot_of i in if f_active f \<and> f_frameID f = i then Some (view f) else None)"

lemma slot_of_less [simp]: "slot_of i < ingressWindowFrames"
  by (simp add: slot_of_def ingressWindowFrames_def)

lemma unat_diff_mod:
  fixes i j :: u32
  shows "int (unat (i - j)) mod 1024 = (int (unat i) - int (unat j)) mod 1024"
proof -
  have "int (unat (i - j)) = (int (unat i) - int (unat j)) mod 2 ^ 32"
    by (simp add: uint_word_ariths flip: uint_nat)
  then show ?thesis by (simp add: mod_mod_cancel)
qed

lemma slot_of_eq_iff: "slot_of i = slot_of j \<longleftrightarrow> 1024 dvd unat (i - j)"
proof -
  have s: "int (slot_of i) = int (unat i) mod 1024" for i
    by (simp add: slot_of_def ingressWindowFrames_def zmod_int)
  have "slot_of i = slot_of j \<longleftrightarrow> int (unat i) mod 1024 = int (unat j) mod 1024"
    unfolding s [symmetric] by simp
  also have "\<dots> \<longleftrightarrow> int (unat (i - j)) mod 1024 = 0"
    unfolding unat_diff_mod by (simp add: mod_eq_dvd_iff dvd_eq_mod_eq_0)
  also have "\<dots> \<longleftrightarrow> 1024 dvd unat (i - j)"
    by (metis dvd_eq_mod_eq_0 int_dvd_int_iff of_nat_numeral)
  finally show ?thesis .
qed

text \<open>Within the window the slot decides the frame ID.\<close>

lemma serial_distance:
  fixes m i j :: u32
  assumes "unat (m - i) \<le> unat (m - j)"
  shows "unat (i - j) = unat (m - j) - unat (m - i)"
proof -
  have "unat ((m - j) - (m - i)) = unat (m - j) - unat (m - i)"
    using assms by (intro unat_sub) (simp add: word_le_nat_alt)
  moreover have "(m - j) - (m - i) = i - j" by simp
  ultimately show ?thesis by simp
qed

lemma window_unique:
  assumes "unat (m - i) < 1024" "unat (m - j) < 1024" "slot_of i = slot_of j"
  shows "i = j"
proof -
  have dv: "1024 dvd unat (i - j)" "1024 dvd unat (j - i)"
    using assms(3) slot_of_eq_iff by metis+
  have "unat (i - j) = 0 \<or> unat (j - i) = 0"
  proof (cases "unat (m - i) \<le> unat (m - j)")
    case True
    then have "unat (i - j) < 1024" using assms(2) serial_distance [of m i j] by linarith
    with dv(1) show ?thesis using nat_dvd_not_less by blast
  next
    case False
    then have "unat (j - i) < 1024" using assms(1) serial_distance [of m j i] by linarith
    with dv(2) show ?thesis using nat_dvd_not_less by blast
  qed
  then show ?thesis by (auto simp: unat_eq_zero)
qed

lemma slot_of_minus_window [simp]: "slot_of (i - 1024) = slot_of i"
  unfolding slot_of_eq_iff by simp

lemma unat_1024: "unat x = 1024 \<Longrightarrow> x = (1024 :: u32)"
  by (simp add: word_unat_eq_iff)

lemma serial_next:
  fixes i k :: u32
  assumes "unat (i - 1 - k) < 1024"
  shows "unat (i - k) = unat (i - 1 - k) + 1"
proof -
  have "unat ((i - 1 - k) + 1) = unat (i - 1 - k) + 1"
    using assms by (subst unat_add_lem [THEN iffD1]) simp_all
  moreover have "(i - 1 - k) + 1 = i - k" by simp
  ultimately show ?thesis by metis
qed

lemma sliding_slot:
  assumes "ring_ok slots" "within_window (i - 1) slots" "f_active (slots ! slot_of i)"
  shows "f_frameID (slots ! slot_of i) = i - 1024"
proof -
  let ?k = "f_frameID (slots ! slot_of i)"
  have d: "unat (i - 1 - ?k) < 1024" "slot_of i = slot_of ?k"
    using assms by (auto simp: within_window_def ring_ok_def ingressWindowFrames_def [symmetric])
  then have "1024 dvd unat (i - ?k)" by (simp add: slot_of_eq_iff)
  with serial_next [OF d(1)] d(1) have "unat (i - ?k) = 1024"
    using dvd_imp_le [of 1024 "unat (i - ?k)"] by linarith
  then have "i - ?k = 1024" by (rule unat_1024)
  then show ?thesis by (simp add: algebra_simps)
qed

abbreviation slide :: "u32 \<Rightarrow> ingressFrame list \<Rightarrow> ingressFrame list" where
  "slide i slots \<equiv> slots[slot_of i := fresh_frame i]"

lemma tracked_slide:
  assumes "ring_ok slots" "within_window (i - 1) slots"
  shows "tracked (slide i slots) = (tracked slots)(i - 1024 := None, i := Some unseen)"
proof
  fix k
  have len: "slot_of i < length slots" using assms(1) by (simp add: ring_ok_def)
  show "tracked (slide i slots) k = ((tracked slots)(i - 1024 := None, i := Some unseen)) k"
  proof (cases "slot_of k = slot_of i")
    case True
    then show ?thesis using sliding_slot [OF assms] len by (auto simp: tracked_def Let_def)
  next
    case False
    then have "k \<noteq> i" "k \<noteq> i - 1024" using slot_of_minus_window [of i] by auto
    then show ?thesis using False by (simp add: tracked_def Let_def)
  qed
qed

lemma score_slide:
  assumes "ring_ok slots" "within_window (i - 1) slots"
  shows "finalize (slots ! slot_of i) = score (tracked slots (i - 1024))"
proof (cases "f_active (slots ! slot_of i)")
  case True
  then show ?thesis
    using sliding_slot [OF assms] finalize_score assms(1) by (simp add: tracked_def Let_def ring_ok_def)
next
  case False
  then show ?thesis by (simp add: tracked_def Let_def finalize_def score_def)
qed

lemma ring_ok_update:
  assumes "ring_ok slots" "frame_ok f" "f_active f \<Longrightarrow> slot_of (f_frameID f) = j"
  shows "ring_ok (slots[j := f])"
  using assms by (cases "j < length slots") (auto simp: ring_ok_def nth_list_update split: if_splits)

lemma within_slide:
  assumes "ring_ok slots" "within_window (i - 1) slots"
  shows "within_window i (slide i slots)"
  unfolding within_window_def
proof (intro allI impI)
  fix j
  assume j: "j < ingressWindowFrames" "f_active (slide i slots ! j)"
  let ?k = "f_frameID (slots ! j)"
  show "unat (i - f_frameID (slide i slots ! j)) < ingressWindowFrames"
  proof (cases "j = slot_of i")
    case True
    then have "slide i slots ! j = fresh_frame i" using assms(1) by (simp add: ring_ok_def)
    then show ?thesis by (simp add: ingressWindowFrames_def)
  next
    case False
    then have k: "unat (i - 1 - ?k) < 1024" "slot_of ?k = j"
      using j assms by (auto simp: within_window_def ring_ok_def ingressWindowFrames_def [symmetric])
    have "unat (i - ?k) \<noteq> 1024"
    proof
      assume "unat (i - ?k) = 1024"
      then have "slot_of i = slot_of ?k" by (simp add: slot_of_eq_iff)
      with k False show False by simp
    qed
    then show ?thesis using serial_next [OF k(1)] k(1) False by (simp add: ingressWindowFrames_def)
  qed
qed

lemma ring_ok_slide: "ring_ok slots \<Longrightarrow> ring_ok (slide i slots)"
  by (rule ring_ok_update) auto

subsection \<open>Advancing the window\<close>

text \<open>
  Moving the window from \<open>c\<close> to \<open>newest\<close>: the IDs in between are expected from now on,
  what is 1024 or more behind falls out.
\<close>

definition moved :: "u32 \<Rightarrow> u32 \<Rightarrow> (u32 \<Rightarrow> frame_view option) \<Rightarrow> u32 \<Rightarrow> frame_view option" where
  "moved c newest m k =
     (if unat (newest - k) < unat (newest - c) then Some unseen
      else if unat (newest - k) < 1024 then m k else None)"

definition evicted :: "u32 \<Rightarrow> (u32 \<Rightarrow> frame_view option) \<Rightarrow> u32 set" where
  "evicted newest m = {k. m k \<noteq> None \<and> 1024 \<le> unat (newest - k)}"

definition tally_over :: "u32 set \<Rightarrow> (u32 \<Rightarrow> frame_view option) \<Rightarrow> ingressTally" where
  "tally_over A m =
     \<lparr>t_framesLost = (\<Sum>k\<in>A. t_framesLost (score (m k))),
      t_framesDamaged = (\<Sum>k\<in>A. t_framesDamaged (score (m k))),
      t_framesExpected = (\<Sum>k\<in>A. t_framesExpected (score (m k))),
      t_chunksLost = (\<Sum>k\<in>A. t_chunksLost (score (m k))),
      t_chunksExpected = (\<Sum>k\<in>A. t_chunksExpected (score (m k)))\<rparr>"

lemma tally_add_assoc: "tally_add (tally_add a b) c = tally_add a (tally_add b c)"
  by (simp add: tally_add_def add.assoc)

lemma tally_add_zero [simp]: "tally_add a zero_tally = a" "tally_add zero_tally a = a"
  by (simp_all add: tally_add_def zero_tally_def)

lemma score_None [simp]: "score None = zero_tally"
  by (simp add: score_def)

lemma tally_over_empty [simp]: "tally_over {} m = zero_tally"
  by (simp add: tally_over_def zero_tally_def)

lemma tally_over_insert:
  "finite A \<Longrightarrow> x \<notin> A \<Longrightarrow> tally_over (insert x A) m = tally_add (score (m x)) (tally_over A m)"
  by (simp add: tally_over_def tally_add_def)

lemma tally_over_cong: "(\<And>k. k \<in> A \<Longrightarrow> m k = m' k) \<Longrightarrow> tally_over A m = tally_over A m'"
  by (simp add: tally_over_def cong: sum.cong)

definition in_window :: "u32 \<Rightarrow> (u32 \<Rightarrow> frame_view option) \<Rightarrow> bool" where
  "in_window newest m \<longleftrightarrow> (\<forall>k. m k \<noteq> None \<longrightarrow> unat (newest - k) < 1024)"

lemma in_windowD: "in_window newest m \<Longrightarrow> m k \<noteq> None \<Longrightarrow> unat (newest - k) < 1024"
  unfolding in_window_def by blast

lemma tracked_in_window:
  assumes "within_window m slots"
  shows "in_window m (tracked slots)"
  unfolding in_window_def
proof (intro allI impI)
  fix k
  assume "tracked slots k \<noteq> None"
  then have "f_active (slots ! slot_of k)" "f_frameID (slots ! slot_of k) = k"
    by (auto simp: tracked_def Let_def split: if_splits)
  then show "unat (m - k) < 1024"
    using assms slot_of_less [of k] unfolding within_window_def ingressWindowFrames_def by metis
qed

lemma moved_one:
  assumes "in_window (i - 1) m"
  shows "moved (i - 1) i m = m(i - 1024 := None, i := Some unseen)"
proof
  fix k
  have n: "unat (i - k) = unat (i - 1 - k) + 1" if "m k \<noteq> None"
    using in_windowD [OF assms that] by (rule serial_next)
  have "unat (i - k) < 1 \<longleftrightarrow> k = i" by (auto simp: unat_eq_zero)
  moreover have "m k = None" if "1024 \<le> unat (i - k)" "k \<noteq> i - 1024"
  proof (rule ccontr)
    assume "m k \<noteq> None"
    then have "unat (i - k) = 1024" using n that in_windowD [OF assms, of k] by linarith
    then have "i - k = 1024" by (rule unat_1024)
    with that(2) show False by (simp add: algebra_simps)
  qed
  moreover have "\<not> unat (i - (i - 1024)) < 1024" by simp
  ultimately show "moved (i - 1) i m k = (m(i - 1024 := None, i := Some unseen)) k"
    by (auto simp: moved_def)
qed

lemma evicted_one:
  assumes "in_window (i - 1) m"
  shows "evicted i m = (if m (i - 1024) = None then {} else {i - 1024})"
proof -
  have only: "k = i - 1024" if "m k \<noteq> None" "1024 \<le> unat (i - k)" for k
  proof -
    have "unat (i - k) = 1024"
      using in_windowD [OF assms that(1)] that(2) serial_next [of i k] by linarith
    then have "i - k = 1024" by (rule unat_1024)
    then show ?thesis by (simp add: algebra_simps)
  qed
  have "1024 \<le> unat (i - (i - 1024))" by simp
  with only have "k \<in> evicted i m \<longleftrightarrow> k = i - 1024 \<and> m (i - 1024) \<noteq> None" for k
    unfolding evicted_def mem_Collect_eq by metis
  then show ?thesis by (intro set_eqI) simp
qed

lemma serial_plus:
  fixes x :: u32
  assumes "unat x < 1024" "unat y \<le> 1024"
  shows "unat (x + y) = unat x + unat y"
  using assms by (intro unat_add_lem [THEN iffD1]) simp

lemma serial_beyond:
  fixes i n :: u32
  assumes "unat (n - i) < 1024"
  shows "unat (n - (i - 1024)) = unat (n - i) + 1024" "unat (n - (i - 1)) = unat (n - i) + 1"
proof -
  have e: "n - (i - 1024) = (n - i) + 1024" "n - (i - 1) = (n - i) + 1" by simp_all
  show "unat (n - (i - 1024)) = unat (n - i) + 1024" "unat (n - (i - 1)) = unat (n - i) + 1"
    unfolding e using serial_plus [OF assms, of 1024] serial_plus [OF assms, of 1] by simp_all
qed

lemma moved_step:
  assumes "in_window (i - 1) m" "unat (newest - i) < 1023"
  shows "moved i newest (moved (i - 1) i m) = moved (i - 1) newest m"
proof
  fix k
  have b: "unat (newest - (i - 1024)) = unat (newest - i) + 1024" "unat (newest - (i - 1)) = unat (newest - i) + 1"
    using serial_beyond [of newest i] assms(2) by simp_all
  have "unat (newest - k) = unat (newest - i) \<longleftrightarrow> k = i"
    by (auto simp: word_unat_eq_iff [symmetric])
  then show "moved i newest (moved (i - 1) i m) k = moved (i - 1) newest m k"
    unfolding moved_one [OF assms(1)] using b assms(2) by (auto simp: moved_def)
qed

lemma evicted_step:
  assumes "in_window (i - 1) m" "unat (newest - i) < 1023"
  shows "tally_over (evicted newest m) m =
    tally_add (score (m (i - 1024))) (tally_over (evicted newest (moved (i - 1) i m)) (moved (i - 1) i m))"
proof -
  let ?m1 = "moved (i - 1) i m"
  have b: "1024 \<le> unat (newest - (i - 1024))" using serial_beyond(1) [of newest i] assms(2) by simp
  have m1: "?m1 = m(i - 1024 := None, i := Some unseen)" using moved_one [OF assms(1)] .
  have e: "evicted newest ?m1 = evicted newest m - {i - 1024}"
    unfolding m1 using assms(2) by (auto simp: evicted_def)
  have i: "i \<notin> evicted newest m" using assms(2) by (simp add: evicted_def)
  have "tally_over (evicted newest ?m1) ?m1 = tally_over (evicted newest m - {i - 1024}) m"
    unfolding e using i by (intro tally_over_cong) (auto simp: m1)
  moreover have "tally_over (evicted newest m) m =
      tally_add (score (m (i - 1024))) (tally_over (evicted newest m - {i - 1024}) m)"
  proof (cases "m (i - 1024) = None")
    case True
    then have "i - 1024 \<notin> evicted newest m" by (simp add: evicted_def)
    then show ?thesis using True by simp
  next
    case False
    then have "i - 1024 \<in> evicted newest m" using b by (simp add: evicted_def)
    then show ?thesis using tally_over_insert [of "evicted newest m - {i - 1024}" "i - 1024" m]
      by (simp add: insert_absorb)
  qed
  ultimately show ?thesis by simp
qed

lemma advance_refines:
  assumes "ring_ok slots" "within_window (i - 1) slots" "unat (newest - i) < 1023"
    and "advance newest i slots out = (slots', out')"
  shows "ring_ok slots' \<and> within_window newest slots' \<and>
    tracked slots' = moved (i - 1) newest (tracked slots) \<and>
    out' = tally_add out (tally_over (evicted newest (tracked slots)) (tracked slots))"
  using assms
proof (induction newest i slots out rule: advance.induct)
  case (1 newest i slots out)
  let ?m = "tracked slots" and ?s1 = "slide i slots" and ?o1 = "tally_add out (finalize (slots ! slot_of i))"
  have w: "in_window (i - 1) ?m" using "1.prems"(2) by (rule tracked_in_window)
  have t1: "tracked ?s1 = moved (i - 1) i ?m"
    using tracked_slide [OF "1.prems"(1,2)] moved_one [OF w] by simp
  have f1: "finalize (slots ! slot_of i) = score (?m (i - 1024))" using score_slide [OF "1.prems"(1,2)] .
  have ok1: "ring_ok ?s1" "within_window i ?s1"
    using ring_ok_slide within_slide "1.prems"(1,2) by blast+
  show ?case
  proof (cases "i = newest")
    case True
    then have "slots' = ?s1" "out' = ?o1" using "1.prems"(4) by (simp_all add: advance.simps [of newest newest slots out] Let_def)
    moreover have "tally_over (evicted newest ?m) ?m = score (?m (i - 1024))"
      using evicted_one [OF w] True tally_over_insert [of "{}" "i - 1024" ?m] by (auto simp: tally_over_empty)
    ultimately show ?thesis using True ok1 t1 f1 by simp
  next
    case False
    then have adv: "advance newest (i + 1) ?s1 ?o1 = (slots', out')"
      using "1.prems"(4) by (simp add: advance.simps [of newest i slots out] Let_def)
    have "unat (newest - i - 1) < unat (newest - i)"
      using False by (intro word_minus_one_less) simp
    then have "unat (newest - (i + 1)) < 1023"
      unfolding diff_diff_eq using "1.prems"(3) by linarith
    then have IH: "ring_ok slots' \<and> within_window newest slots' \<and>
        tracked slots' = moved i newest (tracked ?s1) \<and>
        out' = tally_add ?o1 (tally_over (evicted newest (tracked ?s1)) (tracked ?s1))"
      using "1.IH" [OF refl refl False ok1(1) _ _ adv] ok1(2) by simp
    then show ?thesis
      using moved_step [OF w "1.prems"(3)] evicted_step [OF w "1.prems"(3)]
      by (simp add: t1 f1 tally_add_assoc)
  qed
qed

subsection \<open>Scoring the whole window\<close>

lemma tally_add_fields:
  "t_framesLost (tally_add a b) = t_framesLost a + t_framesLost b"
  "t_framesDamaged (tally_add a b) = t_framesDamaged a + t_framesDamaged b"
  "t_framesExpected (tally_add a b) = t_framesExpected a + t_framesExpected b"
  "t_chunksLost (tally_add a b) = t_chunksLost a + t_chunksLost b"
  "t_chunksExpected (tally_add a b) = t_chunksExpected a + t_chunksExpected b"
  by (simp_all add: tally_add_def)

lemma zero_tally_fields [simp]:
  "t_framesLost zero_tally = 0" "t_framesDamaged zero_tally = 0" "t_framesExpected zero_tally = 0"
  "t_chunksLost zero_tally = 0" "t_chunksExpected zero_tally = 0"
  by (simp_all add: zero_tally_def)

lemma fold_tally:
  assumes "\<And>a b. \<phi> (tally_add a b) = \<phi> a + (\<phi> b :: u64)"
  shows "\<phi> (fold (\<lambda>f out. tally_add out (finalize f)) slots t) = \<phi> t + (\<Sum>f\<leftarrow>slots. \<phi> (finalize f))"
  by (induction slots arbitrary: t) (simp_all add: assms add.assoc)

lemma tracked_bij:
  assumes "ring_ok slots"
  shows "bij_betw slot_of (dom (tracked slots)) {j. j < 1024 \<and> f_active (slots ! j)}"
proof (rule bij_betw_byWitness [where f' = "\<lambda>j. f_frameID (slots ! j)"])
  show "slot_of ` dom (tracked slots) \<subseteq> {j. j < 1024 \<and> f_active (slots ! j)}"
    using slot_of_less by (auto simp: tracked_def Let_def ingressWindowFrames_def split: if_splits)
  show "(\<lambda>j. f_frameID (slots ! j)) ` {j. j < 1024 \<and> f_active (slots ! j)} \<subseteq> dom (tracked slots)"
    using assms by (auto simp: tracked_def Let_def ring_ok_def ingressWindowFrames_def)
  show "\<forall>k \<in> dom (tracked slots). f_frameID (slots ! slot_of k) = k"
    by (auto simp: tracked_def Let_def split: if_splits)
  show "\<forall>j \<in> {j. j < 1024 \<and> f_active (slots ! j)}. slot_of (f_frameID (slots ! j)) = j"
    using assms by (auto simp: ring_ok_def ingressWindowFrames_def)
qed

lemma score_tracked:
  assumes "ring_ok slots" "tracked slots k \<noteq> None"
  shows "score (tracked slots k) = finalize (slots ! slot_of k)"
  using assms slot_of_less [of k] by (auto simp: tracked_def Let_def ring_ok_def finalize_score split: if_splits)

lemma sum_slots:
  fixes \<phi> :: "ingressTally \<Rightarrow> u64"
  assumes ok: "ring_ok slots" and z: "\<phi> zero_tally = 0"
  shows "(\<Sum>f\<leftarrow>slots. \<phi> (finalize f)) = (\<Sum>k\<in>dom (tracked slots). \<phi> (score (tracked slots k)))"
proof -
  let ?A = "{j. j < 1024 \<and> f_active (slots ! j)}"
  have "(\<Sum>f\<leftarrow>slots. \<phi> (finalize f)) = (\<Sum>j = 0..<1024. \<phi> (finalize (slots ! j)))"
    using ok by (simp add: sum_list_sum_nth ring_ok_def ingressWindowFrames_def)
  also have "\<dots> = (\<Sum>j\<in>?A. \<phi> (finalize (slots ! j)))"
    by (rule sum.mono_neutral_right) (auto simp: finalize_def z)
  also have "\<dots> = (\<Sum>k\<in>dom (tracked slots). \<phi> (finalize (slots ! slot_of k)))"
    by (rule sum.reindex_bij_betw [OF tracked_bij [OF ok], symmetric])
  also have "\<dots> = (\<Sum>k\<in>dom (tracked slots). \<phi> (score (tracked slots k)))"
    by (rule sum.cong [OF refl]) (auto simp: score_tracked [OF ok] domIff)
  finally show ?thesis .
qed

lemma finalizeAll_score:
  assumes "ring_ok slots"
  shows "snd (finalizeAll slots) = tally_over (dom (tracked slots)) (tracked slots)"
  using sum_slots [OF assms]
  by (intro ingressTally.equality)
    (simp_all add: finalizeAll_def tally_over_def fold_tally [where t = zero_tally] tally_add_fields)

subsection \<open>Observing a chunk\<close>

text \<open>
  The specification: nothing yet, or the newest frame ID and what is known of the
  1024 IDs up to it.
\<close>

type_synonym window_spec = "(u32 \<times> (u32 \<Rightarrow> frame_view option)) option"

definition spec_observe :: "window_spec \<Rightarrow> u32 \<Rightarrow> int \<Rightarrow> int \<Rightarrow> window_spec \<times> ingressTally" where
  "spec_observe s i ci cc = (case s of
     None \<Rightarrow> (Some (i, [i \<mapsto> spec_mark ci cc unseen]), zero_tally)
   | Some (n, m) \<Rightarrow>
       let d = sint (i - n) in
       if d \<ge> 1024 then (Some (i, [i \<mapsto> spec_mark ci cc unseen]), tally_over (dom m) m)
       else if d \<le> - 1024 then (Some (n, m), zero_tally)
       else
         let (n', m', out) = (if d > 0 then (i, moved n i m, tally_over (evicted i m) m) else (n, m, zero_tally)) in
         (Some (n', m'(i \<mapsto> spec_mark ci cc (case m' i of None \<Rightarrow> unseen | Some v \<Rightarrow> v))), out))"

definition abs_window :: "ingressWindow \<Rightarrow> window_spec" where
  "abs_window w = (if w_started w then Some (w_maxSeen w, tracked (w_slots w)) else None)"

definition window_ok :: "ingressWindow \<Rightarrow> bool" where
  "window_ok w \<longleftrightarrow> ring_ok (w_slots w) \<and>
     (if w_started w then within_window (w_maxSeen w) (w_slots w)
      else \<forall>j < ingressWindowFrames. \<not> f_active (w_slots w ! j))"

lemma sint_forward:
  assumes "0 < sint (i - n)" "sint (i - n) < 1024"
  shows "unat (i - n) = nat (sint (i - n :: u32))"
proof -
  have "uint (i - n) = sint (i - n) mod 2 ^ 32" by (simp add: uint_sint take_bit_eq_mod)
  also have "\<dots> = sint (i - n)" using assms by (intro mod_pos_pos_trivial) simp_all
  finally show ?thesis by (metis nat_uint_eq)
qed

lemma sint_backward:
  assumes "sint (i - n) \<le> 0" "- 1024 < sint (i - n)"
  shows "unat (n - i) = nat (- sint (i - n :: u32))"
proof -
  have "uint (- x) = (- uint x) mod 2 ^ 32" for x :: u32 by (simp add: uint_word_ariths)
  from this [of "i - n"] have "uint (n - i) = (- uint (i - n)) mod 2 ^ 32" by (simp only: minus_diff_eq)
  also have "uint (i - n) = sint (i - n) mod 2 ^ 32" by (simp add: uint_sint take_bit_eq_mod)
  also have "(- (sint (i - n) mod 2 ^ 32)) mod 2 ^ 32 = (- sint (i - n)) mod 2 ^ 32"
    by (rule mod_minus_eq)
  also have "\<dots> = - sint (i - n)" using assms by (intro mod_pos_pos_trivial) simp_all
  finally show ?thesis by (metis nat_uint_eq)
qed

text \<open>Marking a chunk of a frame inside the window.\<close>

lemma mark_slot:
  assumes ok: "ring_ok slots" "within_window n slots" and i: "unat (n - i) < 1024"
  defines "f \<equiv> (let f = slots ! slot_of i in if \<not> f_active f \<or> f_frameID f \<noteq> i then fresh_frame i else f)"
  shows "ring_ok (slots[slot_of i := markChunk ci cc f])"
    and "within_window n (slots[slot_of i := markChunk ci cc f])"
    and "tracked (slots[slot_of i := markChunk ci cc f]) =
      (tracked slots)(i \<mapsto> spec_mark ci cc (case tracked slots i of None \<Rightarrow> unseen | Some v \<Rightarrow> v))"
proof -
  have len: "slot_of i < length slots" using ok(1) by (simp add: ring_ok_def)
  have f: "frame_ok f" "f_active f" "f_frameID f = i"
    using ok(1) by (auto simp: f_def Let_def ring_ok_def)
  have v: "view f = (case tracked slots i of None \<Rightarrow> unseen | Some v \<Rightarrow> v)"
    by (auto simp: f_def Let_def tracked_def)
  note m = markChunk_correct [OF f(1), of ci cc]
  show "ring_ok (slots[slot_of i := markChunk ci cc f])"
    using ok(1) m f by (intro ring_ok_update) auto
  show "within_window n (slots[slot_of i := markChunk ci cc f])"
    using ok(2) f i len by (auto simp: within_window_def nth_list_update ingressWindowFrames_def)
  have "k = i" if "slot_of k = slot_of i" "tracked slots k \<noteq> None" for k
    using that i in_windowD [OF tracked_in_window [OF ok(2)] that(2)] by (intro window_unique)
  then have other: "tracked slots k = None" if "slot_of k = slot_of i" "k \<noteq> i" for k
    using that by blast
  show "tracked (slots[slot_of i := markChunk ci cc f]) =
      (tracked slots)(i \<mapsto> spec_mark ci cc (case tracked slots i of None \<Rightarrow> unseen | Some v \<Rightarrow> v))"
  proof
    fix k
    show "tracked (slots[slot_of i := markChunk ci cc f]) k =
      ((tracked slots)(i \<mapsto> spec_mark ci cc (case tracked slots i of None \<Rightarrow> unseen | Some v \<Rightarrow> v))) k"
    proof (cases "slot_of k = slot_of i")
      case True
      then have "tracked (slots[slot_of i := markChunk ci cc f]) k = (if k = i then Some (view (markChunk ci cc f)) else None)"
        using f len by (simp add: tracked_def Let_def)
      with True other [of k] m v show ?thesis by simp
    next
      case False
      then show ?thesis by (auto simp: tracked_def Let_def)
    qed
  qed
qed

lemma restart_slot:
  fixes i :: u32 and ci cc :: int
  assumes ring: "ring_ok slots" and none: "\<forall>j < ingressWindowFrames. \<not> f_active (slots ! j)"
  defines "slots' \<equiv> slots[slot_of i := markChunk ci cc (fresh_frame i)]"
  shows "ring_ok slots'" "within_window i slots'" "tracked slots' = [i \<mapsto> spec_mark ci cc unseen]"
proof -
  have "within_window i slots" "tracked slots = Map.empty"
    using none slot_of_less by (auto simp: within_window_def tracked_def Let_def)
  with mark_slot [OF ring, of i i ci cc] none slot_of_less
  show "ring_ok slots'" "within_window i slots'" "tracked slots' = [i \<mapsto> spec_mark ci cc unseen]"
    by (simp_all add: slots'_def)
qed

lemma ring_ok_finalizeAll:
  assumes "ring_ok slots"
  shows "ring_ok (fst (finalizeAll slots))" "\<forall>j < ingressWindowFrames. \<not> f_active (fst (finalizeAll slots) ! j)"
  using assms by (auto simp: finalizeAll_def ring_ok_def)

theorem observeChunk_refines:
  assumes ok: "window_ok w"
  shows "window_ok (fst (observeChunk w i ci cc)) \<and>
    spec_observe (abs_window w) i ci cc = (abs_window (fst (observeChunk w i ci cc)), snd (observeChunk w i ci cc))"
proof (cases "w_started w")
  case False
  then show ?thesis
    using ok restart_slot [of "w_slots w" i ci cc]
    by (simp add: window_ok_def observeChunk_def spec_observe_def abs_window_def)
next
  case started: True
  have ring: "ring_ok (w_slots w)" and win: "within_window (w_maxSeen w) (w_slots w)"
    using ok started by (auto simp: window_ok_def)
  define d where "d = sint (i - w_maxSeen w)"
  consider "1024 \<le> d" | "d \<le> - 1024" | "0 < d" "d < 1024" | "- 1024 < d" "d \<le> 0" by linarith
  then show ?thesis
  proof cases
    case 1
    then show ?thesis
      using started restart_slot [OF ring_ok_finalizeAll [OF ring], of i ci cc] finalizeAll_score [OF ring]
      by (simp add: observeChunk_def spec_observe_def abs_window_def window_ok_def ingressWindowFrames_def
          d_def [symmetric] case_prod_beta)
  next
    case 2
    then show ?thesis
      using started ok by (simp add: observeChunk_def spec_observe_def abs_window_def ingressWindowFrames_def d_def [symmetric])
  next
    case 3
    obtain slots out where adv: "advance i (w_maxSeen w + 1) (w_slots w) zero_tally = (slots, out)" by fastforce
    have dist: "unat (i - w_maxSeen w) = nat d" using sint_forward 3 unfolding d_def by blast
    have "unat (i - w_maxSeen w - 1) < unat (i - w_maxSeen w)"
      using 3(1) dist by (intro word_minus_one_less) auto
    then have "unat (i - (w_maxSeen w + 1)) < 1023"
      unfolding diff_diff_eq using dist 3(2) by linarith
    from advance_refines [OF ring _ this adv] win have
      st: "ring_ok slots" "within_window i slots" "tracked slots = moved (w_maxSeen w) i (tracked (w_slots w))"
        "out = tally_over (evicted i (tracked (w_slots w))) (tracked (w_slots w))" by simp_all
    show ?thesis
      using started 3 adv mark_slot [OF st(1,2), of i ci cc] st(3,4)
      by (simp add: observeChunk_def spec_observe_def abs_window_def window_ok_def ingressWindowFrames_def
          d_def [symmetric] Let_def)
  next
    case 4
    have "unat (w_maxSeen w - i) < 1024" using sint_backward [of i "w_maxSeen w"] 4 by (simp add: d_def)
    from mark_slot [OF ring win this, of ci cc] show ?thesis
      using started 4
      by (simp add: observeChunk_def spec_observe_def abs_window_def window_ok_def ingressWindowFrames_def
          d_def [symmetric] Let_def)
  qed
qed

subsection \<open>Runs\<close>

text \<open>The relay adds up what each observation of a session finalizes.\<close>

fun observe_all :: "ingressWindow \<Rightarrow> (u32 \<times> int \<times> int) list \<Rightarrow> ingressWindow \<times> ingressTally" where
  "observe_all w [] = (w, zero_tally)"
| "observe_all w ((i, ci, cc) # obs) =
     (let (w', t) = observeChunk w i ci cc; (w'', t') = observe_all w' obs in (w'', tally_add t t'))"

fun spec_run :: "window_spec \<Rightarrow> (u32 \<times> int \<times> int) list \<Rightarrow> window_spec \<times> ingressTally" where
  "spec_run s [] = (s, zero_tally)"
| "spec_run s ((i, ci, cc) # obs) =
     (let (s', t) = spec_observe s i ci cc; (s'', t') = spec_run s' obs in (s'', tally_add t t'))"

lemma window_ok_new [simp]: "window_ok new_window"
  by (simp add: window_ok_def new_window_def ring_ok_def)

lemma window_ok_reset: "window_ok w \<Longrightarrow> window_ok (reset_window w)"
  by (auto simp: window_ok_def reset_window_def ring_ok_def)

lemma abs_window_new [simp]: "abs_window new_window = None" "abs_window (reset_window w) = None"
  by (simp_all add: abs_window_def new_window_def reset_window_def)

lemma observe_all_refines:
  assumes "window_ok w"
  shows "window_ok (fst (observe_all w obs)) \<and>
    spec_run (abs_window w) obs = (abs_window (fst (observe_all w obs)), snd (observe_all w obs))"
  using assms
proof (induction w obs rule: observe_all.induct)
  case (2 w i ci cc obs)
  note step = observeChunk_refines [OF 2(2), of i ci cc]
  obtain w' t where o1: "observeChunk w i ci cc = (w', t)" by fastforce
  obtain w'' t' where o2: "observe_all w' obs = (w'', t')" by fastforce
  have "window_ok w''" "spec_run (abs_window w') obs = (abs_window w'', t')"
    using 2(1) [OF o1 [symmetric]] step o1 o2 by auto
  with step o1 o2 show ?case by simp
qed simp

text \<open>
  A stream that arrives frame by frame, in order and whole, loses nothing, however
  long it is and across the wrap-around of the frame IDs.
\<close>

definition serial_stream :: "u32 \<Rightarrow> nat \<Rightarrow> (u32 \<times> int \<times> int) list" where
  "serial_stream i n = map (\<lambda>k. (i + of_nat k, 0, 1)) [0..<n]"

definition all_whole :: "(u32 \<Rightarrow> frame_view option) \<Rightarrow> bool" where
  "all_whole m \<longleftrightarrow> (\<forall>k v. m k = Some v \<longrightarrow> v = (True, 1, {0}))"

definition no_loss :: "ingressTally \<Rightarrow> bool" where
  "no_loss t \<longleftrightarrow> t_framesLost t = 0 \<and> t_framesDamaged t = 0 \<and> t_chunksLost t = 0"

lemma spec_mark_whole [simp]: "spec_mark 0 1 unseen = (True, 1, {0})"
  by (simp add: spec_mark_def unseen_def maxIngressChunkWords_def)

lemma no_loss_over: "all_whole m \<Longrightarrow> no_loss (tally_over A m)"
proof -
  assume m: "all_whole m"
  have "t_framesLost (score (m k)) = 0 \<and> t_framesDamaged (score (m k)) = 0 \<and> t_chunksLost (score (m k)) = 0" for k
  proof (cases "m k")
    case (Some v)
    then have "v = (True, 1, {0})" using m unfolding all_whole_def by blast
    with Some show ?thesis by (simp add: score_def)
  qed simp
  then show ?thesis by (simp add: no_loss_def tally_over_def)
qed

lemma no_loss_add: "no_loss a \<Longrightarrow> no_loss b \<Longrightarrow> no_loss (tally_add a b)"
  by (simp add: no_loss_def tally_add_def)

lemma no_loss_zero [simp]: "no_loss zero_tally"
  by (simp add: no_loss_def)

lemma serial_stream_Suc: "serial_stream i (Suc n) = (i, 0, 1) # serial_stream (i + 1) n"
  by (simp add: serial_stream_def upt_rec [of 0 "Suc n"] map_Suc_upt [symmetric] add.assoc del: upt_Suc)

lemma serial_stream_no_loss:
  assumes "s = None \<or> (\<exists>m. s = Some (i - 1, m) \<and> all_whole m \<and> in_window (i - 1) m)"
  shows "no_loss (snd (spec_run s (serial_stream i n)))"
  using assms
proof (induction n arbitrary: s i)
  case 0
  then show ?case by (simp add: serial_stream_def)
next
  case (Suc n)
  obtain s' t where st: "spec_observe s i 0 1 = (s', t)" by fastforce
  have "no_loss t \<and> (\<exists>m. s' = Some (i, m) \<and> all_whole m \<and> in_window i m)"
  proof (cases s)
    case None
    then have "s' = Some (i, [i \<mapsto> (True, 1, {0})])" "t = zero_tally"
      using st by (simp_all add: spec_observe_def)
    then show ?thesis by (auto simp: all_whole_def in_window_def)
  next
    case (Some c)
    then obtain m where m: "s = Some (i - 1, m)" "all_whole m" "in_window (i - 1) m" using Suc.prems by auto
    have "sint (i - (i - 1)) = 1" by simp
    then have "s' = Some (i, (moved (i - 1) i m)(i \<mapsto> (True, 1, {0})))" "t = tally_over (evicted i m) m"
      using st m(1) moved_one [OF m(3)] by (simp_all add: spec_observe_def Let_def)
    moreover have "in_window i ((moved (i - 1) i m)(i \<mapsto> (True, 1, {0})))"
      by (auto simp: in_window_def moved_def)
    moreover have "all_whole ((moved (i - 1) i m)(i \<mapsto> (True, 1, {0})))"
      using m(2) unfolding moved_one [OF m(3)] by (auto simp: all_whole_def)
    ultimately show ?thesis using no_loss_over [OF m(2)] by simp
  qed
  then show ?case
    using Suc.IH [of s' "i + 1"] st
    by (auto simp: serial_stream_Suc no_loss_add split: prod.splits)
qed

subsection \<open>What one observation accounts for\<close>

text \<open>The frame IDs an observation drops from the window.\<close>

definition leaving :: "ingressWindow \<Rightarrow> ingressWindow \<Rightarrow> u32 set" where
  "leaving w w' = {k. tracked (w_slots w) k \<noteq> None \<and> tracked (w_slots w') k = None}"

lemma sint_far:
  assumes "1024 \<le> sint (i - n :: u32)"
  shows "1024 \<le> unat (n - i)"
proof -
  let ?d = "sint (i - n)"
  have b: "?d < 2 ^ 31" using sint_lt [of "i - n"] by simp
  have "uint (i - n) = ?d mod 2 ^ 32" by (simp add: uint_sint take_bit_eq_mod)
  then have u: "uint (i - n) = ?d" using assms b by (simp add: mod_pos_pos_trivial)
  have "uint (- x) = (- uint x) mod 2 ^ 32" for x :: u32 by (simp add: uint_word_ariths)
  from this [of "i - n"] have "uint (n - i) = (- ?d) mod 2 ^ 32" by (simp only: minus_diff_eq u)
  also have "(- ?d) mod 2 ^ 32 = (2 ^ 32 - ?d) mod 2 ^ 32"
    using mod_add_self1 [of "2 ^ 32" "- ?d"] by (simp only: diff_conv_add_uminus)
  also have "(2 ^ 32 - ?d) mod 2 ^ 32 = 2 ^ 32 - ?d" using assms b by (intro mod_pos_pos_trivial) simp_all
  finally have e: "uint (n - i) = 2 ^ 32 - ?d" .
  have "unat (n - i) = nat (2 ^ 32 - ?d)" unfolding e [symmetric] by (rule unat_eq_nat_uint)
  moreover have "(1024 :: int) \<le> 2 ^ 32 - ?d" using b by simp
  ultimately show ?thesis by linarith
qed

lemma spec_observe_out:
  assumes "spec_observe (Some (n, m)) i ci cc = (Some (n', m'), t)" "in_window n m"
  shows "t = tally_over {k. m k \<noteq> None \<and> m' k = None} m"
proof -
  define d where "d = sint (i - n)"
  consider "1024 \<le> d" | "d \<le> - 1024" | "0 < d" "d < 1024" | "- 1024 < d" "d \<le> 0" by linarith
  then show ?thesis
  proof cases
    case 1
    have "m i = None"
    proof (rule ccontr)
      assume "m i \<noteq> None"
      then have "unat (n - i) < 1024" by (rule in_windowD [OF assms(2)])
      with sint_far [of i n] 1 show False by (simp add: d_def)
    qed
    moreover have m': "m' = [i \<mapsto> spec_mark ci cc unseen]" "t = tally_over (dom m) m"
      using assms(1) 1 by (auto simp: spec_observe_def d_def [symmetric])
    ultimately have e: "{k. m k \<noteq> None \<and> m' k = None} = dom m" by (auto split: if_splits)
    show ?thesis unfolding e m'(2) by simp
  next
    case 2
    then have "m' = m" "t = zero_tally" using assms(1) by (auto simp: spec_observe_def d_def [symmetric])
    then have e: "{k. m k \<noteq> None \<and> m' k = None} = {}" by auto
    show ?thesis unfolding e \<open>t = zero_tally\<close> by simp
  next
    case 3
    then have t: "t = tally_over (evicted i m) m"
      and m': "m' = (moved n i m)(i \<mapsto> spec_mark ci cc (case moved n i m i of None \<Rightarrow> unseen | Some v \<Rightarrow> v))"
      using assms(1) by (auto simp: spec_observe_def d_def [symmetric] Let_def)
    have dist: "unat (i - n) < 1024" using sint_forward [of i n] 3 by (simp add: d_def)
    have "k \<in> evicted i m \<longleftrightarrow> m k \<noteq> None \<and> m' k = None" for k
    proof (cases "k = i")
      case True
      then show ?thesis by (simp add: evicted_def m')
    next
      case False
      then have "m' k = moved n i m k" by (simp add: m')
      then show ?thesis using dist by (auto simp: evicted_def moved_def split: if_splits)
    qed
    then have e: "evicted i m = {k. m k \<noteq> None \<and> m' k = None}" by blast
    show ?thesis unfolding t e by simp
  next
    case 4
    then have "t = zero_tally"
      and m': "m' = m(i \<mapsto> spec_mark ci cc (case m i of None \<Rightarrow> unseen | Some v \<Rightarrow> v))"
      using assms(1) by (auto simp: spec_observe_def d_def [symmetric] Let_def)
    then have e: "{k. m k \<noteq> None \<and> m' k = None} = {}"
      by (auto simp: m' simp del: not_None_eq split: if_splits)
    show ?thesis unfolding e \<open>t = zero_tally\<close> by simp
  qed
qed

lemma tally_over_counts:
  assumes "A \<subseteq> dom m"
  shows "t_framesExpected (tally_over A m) = of_nat (card A)"
    and "t_framesLost (tally_over A m) = of_nat (card {k \<in> A. \<not> fst (the (m k))})"
    and "t_framesDamaged (tally_over A m) =
      of_nat (card {k \<in> A. fst (the (m k)) \<and> card (snd (snd (the (m k)))) < fst (snd (the (m k)))})"
proof -
  have b: "(\<Sum>k\<in>A. of_bool (P k)) = (of_nat (card {k \<in> A. P k}) :: u64)" for P :: "u32 \<Rightarrow> bool"
    by (simp add: of_bool_def sum.If_cases Int_def conj_commute)
  have s: "score (m k) = (case the (m k) of (seen, n, S) \<Rightarrow> score (Some (seen, n, S)))" if "k \<in> A" for k
    using that assms by (cases "m k") auto
  have e: "t_framesExpected (score (m k)) = of_bool True"
    "t_framesLost (score (m k)) = of_bool (\<not> fst (the (m k)))"
    "t_framesDamaged (score (m k)) = of_bool (fst (the (m k)) \<and> card (snd (snd (the (m k)))) < fst (snd (the (m k))))"
    if "k \<in> A" for k
    using s [OF that] by (auto simp: score_def split: prod.splits)
  have "t_framesExpected (tally_over A m) = (\<Sum>k\<in>A. of_bool True)"
    using e(1) by (simp add: tally_over_def)
  then show "t_framesExpected (tally_over A m) = of_nat (card A)" by simp
  show "t_framesLost (tally_over A m) = of_nat (card {k \<in> A. \<not> fst (the (m k))})"
    using e(2) by (simp add: tally_over_def flip: b)
  show "t_framesDamaged (tally_over A m) =
      of_nat (card {k \<in> A. fst (the (m k)) \<and> card (snd (snd (the (m k)))) < fst (snd (the (m k)))})"
    using e(3) by (simp add: tally_over_def flip: b)
qed

lemma observe_out:
  assumes ok: "window_ok w" and step: "observeChunk w i ci cc = (w', t)"
  shows "t = tally_over (leaving w w') (tracked (w_slots w))"
proof (cases "w_started w")
  case False
  then have "leaving w w' = {}" "t = zero_tally"
    using ok slot_of_less step
    by (auto simp: leaving_def window_ok_def tracked_def Let_def observeChunk_def)
  then show ?thesis by simp
next
  case True
  have r: "spec_observe (abs_window w) i ci cc = (abs_window w', t)"
    using observeChunk_refines [OF ok, of i ci cc] step by simp
  have "w_started w'" using True step by (auto simp: observeChunk_def Let_def split: if_splits prod.splits)
  with True r have "spec_observe (Some (w_maxSeen w, tracked (w_slots w))) i ci cc =
      (Some (w_maxSeen w', tracked (w_slots w')), t)" by (simp add: abs_window_def)
  moreover have "in_window (w_maxSeen w) (tracked (w_slots w))"
    using ok True by (intro tracked_in_window) (simp add: window_ok_def)
  ultimately show ?thesis unfolding leaving_def by (rule spec_observe_out)
qed

end
