(* ===== verification/HubDVR.thy ===== *)
theory HubDVR
  imports GoStd WireControl
begin

section \<open>The DVR rings (\<^verbatim>\<open>hub/dvr.go\<close>, \<^verbatim>\<open>hub/dvr_audio.go\<close>)\<close>

text \<open>
  One bounded window of a broadcast's video, as whole GOPs, and one of its audio, as
  packets; many cursors read them.  Sequence numbers and byte totals are unbounded
  integers: a 64-bit counter that grows by one per append does not wrap in the life of
  a process.  A wake channel is the number of channels made before it, so the channel
  \<open>w\<close> is closed exactly when \<open>w < r_wake r\<close>.

  Both rings implement one contract, \<open>seq_ring\<close>: consecutively numbered entries, of
  which only the oldest ever disappear.  The theory ends with what the video ring shows of
  everything that was ever appended to it (\<open>ring_shows\<close>).
\<close>

record DVROptions =
  o_Window :: duration
  o_MaxBytes :: int

definition DefaultDVRWindow :: duration where "DefaultDVRWindow = 3 * Second"
definition MinDVRBufferMs :: int where "MinDVRBufferMs = 1000"

subsection \<open>The video ring\<close>

record dvrGop =
  g_seq :: int
  g_at :: instant
  g_keyframe :: bytes
  g_records :: "bytes list"
  g_bytes :: int
  g_complete :: bool

record DVRCursor =
  c_gopSeq :: int
  c_recordIdx :: int

definition AtFirstRecord :: "DVRCursor \<Rightarrow> DVRCursor" where
  "AtFirstRecord c = (if c_recordIdx c < 0 then c\<lparr>c_recordIdx := 0\<rparr> else c)"

definition Next :: "DVRCursor \<Rightarrow> DVRCursor" where
  "Next c = c\<lparr>c_recordIdx := c_recordIdx c + 1\<rparr>"

definition NeedsKeyframe :: "DVRCursor \<Rightarrow> bool" where
  "NeedsKeyframe c \<longleftrightarrow> c_recordIdx c < 0"

record DVRRing =
  r_opts :: DVROptions
  r_gops :: "dvrGop list"
  r_nextSeq :: int
  r_bytes :: int
  r_wake :: nat

definition NewDVRRing :: "DVROptions \<Rightarrow> DVRRing" where
  "NewDVRRing opts = \<lparr>r_opts = opts, r_gops = [], r_nextSeq = 0, r_bytes = 0, r_wake = 0\<rparr>"

definition Wait :: "DVRRing \<Rightarrow> nat" where
  "Wait r = r_wake r"

definition wakeLocked :: "DVRRing \<Rightarrow> DVRRing" where
  "wakeLocked r = r\<lparr>r_wake := Suc (r_wake r)\<rparr>"

text \<open>Called only on a ring that holds a GOP.\<close>

definition dropOldestLocked :: "DVRRing \<Rightarrow> DVRRing" where
  "dropOldestLocked r =
     r\<lparr>r_bytes := r_bytes r - g_bytes (hd (r_gops r)), r_gops := tl (r_gops r)\<rparr>"

lemma dropOldestLocked_gops [simp]: "r_gops (dropOldestLocked r) = tl (r_gops r)"
  by (simp add: dropOldestLocked_def)

function evict_age :: "instant \<Rightarrow> DVRRing \<Rightarrow> DVRRing" where
  "evict_age now r =
     (if length (r_gops r) > 1 \<and> time_sub now (g_at (hd (r_gops r))) > o_Window (r_opts r)
      then evict_age now (dropOldestLocked r) else r)"
  by pat_completeness auto

termination by (relation "measure (\<lambda>(_, r). length (r_gops r))") auto

function evict_size :: "DVRRing \<Rightarrow> DVRRing" where
  "evict_size r =
     (if length (r_gops r) > 1 \<and> o_MaxBytes (r_opts r) > 0 \<and> r_bytes r > o_MaxBytes (r_opts r)
      then evict_size (dropOldestLocked r) else r)"
  by pat_completeness auto

termination by (relation "measure (\<lambda>r. length (r_gops r))") auto

declare evict_age.simps [simp del] evict_size.simps [simp del]

definition evictLocked :: "instant \<Rightarrow> DVRRing \<Rightarrow> DVRRing" where
  "evictLocked now r = evict_size (evict_age now r)"

definition complete_last :: "dvrGop list \<Rightarrow> dvrGop list" where
  "complete_last gs = (if length gs > 0 then gs[length gs - 1 := (last gs)\<lparr>g_complete := True\<rparr>] else gs)"

definition AppendKeyframe :: "bytes \<Rightarrow> instant \<Rightarrow> DVRRing \<Rightarrow> DVRRing" where
  "AppendKeyframe msg at r =
     (let r = r\<lparr>r_gops := complete_last (r_gops r)\<rparr>;
          g = \<lparr>g_seq = r_nextSeq r, g_at = at, g_keyframe = msg, g_records = [],
               g_bytes = int (length msg), g_complete = False\<rparr>;
          r = r\<lparr>r_nextSeq := r_nextSeq r + 1\<rparr>;
          r = r\<lparr>r_gops := r_gops r @ [g]\<rparr>;
          r = r\<lparr>r_bytes := r_bytes r + g_bytes g\<rparr>
      in wakeLocked (evictLocked at r))"

definition AppendRecord :: "bytes \<Rightarrow> instant \<Rightarrow> DVRRing \<Rightarrow> DVRRing" where
  "AppendRecord rec at r =
     (let n = length (r_gops r) in
      if n = 0 then r
      else
        let g = r_gops r ! (n - 1);
            g = g\<lparr>g_records := g_records g @ [rec], g_bytes := g_bytes g + int (length rec)\<rparr>;
            r = r\<lparr>r_gops := (r_gops r)[n - 1 := g]\<rparr>;
            r = r\<lparr>r_bytes := r_bytes r + int (length rec)\<rparr>
        in wakeLocked (evictLocked at r))"

definition findLocked :: "DVRRing \<Rightarrow> int \<Rightarrow> dvrGop option" where
  "findLocked r s = find (\<lambda>g. g_seq g = s) (r_gops r)"

definition newestCursorLocked :: "DVRRing \<Rightarrow> DVRCursor" where
  "newestCursorLocked r =
     (if length (r_gops r) = 0 then \<lparr>c_gopSeq = r_nextSeq r, c_recordIdx = - 1\<rparr>
      else \<lparr>c_gopSeq = g_seq (r_gops r ! (length (r_gops r) - 1)), c_recordIdx = - 1\<rparr>)"

definition NewCursor :: "DVRRing \<Rightarrow> DVRCursor" where "NewCursor r = newestCursorLocked r"
definition ResyncCursor :: "DVRRing \<Rightarrow> DVRCursor" where "ResyncCursor r = NewCursor r"

definition Keyframe :: "DVRRing \<Rightarrow> DVRCursor \<Rightarrow> bytes option" where
  "Keyframe r c = (case findLocked r (c_gopSeq c) of None \<Rightarrow> None | Some g \<Rightarrow> Some (g_keyframe g))"

definition Record :: "DVRRing \<Rightarrow> DVRCursor \<Rightarrow> bytes option" where
  "Record r c =
     (case findLocked r (c_gopSeq c) of
        None \<Rightarrow> None
      | Some g \<Rightarrow>
          if c_recordIdx c < 0 \<or> c_recordIdx c \<ge> int (length (g_records g)) then None
          else Some (g_records g ! nat (c_recordIdx c)))"

definition GopComplete :: "DVRRing \<Rightarrow> DVRCursor \<Rightarrow> bool" where
  "GopComplete r c = (case findLocked r (c_gopSeq c) of None \<Rightarrow> False | Some g \<Rightarrow> g_complete g)"

text \<open>The cursor of the following GOP, \<open>None\<close> when there is none yet.\<close>

definition NextGop :: "DVRRing \<Rightarrow> DVRCursor \<Rightarrow> DVRCursor option" where
  "NextGop r c =
     map_option (\<lambda>g. \<lparr>c_gopSeq = g_seq g, c_recordIdx = - 1\<rparr>) (find (\<lambda>g. g_seq g > c_gopSeq c) (r_gops r))"

definition FellOffTail :: "DVRRing \<Rightarrow> DVRCursor \<Rightarrow> bool" where
  "FellOffTail r c = (if length (r_gops r) = 0 then False else c_gopSeq c < g_seq (r_gops r ! 0))"

definition LagMs :: "DVRRing \<Rightarrow> DVRCursor \<Rightarrow> int" where
  "LagMs r c =
     (case findLocked r (c_gopSeq c) of
        None \<Rightarrow> 0
      | Some g \<Rightarrow> Milliseconds (time_sub (g_at (r_gops r ! (length (r_gops r) - 1))) (g_at g)))"

definition OldestGopSeq :: "DVRRing \<Rightarrow> int" where
  "OldestGopSeq r = (if length (r_gops r) = 0 then r_nextSeq r else g_seq (r_gops r ! 0))"

definition GopAt :: "DVRRing \<Rightarrow> DVRCursor \<Rightarrow> instant" where
  "GopAt r c =
     (case findLocked r (c_gopSeq c) of
        Some g \<Rightarrow> g_at g
      | None \<Rightarrow>
          if length (r_gops r) > 0 then g_at (r_gops r ! (length (r_gops r) - 1)) else zero_time)"

function EvictTo :: "int \<Rightarrow> DVRRing \<Rightarrow> DVRRing" where
  "EvictTo s r =
     (if length (r_gops r) > 0 \<and> g_seq (hd (r_gops r)) < s then EvictTo s (dropOldestLocked r) else r)"
  by pat_completeness auto

termination by (relation "measure (\<lambda>(_, r). length (r_gops r))") auto

declare EvictTo.simps [simp del]

subsection \<open>The audio ring\<close>

definition AudioSkewBudget :: duration where "AudioSkewBudget = 500 * Millisecond"

record dvrAudioPacket =
  p_seq :: int
  p_at :: instant
  p_data :: bytes

record DVRAudioRing =
  a_opts :: DVROptions
  a_packets :: "dvrAudioPacket list"
  a_nextSeq :: int
  a_bytes :: int
  a_wake :: nat

definition NewDVRAudioRing :: "DVROptions \<Rightarrow> DVRAudioRing" where
  "NewDVRAudioRing opts = \<lparr>a_opts = opts, a_packets = [], a_nextSeq = 0, a_bytes = 0, a_wake = 0\<rparr>"

function audio_evict :: "instant \<Rightarrow> DVRAudioRing \<Rightarrow> DVRAudioRing" where
  "audio_evict at r =
     (if length (a_packets r) > 1 \<and>
         (time_sub at (p_at (hd (a_packets r))) > o_Window (a_opts r) \<or>
          (o_MaxBytes (a_opts r) > 0 \<and> a_bytes r > o_MaxBytes (a_opts r)))
      then audio_evict at
        (r\<lparr>a_bytes := a_bytes r - int (length (p_data (hd (a_packets r)))), a_packets := tl (a_packets r)\<rparr>)
      else r)"
  by pat_completeness auto

termination by (relation "measure (\<lambda>(_, r). length (a_packets r))") auto

declare audio_evict.simps [simp del]

definition audio_append :: "bytes \<Rightarrow> instant \<Rightarrow> DVRAudioRing \<Rightarrow> DVRAudioRing" where
  "audio_append dgram at r =
     (let r = r\<lparr>a_packets := a_packets r @ [\<lparr>p_seq = a_nextSeq r, p_at = at, p_data = dgram\<rparr>]\<rparr>;
          r = r\<lparr>a_nextSeq := a_nextSeq r + 1\<rparr>;
          r = r\<lparr>a_bytes := a_bytes r + int (length dgram)\<rparr>;
          r = audio_evict at r
      in r\<lparr>a_wake := Suc (a_wake r)\<rparr>)"

definition Oldest :: "DVRAudioRing \<Rightarrow> int" where
  "Oldest r = (if length (a_packets r) = 0 then a_nextSeq r else p_seq (a_packets r ! 0))"

definition Newest :: "DVRAudioRing \<Rightarrow> int" where
  "Newest r = a_nextSeq r"

definition audio_At :: "DVRAudioRing \<Rightarrow> int \<Rightarrow> (bytes \<times> instant) option" where
  "audio_At r s = map_option (\<lambda>p. (p_data p, p_at p)) (find (\<lambda>p. p_seq p = s) (a_packets r))"

definition audio_FellOffTail :: "DVRAudioRing \<Rightarrow> int \<Rightarrow> bool" where
  "audio_FellOffTail r s = (if length (a_packets r) = 0 then False else s < p_seq (a_packets r ! 0))"

definition DueFor :: "instant \<Rightarrow> instant \<Rightarrow> duration \<Rightarrow> bool" where
  "DueFor packetAt videoAt budget \<longleftrightarrow> \<not> packetAt > videoAt + budget"

subsection \<open>Consecutively numbered entries\<close>

definition numbered :: "('e \<Rightarrow> int) \<Rightarrow> int \<Rightarrow> 'e list \<Rightarrow> bool" where
  "numbered sq nxt es \<longleftrightarrow> (\<forall>i < length es. sq (es ! i) = nxt - int (length es) + int i)"

lemma numbered_Nil [simp]: "numbered sq nxt []"
  by (simp add: numbered_def)

lemma numbered_drop: "numbered sq nxt es \<Longrightarrow> numbered sq nxt (drop k es)"
proof -
  assume n: "numbered sq nxt es"
  have "sq (drop k es ! i) = nxt - int (length (drop k es)) + int i" if "i < length (drop k es)" for i
  proof -
    have "k + i < length es" using that by simp
    then have "sq (es ! (k + i)) = nxt - int (length es) + int (k + i)" using n by (simp only: numbered_def)
    then show ?thesis using that by simp
  qed
  then show ?thesis by (simp add: numbered_def)
qed

lemma numbered_snoc: "numbered sq nxt es \<Longrightarrow> sq e = nxt \<Longrightarrow> numbered sq (nxt + 1) (es @ [e])"
  by (auto simp: numbered_def nth_append)

lemma numbered_cong: "map sq es = map sq' fs \<Longrightarrow> numbered sq nxt es = numbered sq' nxt fs"
proof -
  assume m: "map sq es = map sq' fs"
  have len: "length es = length fs" using arg_cong [OF m, of length] by simp
  have "sq (es ! i) = sq' (fs ! i)" if "i < length fs" for i
    using arg_cong [OF m, of "\<lambda>xs. xs ! i"] that len by simp
  then show ?thesis by (simp add: numbered_def len)
qed

lemma numbered_nth:
  "numbered sq nxt es \<Longrightarrow> i < length es \<Longrightarrow> sq (es ! i) = nxt - int (length es) + int i"
  by (simp add: numbered_def)

lemma numbered_find:
  assumes "numbered sq nxt es"
  shows "find (\<lambda>e. sq e = s) es =
    (if nxt - int (length es) \<le> s \<and> s < nxt then Some (es ! nat (s - (nxt - int (length es)))) else None)"
proof (cases "nxt - int (length es) \<le> s \<and> s < nxt")
  case True
  define i where "i = nat (s - (nxt - int (length es)))"
  have i: "i < length es" "int i = s - (nxt - int (length es))" using True by (auto simp: i_def)
  have "find (\<lambda>e. sq e = s) es = Some (es ! i)"
    using assms i by (auto simp: find_Some_iff numbered_def intro!: exI [of _ i])
  then show ?thesis using True by (simp add: i_def)
next
  case False
  have "sq e \<noteq> s" if "e \<in> set es" for e
    using that False assms by (auto simp: in_set_conv_nth numbered_def)
  then show ?thesis using False by (auto simp: find_None_iff)
qed

lemma numbered_find_above:
  assumes "numbered sq nxt es"
  shows "find (\<lambda>e. sq e > s) es =
    (if s + 1 < nxt \<and> es \<noteq> [] then Some (es ! nat (max 0 (s + 1 - (nxt - int (length es))))) else None)"
proof (cases "s + 1 < nxt \<and> es \<noteq> []")
  case True
  define i where "i = nat (max 0 (s + 1 - (nxt - int (length es))))"
  have i: "i < length es" "int i = max 0 (s + 1 - (nxt - int (length es)))"
    using True by (cases es; auto simp: i_def)+
  have "find (\<lambda>e. sq e > s) es = Some (es ! i)"
    using assms i by (auto simp: find_Some_iff numbered_def intro!: exI [of _ i])
  then show ?thesis using True by (simp add: i_def)
next
  case False
  have "\<not> sq e > s" if "e \<in> set es" for e
    using that False assms by (auto simp: in_set_conv_nth numbered_def)
  then show ?thesis using False by (auto simp: find_None_iff)
qed

lemma numbered_hd: "numbered sq nxt es \<Longrightarrow> es \<noteq> [] \<Longrightarrow> sq (hd es) = nxt - int (length es)"
  by (simp add: hd_conv_nth numbered_nth)

text \<open>
  The contract of both rings.  \<open>same\<close> relates an entry to what later appends may make of
  it.  An append loses only entries from the front.
\<close>

locale seq_ring =
  fixes entries :: "'r \<Rightarrow> 'e list"
    and sq :: "'e \<Rightarrow> int"
    and nxt :: "'r \<Rightarrow> int"
    and good :: "'r \<Rightarrow> bool"
    and same :: "'e \<Rightarrow> 'e \<Rightarrow> bool"
    and push :: "'x \<Rightarrow> 'r \<Rightarrow> 'r"
  assumes entries_numbered: "good r \<Longrightarrow> numbered sq (nxt r) (entries r)"
    and push_good: "good r \<Longrightarrow> good (push x r)"
    and push_entries: "good r \<Longrightarrow> \<exists>k new. k \<le> length (entries r) \<and>
      (\<exists>kept. list_all2 same (drop k (entries r)) kept \<and> entries (push x r) = kept @ new) \<and>
      nxt (push x r) = nxt r + int (length new)"
    and same_refl: "same e e"
    and same_trans: "same e e' \<Longrightarrow> same e' e'' \<Longrightarrow> same e e''"
begin

definition entry_at :: "'r \<Rightarrow> int \<Rightarrow> 'e option" where
  "entry_at r s = find (\<lambda>e. sq e = s) (entries r)"

definition fell :: "'r \<Rightarrow> int \<Rightarrow> bool" where
  "fell r s \<longleftrightarrow> entries r \<noteq> [] \<and> s < sq (hd (entries r))"

definition oldest :: "'r \<Rightarrow> int" where
  "oldest r = nxt r - int (length (entries r))"

lemma entry_at_eq:
  "good r \<Longrightarrow> entry_at r s = (if oldest r \<le> s \<and> s < nxt r then Some (entries r ! nat (s - oldest r)) else None)"
  unfolding entry_at_def oldest_def by (rule numbered_find [OF entries_numbered])

lemma fell_iff: "good r \<Longrightarrow> fell r s \<longleftrightarrow> entries r \<noteq> [] \<and> s < oldest r"
  by (auto simp: fell_def oldest_def numbered_hd [OF entries_numbered])

text \<open>A read that finds nothing either fell off the tail or is at the head.\<close>

lemma missing_cases:
  assumes "good r" "entry_at r s = None" "s < nxt r" "entries r \<noteq> []"
  shows "fell r s"
  using assms by (auto simp: entry_at_eq fell_iff split: if_splits)

lemma push_oldest: "good r \<Longrightarrow> oldest r \<le> oldest (push x r) \<and> oldest (push x r) \<le> nxt r"
proof -
  assume "good r"
  then obtain k new kept where "k \<le> length (entries r)" "list_all2 same (drop k (entries r)) kept"
    "entries (push x r) = kept @ new" "nxt (push x r) = nxt r + int (length new)"
    using push_entries by blast
  moreover from this(2) have "length kept = length (entries r) - k" by (simp add: list_all2_conv_all_nth)
  ultimately show ?thesis by (simp add: oldest_def of_nat_diff)
qed

lemma push_entry:
  assumes g: "good r" and e: "entry_at r s = Some e" and o': "oldest (push x r) \<le> s"
  shows "\<exists>e'. entry_at (push x r) s = Some e' \<and> same e e'"
proof -
  obtain k new kept where k: "k \<le> length (entries r)" and kept: "list_all2 same (drop k (entries r)) kept"
    and en: "entries (push x r) = kept @ new" and nx: "nxt (push x r) = nxt r + int (length new)"
    using push_entries [OF g] by blast
  have len: "length kept = length (entries r) - k" using kept by (simp add: list_all2_conv_all_nth)
  have old: "oldest (push x r) = oldest r + int k" using k by (simp add: oldest_def en nx len of_nat_diff)
  from e g have s: "oldest r \<le> s" "s < nxt r" "e = entries r ! nat (s - oldest r)"
    by (simp_all add: entry_at_eq split: if_splits)
  define i where "i = nat (s - oldest (push x r))"
  have i: "nat (s - oldest r) = k + i" using o' old by (simp add: i_def)
  have "k + i < length (entries r)" using s i by (simp add: oldest_def)
  then have il: "i < length kept" using len by simp
  have "same (drop k (entries r) ! i) (kept ! i)"
    using kept by (rule list_all2_nthD) (simp add: il flip: len)
  then have "same e (entries (push x r) ! i)"
    using s(3) i k il by (simp add: en nth_append)
  moreover have "entry_at (push x r) s = Some (entries (push x r) ! i)"
    using o' s(2) nx by (simp add: entry_at_eq [OF push_good [OF g]] i_def)
  ultimately show ?thesis by blast
qed

text \<open>Any number of appends.\<close>

fun pushes :: "'x list \<Rightarrow> 'r \<Rightarrow> 'r" where
  "pushes [] r = r"
| "pushes (x # xs) r = pushes xs (push x r)"

lemma pushes_good: "good r \<Longrightarrow> good (pushes xs r)"
  by (induction xs arbitrary: r) (simp_all add: push_good)

lemma pushes_oldest: "good r \<Longrightarrow> oldest r \<le> oldest (pushes xs r)"
proof (induction xs arbitrary: r)
  case (Cons x xs)
  have "oldest r \<le> oldest (push x r)" using push_oldest [OF Cons.prems] by blast
  also have "\<dots> \<le> oldest (pushes xs (push x r))" by (rule Cons.IH [OF push_good [OF Cons.prems]])
  finally show ?case by simp
qed simp

lemma pushes_entry:
  assumes "good r" "entry_at r s = Some e" "oldest (pushes xs r) \<le> s"
  shows "\<exists>e'. entry_at (pushes xs r) s = Some e' \<and> same e e'"
  using assms
proof (induction xs arbitrary: r e)
  case Nil
  then show ?case by (simp add: same_refl)
next
  case (Cons x xs)
  have g: "good (push x r)" by (rule push_good [OF Cons.prems(1)])
  have "oldest (push x r) \<le> s" using pushes_oldest [OF g, of xs] Cons.prems(3) by simp
  then obtain e1 where e1: "entry_at (push x r) s = Some e1" "same e e1"
    using push_entry [OF Cons.prems(1,2)] by blast
  from Cons.IH [OF g e1(1)] Cons.prems(3) obtain e' where "entry_at (pushes xs (push x r)) s = Some e'" "same e1 e'"
    by auto
  then show ?case using same_trans [OF e1(2)] by auto
qed

end

subsection \<open>What eviction does\<close>

text \<open>Some oldest GOPs are gone, never the newest.\<close>

definition evicted :: "DVRRing \<Rightarrow> DVRRing \<Rightarrow> bool" where
  "evicted r r' \<longleftrightarrow> (\<exists>k. (k = 0 \<or> k < length (r_gops r)) \<and>
     r' = r\<lparr>r_gops := drop k (r_gops r), r_bytes := r_bytes r - sum_list (map g_bytes (take k (r_gops r)))\<rparr>)"

lemma evictedD:
  "evicted r r' \<Longrightarrow> \<exists>k. (k = 0 \<or> k < length (r_gops r)) \<and> r_gops r' = drop k (r_gops r) \<and>
     r_bytes r' = r_bytes r - sum_list (map g_bytes (take k (r_gops r))) \<and>
     r_opts r' = r_opts r \<and> r_nextSeq r' = r_nextSeq r \<and> r_wake r' = r_wake r"
  unfolding evicted_def by (elim exE conjE, rule_tac x = k in exI) simp

lemma sum_list_split: "sum_list (map f xs) = sum_list (map f (take k xs)) + (sum_list (map f (drop k xs)) :: int)"
  by (metis append_take_drop_id map_append sum_list_append)

lemma evicted_refl: "evicted r r"
  by (auto simp: evicted_def intro: exI [of _ 0])

lemma evicted_dropOldest:
  assumes "length (r_gops r) > 1" "evicted (dropOldestLocked r) r'"
  shows "evicted r r'"
proof -
  obtain g gs where gs: "r_gops r = g # gs" "gs \<noteq> []" using assms(1) by (cases "r_gops r") auto
  obtain k where "k = 0 \<or> k < length gs"
    "r' = r\<lparr>r_gops := drop k gs, r_bytes := r_bytes r - g_bytes g - sum_list (map g_bytes (take k gs))\<rparr>"
    using assms(2) gs by (auto simp: evicted_def dropOldestLocked_def)
  with gs show ?thesis by (auto simp: evicted_def intro!: exI [of _ "Suc k"])
qed

lemma evict_age_evicted: "evicted r (evict_age now r)"
proof (induction now r rule: evict_age.induct)
  case (1 now r)
  then show ?case
    by (subst evict_age.simps) (simp add: evicted_refl evicted_dropOldest)
qed

lemma evict_size_evicted: "evicted r (evict_size r)"
proof (induction r rule: evict_size.induct)
  case (1 r)
  then show ?case
    by (subst evict_size.simps) (simp add: evicted_refl evicted_dropOldest)
qed

lemma evicted_trans:
  assumes "evicted r r'" "evicted r' r''"
  shows "evicted r r''"
proof -
  obtain k where k: "k = 0 \<or> k < length (r_gops r)"
    and r': "r' = r\<lparr>r_gops := drop k (r_gops r), r_bytes := r_bytes r - sum_list (map g_bytes (take k (r_gops r)))\<rparr>"
    using assms(1) by (auto simp: evicted_def)
  obtain j where j: "j = 0 \<or> j < length (r_gops r')"
    and r'': "r'' = r'\<lparr>r_gops := drop j (r_gops r'), r_bytes := r_bytes r' - sum_list (map g_bytes (take j (r_gops r')))\<rparr>"
    using assms(2) by (auto simp: evicted_def)
  have "take (k + j) (r_gops r) = take k (r_gops r) @ take j (drop k (r_gops r))" by (rule take_add)
  then have "r'' = r\<lparr>r_gops := drop (k + j) (r_gops r),
      r_bytes := r_bytes r - sum_list (map g_bytes (take (k + j) (r_gops r)))\<rparr>"
    by (simp add: r' r'' add.commute)
  moreover have "k + j = 0 \<or> k + j < length (r_gops r)" using k j by (auto simp: r')
  ultimately show ?thesis unfolding evicted_def by blast
qed

lemma evictLocked_evicted: "evicted r (evictLocked now r)"
  unfolding evictLocked_def by (rule evicted_trans [OF evict_age_evicted evict_size_evicted])

lemma evict_size_bound:
  "length (r_gops (evict_size r)) > 1 \<Longrightarrow> o_MaxBytes (r_opts r) > 0 \<Longrightarrow> r_bytes (evict_size r) \<le> o_MaxBytes (r_opts r)"
proof (induction r rule: evict_size.induct)
  case (1 r)
  show ?case
  proof (cases "length (r_gops r) > 1 \<and> o_MaxBytes (r_opts r) > 0 \<and> r_bytes r > o_MaxBytes (r_opts r)")
    case True
    then have e: "evict_size r = evict_size (dropOldestLocked r)" by (subst evict_size.simps) simp
    have o': "r_opts (dropOldestLocked r) = r_opts r" by (simp add: dropOldestLocked_def)
    from 1(1) [OF True] 1(2,3) show ?thesis unfolding e o' by simp
  next
    case False
    then have e: "evict_size r = r" by (subst evict_size.simps) auto
    from False 1(2,3) show ?thesis unfolding e by linarith
  qed
qed

lemma evict_age_bound:
  "length (r_gops (evict_age now r)) > 1 \<Longrightarrow>
     time_sub now (g_at (hd (r_gops (evict_age now r)))) \<le> o_Window (r_opts r)"
proof (induction now r rule: evict_age.induct)
  case (1 now r)
  show ?case
  proof (cases "length (r_gops r) > 1 \<and> time_sub now (g_at (hd (r_gops r))) > o_Window (r_opts r)")
    case True
    then have e: "evict_age now r = evict_age now (dropOldestLocked r)" by (subst evict_age.simps) simp
    have o': "r_opts (dropOldestLocked r) = r_opts r" by (simp add: dropOldestLocked_def)
    from 1(1) [OF True] 1(2) show ?thesis unfolding e o' by simp
  next
    case False
    then have e: "evict_age now r = r" by (subst evict_age.simps) auto
    from False 1(2) show ?thesis unfolding e by linarith
  qed
qed

text \<open>With GOPs in order of arrival, both bounds hold of a ring of more than one GOP.\<close>

lemma evictLocked_bounds:
  assumes "sorted (map g_at (r_gops r))" "length (r_gops (evictLocked now r)) > 1"
  shows "time_sub now (g_at (hd (r_gops (evictLocked now r)))) \<le> o_Window (r_opts r)"
    and "o_MaxBytes (r_opts r) > 0 \<Longrightarrow> r_bytes (evictLocked now r) \<le> o_MaxBytes (r_opts r)"
proof -
  define r1 where "r1 = evict_age now r"
  obtain k1 where r1: "r_gops r1 = drop k1 (r_gops r)" "r_opts r1 = r_opts r"
    using evictedD [OF evict_age_evicted [of r now]] unfolding r1_def by blast
  obtain k2 where k2: "k2 = 0 \<or> k2 < length (r_gops r1)" "r_gops (evict_size r1) = drop k2 (r_gops r1)"
    using evictedD [OF evict_size_evicted [of r1]] by blast
  have ev: "evictLocked now r = evict_size r1" by (simp add: evictLocked_def r1_def)
  have "sorted (map g_at (r_gops r1))" using assms(1) by (simp add: r1 sorted_wrt_drop flip: drop_map)
  moreover have l: "k2 < length (r_gops r1)" "length (r_gops r1) > 1" using assms(2) k2 by (auto simp: ev)
  moreover from l have "0 < length (r_gops r1)" by linarith
  ultimately have "g_at (r_gops r1 ! 0) \<le> g_at (r_gops r1 ! k2)"
    using sorted_nth_mono [of "map g_at (r_gops r1)" 0 k2] by (simp only: nth_map length_map)
  moreover have "hd (r_gops (evict_size r1)) = r_gops r1 ! k2" using k2(2) l by (simp add: hd_drop_conv_nth)
  moreover have "hd (r_gops r1) = r_gops r1 ! 0" using l by (cases "r_gops r1") simp_all
  ultimately have "time_sub now (g_at (hd (r_gops (evict_size r1)))) \<le> time_sub now (g_at (hd (r_gops r1)))"
    by (intro time_sub_antimono) simp
  then show "time_sub now (g_at (hd (r_gops (evictLocked now r)))) \<le> o_Window (r_opts r)"
    using evict_age_bound [of now r] l by (simp add: ev r1_def)
  show "o_MaxBytes (r_opts r) > 0 \<Longrightarrow> r_bytes (evictLocked now r) \<le> o_MaxBytes (r_opts r)"
    using evict_size_bound [of r1] assms(2) by (simp add: ev r1)
qed

subsection \<open>What the ring shows of the broadcast\<close>

datatype video_op = KeyframeArrives bytes instant | RecordArrives bytes instant

fun video_push :: "video_op \<Rightarrow> DVRRing \<Rightarrow> DVRRing" where
  "video_push (KeyframeArrives msg at) r = AppendKeyframe msg at r"
| "video_push (RecordArrives rec at) r = AppendRecord rec at r"

text \<open>The specification: every GOP ever, with its arrival, keyframe and records.\<close>

type_synonym gop_view = "instant \<times> bytes \<times> bytes list"

definition gop_view :: "dvrGop \<Rightarrow> gop_view" where
  "gop_view g = (g_at g, g_keyframe g, g_records g)"

fun history_push :: "video_op \<Rightarrow> gop_view list \<Rightarrow> gop_view list" where
  "history_push (KeyframeArrives msg at) H = H @ [(at, msg, [])]"
| "history_push (RecordArrives rec at) H =
     (if H = [] then []
      else butlast H @ [(fst (last H), fst (snd (last H)), snd (snd (last H)) @ [rec])])"

definition gop_bytes :: "dvrGop \<Rightarrow> int" where
  "gop_bytes g = int (length (g_keyframe g)) + sum_list (map (int \<circ> length) (g_records g))"

definition ring_ok :: "DVRRing \<Rightarrow> bool" where
  "ring_ok r \<longleftrightarrow>
     numbered g_seq (r_nextSeq r) (r_gops r) \<and>
     (\<forall>g\<in>set (r_gops r). g_bytes g = gop_bytes g) \<and>
     r_bytes r = sum_list (map g_bytes (r_gops r)) \<and>
     (\<forall>i < length (r_gops r). g_complete (r_gops r ! i) \<longleftrightarrow> Suc i < length (r_gops r))"

definition ring_shows :: "DVRRing \<Rightarrow> gop_view list \<Rightarrow> bool" where
  "ring_shows r H \<longleftrightarrow>
     ring_ok r \<and> r_nextSeq r = int (length H) \<and> length (r_gops r) \<le> length H \<and>
     (H \<noteq> [] \<longrightarrow> r_gops r \<noteq> []) \<and> map gop_view (r_gops r) = drop (length H - length (r_gops r)) H"

lemma ring_ok_new [simp]: "ring_ok (NewDVRRing opts)"
  by (simp add: ring_ok_def NewDVRRing_def)

lemma ring_shows_new [simp]: "ring_shows (NewDVRRing opts) []"
  by (simp add: ring_shows_def) (simp add: NewDVRRing_def)

lemma ring_ok_evicted:
  assumes "ring_ok r" "evicted r r'"
  shows "ring_ok r'"
proof -
  obtain k where k: "k = 0 \<or> k < length (r_gops r)"
    and r': "r' = r\<lparr>r_gops := drop k (r_gops r), r_bytes := r_bytes r - sum_list (map g_bytes (take k (r_gops r)))\<rparr>"
    using assms(2) by (auto simp: evicted_def)
  have b: "r_bytes r' = sum_list (map g_bytes (r_gops r'))"
    using assms(1) sum_list_split [of g_bytes "r_gops r" k] by (simp add: ring_ok_def r')
  have "\<forall>g\<in>set (r_gops r'). g_bytes g = gop_bytes g"
    using assms(1) by (auto simp: ring_ok_def r' dest: in_set_dropD)
  moreover have "\<forall>i < length (r_gops r'). g_complete (r_gops r' ! i) \<longleftrightarrow> Suc i < length (r_gops r')"
    using assms(1) by (auto simp: ring_ok_def r' less_diff_conv)
  ultimately show ?thesis
    using assms(1) b by (simp add: ring_ok_def) (simp add: r' numbered_drop)
qed

lemma ring_shows_evicted:
  assumes "ring_shows r H" "evicted r r'"
  shows "ring_shows r' H"
proof -
  obtain k where k: "k = 0 \<or> k < length (r_gops r)"
    and r': "r' = r\<lparr>r_gops := drop k (r_gops r), r_bytes := r_bytes r - sum_list (map g_bytes (take k (r_gops r)))\<rparr>"
    using assms(2) by (auto simp: evicted_def)
  have len: "length H - (length (r_gops r) - k) = k + (length H - length (r_gops r))"
    using assms(1) k by (auto simp: ring_shows_def)
  have "map gop_view (r_gops r') = drop k (map gop_view (r_gops r))" by (simp add: r' drop_map)
  also have "\<dots> = drop (length H - length (r_gops r')) H"
    using assms(1) len by (simp add: ring_shows_def r')
  finally show ?thesis
    using assms k ring_ok_evicted [OF _ assms(2)] by (auto simp: ring_shows_def r')
qed

lemma ring_ok_wake [simp]: "ring_ok (wakeLocked r) = ring_ok r"
  by (simp add: ring_ok_def wakeLocked_def)

lemma ring_shows_wake [simp]: "ring_shows (wakeLocked r) H = ring_shows r H"
  by (simp add: ring_shows_def) (simp add: wakeLocked_def)

text \<open>The two appends before eviction and wake-up.\<close>

definition start_gop :: "bytes \<Rightarrow> instant \<Rightarrow> DVRRing \<Rightarrow> DVRRing" where
  "start_gop msg at r =
     r\<lparr>r_gops := complete_last (r_gops r) @ [\<lparr>g_seq = r_nextSeq r, g_at = at, g_keyframe = msg,
         g_records = [], g_bytes = int (length msg), g_complete = False\<rparr>],
       r_nextSeq := r_nextSeq r + 1, r_bytes := r_bytes r + int (length msg)\<rparr>"

definition grow :: "bytes \<Rightarrow> dvrGop \<Rightarrow> dvrGop" where
  "grow rec g = g\<lparr>g_records := g_records g @ [rec], g_bytes := g_bytes g + int (length rec)\<rparr>"

definition grow_gop :: "bytes \<Rightarrow> DVRRing \<Rightarrow> DVRRing" where
  "grow_gop rec r =
     r\<lparr>r_gops := butlast (r_gops r) @ [grow rec (last (r_gops r))], r_bytes := r_bytes r + int (length rec)\<rparr>"

lemma AppendKeyframe_eq: "AppendKeyframe msg at r = wakeLocked (evictLocked at (start_gop msg at r))"
  unfolding AppendKeyframe_def start_gop_def Let_def by (rule arg_cong [of _ _ "\<lambda>r. wakeLocked (evictLocked at r)"]) simp

lemma AppendRecord_eq:
  "AppendRecord rec at r = (if r_gops r = [] then r else wakeLocked (evictLocked at (grow_gop rec r)))"
  by (cases "r_gops r" rule: rev_cases) (simp_all add: AppendRecord_def grow_gop_def grow_def Let_def)

lemma complete_last_snoc [simp]:
  "complete_last [] = []" "complete_last (gs @ [g]) = gs @ [g\<lparr>g_complete := True\<rparr>]"
  by (simp_all add: complete_last_def)

lemma map_complete_last:
  "(\<And>g. f (g\<lparr>g_complete := True\<rparr>) = f g) \<Longrightarrow> map f (complete_last gs) = map f gs"
  by (cases gs rule: rev_cases) simp_all

lemma length_complete_last [simp]: "length (complete_last gs) = length gs"
  by (simp add: complete_last_def)

lemma ring_ok_start_gop:
  assumes "ring_ok r"
  shows "ring_ok (start_gop msg at r)"
proof -
  have "numbered g_seq (r_nextSeq r) (complete_last (r_gops r))"
    using assms by (simp add: ring_ok_def numbered_cong [OF map_complete_last [of g_seq "r_gops r"]])
  moreover have "g_bytes g = gop_bytes g" if "g \<in> set (complete_last (r_gops r))" for g
    using assms that by (cases "r_gops r" rule: rev_cases) (auto simp: ring_ok_def gop_bytes_def)
  moreover have "g_complete (complete_last (r_gops r) ! i)" if "i < length (r_gops r)" for i
    using assms that
    by (cases "r_gops r" rule: rev_cases) (auto simp: ring_ok_def nth_append less_Suc_eq split: if_splits)
  moreover have "map g_bytes (complete_last (r_gops r)) = map g_bytes (r_gops r)"
    by (rule map_complete_last) simp
  ultimately show ?thesis
    using assms by (auto simp: ring_ok_def start_gop_def gop_bytes_def nth_append numbered_snoc)
qed

lemma ring_shows_start_gop:
  assumes "ring_shows r H"
  shows "ring_shows (start_gop msg at r) (H @ [(at, msg, [])])"
proof -
  have "map gop_view (complete_last (r_gops r)) = map gop_view (r_gops r)"
    by (rule map_complete_last) (simp add: gop_view_def)
  with assms show ?thesis
    by (simp add: ring_shows_def ring_ok_start_gop) (simp add: start_gop_def gop_view_def)
qed

lemma grow_fields [simp]:
  "g_seq (grow rec g) = g_seq g" "g_complete (grow rec g) = g_complete g"
  "g_bytes (grow rec g) = g_bytes g + int (length rec)" "g_at (grow rec g) = g_at g"
  "g_keyframe (grow rec g) = g_keyframe g" "g_records (grow rec g) = g_records g @ [rec]"
  by (simp_all add: grow_def)

lemma ring_ok_grow_gop:
  assumes "ring_ok r" "r_gops r \<noteq> []"
  shows "ring_ok (grow_gop rec r)"
proof -
  obtain gs g where gs: "r_gops r = gs @ [g]" using assms(2) by (cases "r_gops r" rule: rev_cases) auto
  have "numbered g_seq (r_nextSeq r) (gs @ [g]) = numbered g_seq (r_nextSeq r) (gs @ [grow rec g])"
    by (rule numbered_cong) simp
  with assms gs show ?thesis
    by (auto simp: ring_ok_def grow_gop_def gop_bytes_def nth_append split: if_splits)
qed

lemma ring_shows_grow_gop:
  assumes "ring_shows r H" "r_gops r \<noteq> []"
  shows "ring_shows (grow_gop rec r) (butlast H @ [(fst (last H), fst (snd (last H)), snd (snd (last H)) @ [rec])])"
proof -
  obtain gs g where gs: "r_gops r = gs @ [g]" using assms(2) by (cases "r_gops r" rule: rev_cases) auto
  have "H \<noteq> []" using assms gs by (auto simp: ring_shows_def)
  then obtain H' h where H: "H = H' @ [h]" by (cases H rule: rev_cases) auto
  have len: "length gs \<le> length H'" using assms(1) by (simp add: ring_shows_def gs H)
  have "map gop_view gs = drop (length H' - length gs) H'" "h = gop_view g"
    using assms(1) by (simp_all add: ring_shows_def gs H)
  moreover have "ring_ok (grow_gop rec r)"
    using assms by (simp add: ring_shows_def ring_ok_grow_gop)
  ultimately show ?thesis
    using assms(1) len by (simp add: ring_shows_def H) (simp add: grow_gop_def gs gop_view_def)
qed

lemma ring_shows_push:
  assumes "ring_shows r H"
  shows "ring_shows (video_push x r) (history_push x H)"
proof (cases x)
  case (KeyframeArrives msg at)
  then show ?thesis
    using ring_shows_evicted [OF ring_shows_start_gop [OF assms] evictLocked_evicted]
    by (simp add: AppendKeyframe_eq)
next
  case (RecordArrives rec at)
  show ?thesis
  proof (cases "r_gops r = []")
    case True
    with assms have "H = []" by (auto simp: ring_shows_def)
    with assms True RecordArrives show ?thesis by (simp add: AppendRecord_eq)
  next
    case False
    with assms have "H \<noteq> []" by (auto simp: ring_shows_def)
    then show ?thesis
      using False RecordArrives ring_shows_evicted [OF ring_shows_grow_gop [OF assms False] evictLocked_evicted]
      by (simp add: AppendRecord_eq)
  qed
qed

lemma ring_shows_run:
  "ring_shows r H \<Longrightarrow> ring_shows (fold video_push ops r) (fold history_push ops H)"
  by (induction ops arbitrary: r H) (simp_all add: ring_shows_push)

subsection \<open>Reads through a cursor\<close>

lemma ring_shows_find:
  assumes "ring_shows r H"
  shows "findLocked r s =
    (if OldestGopSeq r \<le> s \<and> s < int (length H) then Some (r_gops r ! nat (s - OldestGopSeq r)) else None)"
    and "OldestGopSeq r = int (length H) - int (length (r_gops r))"
    and "OldestGopSeq r \<le> s \<Longrightarrow> s < int (length H) \<Longrightarrow>
      gop_view (r_gops r ! nat (s - OldestGopSeq r)) = H ! nat s"
proof -
  have n: "numbered g_seq (r_nextSeq r) (r_gops r)" and nx: "r_nextSeq r = int (length H)"
    using assms unfolding ring_shows_def ring_ok_def by blast+
  show o': "OldestGopSeq r = int (length H) - int (length (r_gops r))"
    using numbered_nth [OF n, of 0] by (cases "r_gops r") (simp_all add: OldestGopSeq_def nx)
  show "findLocked r s =
    (if OldestGopSeq r \<le> s \<and> s < int (length H) then Some (r_gops r ! nat (s - OldestGopSeq r)) else None)"
    using numbered_find [OF n, of s] by (simp add: findLocked_def o' nx)
  assume s: "OldestGopSeq r \<le> s" "s < int (length H)"
  define i where "i = nat (s - OldestGopSeq r)"
  have i: "i < length (r_gops r)" "(length H - length (r_gops r)) + i = nat s"
    using s assms by (auto simp: i_def o' ring_shows_def)
  have "gop_view (r_gops r ! i) = map gop_view (r_gops r) ! i" using i by simp
  also have "\<dots> = H ! nat s" using assms i by (simp add: ring_shows_def)
  finally show "gop_view (r_gops r ! nat (s - OldestGopSeq r)) = H ! nat s" by (simp add: i_def)
qed

text \<open>What a cursor denotes in the history, while its GOP is retained.\<close>

definition retained :: "DVRRing \<Rightarrow> DVRCursor \<Rightarrow> bool" where
  "retained r c \<longleftrightarrow> OldestGopSeq r \<le> c_gopSeq c \<and> c_gopSeq c < r_nextSeq r"

lemma retained_find:
  assumes "ring_shows r H" "retained r c"
  obtains g where "findLocked r (c_gopSeq c) = Some g" "H ! nat (c_gopSeq c) = gop_view g"
proof -
  have s: "OldestGopSeq r \<le> c_gopSeq c" "c_gopSeq c < int (length H)"
    using assms by (simp_all add: retained_def ring_shows_def)
  show thesis
    using that ring_shows_find(1) [OF assms(1), of "c_gopSeq c"] ring_shows_find(3) [OF assms(1) s] s by simp
qed

lemma not_retained_find: "ring_shows r H \<Longrightarrow> \<not> retained r c \<Longrightarrow> findLocked r (c_gopSeq c) = None"
  using ring_shows_find(1) [of r H "c_gopSeq c"] by (auto simp: retained_def ring_shows_def)

lemma read_keyframe:
  assumes "ring_shows r H"
  shows "Keyframe r c = (if retained r c then Some (fst (snd (H ! nat (c_gopSeq c)))) else None)"
  by (cases "retained r c")
    (auto simp: Keyframe_def not_retained_find [OF assms] gop_view_def elim!: retained_find [OF assms])

lemma read_record:
  assumes "ring_shows r H"
  shows "Record r c =
    (if retained r c \<and> 0 \<le> c_recordIdx c \<and> c_recordIdx c < int (length (snd (snd (H ! nat (c_gopSeq c)))))
     then Some (snd (snd (H ! nat (c_gopSeq c))) ! nat (c_recordIdx c)) else None)"
  by (cases "retained r c")
    (auto simp: Record_def not_retained_find [OF assms] gop_view_def elim!: retained_find [OF assms])

lemma read_complete:
  assumes "ring_shows r H"
  shows "GopComplete r c \<longleftrightarrow> retained r c \<and> c_gopSeq c + 1 < r_nextSeq r"
proof (cases "retained r c")
  case True
  have nx: "r_nextSeq r = int (length H)" using assms by (simp add: ring_shows_def)
  define i where "i = nat (c_gopSeq c - OldestGopSeq r)"
  have o': "OldestGopSeq r = int (length H) - int (length (r_gops r))" by (rule ring_shows_find(2) [OF assms])
  have i: "i < length (r_gops r)" using True by (auto simp: i_def retained_def nx o')
  have "GopComplete r c = g_complete (r_gops r ! i)"
    using True ring_shows_find(1) [OF assms, of "c_gopSeq c"] by (simp add: GopComplete_def retained_def nx i_def)
  also have "\<dots> \<longleftrightarrow> Suc i < length (r_gops r)" using assms i by (simp add: ring_shows_def ring_ok_def)
  also have "\<dots> \<longleftrightarrow> c_gopSeq c + 1 < r_nextSeq r"
    using True unfolding i_def retained_def o' nx by linarith
  finally show ?thesis using True by simp
next
  case False
  then show ?thesis
    using ring_shows_find(1) [OF assms, of "c_gopSeq c"] assms
    by (auto simp: GopComplete_def retained_def ring_shows_def)
qed

lemma read_next:
  assumes "ring_shows r H" "0 \<le> c_gopSeq c"
  shows "NextGop r c =
    (if c_gopSeq c + 1 < r_nextSeq r
     then Some \<lparr>c_gopSeq = max (OldestGopSeq r) (c_gopSeq c + 1), c_recordIdx = - 1\<rparr> else None)"
proof -
  have n: "numbered g_seq (r_nextSeq r) (r_gops r)" and nx: "r_nextSeq r = int (length H)"
    and ne: "H \<noteq> [] \<longrightarrow> r_gops r \<noteq> []"
    using assms unfolding ring_shows_def ring_ok_def by blast+
  have o': "OldestGopSeq r = int (length H) - int (length (r_gops r))" by (rule ring_shows_find(2) [OF assms(1)])
  note above = numbered_find_above [OF n, of "c_gopSeq c", unfolded nx]
  show ?thesis
  proof (cases "c_gopSeq c + 1 < r_nextSeq r")
    case True
    then have g: "r_gops r \<noteq> []" using assms(2) ne by (auto simp: nx)
    define i where "i = nat (max 0 (c_gopSeq c + 1 - OldestGopSeq r))"
    have i: "i < length (r_gops r)" using True g by (cases "r_gops r"; auto simp: i_def o' nx)+
    have "g_seq (r_gops r ! i) = max (OldestGopSeq r) (c_gopSeq c + 1)"
      using numbered_nth [OF n i] by (simp add: i_def o' nx)
    then show ?thesis using True g above by (simp add: NextGop_def i_def o' nx)
  next
    case False
    then show ?thesis using above by (simp add: NextGop_def nx)
  qed
qed

lemma read_fell:
  assumes "ring_shows r H"
  shows "FellOffTail r c \<longleftrightarrow> r_gops r \<noteq> [] \<and> c_gopSeq c < OldestGopSeq r"
  by (auto simp: FellOffTail_def OldestGopSeq_def)

subsection \<open>Both rings keep the contract\<close>

definition same_gop :: "dvrGop \<Rightarrow> dvrGop \<Rightarrow> bool" where
  "same_gop g g' \<longleftrightarrow> g_seq g' = g_seq g \<and> g_at g' = g_at g \<and> g_keyframe g' = g_keyframe g \<and>
     take (length (g_records g)) (g_records g') = g_records g"

lemma same_gop_refl [simp]: "same_gop g g"
  by (simp add: same_gop_def)

lemma same_gop_trans: "same_gop g g' \<Longrightarrow> same_gop g' g'' \<Longrightarrow> same_gop g g''"
  unfolding same_gop_def
  by (metis (no_types, lifting) min.absorb1 take_take length_take linorder_le_cases min.absorb2 take_all)

lemma same_complete_last: "list_all2 same_gop gs (complete_last gs)"
  by (cases gs rule: rev_cases) (simp_all add: list_all2_appendI list_all2_refl same_gop_def)

lemma same_grow: "list_all2 same_gop (gs @ [g]) (gs @ [grow rec g])"
  by (intro list_all2_appendI list_all2_refl) (simp_all add: same_gop_def)

lemma video_push_entries:
  assumes "ring_ok r"
  shows "\<exists>k new. k \<le> length (r_gops r) \<and>
    (\<exists>kept. list_all2 same_gop (drop k (r_gops r)) kept \<and> r_gops (video_push x r) = kept @ new) \<and>
    r_nextSeq (video_push x r) = r_nextSeq r + int (length new)"
proof (cases x)
  case (KeyframeArrives msg at)
  define r1 where "r1 = start_gop msg at r"
  obtain k where k: "k = 0 \<or> k < length (r_gops r1)" "r_gops (evictLocked at r1) = drop k (r_gops r1)"
    "r_nextSeq (evictLocked at r1) = r_nextSeq r1"
    using evictedD [OF evictLocked_evicted [of r1 at]] by blast
  obtain g where g: "r_gops r1 = complete_last (r_gops r) @ [g]" "r_nextSeq r1 = r_nextSeq r + 1"
    by (simp add: r1_def start_gop_def)
  have kl: "k \<le> length (r_gops r)" using k(1) by (auto simp: g)
  have "r_gops (video_push x r) = drop k (complete_last (r_gops r)) @ [g]"
    using k(2) kl by (simp add: KeyframeArrives AppendKeyframe_eq r1_def [symmetric] g wakeLocked_def)
  moreover have "r_nextSeq (video_push x r) = r_nextSeq r + int (length [g])"
    using k(3) by (simp add: KeyframeArrives AppendKeyframe_eq r1_def [symmetric] g wakeLocked_def)
  moreover have "list_all2 same_gop (drop k (r_gops r)) (drop k (complete_last (r_gops r)))"
    by (rule list_all2_dropI [OF same_complete_last])
  ultimately show ?thesis using kl by blast
next
  case (RecordArrives rec at)
  show ?thesis
  proof (cases "r_gops r" rule: rev_cases)
    case Nil
    then show ?thesis
      by (intro exI [of _ 0] exI [of _ "[]"]) (simp add: RecordArrives AppendRecord_eq)
  next
    case (snoc gs g)
    define r1 where "r1 = grow_gop rec r"
    obtain k where k: "k = 0 \<or> k < length (r_gops r1)" "r_gops (evictLocked at r1) = drop k (r_gops r1)"
      "r_nextSeq (evictLocked at r1) = r_nextSeq r1"
      using evictedD [OF evictLocked_evicted [of r1 at]] by blast
    have r1: "r_gops r1 = gs @ [grow rec g]" "r_nextSeq r1 = r_nextSeq r" by (simp_all add: r1_def grow_gop_def snoc)
    have "r_gops (video_push x r) = drop k (gs @ [grow rec g]) @ []"
      "r_nextSeq (video_push x r) = r_nextSeq r + int (length ([] :: dvrGop list))"
      using k(2,3) by (simp_all add: RecordArrives AppendRecord_eq snoc r1_def [symmetric] r1 wakeLocked_def)
    moreover have "list_all2 same_gop (drop k (r_gops r)) (drop k (gs @ [grow rec g]))"
      unfolding snoc by (rule list_all2_dropI [OF same_grow])
    moreover have "k \<le> length (r_gops r)" using k(1) by (auto simp: snoc r1)
    ultimately show ?thesis by blast
  qed
qed

lemma ring_ok_push:
  assumes "ring_ok r"
  shows "ring_ok (video_push x r)"
proof (cases x)
  case (KeyframeArrives msg at)
  then show ?thesis
    using ring_ok_evicted [OF ring_ok_start_gop [OF assms] evictLocked_evicted] by (simp add: AppendKeyframe_eq)
next
  case (RecordArrives rec at)
  then show ?thesis
    using assms ring_ok_evicted [OF ring_ok_grow_gop [OF assms] evictLocked_evicted] by (simp add: AppendRecord_eq)
qed

interpretation video_ring: seq_ring r_gops g_seq r_nextSeq ring_ok same_gop video_push
  by unfold_locales
    (simp add: ring_ok_def, erule ring_ok_push, erule video_push_entries, simp, erule same_gop_trans, assumption)

definition audio_ok :: "DVRAudioRing \<Rightarrow> bool" where
  "audio_ok r \<longleftrightarrow>
     numbered p_seq (a_nextSeq r) (a_packets r) \<and>
     a_bytes r = sum_list (map (\<lambda>p. int (length (p_data p))) (a_packets r))"

lemma audio_evict_drops:
  assumes "audio_ok r"
  shows "audio_ok (audio_evict at r) \<and> a_nextSeq (audio_evict at r) = a_nextSeq r \<and>
    (\<exists>k. (k = 0 \<or> k < length (a_packets r)) \<and> a_packets (audio_evict at r) = drop k (a_packets r))"
  using assms
proof (induction at r rule: audio_evict.induct)
  case (1 at r)
  let ?c = "length (a_packets r) > 1 \<and> (time_sub at (p_at (hd (a_packets r))) > o_Window (a_opts r) \<or>
    (o_MaxBytes (a_opts r) > 0 \<and> a_bytes r > o_MaxBytes (a_opts r)))"
  let ?r = "r\<lparr>a_bytes := a_bytes r - int (length (p_data (hd (a_packets r)))), a_packets := tl (a_packets r)\<rparr>"
  show ?case
  proof (cases ?c)
    case True
    then have e: "audio_evict at r = audio_evict at ?r" by (subst audio_evict.simps) simp
    obtain p ps where ps: "a_packets r = p # ps" "ps \<noteq> []" using True by (cases "a_packets r") auto
    have "numbered p_seq (a_nextSeq r) ps"
      using numbered_drop [of p_seq "a_nextSeq r" "a_packets r" 1] 1(2) by (simp add: audio_ok_def ps)
    then have "audio_ok ?r" using 1(2) by (simp add: audio_ok_def ps)
    with 1(1) [OF True] obtain k where "k = 0 \<or> k < length ps" "a_packets (audio_evict at ?r) = drop k ps"
      "audio_ok (audio_evict at ?r)" "a_nextSeq (audio_evict at ?r) = a_nextSeq r"
      by (auto simp: ps)
    then show ?thesis unfolding e using ps by (auto intro!: exI [of _ "Suc k"])
  next
    case False
    then have "audio_evict at r = r" by (subst audio_evict.simps) auto
    with 1(2) show ?thesis by (auto intro: exI [of _ 0])
  qed
qed

lemma audio_append_entries:
  assumes "audio_ok r"
  shows "audio_ok (audio_append d at r)"
    and "a_nextSeq (audio_append d at r) = a_nextSeq r + 1"
    and "\<exists>k \<le> length (a_packets r). a_packets (audio_append d at r) =
      drop k (a_packets r) @ [\<lparr>p_seq = a_nextSeq r, p_at = at, p_data = d\<rparr>]"
proof -
  define r1 where "r1 = r\<lparr>a_packets := a_packets r @ [\<lparr>p_seq = a_nextSeq r, p_at = at, p_data = d\<rparr>],
    a_nextSeq := a_nextSeq r + 1, a_bytes := a_bytes r + int (length d)\<rparr>"
  have e: "audio_append d at r = (audio_evict at r1)\<lparr>a_wake := Suc (a_wake (audio_evict at r1))\<rparr>"
    by (simp add: audio_append_def r1_def Let_def)
  have "audio_ok r1" using assms by (simp add: audio_ok_def r1_def numbered_snoc)
  note ev = audio_evict_drops [OF this, of at]
  from ev obtain k where k0: "k = 0 \<or> k < length (a_packets r1)" "a_packets (audio_evict at r1) = drop k (a_packets r1)"
    by blast
  have k: "audio_ok (audio_evict at r1)" "a_nextSeq (audio_evict at r1) = a_nextSeq r + 1"
    "k \<le> length (a_packets r)" "a_packets (audio_evict at r1) = drop k (a_packets r1)"
    using ev k0 by (auto simp: r1_def)
  show "audio_ok (audio_append d at r)" "a_nextSeq (audio_append d at r) = a_nextSeq r + 1"
    using k by (simp_all add: e audio_ok_def)
  show "\<exists>k \<le> length (a_packets r). a_packets (audio_append d at r) =
      drop k (a_packets r) @ [\<lparr>p_seq = a_nextSeq r, p_at = at, p_data = d\<rparr>]"
    using k(3,4) by (auto simp: e r1_def intro!: exI [of _ k])
qed

lemma audio_push_entries:
  assumes "audio_ok r"
  shows "\<exists>k new. k \<le> length (a_packets r) \<and>
    (\<exists>kept. list_all2 (=) (drop k (a_packets r)) kept \<and> a_packets ((case x of (d, at) \<Rightarrow> audio_append d at) r) = kept @ new) \<and>
    a_nextSeq ((case x of (d, at) \<Rightarrow> audio_append d at) r) = a_nextSeq r + int (length new)"
proof (cases x)
  case (Pair d at)
  with audio_append_entries(2,3) [OF assms, of d at] show ?thesis
    by (auto simp: list.rel_eq)
qed

interpretation audio_ring: seq_ring a_packets p_seq a_nextSeq audio_ok "(=)" "\<lambda>x. case x of (d, at) \<Rightarrow> audio_append d at"
  by unfold_locales (simp add: audio_ok_def, simp add: audio_append_entries(1) split: prod.split,
    erule audio_push_entries, simp, simp)

text \<open>The read operations of the code are those of the contract.\<close>

lemma video_ring_ops:
  "findLocked r s = video_ring.entry_at r s"
  "FellOffTail r c = video_ring.fell r (c_gopSeq c)"
  by (auto simp: findLocked_def video_ring.entry_at_def FellOffTail_def video_ring.fell_def hd_conv_nth)

lemma audio_ring_ops:
  "audio_At r s = map_option (\<lambda>p. (p_data p, p_at p)) (audio_ring.entry_at r s)"
  "audio_FellOffTail r s = audio_ring.fell r s"
  by (auto simp: audio_At_def audio_ring.entry_at_def audio_FellOffTail_def audio_ring.fell_def hd_conv_nth)

subsection \<open>Negotiating the delivery mode\<close>

definition NegotiateDelivery :: "bool \<Rightarrow> bytes \<Rightarrow> duration \<Rightarrow> DeliveryMode \<times> int" where
  "NegotiateDelivery reliable raw window =
     (if \<not> reliable then (DeliveryDatagrams, 0)
      else case Atoi (TrimSpace raw) of
        None \<Rightarrow> (DeliveryReliable, 0)
      | Some ms \<Rightarrow>
          if ms \<le> 0 then (DeliveryReliable, 0)
          else if ms < MinDVRBufferMs then (DeliveryReliable, 0)
          else
            let window = (if window \<le> 0 then DefaultDVRWindow else window);
                mx = go_quot window Millisecond;
                ms = (if ms > mx then mx else ms)
            in if ms < MinDVRBufferMs then (DeliveryReliable, 0) else (DeliveryDVR, ms))"

text \<open>A granted buffer is at least the minimum and at most what the ring holds.\<close>

lemma NegotiateDelivery_dvr:
  assumes "NegotiateDelivery reliable raw window = (DeliveryDVR, ms)"
  shows "reliable" "MinDVRBufferMs \<le> ms"
    and "ms * Millisecond \<le> (if window \<le> 0 then DefaultDVRWindow else window)"
proof -
  have d: "DeliveryDVR \<noteq> DeliveryReliable" "DeliveryDVR \<noteq> DeliveryDatagrams"
    by (simp_all add: DeliveryDVR_def DeliveryReliable_def DeliveryDatagrams_def)
  define w where "w = (if window \<le> 0 then DefaultDVRWindow else window)"
  have w: "0 < w" by (simp add: w_def DefaultDVRWindow_def Second_def)
  have r: "reliable" "MinDVRBufferMs \<le> ms" "ms \<le> go_quot w Millisecond"
    using assms d by (auto simp: NegotiateDelivery_def Let_def w_def split: if_splits option.splits)
  show "reliable" "MinDVRBufferMs \<le> ms" by (rule r)+
  have "ms * Millisecond \<le> (w div Millisecond) * Millisecond"
    using r(3) w by (simp add: go_quot_nonneg Millisecond_def)
  also have "\<dots> \<le> w" using w by (simp add: Millisecond_def)
  finally show "ms * Millisecond \<le> (if window \<le> 0 then DefaultDVRWindow else window)" by (simp add: w_def)
qed

subsection \<open>The bounds along a run\<close>

fun op_time :: "video_op \<Rightarrow> instant" where
  "op_time (KeyframeArrives msg at) = at"
| "op_time (RecordArrives rec at) = at"

definition in_order :: "instant \<Rightarrow> DVRRing \<Rightarrow> bool" where
  "in_order t r \<longleftrightarrow> sorted (map g_at (r_gops r)) \<and> (\<forall>g\<in>set (r_gops r). g_at g \<le> t)"

definition within_bounds :: "instant \<Rightarrow> DVRRing \<Rightarrow> bool" where
  "within_bounds t r \<longleftrightarrow>
     length (r_gops r) \<le> 1 \<or>
     time_sub t (g_at (hd (r_gops r))) \<le> o_Window (r_opts r) \<and>
     (o_MaxBytes (r_opts r) > 0 \<longrightarrow> r_bytes r \<le> o_MaxBytes (r_opts r))"

lemma in_order_evictLocked:
  assumes "in_order t r"
  shows "in_order t (evictLocked t r) \<and> within_bounds t (evictLocked t r) \<and> r_opts (evictLocked t r) = r_opts r"
proof -
  obtain k where k: "r_gops (evictLocked t r) = drop k (r_gops r)" "r_opts (evictLocked t r) = r_opts r"
    using evictedD [OF evictLocked_evicted [of r t]] by blast
  have s: "sorted (map g_at (r_gops r))" using assms by (simp add: in_order_def)
  have "sorted (map g_at (drop k (r_gops r)))" using s by (simp add: sorted_wrt_drop flip: drop_map)
  moreover have "g_at g \<le> t" if "g \<in> set (drop k (r_gops r))" for g
    using assms in_set_dropD [OF that] by (simp add: in_order_def)
  ultimately have "in_order t (evictLocked t r)" by (simp add: in_order_def k)
  moreover have "within_bounds t (evictLocked t r)"
    using evictLocked_bounds [OF s, of t] by (auto simp: within_bounds_def k(2) not_le)
  ultimately show ?thesis using k by simp
qed

lemma in_order_start_gop: "in_order t r \<Longrightarrow> t \<le> at \<Longrightarrow> in_order at (start_gop msg at r)"
proof -
  assume a: "in_order t r" "t \<le> at"
  have m: "map g_at (complete_last (r_gops r)) = map g_at (r_gops r)" by (rule map_complete_last) simp
  then have "g_at ` set (complete_last (r_gops r)) = g_at ` set (r_gops r)" by (metis set_map)
  then have img: "g_at g \<in> g_at ` set (r_gops r)" if "g \<in> set (complete_last (r_gops r))" for g
    using that by blast
  have "g_at g \<le> at" if "g \<in> set (complete_last (r_gops r))" for g
  proof -
    from img [OF that] obtain g' where "g' \<in> set (r_gops r)" "g_at g = g_at g'" by blast
    with a show ?thesis by (auto simp: in_order_def intro: order_trans)
  qed
  with a m show ?thesis by (auto simp: in_order_def start_gop_def sorted_append)
qed

lemma in_order_grow_gop: "in_order t r \<Longrightarrow> t \<le> at \<Longrightarrow> r_gops r \<noteq> [] \<Longrightarrow> in_order at (grow_gop rec r)"
  by (cases "r_gops r" rule: rev_cases) (fastforce simp: in_order_def grow_gop_def)+

lemma in_order_wake [simp]:
  "in_order t (wakeLocked r) = in_order t r" "within_bounds t (wakeLocked r) = within_bounds t r"
  "r_opts (wakeLocked r) = r_opts r"
  by (simp_all add: in_order_def within_bounds_def wakeLocked_def)

lemma push_within_bounds:
  assumes "in_order t r" "t \<le> op_time x"
  shows "in_order (op_time x) (video_push x r) \<and> within_bounds (op_time x) (video_push x r)"
proof (cases x)
  case (KeyframeArrives msg at)
  then show ?thesis
    using in_order_evictLocked [OF in_order_start_gop [OF assms(1), of at msg]] assms(2)
    by (simp add: AppendKeyframe_eq)
next
  case (RecordArrives rec at)
  show ?thesis
  proof (cases "r_gops r = []")
    case True
    then show ?thesis using RecordArrives by (simp add: AppendRecord_eq in_order_def within_bounds_def)
  next
    case False
    then show ?thesis
      using RecordArrives in_order_evictLocked [OF in_order_grow_gop [OF assms(1), of at rec]] assms(2)
      by (simp add: AppendRecord_eq)
  qed
qed

lemma run_within_bounds:
  assumes "sorted (map op_time (ops @ [x]))" 
  shows "in_order (op_time x) (fold video_push (ops @ [x]) (NewDVRRing opts)) \<and>
    within_bounds (op_time x) (fold video_push (ops @ [x]) (NewDVRRing opts))"
  using assms
proof (induction ops arbitrary: x rule: rev_induct)
  case Nil
  show ?case
    using push_within_bounds [of "op_time x" "NewDVRRing opts" x] by (simp add: in_order_def NewDVRRing_def)
next
  case (snoc y ops)
  from snoc.prems have "sorted (map op_time (ops @ [y]))" "op_time y \<le> op_time x" by (simp_all add: sorted_append)
  with snoc.IH [of y] push_within_bounds [of "op_time y" _ x] show ?case by simp
qed

lemma ring_keeps_newest:
  "r_gops (AppendKeyframe msg at r) \<noteq> [] \<and> g_keyframe (last (r_gops (AppendKeyframe msg at r))) = msg"
proof -
  obtain k where k: "k = 0 \<or> k < length (r_gops (start_gop msg at r))"
    "r_gops (evictLocked at (start_gop msg at r)) = drop k (r_gops (start_gop msg at r))"
    using evictedD [OF evictLocked_evicted] by blast
  then have "k < length (r_gops (start_gop msg at r))" by (auto simp: start_gop_def)
  with k(2) show ?thesis
    by (simp add: AppendKeyframe_eq wakeLocked_def) (simp add: start_gop_def)
qed
end
