(* ===== verification/HubStripe.thy ===== *)
theory HubStripe
  imports GoStd WireMedia WireSession ParityCode SHA256
begin

section \<open>Striped delivery and parity negotiation (\<^verbatim>\<open>hub/stripe.go\<close>, \<^verbatim>\<open>hub/parity.go\<close>)\<close>

text \<open>
  What a viewer may ask for in its subscribe query and how the relay resolves it, and
  the classification that the per-subscriber filters of the fan-out rest on: whether a
  datagram is a delta (a video chunk or a parity symbol) and which stripe ordinal it has.
\<close>

subsection \<open>Parity negotiation\<close>

definition NegotiateParity :: "bytes \<Rightarrow> int \<Rightarrow> int \<times> int" where
  "NegotiateParity param fleetDefault =
     (let requested =
            (if param \<noteq> [] then
               (case Atoi param of
                  Some v \<Rightarrow> if v \<ge> 0 \<and> v \<le> int MaxParitySymbols then v else fleetDefault
                | None \<Rightarrow> fleetDefault)
             else fleetDefault);
          served = requested;
          served = (if served > fleetDefault then fleetDefault else served);
          served = (if served < 0 then 0 else served)
      in (requested, served))"

definition isParityDatagram :: "bytes \<Rightarrow> bool" where
  "isParityDatagram dgram = (case PeekType dgram of Inr (_, t) \<Rightarrow> t = TypeParityChunk | Inl _ \<Rightarrow> False)"

definition isCarrierMediaDatagram :: "bytes \<Rightarrow> bool" where
  "isCarrierMediaDatagram dgram =
     (case PeekType dgram of Inr (_, t) \<Rightarrow> t = TypeVideoChunk \<or> t = TypeParityChunk | Inl _ \<Rightarrow> False)"

definition isVideoChunkDatagram :: "bytes \<Rightarrow> bool" where
  "isVideoChunkDatagram dgram = (case PeekType dgram of Inr (_, t) \<Rightarrow> t = TypeVideoChunk | Inl _ \<Rightarrow> False)"

definition isAudioDatagram :: "bytes \<Rightarrow> bool" where
  "isAudioDatagram dgram =
     (case PeekType dgram of Inr (_, t) \<Rightarrow> t = TypeAudioFrame \<or> t = TypeAudioConfig | Inl _ \<Rightarrow> False)"

definition parityIndexOf :: "bytes \<Rightarrow> int" where
  "parityIndexOf dgram =
     (case ParseParityChunk dgram of Inr (h, _) \<Rightarrow> int (unat (pc_ParityIndex h)) | Inl _ \<Rightarrow> - 1)"

definition parityIndexIfParity :: "bytes \<Rightarrow> int" where
  "parityIndexIfParity dgram = (if \<not> isParityDatagram dgram then - 1 else parityIndexOf dgram)"

subsection \<open>Stripe negotiation\<close>

definition StripeStateTTL :: int where "StripeStateTTL = 5 * 10 ^ 9"
definition DefaultStripeLegLease :: int where "DefaultStripeLegLease = 20 * 10 ^ 9"
definition ownerTokenLen :: nat where "ownerTokenLen = 16"

definition ValidOwnerToken :: "bytes \<Rightarrow> bool" where
  "ValidOwnerToken s =
     (if length s \<noteq> ownerTokenLen then False
      else list_all (\<lambda>c. \<not> ((c < 0x30 \<or> c > 0x39) \<and> (c < 0x61 \<or> c > 0x66))) s)"

definition stripeOwnerDomain :: bytes where
  "stripeOwnerDomain = ascii ''stripe-owner'' @ [0]"

definition stripeOwnerKey :: "bytes \<Rightarrow> bytes \<Rightarrow> bytes" where
  "stripeOwnerKey statsKey owner = hex_encode (take 6 (hmac_sha256 statsKey (stripeOwnerDomain @ owner)))"

definition ObfuscateID :: "bytes \<Rightarrow> bytes \<Rightarrow> bytes" where
  "ObfuscateID statsKey i = hex_encode (take 6 (hmac_sha256 statsKey i))"

datatype stripe_error = ErrStripeRejected

record StripeLeg =
  sl_N :: int
  sl_Member :: int
  sl_Owner :: bytes

text \<open>\<open>Inr None\<close> is an ordinary viewer, \<open>Inr (Some leg)\<close> a leg.\<close>

definition NegotiateStripe ::
  "bytes \<Rightarrow> bytes \<Rightarrow> bytes \<Rightarrow> bool \<Rightarrow> bool \<Rightarrow> stripe_error + StripeLeg option" where
  "NegotiateStripe stripeParam legParam ownerParam enabled reliable =
     (if stripeParam = [] \<and> legParam = [] then Inr None
      else if stripeParam = [] \<or> legParam = [] then Inl ErrStripeRejected
      else if \<not> enabled then Inl ErrStripeRejected
      else if reliable then Inl ErrStripeRejected
      else if \<not> ValidOwnerToken ownerParam then Inl ErrStripeRejected
      else case Atoi stripeParam of
        None \<Rightarrow> Inl ErrStripeRejected
      | Some n \<Rightarrow>
          if n < 1 \<or> n > int (unat MaxStripeLegs) then Inl ErrStripeRejected
          else case Atoi legParam of
            None \<Rightarrow> Inl ErrStripeRejected
          | Some member \<Rightarrow>
              if member < 0 \<or> member \<ge> n then Inl ErrStripeRejected
              else Inr (Some \<lparr>sl_N = n, sl_Member = member, sl_Owner = ownerParam\<rparr>))"

text \<open>\<open>None\<close>: not a delta datagram.\<close>

definition deltaOrdinal :: "bytes \<Rightarrow> u32 option" where
  "deltaOrdinal dgram =
     (case PeekType dgram of
        Inl _ \<Rightarrow> None
      | Inr (_, t) \<Rightarrow>
          if t = TypeVideoChunk then
            (case ParseVideoChunk dgram of
               Inl _ \<Rightarrow> None
             | Inr (h, _) \<Rightarrow> Some (StripeOrdinal (vc_ChunkIndex h) (vc_ChunkCount h) (- 1)))
          else if t = TypeParityChunk then
            (case ParseParityChunk dgram of
               Inl _ \<Rightarrow> None
             | Inr (h, _) \<Rightarrow> Some (StripeOrdinal 0 (pc_ChunkCount h) (int (unat (pc_ParityIndex h)))))
          else None)"

subsection \<open>What negotiation guarantees\<close>

lemma NegotiateParity_served:
  assumes "NegotiateParity param fleetDefault = (requested, served)"
  shows "0 \<le> served" "served \<le> max 0 fleetDefault" "served \<le> max 0 requested"
    and "served = max 0 (min requested fleetDefault)"
  using assms by (auto simp: NegotiateParity_def Let_def split: if_splits option.splits)

lemma NegotiateStripe_leg:
  assumes "NegotiateStripe sp lp op en rel = Inr (Some leg)"
  shows "en" "\<not> rel" "ValidOwnerToken (sl_Owner leg)" "sl_Owner leg = op"
    and "1 \<le> sl_N leg" "sl_N leg \<le> int (unat MaxStripeLegs)" "0 \<le> sl_Member leg" "sl_Member leg < sl_N leg"
  using assms by (auto simp: NegotiateStripe_def split: if_splits option.splits)

lemma NegotiateStripe_viewer:
  "NegotiateStripe sp lp op en rel = Inr None \<longleftrightarrow> sp = [] \<and> lp = []"
  by (auto simp: NegotiateStripe_def split: option.splits)

text \<open>The dial parameters a viewer sends for leg \<open>j\<close> of \<open>n\<close> are accepted.\<close>

definition decimal_digit :: "nat \<Rightarrow> bytes" where
  "decimal_digit n = [0x30 + of_nat n]"

lemma Atoi_digit: "n < 10 \<Longrightarrow> Atoi (decimal_digit n) = Some (int n)"
proof -
  assume "n < 10"
  then have "n \<in> {0, 1, 2, 3, 4, 5, 6, 7, 8, 9}" by auto
  then show ?thesis
    by (elim insertE emptyE)
      (simp_all add: decimal_digit_def Atoi_def HasPrefix_def is_digit_def decimal_value_def Let_def)
qed

lemma NegotiateStripe_accepts:
  assumes "ValidOwnerToken op" "1 \<le> n" "n \<le> unat MaxStripeLegs" "j < n"
  shows "NegotiateStripe (decimal_digit n) (decimal_digit j) op True False
    = Inr (Some \<lparr>sl_N = int n, sl_Member = int j, sl_Owner = op\<rparr>)"
proof -
  have "n < 10" "j < 10" using assms by (simp_all add: MaxStripeLegs_def)
  then show ?thesis
    using assms Atoi_digit by (simp add: NegotiateStripe_def MaxStripeLegs_def) (simp add: decimal_digit_def)
qed

subsection \<open>Delta datagrams and their ordinals\<close>

lemma PeekType_prefix: "PeekType (v # t # r) = Inr (v, t)"
  by (simp add: PeekType_def)

lemma deltaOrdinal_video:
  assumes "ParseVideoChunk dgram = Inr (h, payload)"
  shows "deltaOrdinal dgram = Some (ucast (vc_ChunkIndex h))"
proof -
  obtain r where "dgram = Version # TypeVideoChunk # r" using VideoChunk.dec_prefix [OF assms] by blast
  then show ?thesis using assms by (simp add: deltaOrdinal_def PeekType_prefix StripeOrdinal_def)
qed

lemma deltaOrdinal_parity:
  assumes "ParseParityChunk dgram = Inr (h, payload)"
  shows "deltaOrdinal dgram = Some (ucast (pc_ChunkCount h) + word_of_int (int (unat (pc_ParityIndex h))))"
proof -
  obtain r where "dgram = Version # TypeParityChunk # r" using ParityChunk.dec_prefix [OF assms] by blast
  then show ?thesis
    using assms by (simp add: deltaOrdinal_def PeekType_prefix StripeOrdinal_def Type_defs)
qed

lemma deltaOrdinal_Some_iff:
  "deltaOrdinal dgram \<noteq> None \<longleftrightarrow> is_ok (ParseVideoChunk dgram) \<or> is_ok (ParseParityChunk dgram)"
proof
  assume "deltaOrdinal dgram \<noteq> None"
  then show "is_ok (ParseVideoChunk dgram) \<or> is_ok (ParseParityChunk dgram)"
    by (auto simp: deltaOrdinal_def split: sum.splits prod.splits if_splits)
next
  assume "is_ok (ParseVideoChunk dgram) \<or> is_ok (ParseParityChunk dgram)"
  then show "deltaOrdinal dgram \<noteq> None"
    by (cases "ParseVideoChunk dgram"; cases "ParseParityChunk dgram")
      (auto dest: deltaOrdinal_video deltaOrdinal_parity)
qed

text \<open>
  The share of leg \<open>j\<close> among \<open>n\<close>, and its exhaustiveness: every ordinal belongs to
  exactly one leg.
\<close>

definition leg_wants :: "byte \<Rightarrow> byte \<Rightarrow> u32 \<Rightarrow> bool" where
  "leg_wants stripeN stripeMember ord \<longleftrightarrow> ord mod ucast stripeN = ucast stripeMember"

lemma unat_ucast_byte_u32: "unat (ucast (b :: byte) :: u32) = unat b"
proof -
  have "unat b < 2 ^ 32" by (rule less_trans [OF unat_byte_less]) simp
  then have "take_bit 32 (unat b) = unat b" by (rule take_bit_nat_eq_self)
  then show ?thesis by (simp add: unsigned_ucast_eq)
qed

lemma leg_wants_unat:
  "0 < n \<Longrightarrow> leg_wants n j ord \<longleftrightarrow> unat ord mod unat n = unat j"
  by (simp add: leg_wants_def word_unat_eq_iff unat_mod_distrib unat_ucast_byte_u32)

lemma one_leg_wants:
  assumes "0 < n"
  shows "\<exists>!j. j < n \<and> leg_wants n j ord"
proof -
  have pos: "0 < unat n" using assms by (simp add: unat_gt_0)
  let ?j = "of_nat (unat ord mod unat n) :: byte"
  have "unat ord mod unat n < 256"
    using mod_less_divisor [OF pos, of "unat ord"] unat_byte_less [of n] by linarith
  then have j: "unat ?j = unat ord mod unat n" by simp
  show ?thesis
  proof (rule ex1I [of _ ?j])
    show "?j < n \<and> leg_wants n ?j ord"
      using pos assms by (simp add: word_less_nat_alt leg_wants_unat j)
    show "j = ?j" if "j < n \<and> leg_wants n j ord" for j
      using that assms j by (simp add: leg_wants_unat word_unat_eq_iff)
  qed
qed

end
