(* ===== verification/HubState.thy ===== *)
theory HubState
  imports HubIngress HubDVR HubStripe BroadcastID "HOL-Library.AList"
begin

section \<open>The state of the hub (\<^verbatim>\<open>gawk-server/internal/hub/hub.go\<close>)\<close>

text \<open>
  The registry of broadcasts with its hubs, publishers and subscribers.  Objects the code
  shares through pointers live in heaps and refer to each other by their numbers, so that
  a publisher or a subscriber may outlive the hub's registration, as it does in the code.

  The counters of a hub, of a subscriber and of the registry's totals are functions from
  the one list of counters (\<open>counter\<close>, one constructor per field of \<^verbatim>\<open>broadcastHub\<close>).
  What the code does through its callbacks and on sessions is an \<open>effect\<close>, in the order of
  the calls.  Instants are arguments of the operations; so are the answers of the egress
  limiter, whose floating-point bucket is not modelled.
\<close>

datatype hub_error =
    ErrPublisherActive | ErrFull | ErrNotFound | ErrMaxBroadcasts | ErrTotalSubscribers
  | ErrStripe | ErrMintCollisions

datatype counter =
    FramesRelayed | DatagramsRelayed | DatagramsDropped | BadDatagrams
  | BandwidthDroppedDatagrams | BandwidthDroppedBytes
  | KeyframeStreamsIn | KeyframeBytesIn | KeyframeStreamsOversize | IngressDatagramBytes
  | KeyframeStreamsSent
  | KeyframeDropsSuperseded | KeyframeDropsSlow | KeyframeDropsBandwidth | KeyframeDropsOpenFailed
  | SendErrors | EgressDatagramBytes | EgressKeyframeBytes
  | CarrierStreams | CarrierRecords | CarrierRecordsDropped | CarrierQueueOverflow
  | DVRResyncs | ParityDatagramsForwarded | EgressParityBytes | ParitySuppressed | EgressCarrierBytes
  | StripeSuppressedDatagrams | StripeTransitions | StripeLegsReaped
  | UplinkCarriers | UplinkRecords | UplinkRecordsStale | UplinkCarriersRejected

type_synonym counters = "counter \<Rightarrow> u64"

definition bump :: "counter \<Rightarrow> u64 \<Rightarrow> counters \<Rightarrow> counters" where
  "bump c n cs = cs(c := cs c + n)"

text \<open>Adding the listed counters of one set to another, as the folds of the code do field by field.\<close>

definition add_counters :: "counter list \<Rightarrow> counters \<Rightarrow> counters \<Rightarrow> counters" where
  "add_counters cl src dst = fold (\<lambda>c d. bump c (src c) d) cl dst"

type_synonym href = nat
type_synonym pref = nat
type_synonym sref = nat
type_synonym rref = nat

record Options =
  o_MaxSubscribers :: int
  o_QueueDepth :: int
  o_DVR :: DVROptions
  o_DVRAudio :: bool
  o_LiveEdgeAudioOnReliableStream :: bool
  o_StripedDelivery :: bool
  o_StripeLegLease :: duration
  o_UndeliverableAfter :: duration
  o_DVRProgressTimeout :: duration
  o_BroadcastGrace :: duration
  o_PublisherStallTimeout :: duration
  o_PublisherStallEnds :: bool
  o_MaxBroadcasts :: int
  o_MaxTotalSubscribers :: int
  o_MaxKeyframeBytes :: int
  o_KeyframeWriteTimeout :: duration
  o_IDReserved :: "bytes \<Rightarrow> bool"

definition DefaultDVRMaxBytes :: int where "DefaultDVRMaxBytes = 24 * 2 ^ 20"
definition DefaultDVRProgressTimeout :: duration where "DefaultDVRProgressTimeout = 6 * Second"
definition UndeliverableVideoAfter :: duration where "UndeliverableVideoAfter = 3 * Second"
definition CarrierWriteTimeout :: duration where "CarrierWriteTimeout = 500 * Millisecond"

definition carrierWriteTimeout :: "Options \<Rightarrow> duration" where
  "carrierWriteTimeout opts =
     (if o_KeyframeWriteTimeout opts > 0 \<and> o_KeyframeWriteTimeout opts < CarrierWriteTimeout
      then o_KeyframeWriteTimeout opts else CarrierWriteTimeout)"

text \<open>The defaults \<^verbatim>\<open>NewRegistry\<close> gives to unset options.\<close>

definition or_default :: "int \<Rightarrow> int \<Rightarrow> int" where
  "or_default v d = (if v \<le> 0 then d else v)"

definition with_defaults :: "Options \<Rightarrow> Options" where
  "with_defaults opts = opts
     \<lparr>o_MaxSubscribers := or_default (o_MaxSubscribers opts) 15,
      o_DVRProgressTimeout := or_default (o_DVRProgressTimeout opts) DefaultDVRProgressTimeout,
      o_UndeliverableAfter := or_default (o_UndeliverableAfter opts) UndeliverableVideoAfter,
      o_StripeLegLease := or_default (o_StripeLegLease opts) DefaultStripeLegLease,
      o_DVR := (o_DVR opts)\<lparr>o_Window := or_default (o_Window (o_DVR opts)) DefaultDVRWindow,
                 o_MaxBytes := or_default (o_MaxBytes (o_DVR opts)) DefaultDVRMaxBytes\<rparr>,
      o_QueueDepth := or_default (o_QueueDepth opts) 1024,
      o_BroadcastGrace := or_default (o_BroadcastGrace opts) (5 * 60 * Second),
      o_MaxBroadcasts := or_default (o_MaxBroadcasts opts) 5,
      o_MaxTotalSubscribers := or_default (o_MaxTotalSubscribers opts) 50,
      o_MaxKeyframeBytes := or_default (o_MaxKeyframeBytes opts) (int MaxKeyframeBytes),
      o_KeyframeWriteTimeout := or_default (o_KeyframeWriteTimeout opts) Second\<rparr>"

subsection \<open>The objects\<close>

record Publisher =
  p_hub :: href
  p_closed :: bool
  p_generation :: u64
  p_conn :: bool
  p_send :: bool
  p_lastSeen :: instant
  p_uplinkCarriersOpen :: int

text \<open>
  A subscriber.  Streams are named by the number the session gave them; \<open>s_kfCurrent\<close> and
  \<open>s_carCurrent\<close> are \<^verbatim>\<open>nil\<close> when no stream is open.  \<open>s_closing\<close> marks the time between
  the two critical sections of \<^verbatim>\<open>Close\<close>.  The zero instant stands for the zero time.
\<close>

record Subscriber =
  s_hub :: href
  s_internal :: bool
  s_reliable :: bool
  s_parityK :: int
  s_parityRequested :: int
  s_stripeLeg :: bool
  s_stripeN :: byte
  s_stripeMember :: byte
  s_stripeUntil :: int
  s_stripeNInfo :: u32
  s_owner :: bytes
  s_ownerKey :: bytes
  s_legLastInbound :: int
  s_downstreamViewers :: u64
  s_closed :: bool
  s_closing :: bool
  s_queue :: "bytes list"
  s_queueCap :: nat
  s_audioQueue :: "bytes list option"
  s_kfCurrent :: "nat option"
  s_kfLastSeq :: u64
  s_kfConsecOpenFailed :: int
  s_kfConsecSlow :: int
  s_carConsecOpenFailed :: int
  s_evicting :: bool
  s_undelivered :: int
  s_undeliveredSince :: instant
  s_kfNewestID :: u32
  s_undeliverableNoticeAt :: instant
  s_episodeNotices :: int
  s_undeliverableNotices :: u64
  s_carRotations :: u64
  s_carCurrent :: "nat option"
  s_carDeadRotation :: u64
  s_leg :: bool
  s_legCarrier :: bool
  s_legWriting :: bool
  s_legKfID :: u64
  s_dvr :: "rref option"
  s_dvrCursor :: DVRCursor
  s_dvrBufferMs :: int
  s_dvrLagMs :: int
  s_dvrProgressAt :: int
  s_dvrCursorAtMs :: int
  s_dvrGopSeq :: int
  s_dvrAudio :: "rref option"
  s_dvrAudioCur :: int
  s_count :: counters

datatype publisher_kind = Broadcaster | PublisherKindPopLeg

record broadcastHub =
  h_id :: bytes
  h_publisherActive :: bool
  h_publisherSessionID :: bytes
  h_publisherKind :: publisher_kind
  h_publisherEpoch :: bytes
  h_publisher :: "pref option"
  h_generation :: u64
  h_graceTimer :: "u64 option"
  h_graceStart :: instant
  h_stalledSince :: instant
  h_stalledReported :: bool
  h_edge :: bool
  h_subs :: "sref list"
  h_cachedKeyframe :: "bytes option"
  h_cachedKeyframeID :: u32
  h_cachedKeyframeHasConfig :: bool
  h_keyframeSeq :: u64
  h_cachedClockMapping :: "bytes option"
  h_cachedAudioConfig :: "bytes option"
  h_cachedViewerCount :: "bytes option"
  h_startedAt :: instant
  h_publisherLeftAt :: instant
  h_peakViewers :: u32
  h_dvr :: "rref option"
  h_dvrAudio :: "rref option"
  h_lastViewerCount :: u32
  h_lastViewerCountEmitAt :: instant
  h_viewerCountEverEmitted :: bool
  h_count :: counters
  h_ingress :: ingressWindow
  h_ingressLoss :: ingressTally

text \<open>
  The registry and the heaps.  \<open>totalIngress\<close> has the totals of the three legs.  The
  \<open>next\<close> fields are the first unused references.
\<close>

datatype ingressLeg = legBroadcaster | legEdge | legPop

record Registry =
  opts :: Options
  hubs :: "(bytes \<times> href) list"
  totals :: counters
  totalIngress :: "ingressLeg \<Rightarrow> ingressTally"
  statsKey :: bytes
  hub_heap :: "href \<Rightarrow> broadcastHub"
  pub_heap :: "pref \<Rightarrow> Publisher"
  sub_heap :: "sref \<Rightarrow> Subscriber"
  ring_heap :: "rref \<Rightarrow> DVRRing"
  audio_heap :: "rref \<Rightarrow> DVRAudioRing"
  next_hub :: href
  next_pub :: pref
  next_sub :: sref
  next_ring :: rref

definition hub_of :: "Registry \<Rightarrow> href \<Rightarrow> broadcastHub" where "hub_of r b = hub_heap r b"
definition pub_of :: "Registry \<Rightarrow> pref \<Rightarrow> Publisher" where "pub_of r p = pub_heap r p"
definition sub_of :: "Registry \<Rightarrow> sref \<Rightarrow> Subscriber" where "sub_of r s = sub_heap r s"

definition upd_hub :: "href \<Rightarrow> (broadcastHub \<Rightarrow> broadcastHub) \<Rightarrow> Registry \<Rightarrow> Registry" where
  "upd_hub b f r = r\<lparr>hub_heap := (hub_heap r)(b := f (hub_heap r b))\<rparr>"

definition upd_pub :: "pref \<Rightarrow> (Publisher \<Rightarrow> Publisher) \<Rightarrow> Registry \<Rightarrow> Registry" where
  "upd_pub p f r = r\<lparr>pub_heap := (pub_heap r)(p := f (pub_heap r p))\<rparr>"

definition upd_sub :: "sref \<Rightarrow> (Subscriber \<Rightarrow> Subscriber) \<Rightarrow> Registry \<Rightarrow> Registry" where
  "upd_sub s f r = r\<lparr>sub_heap := (sub_heap r)(s := f (sub_heap r s))\<rparr>"

definition upd_ring :: "rref \<Rightarrow> (DVRRing \<Rightarrow> DVRRing) \<Rightarrow> Registry \<Rightarrow> Registry" where
  "upd_ring k f r = r\<lparr>ring_heap := (ring_heap r)(k := f (ring_heap r k))\<rparr>"

definition upd_audio :: "rref \<Rightarrow> (DVRAudioRing \<Rightarrow> DVRAudioRing) \<Rightarrow> Registry \<Rightarrow> Registry" where
  "upd_audio k f r = r\<lparr>audio_heap := (audio_heap r)(k := f (audio_heap r k))\<rparr>"

definition lookup :: "Registry \<Rightarrow> bytes \<Rightarrow> href option" where
  "lookup r i = map_of (hubs r) i"

text \<open>Whether a hub is the one registered under its ID (\<^verbatim>\<open>r.hubs[b.id] == b\<close>).\<close>

definition registered :: "Registry \<Rightarrow> href \<Rightarrow> bool" where
  "registered r b \<longleftrightarrow> lookup r (h_id (hub_of r b)) = Some b"

definition hub_bump :: "counter \<Rightarrow> u64 \<Rightarrow> broadcastHub \<Rightarrow> broadcastHub" where
  "hub_bump c n b = b\<lparr>h_count := bump c n (h_count b)\<rparr>"

definition sub_bump :: "counter \<Rightarrow> u64 \<Rightarrow> Subscriber \<Rightarrow> Subscriber" where
  "sub_bump c n s = s\<lparr>s_count := bump c n (s_count s)\<rparr>"

subsection \<open>Effects\<close>

datatype end_reason = BroadcastEndedReplaced | BroadcastEndedGC | BroadcastEndedKilled | BroadcastEndedStopped

datatype effect =
    ClosePublisher pref u32
  | CloseSession sref u32
  | CloseSubscriber sref
  | HandKeyframe sref bytes u64
  | SendToPublisher pref bytes
  | BusStarted bytes
  | BusEnded bytes end_reason
  | BusStalled bytes bool
  | BusViewers bytes int int bool
  | OnPublisherClosed bytes
  | OnPublisherStalled bytes bool
  | OnBroadcastExpired bytes
  | OnOriginEnded duration u32

end
