(* ===== verification/HubSubscriber.thy ===== *)
theory HubSubscriber
  imports HubState WireCarrier
begin

section \<open>One subscriber: routing, queues, keyframes and carriers (\<^verbatim>\<open>hub/hub.go\<close>, \<^verbatim>\<open>hub/stripe.go\<close>)\<close>

text \<open>
  What the fan-out decides for a subscriber, how its bounded queues shed, and how its
  drain and keyframe hand-offs use the session.  The answers of the session (whether a
  stream opened, a write moved bytes or failed) and of the egress limiter are arguments;
  the calls made on it are returned as \<open>io\<close> values in order.
\<close>

datatype io =
    SendDatagram bytes
  | OpenedStream nat
  | Wrote nat bytes
  | WriteFailed nat bytes
  | ClosedStream nat
  | CancelledStream nat
  | AbandonWrite nat
  | StartKeyframeWriter nat bytes instant
  | CountBandwidthDrop int
  | CountBandwidthDropBytes int
  | Evict
  | EvictStalled

definition KeyframeOpenFailEvictThreshold :: int where "KeyframeOpenFailEvictThreshold = 10"
definition KeyframeSlowEvictThreshold :: int where "KeyframeSlowEvictThreshold = 10"
definition CarrierOpenFailEvictThreshold :: int where "CarrierOpenFailEvictThreshold = 10"
definition UndeliverableMinKeyframes :: int where "UndeliverableMinKeyframes = 2"
definition UndeliverableNoticeInterval :: duration where "UndeliverableNoticeInterval = Second"
definition UndeliverableMaxNotices :: int where "UndeliverableMaxNotices = 3"
definition AudioSidebandQueueDepth :: nat where "AudioSidebandQueueDepth = 64"

subsection \<open>Stripe state and routing\<close>

definition ApplyStripeState :: "instant \<Rightarrow> StripeState \<Rightarrow> Subscriber \<Rightarrow> Subscriber" where
  "ApplyStripeState now st s =
     (if s_internal s \<or> s_reliable s \<or> s_dvr s \<noteq> None \<or> s_stripeLeg s \<or> s_owner s = [] then s
      else if ss_Striped st then
        let prev = s_stripeUntil s;
            s = s\<lparr>s_stripeUntil := now + StripeStateTTL, s_stripeNInfo := ucast (ss_StripeN st)\<rparr>
        in if prev = 0 then sub_bump StripeTransitions 1 s else s
      else
        let prev = s_stripeUntil s;
            s = s\<lparr>s_stripeUntil := 0\<rparr>;
            s = (if prev \<noteq> 0 then sub_bump StripeTransitions 1 s else s)
        in s\<lparr>s_stripeNInfo := 0\<rparr>)"

definition stripeSuppressed :: "instant \<Rightarrow> Subscriber \<Rightarrow> bool" where
  "stripeSuppressed now s \<longleftrightarrow> s_stripeUntil s \<noteq> 0 \<and> now < s_stripeUntil s"

definition wantsDeltaLocked :: "u32 \<Rightarrow> instant \<Rightarrow> Subscriber \<Rightarrow> bool" where
  "wantsDeltaLocked ord now s =
     (if s_stripeLeg s then ord mod ucast (s_stripeN s) = ucast (s_stripeMember s)
      else \<not> stripeSuppressed now s)"

definition NoteLegAlive :: "instant \<Rightarrow> Subscriber \<Rightarrow> Subscriber" where
  "NoteLegAlive now s = (if \<not> s_stripeLeg s then s else s\<lparr>s_legLastInbound := now\<rparr>)"

text \<open>What a firing of the lease timer does: re-arm for the rest, nothing, or reap.\<close>

datatype lease = LeaseRearm duration | LeaseExit | LeaseReap

definition legLeaseFired :: "duration \<Rightarrow> instant \<Rightarrow> Subscriber \<Rightarrow> lease" where
  "legLeaseFired lease now s =
     (let elapsed = time_sub now (s_legLastInbound s); remaining = lease - elapsed in
      if remaining > 0 then LeaseRearm remaining
      else if s_closed s then LeaseExit else LeaseReap)"

text \<open>
  The per-subscriber body of the two fan-out loops.  \<open>Withheld\<close> is a delta a striped
  primary does not get, \<open>ParityWithheld\<close> a symbol beyond its prefix.
\<close>

datatype route = Forward | Withheld | NotMine | ParityWithheld

definition stripe_filter :: "bytes \<Rightarrow> instant \<Rightarrow> Subscriber \<Rightarrow> route" where
  "stripe_filter dgram now s =
     (case deltaOrdinal dgram of
        Some ord \<Rightarrow>
          if \<not> wantsDeltaLocked ord now s then (if \<not> s_stripeLeg s then Withheld else NotMine) else Forward
      | None \<Rightarrow> Forward)"

definition route_to :: "bytes \<Rightarrow> instant \<Rightarrow> Subscriber \<Rightarrow> route" where
  "route_to dgram now s =
     (let idx = parityIndexIfParity dgram in
      if idx \<ge> 0 then
        (if s_internal s \<or> idx < s_parityK s then
           (if s_stripeLeg s \<or> s_stripeUntil s \<noteq> 0 then stripe_filter dgram now s else Forward)
         else ParityWithheld)
      else if s_stripeLeg s \<or> s_stripeUntil s \<noteq> 0 then
        (if s_stripeLeg s \<and> deltaOrdinal dgram = None then NotMine else stripe_filter dgram now s)
      else Forward)"

subsection \<open>The bounded queues\<close>

definition purgeQueuedDeltasLocked :: "Subscriber \<Rightarrow> Subscriber \<times> nat" where
  "purgeQueuedDeltasLocked s =
     (let queued = s_queue s;
          purged = length (filter isCarrierMediaDatagram queued);
          keep = filter (\<lambda>d. \<not> isCarrierMediaDatagram d) queued
      in (s\<lparr>s_queue := take (s_queueCap s) keep\<rparr>, purged))"

definition enqueueLocked :: "bytes \<Rightarrow> Subscriber \<Rightarrow> Subscriber" where
  "enqueueLocked dgram s =
     (if s_dvr s \<noteq> None \<and> isCarrierMediaDatagram dgram then s
      else if s_dvrAudio s \<noteq> None \<and> isAudioDatagram dgram then s
      else if s_audioQueue s \<noteq> None \<and> isAudioDatagram dgram then
        (if length (the (s_audioQueue s)) < AudioSidebandQueueDepth
         then s\<lparr>s_audioQueue := Some (the (s_audioQueue s) @ [dgram])\<rparr>
         else sub_bump DatagramsDropped 1 s)
      else if s_reliable s \<and> isCarrierMediaDatagram dgram \<and> s_carDeadRotation s = s_carRotations s + 1
        then sub_bump CarrierRecordsDropped 1 s
      else if length (s_queue s) < s_queueCap s then s\<lparr>s_queue := s_queue s @ [dgram]\<rparr>
      else if \<not> s_reliable s then sub_bump DatagramsDropped 1 s
      else
        let s = s\<lparr>s_carDeadRotation := s_carRotations s + 1\<rparr>;
            (s, purged) = purgeQueuedDeltasLocked s;
            s = sub_bump CarrierRecordsDropped (of_nat purged) s;
            s = sub_bump DatagramsDropped 1 s
        in sub_bump CarrierQueueOverflow 1 s)"

subsection \<open>The eviction streaks\<close>

definition noteKeyframeOpenFailedLocked :: "Subscriber \<Rightarrow> Subscriber \<times> bool" where
  "noteKeyframeOpenFailedLocked s =
     (let s = s\<lparr>s_kfConsecOpenFailed := s_kfConsecOpenFailed s + 1\<rparr>;
          evict = (\<not> s_evicting s \<and> s_kfConsecOpenFailed s \<ge> KeyframeOpenFailEvictThreshold)
      in (if evict then s\<lparr>s_evicting := True\<rparr> else s, evict))"

definition noteKeyframeOpenFailed :: "Subscriber \<Rightarrow> Subscriber \<times> io list" where
  "noteKeyframeOpenFailed s =
     (let (s, evict) = noteKeyframeOpenFailedLocked s in (s, if evict then [Evict] else []))"

definition noteKeyframeOpenSucceeded :: "Subscriber \<Rightarrow> Subscriber" where
  "noteKeyframeOpenSucceeded s = s\<lparr>s_kfConsecOpenFailed := 0\<rparr>"

definition noteCarrierOpenFailed :: "Subscriber \<Rightarrow> Subscriber \<times> io list" where
  "noteCarrierOpenFailed s =
     (let s = s\<lparr>s_carConsecOpenFailed := s_carConsecOpenFailed s + 1\<rparr>;
          evict = (\<not> s_evicting s \<and> s_carConsecOpenFailed s \<ge> CarrierOpenFailEvictThreshold);
          s = (if evict then s\<lparr>s_evicting := True\<rparr> else s)
      in (s, if evict then [Evict] else []))"

definition noteCarrierOpenSucceeded :: "Subscriber \<Rightarrow> Subscriber" where
  "noteCarrierOpenSucceeded s = s\<lparr>s_carConsecOpenFailed := 0\<rparr>"

definition evictOnce :: "Subscriber \<Rightarrow> Subscriber \<times> io list" where
  "evictOnce s = (let first = \<not> s_evicting s in (s\<lparr>s_evicting := True\<rparr>, if first then [Evict] else []))"

subsection \<open>Datagrams sent directly\<close>

text \<open>\<open>bw\<close>: the egress limiter grants the bytes; \<open>sent\<close>: the session took the datagram.\<close>

definition sendSidebandDatagram :: "bool \<Rightarrow> bool \<Rightarrow> bytes \<Rightarrow> Subscriber \<Rightarrow> Subscriber \<times> io list" where
  "sendSidebandDatagram bw sent dgram s =
     (if \<not> bw then (sub_bump DatagramsDropped 1 s, [CountBandwidthDrop (int (length dgram))])
      else if \<not> sent then (sub_bump SendErrors 1 s, [])
      else (sub_bump EgressDatagramBytes (of_nat (length dgram)) s, [SendDatagram dgram]))"

text \<open>One round of the plain datagram drain.\<close>

definition drainDatagram :: "bool \<Rightarrow> bool \<Rightarrow> bytes \<Rightarrow> Subscriber \<Rightarrow> Subscriber \<times> io list" where
  "drainDatagram bw sent dgram s =
     (if \<not> bw then (sub_bump DatagramsDropped 1 s, [CountBandwidthDrop (int (length dgram))])
      else if \<not> sent then (sub_bump SendErrors 1 s, [])
      else
        let s = sub_bump EgressDatagramBytes (of_nat (length dgram)) s;
            s = (if isParityDatagram dgram then sub_bump EgressParityBytes (of_nat (length dgram)) s else s)
        in (s, [SendDatagram dgram]))"

subsection \<open>Undeliverable video\<close>

definition keyframeID :: "bytes \<Rightarrow> u32 option" where
  "keyframeID msg = (case ParseStreamFrameHeader msg of Inl _ \<Rightarrow> None | Inr hdr \<Rightarrow> Some (sf_FrameID hdr))"

definition noteKeyframeOutcome ::
  "duration \<Rightarrow> instant \<Rightarrow> bool \<Rightarrow> instant \<Rightarrow> bool \<Rightarrow> bool \<Rightarrow> Subscriber \<Rightarrow> Subscriber \<times> io list" where
  "noteKeyframeOutcome undeliverableAfter handedAt anyByte now bw sent s =
     (if s_internal s \<or> s_stripeLeg s then (s, [])
      else if anyByte then (s\<lparr>s_undelivered := 0, s_undeliveredSince := zero_time, s_episodeNotices := 0\<rparr>, [])
      else if s_closed s then (s, [])
      else
        let s = s\<lparr>s_undelivered := s_undelivered s + 1\<rparr>;
            s = (if s_undelivered s = 1 then s\<lparr>s_undeliveredSince := handedAt\<rparr> else s);
            stalled = time_sub now (s_undeliveredSince s)
        in if s_undelivered s < UndeliverableMinKeyframes \<or> stalled < undeliverableAfter \<or>
              s_episodeNotices s \<ge> UndeliverableMaxNotices \<or>
              (s_undeliverableNoticeAt s \<noteq> zero_time \<and>
               time_sub now (s_undeliverableNoticeAt s) < UndeliverableNoticeInterval)
           then (s, [])
           else
             let s = s\<lparr>s_episodeNotices := s_episodeNotices s + 1, s_undeliverableNoticeAt := now\<rparr>;
                 msg = AppendVideoUndeliverable []
                   \<lparr>vu_KeyframeID = s_kfNewestID s,
                    vu_StalledMs = word_of_int (min (Milliseconds stalled) (2 ^ 32 - 1))\<rparr>;
                 s = s\<lparr>s_undeliverableNotices := s_undeliverableNotices s + 1\<rparr>
             in sendSidebandDatagram bw sent msg s)"

subsection \<open>Keyframe streams\<close>

text \<open>The carrier leg's half of a hand-off: it also abandons a write that is in progress.\<close>

definition legKfValid :: u64 where "legKfValid = push_bit 32 1"

definition legNoteKeyframe :: "bytes \<Rightarrow> Subscriber \<Rightarrow> Subscriber \<times> io list" where
  "legNoteKeyframe msg s =
     (let kf = (case keyframeID msg of Some i \<Rightarrow> legKfValid OR ucast i | None \<Rightarrow> 0);
          s = s\<lparr>s_legKfID := kf, s_carRotations := s_carRotations s + 1\<rparr>
      in (s, case s_carCurrent s of Some k \<Rightarrow> if s_legWriting s then [AbandonWrite k] else [] | None \<Rightarrow> []))"

definition legStale :: "u32 \<Rightarrow> Subscriber \<Rightarrow> bool" where
  "legStale frameID s =
     (if s_legKfID s AND legKfValid = 0 then False
      else sint (frameID - ucast (s_legKfID s) :: u32) < 0)"

text \<open>
  \<open>opened\<close> is the stream the session opens, if it does; \<open>handedAt\<close> the instant of the
  hand-off and \<open>now\<close> that of the outcome of a failed open.
\<close>

definition sendKeyframe ::
  "Options \<Rightarrow> bool \<Rightarrow> nat option \<Rightarrow> instant \<Rightarrow> instant \<Rightarrow> bool \<Rightarrow> bool \<Rightarrow> bytes \<Rightarrow> u64 \<Rightarrow> Subscriber \<Rightarrow>
     Subscriber \<times> io list" where
  "sendKeyframe opt bw opened handedAt now bw' sent msg sq s =
     (if s_closed s then (s, [])
      else if \<not> bw then
        (sub_bump KeyframeDropsBandwidth 1 s, [CountBandwidthDropBytes (int (length msg))])
      else if sq < s_kfLastSeq s then (sub_bump KeyframeDropsSuperseded 1 s, [])
      else
        let s = s\<lparr>s_kfLastSeq := sq\<rparr>;
            s = (case keyframeID msg of Some i \<Rightarrow> s\<lparr>s_kfNewestID := i\<rparr> | None \<Rightarrow> s);
            (s, abandon) = (if s_legCarrier s then legNoteKeyframe msg s
                 else if s_reliable s then (s\<lparr>s_carRotations := s_carRotations s + 1\<rparr>, []) else (s, []));
            cancel = abandon @ (case s_kfCurrent s of Some k \<Rightarrow> [CancelledStream k] | None \<Rightarrow> []);
            s = s\<lparr>s_kfCurrent := None\<rparr>
        in case opened of
             None \<Rightarrow>
               let (s, evict) = noteKeyframeOpenFailedLocked s;
                   s = sub_bump KeyframeDropsOpenFailed 1 s;
                   (s, out) = noteKeyframeOutcome (o_UndeliverableAfter opt) handedAt False now bw' sent s
               in (s, cancel @ out @ (if evict then [Evict] else []))
           | Some k \<Rightarrow>
               (s\<lparr>s_kfConsecOpenFailed := 0, s_kfCurrent := Some k\<rparr>,
                cancel @ [OpenedStream k, StartKeyframeWriter k msg handedAt]))"

text \<open>
  The writer's goroutine, from the return of \<^verbatim>\<open>Write\<close>: \<open>n > 0\<close> is \<open>anyByte\<close>, \<open>err\<close> says
  that the write or the close failed.
\<close>

definition writeKeyframe ::
  "Options \<Rightarrow> nat \<Rightarrow> bytes \<Rightarrow> instant \<Rightarrow> bool \<Rightarrow> bool \<Rightarrow> instant \<Rightarrow> bool \<Rightarrow> bool \<Rightarrow> Subscriber \<Rightarrow> Subscriber \<times> io list" where
  "writeKeyframe opt k msg handedAt anyByte err now bw sent s =
     (let (s, out) = noteKeyframeOutcome (o_UndeliverableAfter opt) handedAt anyByte now bw sent s;
          superseded = (s_kfCurrent s \<noteq> Some k);
          s = (if \<not> superseded then s\<lparr>s_kfCurrent := None\<rparr> else s);
          s = (if \<not> err then s\<lparr>s_kfConsecSlow := 0\<rparr>
               else if \<not> superseded then s\<lparr>s_kfConsecSlow := s_kfConsecSlow s + 1\<rparr> else s);
          evict = (err \<and> \<not> superseded \<and> \<not> s_leg s \<and> \<not> s_evicting s \<and>
                   s_kfConsecSlow s \<ge> KeyframeSlowEvictThreshold);
          s = (if evict then s\<lparr>s_evicting := True\<rparr> else s)
      in if err then
           ((if superseded then sub_bump KeyframeDropsSuperseded 1 s else sub_bump KeyframeDropsSlow 1 s),
            out @ CancelledStream k # (if evict then [EvictStalled] else []))
         else
           (sub_bump EgressKeyframeBytes (of_nat (length msg)) (sub_bump KeyframeStreamsSent 1 s),
            out @ [Wrote k msg, ClosedStream k]))"

subsection \<open>Carriers\<close>

definition writeCarrier :: "bool \<Rightarrow> bytes \<Rightarrow> Subscriber \<Rightarrow> bool \<times> Subscriber \<times> io list" where
  "writeCarrier ok buf s =
     (case s_carCurrent s of
        None \<Rightarrow> (False, s, [])
      | Some k \<Rightarrow>
          if \<not> ok then (False, s\<lparr>s_carCurrent := None\<rparr>, [WriteFailed k buf, CancelledStream k])
          else (True, s, [Wrote k buf]))"

definition openCarrier :: "nat option \<Rightarrow> bool \<Rightarrow> Subscriber \<Rightarrow> bool \<times> Subscriber \<times> io list" where
  "openCarrier opened ok s =
     (case opened of
        None \<Rightarrow> let (s, out) = noteCarrierOpenFailed s in (False, s, out)
      | Some k \<Rightarrow>
          let s = noteCarrierOpenSucceeded s in
          if s_closed s then (False, s, [OpenedStream k, CancelledStream k])
          else
            let s = s\<lparr>s_carCurrent := Some k\<rparr>;
                s = sub_bump CarrierStreams 1 s;
                (done', s, out) = writeCarrier ok (AppendCarrierPrologue []) s
            in if \<not> done' then (False, s, OpenedStream k # out)
               else (True, sub_bump EgressCarrierBytes (of_nat CarrierPrologueSize) s, OpenedStream k # out))"

definition retireCarrier :: "bool \<Rightarrow> Subscriber \<Rightarrow> Subscriber \<times> io list" where
  "retireCarrier closeOk s =
     (case s_carCurrent s of
        None \<Rightarrow> (s, [])
      | Some k \<Rightarrow> (s\<lparr>s_carCurrent := None\<rparr>, ClosedStream k # (if closeOk then [] else [CancelledStream k])))"

definition noteCarrierParity :: "bytes \<Rightarrow> nat \<Rightarrow> Subscriber \<Rightarrow> Subscriber" where
  "noteCarrierParity dgram framed s =
     (if isParityDatagram dgram then sub_bump EgressParityBytes (of_nat framed) s else s)"

text \<open>The answers one round of a carrier drain gets.\<close>

record drain_env =
  e_bw :: bool
  e_sent :: bool
  e_opened :: "nat option"
  e_prologueOk :: bool
  e_recordOk :: bool
  e_closeOk :: bool

text \<open>The two locals of \<^verbatim>\<open>drainReliable\<close> that live across rounds.\<close>

record rel_drain =
  d_carSeen :: u64
  d_carDead :: bool

text \<open>A new keyframe since the last record: this GOP's carrier is done.\<close>

definition carrier_rotation :: "drain_env \<Rightarrow> rel_drain \<Rightarrow> Subscriber \<Rightarrow> rel_drain \<times> Subscriber \<times> io list" where
  "carrier_rotation env st s =
     (if s_carRotations s \<noteq> d_carSeen st then
        (let (s', out) = retireCarrier (e_closeOk env) s
         in (\<lparr>d_carSeen = s_carRotations s, d_carDead = False\<rparr>, s', out))
      else (st, s, []))"

text \<open>One framed record, opening the carrier first when there is none.\<close>

definition place_record :: "drain_env \<Rightarrow> bytes \<Rightarrow> Subscriber \<Rightarrow> bool \<times> Subscriber \<times> io list" where
  "place_record env framed s =
     (let (ok, s, out1) = (if s_carCurrent s = None then openCarrier (e_opened env) (e_prologueOk env) s
                           else (True, s, []))
      in if \<not> ok then (False, s, out1)
         else let (ok, s, out2) = writeCarrier (e_recordOk env) framed s in (ok, s, out1 @ out2))"

definition drainReliable ::
  "drain_env \<Rightarrow> bytes \<Rightarrow> rel_drain \<Rightarrow> Subscriber \<Rightarrow> rel_drain \<times> Subscriber \<times> io list" where
  "drainReliable env dgram st s =
     (if isAudioDatagram dgram then
        (let (s, out) = sendSidebandDatagram (e_bw env) (e_sent env) dgram s in (st, s, out))
      else
        let (st, s, out0) = carrier_rotation env st s
        in if d_carDead st \<or> s_closed s then (st, sub_bump CarrierRecordsDropped 1 s, out0)
           else case AppendCarrierRecord [] dgram of
             Inl _ \<Rightarrow> (st, sub_bump CarrierRecordsDropped 1 s, out0)
           | Inr framed \<Rightarrow>
               let n = length framed + (if s_carCurrent s = None then CarrierPrologueSize else 0)
               in if \<not> e_bw env then
                    (st, sub_bump DatagramsDropped 1 s, out0 @ [CountBandwidthDrop (int n)])
                  else
                    let (ok, s, out1) = place_record env framed s
                    in if \<not> ok then
                         (st\<lparr>d_carDead := True\<rparr>, sub_bump CarrierRecordsDropped 1 s, out0 @ out1)
                       else
                         let s = sub_bump CarrierRecords 1 s;
                             s = sub_bump EgressCarrierBytes (of_nat (length framed)) s
                         in (st, noteCarrierParity dgram (length framed) s, out0 @ out1))"

text \<open>
  The audio carrier.  Its stream is a local of the draining goroutine, here an argument.
\<close>

definition frameAudioRecord :: "bytes \<Rightarrow> bool \<Rightarrow> (bytes \<times> nat) option" where
  "frameAudioRecord dgram needsOpen =
     (case AppendCarrierRecord [] dgram of
        Inl _ \<Rightarrow> None
      | Inr framed \<Rightarrow> Some (framed, length framed + (if needsOpen then CarrierPrologueSize else 0)))"

definition emitAudioRecord ::
  "drain_env \<Rightarrow> nat option \<Rightarrow> bytes \<Rightarrow> Subscriber \<Rightarrow> bool \<times> nat option \<times> Subscriber \<times> io list" where
  "emitAudioRecord env car framed s =
     (let (ok, car, s, out) =
            (case car of
               Some k \<Rightarrow> (True, Some k, s, [])
             | None \<Rightarrow>
                 (case e_opened env of
                    None \<Rightarrow> (False, None, s, [])
                  | Some k \<Rightarrow>
                      if \<not> e_prologueOk env then
                        (False, None, s, [OpenedStream k, WriteFailed k (AppendCarrierPrologue []), CancelledStream k])
                      else
                        (True, Some k, sub_bump EgressCarrierBytes (of_nat CarrierPrologueSize) s,
                         [OpenedStream k, Wrote k (AppendCarrierPrologue [])])))
      in if \<not> ok then (False, None, s, out)
         else if \<not> e_recordOk env then
           (False, None, s, out @ [WriteFailed (the car) framed, CancelledStream (the car)])
         else
           (True, car, sub_bump EgressCarrierBytes (of_nat (length framed)) (sub_bump CarrierRecords 1 s),
            out @ [Wrote (the car) framed]))"

definition drainAudioSideband ::
  "drain_env \<Rightarrow> bytes \<Rightarrow> nat option \<Rightarrow> Subscriber \<Rightarrow> nat option \<times> Subscriber \<times> io list" where
  "drainAudioSideband env dgram car s =
     (if s_closed s then (car, s, [])
      else case frameAudioRecord dgram (car = None) of
        None \<Rightarrow> (car, sub_bump CarrierRecordsDropped 1 s, [])
      | Some (framed, n) \<Rightarrow>
          if \<not> e_bw env then (car, sub_bump DatagramsDropped 1 s, [CountBandwidthDrop (int n)])
          else
            let (ok, car, s, out) = emitAudioRecord env car framed s
            in (car, if ok then s else sub_bump CarrierRecordsDropped 1 s, out))"

subsection \<open>The queues are bounded and lose nothing silently\<close>

definition queues_ok :: "Subscriber \<Rightarrow> bool" where
  "queues_ok s \<longleftrightarrow>
     length (s_queue s) \<le> s_queueCap s \<and>
     (case s_audioQueue s of None \<Rightarrow> True | Some q \<Rightarrow> length q \<le> AudioSidebandQueueDepth) \<and>
     (s_carDeadRotation s = s_carRotations s + 1 \<longrightarrow> s_reliable s \<longrightarrow> (\<forall>d\<in>set (s_queue s). \<not> isCarrierMediaDatagram d))"

text \<open>The datagrams a subscriber's lanes hold, and those counted as lost on the way in.\<close>

definition accounted :: "Subscriber \<Rightarrow> u64" where
  "accounted s =
     of_nat (length (s_queue s)) + (case s_audioQueue s of None \<Rightarrow> 0 | Some q \<Rightarrow> of_nat (length q)) +
     s_count s DatagramsDropped + s_count s CarrierRecordsDropped"

definition served_by_ring :: "bytes \<Rightarrow> Subscriber \<Rightarrow> bool" where
  "served_by_ring d s \<longleftrightarrow>
     (s_dvr s \<noteq> None \<and> isCarrierMediaDatagram d) \<or> (s_dvrAudio s \<noteq> None \<and> isAudioDatagram d)"

lemma sub_bump_fields [simp]:
  "s_queue (sub_bump c n s) = s_queue s" "s_queueCap (sub_bump c n s) = s_queueCap s"
  "s_audioQueue (sub_bump c n s) = s_audioQueue s" "s_carDeadRotation (sub_bump c n s) = s_carDeadRotation s"
  "s_carRotations (sub_bump c n s) = s_carRotations s" "s_reliable (sub_bump c n s) = s_reliable s"
  "s_evicting (sub_bump c n s) = s_evicting s" "s_carCurrent (sub_bump c n s) = s_carCurrent s"
  "s_closed (sub_bump c n s) = s_closed s" "s_kfCurrent (sub_bump c n s) = s_kfCurrent s"
  "s_internal (sub_bump c n s) = s_internal s" "s_stripeLeg (sub_bump c n s) = s_stripeLeg s"
  "s_hub (sub_bump c n s) = s_hub s" "s_closing (sub_bump c n s) = s_closing s"
  "s_owner (sub_bump c n s) = s_owner s" "s_kfLastSeq (sub_bump c n s) = s_kfLastSeq s"
  "s_dvr (sub_bump c n s) = s_dvr s" "s_dvrAudio (sub_bump c n s) = s_dvrAudio s"
  "s_stripeUntil (sub_bump c n s) = s_stripeUntil s" "s_episodeNotices (sub_bump c n s) = s_episodeNotices s"
  "s_undelivered (sub_bump c n s) = s_undelivered s"
  "s_undeliverableNoticeAt (sub_bump c n s) = s_undeliverableNoticeAt s"
  "s_undeliveredSince (sub_bump c n s) = s_undeliveredSince s"
  by (simp_all add: sub_bump_def)

lemma sub_bump_count: "s_count (sub_bump c n s) c' = s_count s c' + (if c' = c then n else 0)"
  by (simp add: sub_bump_def bump_def)

lemma isAudio_not_media: "isAudioDatagram d \<Longrightarrow> \<not> isCarrierMediaDatagram d"
  by (auto simp: isAudioDatagram_def isCarrierMediaDatagram_def Type_defs split: sum.splits)

lemma length_filter_split: "length (filter P xs) + length (filter (\<lambda>x. \<not> P x) xs) = length xs"
  by (rule sum_length_filter_compl)

lemma enqueue_queues_ok: "queues_ok s \<Longrightarrow> queues_ok (enqueueLocked d s)"
  by (cases "s_audioQueue s")
    (auto simp: enqueueLocked_def queues_ok_def purgeQueuedDeltasLocked_def Let_def dest: in_set_takeD)

lemma enqueue_accounts:
  assumes "queues_ok s"
  shows "accounted (enqueueLocked d s) = accounted s + (if served_by_ring d s then 0 else 1)"
proof -
  have keep: "length (filter (\<lambda>d. \<not> isCarrierMediaDatagram d) (s_queue s)) \<le> s_queueCap s"
    using assms length_filter_le [of "\<lambda>d. \<not> isCarrierMediaDatagram d" "s_queue s"]
    by (simp add: queues_ok_def del: length_filter_le)
  have split: "(of_nat (length (s_queue s)) :: u64) =
      of_nat (length (filter isCarrierMediaDatagram (s_queue s))) +
      of_nat (length (filter (\<lambda>d. \<not> isCarrierMediaDatagram d) (s_queue s)))"
    by (simp flip: of_nat_add add: length_filter_split)
  show ?thesis
    using keep
    by (cases "s_audioQueue s")
      (auto simp: enqueueLocked_def served_by_ring_def accounted_def purgeQueuedDeltasLocked_def Let_def
        sub_bump_count split)
qed

text \<open>Control datagrams that are queued stay queued, in order.\<close>

lemma enqueue_keeps_control:
  assumes "queues_ok s"
  shows "\<exists>t. filter (\<lambda>d. \<not> isCarrierMediaDatagram d) (s_queue (enqueueLocked d s)) =
    filter (\<lambda>d. \<not> isCarrierMediaDatagram d) (s_queue s) @ t"
proof -
  have keep: "length (filter (\<lambda>d. \<not> isCarrierMediaDatagram d) (s_queue s)) \<le> s_queueCap s"
    using assms length_filter_le [of "\<lambda>d. \<not> isCarrierMediaDatagram d" "s_queue s"]
    by (simp add: queues_ok_def del: length_filter_le)
  then show ?thesis
    by (auto simp: enqueueLocked_def purgeQueuedDeltasLocked_def Let_def)
qed

subsection \<open>Striping delivers every delta once\<close>

lemma parity_is_delta: "parityIndexIfParity d \<ge> 0 \<Longrightarrow> deltaOrdinal d \<noteq> None"
  by (auto simp: parityIndexIfParity_def parityIndexOf_def split: if_splits sum.splits dest: deltaOrdinal_parity)

definition within_prefix :: "bytes \<Rightarrow> int \<Rightarrow> bool" where
  "within_prefix d k \<longleftrightarrow> parityIndexIfParity d < k \<or> parityIndexIfParity d < 0"

lemma route_leg:
  assumes "s_stripeLeg s" "\<not> s_internal s"
  shows "route_to d now s =
    (case deltaOrdinal d of
       None \<Rightarrow> NotMine
     | Some ord \<Rightarrow> if \<not> within_prefix d (s_parityK s) then ParityWithheld
         else if leg_wants (s_stripeN s) (s_stripeMember s) ord then Forward else NotMine)"
  using assms parity_is_delta [of d]
  by (auto simp: route_to_def stripe_filter_def wantsDeltaLocked_def leg_wants_def within_prefix_def Let_def split: option.splits)

lemma route_primary:
  assumes "\<not> s_stripeLeg s" "\<not> s_internal s"
  shows "route_to d now s =
    (if \<not> within_prefix d (s_parityK s) then ParityWithheld
     else if deltaOrdinal d \<noteq> None \<and> stripeSuppressed now s then Withheld else Forward)"
  using assms parity_is_delta [of d]
  by (auto simp: route_to_def stripe_filter_def wantsDeltaLocked_def within_prefix_def stripeSuppressed_def Let_def
      split: option.splits)

text \<open>The legs \<open>0, \<dots>, n - 1\<close> of one stripe.\<close>

definition legs_of :: "Subscriber \<Rightarrow> byte \<Rightarrow> Subscriber list" where
  "legs_of s n = map (\<lambda>j. s\<lparr>s_stripeLeg := True, s_stripeN := n, s_stripeMember := of_nat j\<rparr>) [0..<unat n]"

lemma legs_forward_once:
  assumes "\<not> s_internal s" "0 < n" "deltaOrdinal d = Some ord" "within_prefix d (s_parityK s)"
  shows "length (filter (\<lambda>l. route_to d now l = Forward) (legs_of s n)) = 1"
proof -
  have route: "route_to d now (s\<lparr>s_stripeLeg := True, s_stripeN := n, s_stripeMember := of_nat j\<rparr>) = Forward
      \<longleftrightarrow> j = unat ord mod unat n" if "j < unat n" for j
  proof -
    have "j < 256" using that unat_byte_less [of n] by linarith
    then show ?thesis
      using assms by (subst route_leg) (simp_all add: leg_wants_unat eq_commute)
  qed
  have less: "unat ord mod unat n < unat n"
    using assms(2) by (intro mod_less_divisor) (simp add: unat_gt_0)
  have "filter (\<lambda>l. route_to d now l = Forward) (legs_of s n) =
      map (\<lambda>j. s\<lparr>s_stripeLeg := True, s_stripeN := n, s_stripeMember := of_nat j\<rparr>)
        (filter (\<lambda>j. j = unat ord mod unat n) [0..<unat n])"
    unfolding legs_of_def filter_map o_def by (rule arg_cong [OF filter_cong [OF refl]]) (use route in auto)
  also have "length \<dots> = card {i. i < unat n \<and> [0..<unat n] ! i = unat ord mod unat n}"
    by (simp add: length_filter_conv_card)
  also have "{i. i < unat n \<and> [0..<unat n] ! i = unat ord mod unat n} = {unat ord mod unat n}" using less by auto
  finally show ?thesis by simp
qed

lemma legs_forward_nothing_else:
  assumes "\<not> s_internal s" "deltaOrdinal d = None \<or> \<not> within_prefix d (s_parityK s)"
  shows "filter (\<lambda>l. route_to d now l = Forward) (legs_of s n) = []"
  using assms by (auto simp: legs_of_def filter_empty_conv route_leg split: option.splits)

subsection \<open>Notices of undeliverable video are rationed\<close>

text \<open>Successive hand-off outcomes of one subscriber and the instants of the notices they cause.\<close>

type_synonym outcome = "instant \<times> bool \<times> instant \<times> bool \<times> bool"

fun notice_times :: "duration \<Rightarrow> outcome list \<Rightarrow> Subscriber \<Rightarrow> instant list" where
  "notice_times after [] s = []"
| "notice_times after ((handedAt, anyByte, now, bw, sent) # es) s =
     (let s' = fst (noteKeyframeOutcome after handedAt anyByte now bw sent s) in
      (if s_undeliverableNotices s' \<noteq> s_undeliverableNotices s then [now] else []) @ notice_times after es s')"

lemma sideband_notices [simp]:
  "s_undeliverableNotices (fst (sendSidebandDatagram bw sent d s)) = s_undeliverableNotices s"
  "s_episodeNotices (fst (sendSidebandDatagram bw sent d s)) = s_episodeNotices s"
  "s_undeliverableNoticeAt (fst (sendSidebandDatagram bw sent d s)) = s_undeliverableNoticeAt s"
  by (simp_all add: sendSidebandDatagram_def sub_bump_def)

lemma outcome_notice:
  assumes "s' = fst (noteKeyframeOutcome after handedAt anyByte now bw sent s)"
  shows "s_undeliverableNotices s' \<noteq> s_undeliverableNotices s \<and> \<not> anyByte \<and>
      s_episodeNotices s < UndeliverableMaxNotices \<and> s_episodeNotices s' = s_episodeNotices s + 1 \<and>
      s_undeliverableNoticeAt s' = now \<and>
      (s_undeliverableNoticeAt s = zero_time \<or> UndeliverableNoticeInterval \<le> time_sub now (s_undeliverableNoticeAt s))
    \<or> s_undeliverableNotices s' = s_undeliverableNotices s \<and> s_undeliverableNoticeAt s' = s_undeliverableNoticeAt s \<and>
      (s_episodeNotices s' = s_episodeNotices s \<or> anyByte \<and> s_episodeNotices s' = 0)"
  unfolding assms noteKeyframeOutcome_def by (auto simp: Let_def)

lemma time_sub_ge: "0 \<le> d \<Longrightarrow> d \<le> time_sub t u \<Longrightarrow> d \<le> maxDuration \<Longrightarrow> u + d \<le> t"
  by (auto simp: time_sub_def max_def min_def minDuration_def split: if_splits)

lemma interval_small: "0 \<le> UndeliverableNoticeInterval" "UndeliverableNoticeInterval \<le> maxDuration"
  by (simp_all add: UndeliverableNoticeInterval_def Second_def maxDuration_def)

lemma notices_apart:
  assumes "\<forall>e\<in>set es. fst (snd (snd e)) \<noteq> zero_time"
  shows "sorted_wrt (\<lambda>t u. t + UndeliverableNoticeInterval \<le> u)
    ((if s_undeliverableNoticeAt s = zero_time then [] else [s_undeliverableNoticeAt s]) @ notice_times after es s)"
  using assms
proof (induction after es s rule: notice_times.induct)
  case (2 after handedAt anyByte now bw sent es s)
  define s' where "s' = fst (noteKeyframeOutcome after handedAt anyByte now bw sent s)"
  have IH: "sorted_wrt (\<lambda>t u. t + UndeliverableNoticeInterval \<le> u)
      ((if s_undeliverableNoticeAt s' = zero_time then [] else [s_undeliverableNoticeAt s']) @ notice_times after es s')"
    by (rule 2(1) [OF s'_def]) (use 2(2) in simp)
  show ?case
  proof (cases "s_undeliverableNotices s' = s_undeliverableNotices s")
    case True
    then show ?thesis
      using IH outcome_notice [OF refl, of after handedAt anyByte now bw sent s] by (auto simp: s'_def [symmetric] Let_def)
  next
    case False
    then have n: "s_undeliverableNoticeAt s' = now" "s_undeliverableNoticeAt s = zero_time \<or>
        s_undeliverableNoticeAt s + UndeliverableNoticeInterval \<le> now"
      using outcome_notice [OF refl, of after handedAt anyByte now bw sent s] time_sub_ge [OF interval_small(1) _ interval_small(2)]
      by (auto simp: s'_def [symmetric])
    have "now \<noteq> zero_time" using 2(2) by simp
    with IH n(1) have "sorted_wrt (\<lambda>t u. t + UndeliverableNoticeInterval \<le> u) (now # notice_times after es s')" by simp
    moreover have "s_undeliverableNoticeAt s + UndeliverableNoticeInterval \<le> u"
      if "s_undeliverableNoticeAt s \<noteq> zero_time" "u \<in> set (notice_times after es s')" for u
      using calculation that n(2) interval_small(1) by fastforce
    ultimately show ?thesis using False n(2) by (auto simp: s'_def [symmetric] Let_def)
  qed
qed simp

lemma notices_per_episode:
  assumes "\<forall>e\<in>set es. \<not> fst (snd e)" "s_episodeNotices s \<le> UndeliverableMaxNotices"
  shows "int (length (notice_times after es s)) \<le> UndeliverableMaxNotices - s_episodeNotices s"
  using assms
proof (induction after es s rule: notice_times.induct)
  case (2 after handedAt anyByte now bw sent es s)
  have "\<not> anyByte" using 2(2) by simp
  with outcome_notice [OF refl, of after handedAt anyByte now bw sent s] 2(1) [OF refl] 2(2,3)
  show ?case by (auto simp: Let_def)
qed simp

end
