(* ===== verification/HubLifecycle.thy ===== *)
theory HubLifecycle
  imports HubSubscriber
begin

section \<open>The life of broadcasts (\<^verbatim>\<open>hub/hub.go\<close>)\<close>

text \<open>
  Claiming, taking over and releasing the publisher slot, the grace timer, the removals,
  the subscribe checks and the subscriber's end.  Each definition is one critical section
  of the registry's lock; a handler that takes the lock twice is two definitions.  Effects
  come in the order of the calls; the closes after a removal are effects, and each of them
  leads to \<open>close_begin\<close> and \<open>close_fold\<close> steps of its subscriber.
\<close>

definition CloseCodeBroadcastEnded :: u32 where "CloseCodeBroadcastEnded = 4000"
definition CloseCodePublisherSuperseded :: u32 where "CloseCodePublisherSuperseded = 4004"
definition CloseCodeStripeLegOrphaned :: u32 where "CloseCodeStripeLegOrphaned = 4005"
definition CloseCodeTerminatedByOperator :: u32 where "CloseCodeTerminatedByOperator = 4006"
definition CloseCodeBroadcasterStopped :: u32 where "CloseCodeBroadcasterStopped = 4014"
definition ViewerCountKeepalive :: duration where "ViewerCountKeepalive = 5 * Second"

subsection \<open>Legs of the ingress window\<close>

definition ingressLeg :: "broadcastHub \<Rightarrow> ingressLeg" where
  "ingressLeg b =
     (if h_edge b then legEdge
      else if h_publisherKind b = PublisherKindPopLeg then legPop else legBroadcaster)"

definition foldIngressLocked :: "href \<Rightarrow> Registry \<Rightarrow> Registry" where
  "foldIngressLocked b r =
     (let leg = ingressLeg (hub_of r b) in
      r\<lparr>totalIngress := (totalIngress r)(leg := tally_add (totalIngress r leg) (h_ingressLoss (hub_of r b)))\<rparr>)"

definition setPublisherKindLocked :: "href \<Rightarrow> publisher_kind \<Rightarrow> Registry \<Rightarrow> Registry" where
  "setPublisherKindLocked b kind r =
     (if h_publisherKind (hub_of r b) = kind then r
      else
        let r = foldIngressLocked b r;
            r = upd_hub b (\<lambda>h. h\<lparr>h_ingressLoss := zero_tally\<rparr>) r
        in upd_hub b (\<lambda>h. h\<lparr>h_publisherKind := kind\<rparr>) r)"

definition setRoleLocked :: "href \<Rightarrow> bool \<Rightarrow> Registry \<Rightarrow> Registry" where
  "setRoleLocked b edge r =
     (if h_edge (hub_of r b) = edge then r
      else
        let r = foldIngressLocked b r;
            r = upd_hub b (\<lambda>h. h\<lparr>h_ingressLoss := zero_tally\<rparr>) r
        in upd_hub b (\<lambda>h. h\<lparr>h_edge := edge\<rparr>) r)"

subsection \<open>Hubs and the publisher slot\<close>

definition zero_counters :: counters where "zero_counters = (\<lambda>_. 0)"

definition empty_hub :: "bytes \<Rightarrow> instant \<Rightarrow> broadcastHub" where
  "empty_hub i now =
     \<lparr>h_id = i, h_publisherActive = False, h_publisherSessionID = [], h_publisherKind = Broadcaster,
      h_publisherEpoch = [], h_publisher = None, h_generation = 0, h_graceTimer = None,
      h_graceStart = zero_time, h_stalledSince = zero_time, h_stalledReported = False, h_edge = False,
      h_subs = [], h_cachedKeyframe = None, h_cachedKeyframeID = 0, h_cachedKeyframeHasConfig = False,
      h_keyframeSeq = 0, h_cachedClockMapping = None, h_cachedAudioConfig = None,
      h_cachedViewerCount = None, h_startedAt = now, h_publisherLeftAt = zero_time, h_peakViewers = 0,
      h_dvr = None, h_dvrAudio = None, h_lastViewerCount = 0, h_lastViewerCountEmitAt = zero_time,
      h_viewerCountEverEmitted = False, h_count = zero_counters, h_ingress = new_window,
      h_ingressLoss = zero_tally\<rparr>"

definition newHubLocked :: "bytes \<Rightarrow> instant \<Rightarrow> Registry \<Rightarrow> href \<times> Registry" where
  "newHubLocked i now r =
     (let b = next_hub r in
      (b, r\<lparr>hub_heap := (hub_heap r)(b := empty_hub i now), next_hub := Suc b,
            hubs := AList.update i b (hubs r)\<rparr>))"

text \<open>\<open>epoch\<close> is what \<^verbatim>\<open>newPublisherEpoch\<close> draws.\<close>

definition claimPublisherLocked ::
  "href \<Rightarrow> bytes \<Rightarrow> instant \<Rightarrow> Registry \<Rightarrow> (hub_error + pref) \<times> Registry" where
  "claimPublisherLocked b epoch now r =
     (if h_publisherActive (hub_of r b) then (Inl ErrPublisherActive, r)
      else
        let r = upd_hub b (\<lambda>h. if h_graceTimer h \<noteq> None then h\<lparr>h_graceTimer := None, h_graceStart := zero_time\<rparr> else h) r;
            r = upd_hub b (\<lambda>h. h\<lparr>h_publisherActive := True, h_publisherSessionID := []\<rparr>) r;
            r = setPublisherKindLocked b Broadcaster r;
            r = upd_hub b (\<lambda>h. h\<lparr>h_publisherEpoch := epoch, h_generation := h_generation h + 1,
                  h_stalledSince := zero_time,
                  h_cachedKeyframe := None, h_cachedKeyframeID := 0, h_cachedKeyframeHasConfig := False,
                  h_cachedClockMapping := None, h_cachedAudioConfig := None, h_cachedViewerCount := None,
                  h_viewerCountEverEmitted := False, h_ingress := reset_window (h_ingress h)\<rparr>) r;
            p = next_pub r;
            r = r\<lparr>pub_heap := (pub_heap r)(p := \<lparr>p_hub = b, p_closed = False,
                    p_generation = h_generation (hub_of r b), p_conn = False, p_send = False,
                    p_lastSeen = now, p_uplinkCarriersOpen = 0\<rparr>),
                  next_pub := Suc p\<rparr>;
            r = upd_hub b (\<lambda>h. h\<lparr>h_publisher := Some p\<rparr>) r
        in (Inr p, r))"

text \<open>
  \<open>draws\<close> are the identifiers \<^verbatim>\<open>broadcastid.Mint\<close> returns, at most ten of which are tried.
\<close>

fun drawIDLocked :: "nat \<Rightarrow> bytes list \<Rightarrow> Registry \<Rightarrow> hub_error + bytes" where
  "drawIDLocked 0 draws r = Inl ErrMintCollisions"
| "drawIDLocked (Suc n) [] r = Inl ErrMintCollisions"
| "drawIDLocked (Suc n) (i # draws) r =
     (if lookup r i = None \<and> \<not> o_IDReserved (opts r) i then Inr i else drawIDLocked n draws r)"

definition MintUnusedID :: "bytes list \<Rightarrow> Registry \<Rightarrow> hub_error + bytes" where
  "MintUnusedID draws r = drawIDLocked 10 draws r"

text \<open>The capacity check every creation of an origin hub makes.\<close>

definition at_capacity :: "Registry \<Rightarrow> bool" where
  "at_capacity r \<longleftrightarrow> o_MaxBroadcasts (opts r) > 0 \<and> int (length (hubs r)) \<ge> o_MaxBroadcasts (opts r)"

type_synonym publish_result = "(hub_error + bytes \<times> pref) \<times> Registry \<times> effect list"

definition finish_claim ::
  "bytes \<Rightarrow> href \<Rightarrow> bool \<Rightarrow> bytes \<Rightarrow> instant \<Rightarrow> effect list \<Rightarrow> Registry \<Rightarrow> publish_result" where
  "finish_claim i b edge epoch now out r =
     (case claimPublisherLocked b epoch now r of
        (Inl e, r) \<Rightarrow> (Inl e, r, [])
      | (Inr p, r) \<Rightarrow> (Inr (i, p), setRoleLocked b edge r, out))"

definition StartPublish :: "bytes \<Rightarrow> bytes list \<Rightarrow> bytes \<Rightarrow> instant \<Rightarrow> Registry \<Rightarrow> publish_result" where
  "StartPublish i draws epoch now r =
     (if i \<noteq> [] then
        (case Normalize i of
           Inl _ \<Rightarrow> (Inl ErrNotFound, r, [])
         | Inr i \<Rightarrow>
             (case lookup r i of
                None \<Rightarrow> (Inl ErrNotFound, r, [])
              | Some b \<Rightarrow> finish_claim i b False epoch now [BusStarted i] r))
      else if at_capacity r then (Inl ErrMaxBroadcasts, r, [])
      else
        (case drawIDLocked 10 draws r of
           Inl e \<Rightarrow> (Inl e, r, [])
         | Inr i \<Rightarrow>
             let (_, r) = newHubLocked i now r in
             (case lookup r i of
                None \<Rightarrow> (Inl ErrNotFound, r, [])
              | Some b \<Rightarrow> finish_claim i b False epoch now [BusStarted i] r)))"

definition ResumePublish :: "bytes \<Rightarrow> bytes \<Rightarrow> instant \<Rightarrow> Registry \<Rightarrow> publish_result" where
  "ResumePublish i epoch now r =
     (case Normalize i of
        Inl _ \<Rightarrow> (Inl ErrNotFound, r, [])
      | Inr i \<Rightarrow>
          (case lookup r i of
             Some b \<Rightarrow> finish_claim i b False epoch now [BusStarted i] r
           | None \<Rightarrow>
               if at_capacity r then (Inl ErrMaxBroadcasts, r, [])
               else let (b, r) = newHubLocked i now r in finish_claim i b False epoch now [BusStarted i] r))"

definition EdgePublish :: "bytes \<Rightarrow> bytes \<Rightarrow> instant \<Rightarrow> Registry \<Rightarrow> publish_result" where
  "EdgePublish i epoch now r =
     (case Normalize i of
        Inl _ \<Rightarrow> (Inl ErrNotFound, r, [])
      | Inr i \<Rightarrow>
          (let (b, r) = (case lookup r i of Some b \<Rightarrow> (b, r) | None \<Rightarrow> newHubLocked i now r)
           in finish_claim i b True epoch now [] r))"

definition CheckPublishNew :: "Registry \<Rightarrow> hub_error + unit" where
  "CheckPublishNew r = (if at_capacity r then Inl ErrMaxBroadcasts else Inr ())"

definition drop_primes :: "broadcastHub \<Rightarrow> broadcastHub" where
  "drop_primes h = h\<lparr>h_cachedKeyframe := None, h_cachedKeyframeID := 0, h_cachedKeyframeHasConfig := False,
     h_cachedClockMapping := None, h_cachedAudioConfig := None, h_cachedViewerCount := None\<rparr>"

definition InvalidatePrimes :: "bytes \<Rightarrow> Registry \<Rightarrow> Registry" where
  "InvalidatePrimes i r =
     (case Normalize i of
        Inl _ \<Rightarrow> r
      | Inr i \<Rightarrow> (case lookup r i of None \<Rightarrow> r | Some b \<Rightarrow> upd_hub b drop_primes r))"

definition TakeOverPublish :: "bytes \<Rightarrow> bytes \<Rightarrow> instant \<Rightarrow> Registry \<Rightarrow> publish_result" where
  "TakeOverPublish i epoch now r =
     (case Normalize i of
        Inl _ \<Rightarrow> (Inl ErrNotFound, r, [])
      | Inr i \<Rightarrow>
          (case lookup r i of
             None \<Rightarrow> (Inl ErrNotFound, r, [])
           | Some b \<Rightarrow>
               let (deposed, r) =
                     (case h_publisher (hub_of r b) of
                        Some old \<Rightarrow>
                          if h_publisherActive (hub_of r b) then
                            (Some old,
                             upd_hub b (\<lambda>h. h\<lparr>h_publisherActive := False, h_publisher := None\<rparr>)
                               (upd_pub old (\<lambda>p. p\<lparr>p_closed := True\<rparr>) r))
                          else (None, r)
                      | None \<Rightarrow> (None, r))
               in (case claimPublisherLocked b epoch now r of
                     (Inl e, r) \<Rightarrow> (Inl e, r, [])
                   | (Inr p, r) \<Rightarrow>
                       let r = setRoleLocked b False r in
                       (Inr (i, p), r,
                        (if deposed \<noteq> None then [BusEnded i BroadcastEndedReplaced] else []) @ [BusStarted i] @
                        (case deposed of Some old \<Rightarrow> if p_conn (pub_of r old) then [ClosePublisher old CloseCodePublisherSuperseded] else []
                         | None \<Rightarrow> [])))))"

subsection \<open>The publisher's handle\<close>

definition NoteSeen :: "pref \<Rightarrow> instant \<Rightarrow> Registry \<Rightarrow> Registry" where
  "NoteSeen p now r = upd_pub p (\<lambda>x. x\<lparr>p_lastSeen := now\<rparr>) r"

definition BindConn :: "pref \<Rightarrow> Registry \<Rightarrow> bool \<times> Registry" where
  "BindConn p r = (if p_closed (pub_of r p) then (False, r) else (True, upd_pub p (\<lambda>x. x\<lparr>p_conn := True\<rparr>) r))"

definition BindSend :: "pref \<Rightarrow> Registry \<Rightarrow> Registry" where
  "BindSend p r = (if p_closed (pub_of r p) then r else upd_pub p (\<lambda>x. x\<lparr>p_send := True\<rparr>) r)"

definition publisher_SetTelemetrySession :: "pref \<Rightarrow> bytes \<Rightarrow> Registry \<Rightarrow> Registry" where
  "publisher_SetTelemetrySession p sessionID r =
     (let b = p_hub (pub_of r p) in
      if sessionID = [] \<or> p_closed (pub_of r p) \<or> h_publisher (hub_of r b) \<noteq> Some p then r
      else upd_hub b (\<lambda>h. h\<lparr>h_publisherSessionID := sessionID\<rparr>) r)"

definition SetKind :: "pref \<Rightarrow> publisher_kind \<Rightarrow> Registry \<Rightarrow> Registry" where
  "SetKind p kind r =
     (let b = p_hub (pub_of r p) in
      if p_closed (pub_of r p) \<or> h_publisher (hub_of r b) \<noteq> Some p then r
      else setPublisherKindLocked b kind r)"

definition publisher_Close :: "pref \<Rightarrow> instant \<Rightarrow> Registry \<Rightarrow> Registry \<times> effect list" where
  "publisher_Close p now r =
     (if p_closed (pub_of r p) then (r, [])
      else
        let b = p_hub (pub_of r p);
            r = upd_pub p (\<lambda>x. x\<lparr>p_closed := True, p_send := False\<rparr>) r;
            r = upd_hub b (\<lambda>h. h\<lparr>h_publisherActive := False, h_publisherSessionID := []\<rparr>) r;
            r = setPublisherKindLocked b Broadcaster r;
            r = upd_hub b (\<lambda>h. h\<lparr>h_publisher := None, h_publisherLeftAt := now\<rparr>) r;
            r = (if o_BroadcastGrace (opts r) > 0
                 then upd_hub b (\<lambda>h. h\<lparr>h_graceStart := now, h_graceTimer := Some (h_generation h)\<rparr>) r else r)
        in (r, if \<not> h_edge (hub_of r b) then [OnPublisherClosed (h_id (hub_of r b))] else []))"

subsection \<open>Counting viewers\<close>

definition externalSubsLocked :: "Registry \<Rightarrow> href \<Rightarrow> int" where
  "externalSubsLocked r b = int (length (filter (\<lambda>s. \<not> s_internal (sub_of r s)) (h_subs (hub_of r b))))"

definition externalHumansLocked :: "Registry \<Rightarrow> href \<Rightarrow> int" where
  "externalHumansLocked r b =
     int (length (filter (\<lambda>s. \<not> s_internal (sub_of r s) \<and> \<not> s_stripeLeg (sub_of r s)) (h_subs (hub_of r b))))"

definition totalExternalSubsLocked :: "Registry \<Rightarrow> int" where
  "totalExternalSubsLocked r = sum_list (map (\<lambda>(_, b). externalSubsLocked r b) (hubs r))"

definition globalViewersLocked :: "Registry \<Rightarrow> href \<Rightarrow> u32" where
  "globalViewersLocked r b =
     (let g = fold (\<lambda>s (g :: u64). if s_internal (sub_of r s) then g + s_downstreamViewers (sub_of r s)
                    else if \<not> s_stripeLeg (sub_of r s) then g + 1 else g) (h_subs (hub_of r b)) 0
      in ucast (if g > 4294967295 then 4294967295 else g))"

definition edgeGlobalViewersLocked :: "Registry \<Rightarrow> href \<Rightarrow> int" where
  "edgeGlobalViewersLocked r b =
     (case h_cachedViewerCount (hub_of r b) of
        Some d \<Rightarrow> (case ParseViewerCount d of Inr g \<Rightarrow> int (unat g) | Inl _ \<Rightarrow> externalHumansLocked r b)
      | None \<Rightarrow> externalHumansLocked r b)"

subsection \<open>Stalls\<close>

definition silentForLocked :: "Registry \<Rightarrow> href \<Rightarrow> instant \<Rightarrow> duration" where
  "silentForLocked r b now =
     (case h_publisher (hub_of r b) of
        Some p \<Rightarrow> if h_publisherActive (hub_of r b) then time_sub now (p_lastSeen (pub_of r p)) else 0
      | None \<Rightarrow> 0)"

definition stalledLocked :: "Registry \<Rightarrow> href \<Rightarrow> instant \<Rightarrow> bool" where
  "stalledLocked r b now \<longleftrightarrow>
     o_PublisherStallTimeout (opts r) > 0 \<and> \<not> h_edge (hub_of r b) \<and>
     silentForLocked r b now > o_PublisherStallTimeout (opts r)"

definition BroadcastState :: "bytes \<Rightarrow> instant \<Rightarrow> Registry \<Rightarrow> bool \<times> int \<times> bool" where
  "BroadcastState i now r =
     (case Normalize i of
        Inl _ \<Rightarrow> (False, 0, False)
      | Inr i \<Rightarrow>
          (case lookup r i of
             None \<Rightarrow> (False, 0, False)
           | Some b \<Rightarrow>
               if h_edge (hub_of r b)
               then (h_publisherActive (hub_of r b), edgeGlobalViewersLocked r b, True)
               else (h_publisherActive (hub_of r b) \<and> \<not> stalledLocked r b now,
                     int (unat (globalViewersLocked r b)), True)))"

subsection \<open>Removals\<close>

text \<open>The counters \<^verbatim>\<open>removeBroadcast\<close> folds into the totals, in the order of its lines.\<close>

definition removed_counters :: "counter list" where
  "removed_counters =
     [FramesRelayed, DatagramsRelayed, DatagramsDropped, BadDatagrams, BandwidthDroppedDatagrams,
      BandwidthDroppedBytes, KeyframeStreamsIn, KeyframeBytesIn, KeyframeStreamsOversize, KeyframeStreamsSent,
      KeyframeDropsSuperseded, KeyframeDropsSlow, KeyframeDropsBandwidth, KeyframeDropsOpenFailed,
      SendErrors, IngressDatagramBytes, EgressDatagramBytes, EgressKeyframeBytes, CarrierStreams, CarrierRecords,
      CarrierRecordsDropped, CarrierQueueOverflow, DVRResyncs, EgressCarrierBytes, ParityDatagramsForwarded,
      ParitySuppressed, EgressParityBytes, StripeSuppressedDatagrams, StripeTransitions, StripeLegsReaped,
      UplinkCarriers, UplinkRecords, UplinkRecordsStale, UplinkCarriersRejected]"

definition end_reason_of :: "u32 \<Rightarrow> end_reason" where
  "end_reason_of code =
     (if code = CloseCodeTerminatedByOperator then BroadcastEndedKilled
      else if code = CloseCodeBroadcasterStopped then BroadcastEndedStopped else BroadcastEndedGC)"

definition removeBroadcast ::
  "bytes \<Rightarrow> (Registry \<Rightarrow> href \<Rightarrow> bool) \<Rightarrow> bool \<Rightarrow> u32 \<Rightarrow> instant \<Rightarrow> Registry \<Rightarrow> bool \<times> Registry \<times> effect list" where
  "removeBroadcast i ok force code now r =
     (case lookup r i of
        None \<Rightarrow> (False, r, [])
      | Some b \<Rightarrow>
          if (\<not> force \<and> h_publisherActive (hub_of r b)) \<or> \<not> ok r b then (False, r, [])
          else
            let r = r\<lparr>hubs := AList.delete i (hubs r)\<rparr>;
                h = hub_of r b;
                ended = (if \<not> h_edge h \<and> (h_publisherActive h \<or> h_publisherLeftAt h \<noteq> zero_time) then
                           (let endAt = (if h_publisherActive h then now else h_publisherLeftAt h)
                            in [OnOriginEnded (max (time_sub endAt (h_startedAt h)) 0)
                                  (max (h_peakViewers h) (globalViewersLocked r b))])
                         else []);
                deposed = (if h_publisherActive h then h_publisher h else None);
                r = (case deposed of Some old \<Rightarrow> upd_pub old (\<lambda>p. p\<lparr>p_closed := True\<rparr>) r | None \<Rightarrow> r);
                r = upd_hub b (\<lambda>h. h\<lparr>h_publisherActive := False, h_publisherSessionID := []\<rparr>) r;
                r = setPublisherKindLocked b Broadcaster r;
                r = upd_hub b (\<lambda>h. h\<lparr>h_publisher := None\<rparr>) r;
                r = r\<lparr>totals := add_counters removed_counters (h_count (hub_of r b)) (totals r)\<rparr>;
                r = foldIngressLocked b r;
                r = upd_hub b (\<lambda>h. drop_primes (h\<lparr>h_graceTimer := None, h_graceStart := zero_time\<rparr>)
                      \<lparr>h_dvr := None, h_dvrAudio := None\<rparr>) r;
                edge = h_edge (hub_of r b)
            in (True, r,
                (case deposed of Some old \<Rightarrow> if p_conn (pub_of r old) then [ClosePublisher old code] else [] | None \<Rightarrow> []) @
                concat (map (\<lambda>s. [CloseSession s code, CloseSubscriber s]) (h_subs (hub_of r b))) @
                (if \<not> edge then [OnBroadcastExpired i] else []) @ ended @
                (if \<not> edge then [BusEnded i (end_reason_of code)] else [])))"

definition expireBroadcast ::
  "bytes \<Rightarrow> (Registry \<Rightarrow> href \<Rightarrow> bool) \<Rightarrow> instant \<Rightarrow> Registry \<Rightarrow> bool \<times> Registry \<times> effect list" where
  "expireBroadcast i ok now r = removeBroadcast i ok False CloseCodeBroadcastEnded now r"

definition handleGraceExpiry :: "bytes \<Rightarrow> u64 \<Rightarrow> instant \<Rightarrow> Registry \<Rightarrow> bool \<times> Registry \<times> effect list" where
  "handleGraceExpiry i gen now r = expireBroadcast i (\<lambda>r b. h_generation (hub_of r b) = gen) now r"

definition EndBroadcast :: "bytes \<Rightarrow> instant \<Rightarrow> Registry \<Rightarrow> bool \<times> Registry \<times> effect list" where
  "EndBroadcast i now r =
     (case Normalize i of Inl _ \<Rightarrow> (False, r, []) | Inr i \<Rightarrow> expireBroadcast i (\<lambda>_ _. True) now r)"

definition EndBroadcastWithCode :: "bytes \<Rightarrow> u32 \<Rightarrow> instant \<Rightarrow> Registry \<Rightarrow> bool \<times> Registry \<times> effect list" where
  "EndBroadcastWithCode i code now r =
     (case Normalize i of Inl _ \<Rightarrow> (False, r, []) | Inr i \<Rightarrow> removeBroadcast i (\<lambda>_ _. True) False code now r)"

definition ExpireEdgeIfViewerless :: "bytes \<Rightarrow> instant \<Rightarrow> Registry \<Rightarrow> bool \<times> Registry \<times> effect list" where
  "ExpireEdgeIfViewerless i now r =
     (case Normalize i of
        Inl _ \<Rightarrow> (True, r, [])
      | Inr i \<Rightarrow>
          (case expireBroadcast i (\<lambda>r b. h_edge (hub_of r b) \<and> h_subs (hub_of r b) = []) now r of
             (True, r, out) \<Rightarrow> (True, r, out)
           | (False, r, out) \<Rightarrow> (lookup r i = None, r, out)))"

definition TerminateBroadcast :: "bytes \<Rightarrow> u32 \<Rightarrow> instant \<Rightarrow> Registry \<Rightarrow> bool \<times> Registry \<times> effect list" where
  "TerminateBroadcast i code now r =
     (case Normalize i of Inl _ \<Rightarrow> (False, r, []) | Inr i \<Rightarrow> removeBroadcast i (\<lambda>_ _. True) True code now r)"

text \<open>The removal \<^verbatim>\<open>Stop\<close> makes after its \<^verbatim>\<open>Close\<close>.\<close>

definition publisher_Stop :: "pref \<Rightarrow> instant \<Rightarrow> Registry \<Rightarrow> bool \<times> Registry \<times> effect list" where
  "publisher_Stop p now r =
     (let (r, out) = publisher_Close p now r;
          b = p_hub (pub_of r p); gen = p_generation (pub_of r p);
          (removed, r, out') = removeBroadcast (h_id (hub_of r b))
            (\<lambda>r cur. cur = b \<and> h_generation (hub_of r cur) = gen) False CloseCodeBroadcasterStopped now r
      in (removed, r, out @ out'))"

text \<open>
  The sweep's pass under the lock over one hub: the transition it reports and whether the
  broadcast is to be ended.  The removals follow after the lock.
\<close>

definition sweep_hub :: "instant \<Rightarrow> bytes \<Rightarrow> href \<Rightarrow> Registry \<Rightarrow> Registry \<times> (bytes \<times> bool) list \<times> bytes list" where
  "sweep_hub now i b r =
     (let stalled = stalledLocked r b now;
          report = (stalled \<noteq> h_stalledReported (hub_of r b) \<and> \<not> h_edge (hub_of r b));
          r = (if report then upd_hub b (\<lambda>h. h\<lparr>h_stalledReported := stalled\<rparr>) r else r);
          transitions = (if report then [(i, stalled)] else [])
      in if \<not> stalled then (upd_hub b (\<lambda>h. h\<lparr>h_stalledSince := zero_time\<rparr>) r, transitions, [])
         else
           let r = (if h_stalledSince (hub_of r b) = zero_time then upd_hub b (\<lambda>h. h\<lparr>h_stalledSince := now\<rparr>) r else r)
           in (r, transitions,
               if o_PublisherStallEnds (opts r) \<and> o_BroadcastGrace (opts r) > 0 \<and>
                  silentForLocked r b now \<ge> o_BroadcastGrace (opts r) then [i] else []))"

fun sweep_hubs :: "instant \<Rightarrow> (bytes \<times> href) list \<Rightarrow> Registry \<Rightarrow> Registry \<times> (bytes \<times> bool) list \<times> bytes list" where
  "sweep_hubs now [] r = (r, [], [])"
| "sweep_hubs now ((i, b) # hs) r =
     (let (r, t, k) = sweep_hub now i b r; (r, ts, ks) = sweep_hubs now hs r in (r, t @ ts, k @ ks))"

fun sweep_kicks :: "instant \<Rightarrow> bytes list \<Rightarrow> Registry \<Rightarrow> Registry \<times> effect list" where
  "sweep_kicks now [] r = (r, [])"
| "sweep_kicks now (i # ks) r =
     (let (_, r, out) = TerminateBroadcast i CloseCodeBroadcastEnded now r; (r, out') = sweep_kicks now ks r
      in (r, out @ out'))"

definition SweepStalledPublishers :: "instant \<Rightarrow> Registry \<Rightarrow> Registry \<times> effect list" where
  "SweepStalledPublishers now r =
     (let (r, transitions, kicks) = sweep_hubs now (hubs r) r;
          (r, out) = sweep_kicks now kicks r
      in (r, map (\<lambda>(i, st). OnPublisherStalled i st) transitions @
             map (\<lambda>(i, st). BusStalled i st) transitions @ out))"

subsection \<open>Subscribing\<close>

definition CheckSubscribe :: "bytes \<Rightarrow> Registry \<Rightarrow> hub_error + unit" where
  "CheckSubscribe i r =
     (case Normalize i of
        Inl _ \<Rightarrow> Inl ErrNotFound
      | Inr i \<Rightarrow>
          (case lookup r i of
             None \<Rightarrow> Inl ErrNotFound
           | Some b \<Rightarrow>
               if externalSubsLocked r b \<ge> o_MaxSubscribers (opts r) then Inl ErrFull
               else if o_MaxTotalSubscribers (opts r) > 0 \<and>
                 totalExternalSubsLocked r \<ge> o_MaxTotalSubscribers (opts r) then Inl ErrTotalSubscribers
               else Inr ()))"

record subscribeOpts =
  so_internal :: bool
  so_reliable :: bool
  so_dvr :: bool
  so_bufferMs :: int
  so_parityK :: int
  so_parityRequested :: int
  so_stripeLeg :: bool
  so_stripeN :: byte
  so_stripeMember :: byte
  so_owner :: bytes
  so_leg :: bool
  so_legCarrier :: bool

definition new_subscriber :: "href \<Rightarrow> subscribeOpts \<Rightarrow> bytes \<Rightarrow> Options \<Rightarrow> Subscriber" where
  "new_subscriber b so ownerKey opt =
     \<lparr>s_hub = b, s_internal = so_internal so, s_reliable = so_reliable so, s_parityK = so_parityK so,
      s_parityRequested = so_parityRequested so, s_stripeLeg = so_stripeLeg so, s_stripeN = so_stripeN so,
      s_stripeMember = so_stripeMember so, s_stripeUntil = 0, s_stripeNInfo = 0, s_owner = so_owner so,
      s_ownerKey = ownerKey, s_legLastInbound = 0, s_downstreamViewers = 0, s_closed = False, s_closing = False,
      s_queue = [], s_queueCap = nat (o_QueueDepth opt),
      s_audioQueue = (if (so_reliable so \<and> \<not> so_legCarrier so) \<or>
          (o_LiveEdgeAudioOnReliableStream opt \<and> \<not> so_internal so \<and> \<not> so_stripeLeg so) then Some [] else None),
      s_kfCurrent = None, s_kfLastSeq = 0, s_kfConsecOpenFailed = 0, s_kfConsecSlow = 0,
      s_carConsecOpenFailed = 0, s_evicting = False, s_undelivered = 0, s_undeliveredSince = zero_time,
      s_kfNewestID = 0, s_undeliverableNoticeAt = zero_time, s_episodeNotices = 0, s_undeliverableNotices = 0,
      s_carRotations = 0, s_carCurrent = None, s_carDeadRotation = 0, s_leg = so_leg so,
      s_legCarrier = so_legCarrier so, s_legWriting = False, s_legKfID = 0, s_dvr = None,
      s_dvrCursor = \<lparr>c_gopSeq = 0, c_recordIdx = 0\<rparr>, s_dvrBufferMs = 0, s_dvrLagMs = 0, s_dvrProgressAt = 0,
      s_dvrCursorAtMs = 0, s_dvrGopSeq = 0, s_dvrAudio = None, s_dvrAudioCur = 0, s_count = zero_counters\<rparr>"

text \<open>The first DVR subscriber of a broadcast allocates its rings, seeded with the cached keyframe.\<close>

definition ensure_rings :: "href \<Rightarrow> instant \<Rightarrow> Registry \<Rightarrow> Registry" where
  "ensure_rings b now r =
     (if h_dvr (hub_of r b) \<noteq> None then r
      else
        let k = next_ring r;
            r = r\<lparr>ring_heap := (ring_heap r)(k := NewDVRRing (o_DVR (opts r))), next_ring := Suc k\<rparr>;
            r = upd_hub b (\<lambda>h. h\<lparr>h_dvr := Some k\<rparr>) r;
            r = (if o_DVRAudio (opts r)
                 then upd_hub b (\<lambda>h. h\<lparr>h_dvrAudio := Some k\<rparr>)
                        (r\<lparr>audio_heap := (audio_heap r)(k := NewDVRAudioRing (o_DVR (opts r)))\<rparr>)
                 else r)
        in case h_cachedKeyframe (hub_of r b) of
             Some msg \<Rightarrow> upd_ring k (AppendKeyframe msg now) r
           | None \<Rightarrow> r)"

definition attach_dvr :: "href \<Rightarrow> sref \<Rightarrow> int \<Rightarrow> instant \<Rightarrow> Registry \<Rightarrow> Registry" where
  "attach_dvr b s bufferMs now r =
     (let r = ensure_rings b now r;
          k = the (h_dvr (hub_of r b));
          r = upd_sub s (\<lambda>x. x\<lparr>s_dvr := Some k, s_dvrBufferMs := bufferMs,
                s_dvrCursor := NewCursor (ring_heap r k)\<rparr>) r
      in case h_dvrAudio (hub_of r b) of
           Some j \<Rightarrow> upd_sub s (\<lambda>x. x\<lparr>s_dvrAudio := Some j, s_dvrAudioCur := Newest (audio_heap r j)\<rparr>) r
         | None \<Rightarrow> r)"

definition enqueue_prime :: "sref \<Rightarrow> bytes option \<Rightarrow> Registry \<Rightarrow> Registry" where
  "enqueue_prime s d r = (case d of Some m \<Rightarrow> upd_sub s (enqueueLocked m) r | None \<Rightarrow> r)"

text \<open>
  What \<^verbatim>\<open>subscribe\<close> does once the caps admit it: the new subscriber is put in the
  set (\<open>seat_subscriber\<close>), then primed with the cached datagrams.
\<close>

definition seat_subscriber :: "href \<Rightarrow> subscribeOpts \<Rightarrow> bytes \<Rightarrow> instant \<Rightarrow> Registry \<Rightarrow> Registry" where
  "seat_subscriber b so ownerKey now r =
     (let s = next_sub r;
          r = r\<lparr>sub_heap := (sub_heap r)(s := new_subscriber b so ownerKey (opts r)), next_sub := Suc s\<rparr>;
          r = (if so_dvr so then attach_dvr b s (so_bufferMs so) now r else r)
      in upd_hub b (\<lambda>h. h\<lparr>h_subs := s # h_subs h\<rparr>) r)"

definition prime_subscriber :: "href \<Rightarrow> sref \<Rightarrow> subscribeOpts \<Rightarrow> instant \<Rightarrow> Registry \<Rightarrow> Registry" where
  "prime_subscriber b s so now r =
     (if so_stripeLeg so then upd_sub s (\<lambda>x. x\<lparr>s_legLastInbound := now\<rparr>) r
      else
        let h = hub_of r b;
            r = enqueue_prime s (h_cachedClockMapping h) r;
            r = enqueue_prime s (h_cachedViewerCount h) r
        in enqueue_prime s (h_cachedAudioConfig h) r)"

definition subscribe_opts ::
  "bytes \<Rightarrow> subscribeOpts \<Rightarrow> instant \<Rightarrow> Registry \<Rightarrow> (hub_error + sref) \<times> Registry \<times> effect list" where
  "subscribe_opts i so now r =
     (let ownerKey = (if so_owner so \<noteq> [] \<and> o_StripedDelivery (opts r) then stripeOwnerKey (statsKey r) (so_owner so) else [])
      in case Normalize i of
        Inl _ \<Rightarrow> (Inl ErrNotFound, r, [])
      | Inr i \<Rightarrow>
          (case lookup r i of
             None \<Rightarrow> (Inl ErrNotFound, r, [])
           | Some b \<Rightarrow>
               if \<not> so_internal so \<and> externalSubsLocked r b \<ge> o_MaxSubscribers (opts r) then (Inl ErrFull, r, [])
               else if \<not> so_internal so \<and> o_MaxTotalSubscribers (opts r) > 0 \<and>
                 totalExternalSubsLocked r \<ge> o_MaxTotalSubscribers (opts r) then (Inl ErrTotalSubscribers, r, [])
               else
                 let s = next_sub r;
                     r = seat_subscriber b so ownerKey now r;
                     r = prime_subscriber b s so now r;
                     prime = (case h_cachedKeyframe (hub_of r b) of
                                Some msg \<Rightarrow> if s_dvr (sub_of r s) = None \<and> \<not> so_stripeLeg so
                                  then [HandKeyframe s msg (h_keyframeSeq (hub_of r b))] else []
                              | None \<Rightarrow> [])
                 in (Inr s, r, prime)))"

definition plain_opts :: subscribeOpts where
  "plain_opts = \<lparr>so_internal = False, so_reliable = False, so_dvr = False, so_bufferMs = 0, so_parityK = 0,
     so_parityRequested = 0, so_stripeLeg = False, so_stripeN = 0, so_stripeMember = 0, so_owner = [],
     so_leg = False, so_legCarrier = False\<rparr>"

definition Subscribe where "Subscribe i = subscribe_opts i plain_opts"
definition SubscribeInternal where "SubscribeInternal i = subscribe_opts i (plain_opts\<lparr>so_internal := True\<rparr>)"
definition SubscribeReliable where
  "SubscribeReliable i k = subscribe_opts i (plain_opts\<lparr>so_reliable := True, so_parityK := k, so_parityRequested := k\<rparr>)"
definition SubscribeDVR where
  "SubscribeDVR i bufferMs k = subscribe_opts i (plain_opts\<lparr>so_reliable := True, so_dvr := True,
     so_bufferMs := bufferMs, so_parityK := k, so_parityRequested := k\<rparr>)"
definition SubscribeParity where
  "SubscribeParity i k owner = subscribe_opts i (plain_opts\<lparr>so_parityK := k, so_parityRequested := k, so_owner := owner\<rparr>)"
definition SubscribeLeg where
  "SubscribeLeg i carrier = subscribe_opts i (if carrier
     then plain_opts\<lparr>so_internal := True, so_leg := True, so_reliable := True, so_legCarrier := True\<rparr>
     else plain_opts\<lparr>so_internal := True, so_leg := True\<rparr>)"

definition SubscribeStripeLeg ::
  "bytes \<Rightarrow> StripeLeg \<Rightarrow> int \<Rightarrow> instant \<Rightarrow> Registry \<Rightarrow> (hub_error + sref) \<times> Registry \<times> effect list" where
  "SubscribeStripeLeg i leg k now r =
     (if sl_N leg < 1 \<or> sl_N leg > int (unat MaxStripeLegs) \<or> sl_Member leg < 0 \<or> sl_Member leg \<ge> sl_N leg
      then (Inl ErrStripe, r, [])
      else if \<not> ValidOwnerToken (sl_Owner leg) then (Inl ErrStripe, r, [])
      else subscribe_opts i (plain_opts\<lparr>so_stripeLeg := True, so_stripeN := word_of_int (sl_N leg),
             so_stripeMember := word_of_int (sl_Member leg), so_owner := sl_Owner leg,
             so_parityK := k, so_parityRequested := k\<rparr>) now r)"

subsection \<open>The end of a subscriber\<close>

text \<open>The counters a subscriber keeps, folded when its drain has ended.\<close>

definition closed_counters :: "counter list" where
  "closed_counters =
     [StripeTransitions, DatagramsDropped, KeyframeStreamsSent,
      KeyframeDropsSuperseded, KeyframeDropsSlow, KeyframeDropsBandwidth, KeyframeDropsOpenFailed,
      SendErrors, EgressDatagramBytes, EgressParityBytes, EgressKeyframeBytes, CarrierStreams, CarrierRecords,
      CarrierRecordsDropped, CarrierQueueOverflow, EgressCarrierBytes, DVRResyncs]"

definition orphanedLegsLocked :: "sref \<Rightarrow> Registry \<Rightarrow> sref list \<times> Registry" where
  "orphanedLegsLocked s r =
     (let x = sub_of r s; b = s_hub x in
      if s_stripeLeg x \<or> s_internal x \<or> s_owner x = [] then ([], r)
      else if \<not> registered r b then ([], r)
      else
        let legs = filter (\<lambda>l. s_stripeLeg (sub_of r l) \<and> s_owner (sub_of r l) = s_owner x) (h_subs (hub_of r b))
        in (legs, if legs \<noteq> [] then upd_hub b (hub_bump StripeLegsReaped (of_nat (length legs))) r else r))"

text \<open>\<^verbatim>\<open>Close\<close> up to the release of the lock, with the closes of the legs it reaps.\<close>

definition close_begin :: "sref \<Rightarrow> Registry \<Rightarrow> Registry \<times> effect list" where
  "close_begin s r =
     (if s_closed (sub_of r s) then (r, [])
      else
        let b = s_hub (sub_of r s);
            r = upd_sub s (\<lambda>x. x\<lparr>s_closed := True, s_closing := True\<rparr>) r;
            r = upd_hub b (\<lambda>h. h\<lparr>h_subs := remove1 s (h_subs h)\<rparr>) r;
            (legs, r) = orphanedLegsLocked s r
        in (r, concat (map (\<lambda>l. [CloseSession l CloseCodeStripeLegOrphaned, CloseSubscriber l]) legs)))"

text \<open>Its second critical section, after both drains have finished.\<close>

definition close_fold :: "sref \<Rightarrow> Registry \<Rightarrow> Registry" where
  "close_fold s r =
     (if \<not> s_closing (sub_of r s) then r
      else
        let x = sub_of r s; b = s_hub x;
            r = (if registered r b
                 then upd_hub b (\<lambda>h. h\<lparr>h_count := add_counters closed_counters (s_count x) (h_count h)\<rparr>) r
                 else r\<lparr>totals := add_counters closed_counters (s_count x) (totals r)\<rparr>)
        in upd_sub s (\<lambda>x. x\<lparr>s_closing := False\<rparr>) r)"

text \<open>The leg lease: \<^verbatim>\<open>countStripeLegsReaped\<close>.\<close>

definition countStripeLegsReaped :: "href \<Rightarrow> u64 \<Rightarrow> Registry \<Rightarrow> Registry" where
  "countStripeLegsReaped b n r =
     (if registered r b then upd_hub b (hub_bump StripeLegsReaped n) r
      else r\<lparr>totals := bump StripeLegsReaped n (totals r)\<rparr>)"

definition countBandwidthDrop :: "href \<Rightarrow> int \<Rightarrow> Registry \<Rightarrow> Registry" where
  "countBandwidthDrop b n r =
     (if registered r b
      then upd_hub b (hub_bump BandwidthDroppedBytes (word_of_int n) \<circ> hub_bump BandwidthDroppedDatagrams 1) r
      else r\<lparr>totals := bump BandwidthDroppedBytes (word_of_int n) (bump BandwidthDroppedDatagrams 1 (totals r))\<rparr>)"

definition countBandwidthDropBytes :: "href \<Rightarrow> int \<Rightarrow> Registry \<Rightarrow> Registry" where
  "countBandwidthDropBytes b n r =
     (if registered r b then upd_hub b (hub_bump BandwidthDroppedBytes (word_of_int n)) r
      else r\<lparr>totals := bump BandwidthDroppedBytes (word_of_int n) (totals r)\<rparr>)"

definition CloseInternalSubscribers :: "bytes \<Rightarrow> u32 \<Rightarrow> Registry \<Rightarrow> effect list" where
  "CloseInternalSubscribers i code r =
     (case Normalize i of
        Inl _ \<Rightarrow> []
      | Inr i \<Rightarrow>
          (case lookup r i of
             None \<Rightarrow> []
           | Some b \<Rightarrow> concat (map (\<lambda>s. [CloseSession s code, CloseSubscriber s])
               (filter (\<lambda>s. s_internal (sub_of r s)) (h_subs (hub_of r b))))))"

definition RecordDownstreamViewers :: "sref \<Rightarrow> u32 \<Rightarrow> Registry \<Rightarrow> Registry" where
  "RecordDownstreamViewers s n r = upd_sub s (\<lambda>x. x\<lparr>s_downstreamViewers := ucast n\<rparr>) r"

subsection \<open>A new registry\<close>

text \<open>
  \<open>key\<close> is \<^verbatim>\<open>opts.StatsKey\<close>, \<open>drawn\<close> the 32 random bytes that replace a key of another
  length.  Nothing refers to the objects the heaps start with.
\<close>

definition NewRegistry :: "Options \<Rightarrow> bytes \<Rightarrow> bytes \<Rightarrow> Registry" where
  "NewRegistry opt key drawn =
     (let opt = with_defaults opt in
      \<lparr>opts = opt, hubs = [], totals = zero_counters, totalIngress = (\<lambda>_. zero_tally),
       statsKey = (if length key \<noteq> 32 then drawn else key),
       hub_heap = (\<lambda>_. empty_hub [] zero_time),
       pub_heap = (\<lambda>_. \<lparr>p_hub = 0, p_closed = True, p_generation = 0, p_conn = False, p_send = False,
          p_lastSeen = zero_time, p_uplinkCarriersOpen = 0\<rparr>),
       sub_heap = (\<lambda>_. new_subscriber 0 plain_opts [] opt),
       ring_heap = (\<lambda>_. NewDVRRing (o_DVR opt)), audio_heap = (\<lambda>_. NewDVRAudioRing (o_DVR opt)),
       next_hub = 0, next_pub = 0, next_sub = 0, next_ring = 0\<rparr>)"

end
