(* ===== verification/HubIngest.thy ===== *)
theory HubIngest
  imports HubLifecycle
begin

section \<open>From the publisher to the subscribers (\<^verbatim>\<open>hub/hub.go\<close>, \<^verbatim>\<open>hub/uplink.go\<close>)\<close>

text \<open>
  The publisher's datagrams, keyframe streams and uplink carriers, and their fan-out.  The
  usage labels probed from the media (codec and height, \<^verbatim>\<open>internal/mediaprobe\<close>) are not
  part of the state.
\<close>

definition count_hub :: "href \<Rightarrow> counter \<Rightarrow> u64 \<Rightarrow> Registry \<Rightarrow> Registry" where
  "count_hub b c n r = upd_hub b (hub_bump c n) r"

definition countBad :: "href \<Rightarrow> Registry \<Rightarrow> Registry" where
  "countBad b r = count_hub b BadDatagrams 1 r"

definition countKeyframeOversize :: "href \<Rightarrow> Registry \<Rightarrow> Registry" where
  "countKeyframeOversize b r = count_hub b KeyframeStreamsOversize 1 r"

subsection \<open>The fan-out\<close>

definition fan_to :: "href \<Rightarrow> bytes \<Rightarrow> instant \<Rightarrow> sref \<Rightarrow> Registry \<Rightarrow> Registry" where
  "fan_to b dgram now s r =
     (case route_to dgram now (sub_of r s) of
        Forward \<Rightarrow>
          let r = upd_sub s (enqueueLocked dgram) r in
          if parityIndexIfParity dgram \<ge> 0 then count_hub b ParityDatagramsForwarded 1 r else r
      | Withheld \<Rightarrow> count_hub b StripeSuppressedDatagrams 1 r
      | NotMine \<Rightarrow> r
      | ParityWithheld \<Rightarrow> count_hub b ParitySuppressed 1 r)"

definition feed_rings :: "href \<Rightarrow> bytes \<Rightarrow> instant \<Rightarrow> Registry \<Rightarrow> Registry" where
  "feed_rings b dgram now r =
     (let r = (case h_dvr (hub_of r b) of
                 Some k \<Rightarrow> if isCarrierMediaDatagram dgram then upd_ring k (AppendRecord dgram now) r else r
               | None \<Rightarrow> r)
      in case h_dvrAudio (hub_of r b) of
           Some k \<Rightarrow> if isAudioDatagram dgram then upd_audio k (audio_append dgram now) r else r
         | None \<Rightarrow> r)"

definition fanOutLocked :: "href \<Rightarrow> bytes \<Rightarrow> instant \<Rightarrow> Registry \<Rightarrow> Registry" where
  "fanOutLocked b dgram now r =
     (let r = count_hub b DatagramsRelayed 1 r;
          r = feed_rings b dgram now r
      in fold (fan_to b dgram now) (h_subs (hub_of r b)) r)"

subsection \<open>Datagrams of the publisher\<close>

definition ingress_bytes :: "href \<Rightarrow> bytes \<Rightarrow> Registry \<Rightarrow> Registry" where
  "ingress_bytes b dgram r = count_hub b IngressDatagramBytes (of_nat (length dgram)) r"

definition relayDatagram :: "pref \<Rightarrow> bytes \<Rightarrow> instant \<Rightarrow> Registry \<Rightarrow> Registry" where
  "relayDatagram p dgram now r =
     (let b = p_hub (pub_of r p) in
      if p_closed (pub_of r p) then r else fanOutLocked b dgram now (ingress_bytes b dgram r))"

definition relayVideoChunk :: "pref \<Rightarrow> VideoChunkHeader \<Rightarrow> bytes \<Rightarrow> instant \<Rightarrow> Registry \<Rightarrow> Registry" where
  "relayVideoChunk p hdr dgram now r =
     (let b = p_hub (pub_of r p) in
      if p_closed (pub_of r p) then r
      else
        let r = (if vc_ChunkIndex hdr = 0 then count_hub b FramesRelayed 1 r else r);
            r = ingress_bytes b dgram r;
            (w, t) = observeChunk (h_ingress (hub_of r b)) (vc_FrameID hdr)
                       (int (unat (vc_ChunkIndex hdr))) (int (unat (vc_ChunkCount hdr)));
            r = upd_hub b (\<lambda>h. h\<lparr>h_ingress := w, h_ingressLoss := tally_add (h_ingressLoss h) t\<rparr>) r
        in fanOutLocked b dgram now r)"

definition relayClockMapping :: "pref \<Rightarrow> bytes \<Rightarrow> instant \<Rightarrow> Registry \<Rightarrow> Registry" where
  "relayClockMapping p dgram now r =
     (let b = p_hub (pub_of r p) in
      if p_closed (pub_of r p) then r
      else fanOutLocked b dgram now
             (ingress_bytes b dgram (upd_hub b (\<lambda>h. h\<lparr>h_cachedClockMapping := Some dgram\<rparr>) r)))"

definition relayAudioConfig :: "pref \<Rightarrow> bytes \<Rightarrow> instant \<Rightarrow> Registry \<Rightarrow> Registry" where
  "relayAudioConfig p dgram now r =
     (let b = p_hub (pub_of r p) in
      if p_closed (pub_of r p) then r
      else fanOutLocked b dgram now
             (ingress_bytes b dgram (upd_hub b (\<lambda>h. h\<lparr>h_cachedAudioConfig := Some dgram\<rparr>) r)))"

definition cacheAndFanViewerCountLocked :: "href \<Rightarrow> bytes \<Rightarrow> instant \<Rightarrow> Registry \<Rightarrow> Registry" where
  "cacheAndFanViewerCountLocked b dgram now r =
     fanOutLocked b dgram now (upd_hub b (\<lambda>h. h\<lparr>h_cachedViewerCount := Some dgram\<rparr>) r)"

definition relayViewerCount :: "pref \<Rightarrow> bytes \<Rightarrow> instant \<Rightarrow> Registry \<Rightarrow> Registry" where
  "relayViewerCount p dgram now r =
     (let b = p_hub (pub_of r p) in
      if p_closed (pub_of r p) \<or> \<not> h_edge (hub_of r b) then r
      else cacheAndFanViewerCountLocked b dgram now (ingress_bytes b dgram r))"

definition HandleDatagram :: "pref \<Rightarrow> bytes \<Rightarrow> instant \<Rightarrow> Registry \<Rightarrow> Registry" where
  "HandleDatagram p dgram now r =
     (let r = NoteSeen p now r; b = p_hub (pub_of r p); bad = countBad b r in
      if length dgram > MaxDatagramSize then bad
      else case PeekType dgram of
        Inl _ \<Rightarrow> bad
      | Inr (ver, typ) \<Rightarrow>
          if ver \<noteq> Version then bad
          else if typ = TypeVideoChunk then
            (case ParseVideoChunk dgram of Inl _ \<Rightarrow> bad | Inr (hdr, _) \<Rightarrow> relayVideoChunk p hdr dgram now r)
          else if typ = TypeDecoderConfig then
            (case ParseDecoderConfig dgram of Inl _ \<Rightarrow> bad | Inr _ \<Rightarrow> relayDatagram p dgram now r)
          else if typ = TypeParityChunk then
            (case ParseParityChunk dgram of Inl _ \<Rightarrow> bad | Inr _ \<Rightarrow> relayDatagram p dgram now r)
          else if typ = TypeClockMapping then
            (case ParseClockMapping dgram of Inl _ \<Rightarrow> bad | Inr _ \<Rightarrow> relayClockMapping p dgram now r)
          else if typ = TypeViewerCount then
            (case ParseViewerCount dgram of Inl _ \<Rightarrow> bad | Inr _ \<Rightarrow> relayViewerCount p dgram now r)
          else if typ = TypeAudioFrame then
            (case ParseAudioFrame dgram of Inl _ \<Rightarrow> bad | Inr _ \<Rightarrow> relayDatagram p dgram now r)
          else if typ = TypeAudioConfig then
            (case ParseAudioConfig dgram of Inl _ \<Rightarrow> bad | Inr _ \<Rightarrow> relayAudioConfig p dgram now r)
          else bad)"

subsection \<open>Keyframe streams\<close>

definition onKeyframe :: "pref \<Rightarrow> bytes \<Rightarrow> StreamFrameHeader \<Rightarrow> instant \<Rightarrow> Registry \<Rightarrow> Registry \<times> effect list" where
  "onKeyframe p msg hdr now r =
     (let b = p_hub (pub_of r p) in
      if p_closed (pub_of r p) then (r, [])
      else
        let r = upd_hub b (\<lambda>h. h\<lparr>h_cachedKeyframe := Some msg\<rparr>) r;
            r = (case h_dvr (hub_of r b) of Some k \<Rightarrow> upd_ring k (AppendKeyframe msg now) r | None \<Rightarrow> r);
            r = upd_hub b (\<lambda>h. h\<lparr>h_cachedKeyframeID := sf_FrameID hdr,
                  h_cachedKeyframeHasConfig := (sf_ConfigLen hdr > 0), h_keyframeSeq := h_keyframeSeq h + 1\<rparr>) r;
            sq = h_keyframeSeq (hub_of r b);
            r = count_hub b KeyframeStreamsIn 1 r;
            r = count_hub b KeyframeBytesIn (of_nat (length msg)) r;
            r = count_hub b FramesRelayed 1 r;
            (w, t) = observeFrame (h_ingress (hub_of r b)) (sf_FrameID hdr);
            r = upd_hub b (\<lambda>h. h\<lparr>h_ingress := w, h_ingressLoss := tally_add (h_ingressLoss h) t\<rparr>) r
        in (r, map (\<lambda>s. HandKeyframe s msg sq)
                 (filter (\<lambda>s. s_dvr (sub_of r s) = None \<and> \<not> s_stripeLeg (sub_of r s)) (h_subs (hub_of r b)))))"

datatype ingest_error =
    StreamEnded | BadHeader wire_error | KeyframeOversize | TrailingBytes
  | UplinkCarrierLimit | BadUplinkRecord

text \<open>\<open>stream\<close> is everything the stream delivers before it ends.\<close>

definition IngestKeyframeStream ::
  "pref \<Rightarrow> bytes \<Rightarrow> instant \<Rightarrow> Registry \<Rightarrow> (ingest_error + unit) \<times> Registry \<times> effect list" where
  "IngestKeyframeStream p stream now r =
     (let r = NoteSeen p now r; b = p_hub (pub_of r p) in
      if length stream < StreamFrameHeaderSize then (Inl StreamEnded, countBad b r, [])
      else case ParseStreamFrameHeader (take StreamFrameHeaderSize stream) of
        Inl e \<Rightarrow> (Inl (BadHeader e), countBad b r, [])
      | Inr hdr \<Rightarrow>
          let total = StreamFrameHeaderSize + unat (sf_ConfigLen hdr) + unat (sf_PayloadLen hdr) in
          if int total > o_MaxKeyframeBytes (opts r) then (Inl KeyframeOversize, countKeyframeOversize b r, [])
          else if length stream < total then (Inl StreamEnded, countBad b r, [])
          else if length stream > total then (Inl TrailingBytes, countBad b r, [])
          else let (r, out) = onKeyframe p (take total stream) hdr now r in (Inr (), r, out))"

subsection \<open>Uplink carriers\<close>

definition UplinkSenderCarriers :: int where "UplinkSenderCarriers = 2"
definition uplinkResetSlack :: int where "uplinkResetSlack = 1"
definition MaxUplinkCarriers :: int where "MaxUplinkCarriers = UplinkSenderCarriers + uplinkResetSlack"

definition uplinkRecordFrameID :: "bytes \<Rightarrow> u32 option" where
  "uplinkRecordFrameID rec =
     (case PeekType rec of
        Inl _ \<Rightarrow> None
      | Inr (ver, typ) \<Rightarrow>
          if ver \<noteq> Version then None
          else if typ = TypeVideoChunk then
            (case ParseVideoChunk rec of Inl _ \<Rightarrow> None | Inr (hdr, _) \<Rightarrow> Some (vc_FrameID hdr))
          else if typ = TypeParityChunk then
            (case ParseParityChunk rec of Inl _ \<Rightarrow> None | Inr (hdr, _) \<Rightarrow> Some (pc_FrameID hdr))
          else None)"

definition acquireUplinkCarrier :: "pref \<Rightarrow> Registry \<Rightarrow> bool \<times> Registry" where
  "acquireUplinkCarrier p r =
     (let b = p_hub (pub_of r p) in
      if p_uplinkCarriersOpen (pub_of r p) \<ge> MaxUplinkCarriers
      then (False, count_hub b UplinkCarriersRejected 1 r)
      else (True, count_hub b UplinkCarriers 1
              (upd_pub p (\<lambda>x. x\<lparr>p_uplinkCarriersOpen := p_uplinkCarriersOpen x + 1\<rparr>) r)))"

definition releaseUplinkCarrier :: "pref \<Rightarrow> Registry \<Rightarrow> Registry" where
  "releaseUplinkCarrier p r = upd_pub p (\<lambda>x. x\<lparr>p_uplinkCarriersOpen := p_uplinkCarriersOpen x - 1\<rparr>) r"

definition admitUplinkRecord :: "pref \<Rightarrow> u32 \<Rightarrow> Registry \<Rightarrow> bool \<times> Registry" where
  "admitUplinkRecord p frameID r =
     (let b = p_hub (pub_of r p); h = hub_of r b in
      if p_closed (pub_of r p) then (False, r)
      else if h_cachedKeyframe h \<noteq> None \<and> sint (frameID - h_cachedKeyframeID h) < 0
        then (False, count_hub b UplinkRecordsStale 1 r)
      else (True, count_hub b UplinkRecords 1 r))"

text \<open>
  The record loop on what is left of the stream; \<open>clock\<close> is the time when that many bytes
  are left.
\<close>

function uplink_loop :: "pref \<Rightarrow> (nat \<Rightarrow> instant) \<Rightarrow> bytes \<Rightarrow> Registry \<Rightarrow> (ingest_error + unit) \<times> Registry" where
  "uplink_loop p clock stream r =
     (if length stream < CarrierRecordHeaderSize then
        ((if stream = [] then Inr () else Inl StreamEnded), r)
      else
        let n = unat (join16 (stream ! 0) (stream ! 1)); b = p_hub (pub_of r p) in
        if n = 0 \<or> n > MaxDatagramSize then (Inl BadUplinkRecord, countBad b r)
        else
          let rest = drop CarrierRecordHeaderSize stream in
          if length rest < n then (Inl StreamEnded, r)
          else
            let rec = take n rest in
            case uplinkRecordFrameID rec of
              None \<Rightarrow> (Inl BadUplinkRecord, countBad b r)
            | Some frameID \<Rightarrow>
                let (admit, r) = admitUplinkRecord p frameID r;
                    r = (if admit then HandleDatagram p rec (clock (length stream)) r else r)
                in uplink_loop p clock (drop n rest) r)"
  by pat_completeness auto

termination
  by (relation "measure (\<lambda>(p, clock, stream, r). length stream)") (auto simp: CarrierRecordHeaderSize_def)

declare uplink_loop.simps [simp del]

definition IngestUplinkCarrier ::
  "pref \<Rightarrow> (nat \<Rightarrow> instant) \<Rightarrow> bytes \<Rightarrow> Registry \<Rightarrow> (ingest_error + unit) \<times> Registry" where
  "IngestUplinkCarrier p clock stream r =
     (case acquireUplinkCarrier p r of
        (False, r) \<Rightarrow> (Inl UplinkCarrierLimit, r)
      | (True, r) \<Rightarrow>
          let r = NoteSeen p (clock (length stream)) r; b = p_hub (pub_of r p);
              (res, r) =
                (if length stream < CarrierPrologueSize then (Inl StreamEnded, r)
                 else case ParseCarrierPrologue (take CarrierPrologueSize stream) of
                   Inl e \<Rightarrow> (Inl (BadHeader e), countBad b r)
                 | Inr _ \<Rightarrow> uplink_loop p clock (drop CarrierPrologueSize stream) r)
          in (res, releaseUplinkCarrier p r))"

subsection \<open>The viewer-count pump\<close>

definition pump_hub :: "instant \<Rightarrow> href \<Rightarrow> Registry \<Rightarrow> Registry \<times> effect list \<times> effect list" where
  "pump_hub now b r =
     (let local = externalHumansLocked r b; i = h_id (hub_of r b) in
      if h_edge (hub_of r b) then (r, [BusViewers i local 0 True], [])
      else
        let g = globalViewersLocked r b;
            r = upd_hub b (\<lambda>h. h\<lparr>h_peakViewers := max (h_peakViewers h) g\<rparr>) r;
            bus = [BusViewers i local (int (unat g)) False]
        in if h_viewerCountEverEmitted (hub_of r b) \<and> g = h_lastViewerCount (hub_of r b) \<and>
              time_sub now (h_lastViewerCountEmitAt (hub_of r b)) < ViewerCountKeepalive
           then (r, bus, [])
           else
             let r = upd_hub b (\<lambda>h. h\<lparr>h_lastViewerCount := g, h_lastViewerCountEmitAt := now,
                       h_viewerCountEverEmitted := True\<rparr>) r;
                 dgram = AppendViewerCount [] g;
                 r = cacheAndFanViewerCountLocked b dgram now r
             in (r, bus, case h_publisher (hub_of r b) of
                   Some p \<Rightarrow> if p_send (pub_of r p) then [SendToPublisher p dgram] else []
                 | None \<Rightarrow> []))"

fun pump_hubs :: "instant \<Rightarrow> href list \<Rightarrow> Registry \<Rightarrow> Registry \<times> effect list \<times> effect list" where
  "pump_hubs now [] r = (r, [], [])"
| "pump_hubs now (b # bs) r =
     (let (r, bus, push) = pump_hub now b r; (r, bus', push') = pump_hubs now bs r
      in (r, bus @ bus', push @ push'))"

definition PumpViewerCounts :: "instant \<Rightarrow> Registry \<Rightarrow> Registry \<times> effect list" where
  "PumpViewerCounts now r =
     (let (r, bus, push) = pump_hubs now (map snd (hubs r)) r in (r, bus @ push))"

end
