(* ===== verification/HubInvariants.thy ===== *)
theory HubInvariants
  imports HubIngest
begin

section \<open>The invariants of the registry\<close>

text \<open>
  What holds in every state the registry can reach: the publisher slot, the membership of
  subscribers and the viewer caps.  They rest on a few fields of each object (\<open>same_core\<close>);
  most operations leave those alone, and only the ones that create, claim, release or
  remove are argued about one by one.
\<close>

subsection \<open>The core of a state\<close>

definition hub_core where
  "hub_core h = (h_id h, h_publisherActive h, h_publisher h, h_generation h, h_subs h)"
definition pub_core where "pub_core p = (p_hub p, p_closed p, p_generation p)"
definition sub_core where "sub_core s = (s_hub s, s_internal s, s_closed s)"

definition same_core :: "Registry \<Rightarrow> Registry \<Rightarrow> bool" where
  "same_core r r' \<longleftrightarrow>
     opts r' = opts r \<and> hubs r' = hubs r \<and> next_hub r' = next_hub r \<and> next_pub r' = next_pub r \<and>
     next_sub r' = next_sub r \<and> (\<forall>b. hub_core (hub_of r' b) = hub_core (hub_of r b)) \<and>
     (\<forall>p. pub_core (pub_of r' p) = pub_core (pub_of r p)) \<and> (\<forall>s. sub_core (sub_of r' s) = sub_core (sub_of r s))"

lemma same_core_refl [simp, intro]: "same_core r r"
  by (simp add: same_core_def)

lemma same_core_trans [trans]: "same_core r r' \<Longrightarrow> same_core r' r'' \<Longrightarrow> same_core r r''"
  by (simp add: same_core_def)

lemma heap_simps [simp]:
  "hub_of (upd_hub b f r) c = (if c = b then f (hub_of r b) else hub_of r c)"
  "hub_of (upd_pub p g r) c = hub_of r c" "hub_of (upd_sub s k r) c = hub_of r c"
  "hub_of (upd_ring j e r) c = hub_of r c" "hub_of (upd_audio j l r) c = hub_of r c"
  "pub_of (upd_hub b f r) q = pub_of r q" "pub_of (upd_pub p g r) q = (if q = p then g (pub_of r p) else pub_of r q)"
  "pub_of (upd_sub s k r) q = pub_of r q" "pub_of (upd_ring j e r) q = pub_of r q" "pub_of (upd_audio j l r) q = pub_of r q"
  "sub_of (upd_hub b f r) t = sub_of r t" "sub_of (upd_pub p g r) t = sub_of r t"
  "sub_of (upd_sub s k r) t = (if t = s then k (sub_of r s) else sub_of r t)"
  "sub_of (upd_ring j e r) t = sub_of r t" "sub_of (upd_audio j l r) t = sub_of r t"
  by (simp_all add: hub_of_def pub_of_def sub_of_def upd_hub_def upd_pub_def upd_sub_def upd_ring_def upd_audio_def)

lemma reg_simps [simp]:
  "opts (upd_hub b f r) = opts r" "opts (upd_pub p g r) = opts r" "opts (upd_sub s k r) = opts r"
  "opts (upd_ring j e r) = opts r" "opts (upd_audio j l r) = opts r"
  "hubs (upd_hub b f r) = hubs r" "hubs (upd_pub p g r) = hubs r" "hubs (upd_sub s k r) = hubs r"
  "hubs (upd_ring j e r) = hubs r" "hubs (upd_audio j l r) = hubs r"
  "next_hub (upd_hub b f r) = next_hub r" "next_hub (upd_pub p g r) = next_hub r" "next_hub (upd_sub s k r) = next_hub r"
  "next_hub (upd_ring j e r) = next_hub r" "next_hub (upd_audio j l r) = next_hub r"
  "next_pub (upd_hub b f r) = next_pub r" "next_pub (upd_pub p g r) = next_pub r" "next_pub (upd_sub s k r) = next_pub r"
  "next_pub (upd_ring j e r) = next_pub r" "next_pub (upd_audio j l r) = next_pub r"
  "next_sub (upd_hub b f r) = next_sub r" "next_sub (upd_pub p g r) = next_sub r" "next_sub (upd_sub s k r) = next_sub r"
  "next_sub (upd_ring j e r) = next_sub r" "next_sub (upd_audio j l r) = next_sub r"
  "totals (upd_hub b f r) = totals r" "totals (upd_pub p g r) = totals r" "totals (upd_sub s k r) = totals r"
  "totals (upd_ring j e r) = totals r" "totals (upd_audio j l r) = totals r"
  "totalIngress (upd_hub b f r) = totalIngress r" "totalIngress (upd_pub p g r) = totalIngress r"
  "totalIngress (upd_sub s k r) = totalIngress r" "totalIngress (upd_ring j e r) = totalIngress r"
  "totalIngress (upd_audio j l r) = totalIngress r"
  by (simp_all add: upd_hub_def upd_pub_def upd_sub_def upd_ring_def upd_audio_def)

lemma lookup_simps [simp]:
  "lookup (upd_hub b f r) = lookup r" "lookup (upd_pub p g r) = lookup r" "lookup (upd_sub s k r) = lookup r"
  "lookup (upd_ring j e r) = lookup r" "lookup (upd_audio j l r) = lookup r"
  by (simp_all add: lookup_def fun_eq_iff)

lemma same_core_lookup: "same_core r r' \<Longrightarrow> lookup r' = lookup r"
  by (simp add: same_core_def lookup_def fun_eq_iff)

lemma same_core_registered: "same_core r r' \<Longrightarrow> registered r' b = registered r b"
  by (simp add: same_core_def registered_def lookup_def hub_core_def)

lemma neutral_hub: "(\<And>h. hub_core (f h) = hub_core h) \<Longrightarrow> same_core r r' \<Longrightarrow> same_core r (upd_hub b f r')"
  by (simp add: same_core_def)

lemma neutral_pub: "(\<And>p. pub_core (f p) = pub_core p) \<Longrightarrow> same_core r r' \<Longrightarrow> same_core r (upd_pub q f r')"
  by (simp add: same_core_def)

lemma neutral_sub: "(\<And>s. sub_core (f s) = sub_core s) \<Longrightarrow> same_core r r' \<Longrightarrow> same_core r (upd_sub t f r')"
  by (simp add: same_core_def)

lemma neutral_ring: "same_core r r' \<Longrightarrow> same_core r (upd_ring j e r')"
  "same_core r r' \<Longrightarrow> same_core r (upd_audio j l r')"
  by (simp_all add: same_core_def)

lemma hub_core_simps [simp]:
  "hub_core (hub_bump c n h) = hub_core h" "hub_core (drop_primes h) = hub_core h"
  by (simp_all add: hub_core_def hub_bump_def drop_primes_def)

lemma sub_core_simps [simp]: "sub_core (enqueueLocked d s) = sub_core s" "sub_core (sub_bump c n s) = sub_core s"
  by (simp_all add: sub_core_def enqueueLocked_def purgeQueuedDeltasLocked_def Let_def sub_bump_def)

lemma core_count_hub: "same_core r r' \<Longrightarrow> same_core r (count_hub b c n r')"
  unfolding count_hub_def by (rule neutral_hub) simp_all

lemma core_fold_ingress: "same_core r r' \<Longrightarrow> same_core r (foldIngressLocked b r')"
  by (simp add: foldIngressLocked_def same_core_def hub_of_def pub_of_def sub_of_def Let_def)

lemma core_setKind: "same_core r r' \<Longrightarrow> same_core r (setPublisherKindLocked b k r')"
  by (auto simp: setPublisherKindLocked_def Let_def hub_core_def intro!: neutral_hub core_fold_ingress)

lemma core_setRole: "same_core r r' \<Longrightarrow> same_core r (setRoleLocked b e r')"
  by (auto simp: setRoleLocked_def Let_def hub_core_def intro!: neutral_hub core_fold_ingress)

lemma core_fan_to: "same_core r r' \<Longrightarrow> same_core r (fan_to b d now s r')"
  by (auto simp: fan_to_def Let_def split: route.split intro!: core_count_hub neutral_sub)

lemma core_fold_fan: "same_core r r' \<Longrightarrow> same_core r (fold (fan_to b d now) ss r')"
  by (induction ss arbitrary: r') (simp_all add: core_fan_to)

lemma core_feed: "same_core r r' \<Longrightarrow> same_core r (feed_rings b d now r')"
  by (auto simp: feed_rings_def Let_def split: option.split intro!: neutral_ring)

lemma core_fanOut: "same_core r r' \<Longrightarrow> same_core r (fanOutLocked b d now r')"
  by (simp add: fanOutLocked_def Let_def core_fold_fan core_feed core_count_hub)

lemma core_ingress_bytes: "same_core r r' \<Longrightarrow> same_core r (ingress_bytes b d r')"
  by (simp add: ingress_bytes_def core_count_hub)

lemma core_NoteSeen: "same_core r r' \<Longrightarrow> same_core r (NoteSeen p now r')"
  unfolding NoteSeen_def by (rule neutral_pub) (simp_all add: pub_core_def)

lemma core_relayDatagram: "same_core r r' \<Longrightarrow> same_core r (relayDatagram p d now r')"
  by (simp add: relayDatagram_def Let_def core_fanOut core_ingress_bytes)

lemma core_relayVideoChunk: "same_core r r' \<Longrightarrow> same_core r (relayVideoChunk p h d now r')"
  by (auto simp: relayVideoChunk_def Let_def hub_core_def split: prod.split
      intro!: core_fanOut neutral_hub core_ingress_bytes core_count_hub)

lemma core_relayCaches:
  "same_core r r' \<Longrightarrow> same_core r (relayClockMapping p d now r')"
  "same_core r r' \<Longrightarrow> same_core r (relayAudioConfig p d now r')"
  "same_core r r' \<Longrightarrow> same_core r (cacheAndFanViewerCountLocked b d now r')"
  by (auto simp: relayClockMapping_def relayAudioConfig_def cacheAndFanViewerCountLocked_def Let_def hub_core_def
      intro!: core_fanOut neutral_hub core_ingress_bytes)

lemma core_relayViewerCount: "same_core r r' \<Longrightarrow> same_core r (relayViewerCount p d now r')"
  by (simp add: relayViewerCount_def Let_def core_relayCaches core_ingress_bytes)

lemma core_HandleDatagram: "same_core r r' \<Longrightarrow> same_core r (HandleDatagram p d now r')"
  by (simp add: HandleDatagram_def Let_def countBad_def core_count_hub core_NoteSeen core_relayDatagram
      core_relayVideoChunk core_relayCaches core_relayViewerCount split: sum.split prod.split)

lemma core_onKeyframe: "same_core r r' \<Longrightarrow> same_core r (fst (onKeyframe p msg hdr now r'))"
  by (auto simp: onKeyframe_def Let_def hub_core_def case_prod_beta split: option.split
      intro!: neutral_hub core_count_hub neutral_ring)

lemma core_IngestKeyframeStream:
  "same_core r r' \<Longrightarrow> same_core r (fst (snd (IngestKeyframeStream p stream now r')))"
  by (auto simp: IngestKeyframeStream_def Let_def countBad_def countKeyframeOversize_def case_prod_beta
      split: sum.split intro!: core_count_hub core_NoteSeen core_onKeyframe)

lemma core_uplink_slots:
  "same_core r r' \<Longrightarrow> same_core r (snd (acquireUplinkCarrier p r'))"
  "same_core r r' \<Longrightarrow> same_core r (releaseUplinkCarrier p r')"
  "same_core r r' \<Longrightarrow> same_core r (snd (admitUplinkRecord p i r'))"
  by (auto simp: acquireUplinkCarrier_def releaseUplinkCarrier_def admitUplinkRecord_def Let_def pub_core_def
      intro!: core_count_hub neutral_pub)

lemma core_uplink_loop: "same_core r r' \<Longrightarrow> same_core r (snd (uplink_loop p clock stream r'))"
proof (induction p clock stream r' rule: uplink_loop.induct)
  case (1 p clock stream r')
  define n rest b where "n = unat (join16 (stream ! 0) (stream ! 1))" and "rest = drop CarrierRecordHeaderSize stream"
    and "b = p_hub (pub_of r' p)"
  show ?case
  proof (cases "length stream < CarrierRecordHeaderSize \<or> n = 0 \<or> n > MaxDatagramSize \<or> length rest < n")
    case True
    with 1(2) show ?thesis
      unfolding uplink_loop.simps [of p clock stream r'] n_def rest_def
      by (auto simp: Let_def countBad_def intro!: core_count_hub)
  next
    case False
    show ?thesis
    proof (cases "uplinkRecordFrameID (take n rest)")
      case None
      with 1(2) False show ?thesis
        unfolding uplink_loop.simps [of p clock stream r'] n_def [symmetric] rest_def [symmetric] Let_def
        by (simp add: countBad_def core_count_hub)
    next
      case (Some fid)
      obtain a r1 where a: "admitUplinkRecord p fid r' = (a, r1)" by fastforce
      define r2 where "r2 = (if a then HandleDatagram p (take n rest) (clock (length stream)) r1 else r1)"
      have "same_core r r1" using core_uplink_slots(3) [OF 1(2), of p fid] by (simp add: a)
      then have r2: "same_core r r2" by (simp add: r2_def core_HandleDatagram)
      have "uplink_loop p clock stream r' = uplink_loop p clock (drop n rest) r2"
        unfolding uplink_loop.simps [of p clock stream r'] n_def [symmetric] rest_def [symmetric] Let_def
        using False by (simp add: Some a r2_def)
      moreover have "same_core r (snd (uplink_loop p clock (drop n rest) r2))"
        using False Some a r2 by (intro 1(1)) (auto simp: n_def rest_def r2_def)
      ultimately show ?thesis by simp
    qed
  qed
qed

lemma core_IngestUplinkCarrier:
  assumes "same_core r r'"
  shows "same_core r (snd (IngestUplinkCarrier p clock stream r'))"
proof -
  obtain ok r1 where a: "acquireUplinkCarrier p r' = (ok, r1)" by fastforce
  have r1: "same_core r r1" using core_uplink_slots(1) [OF assms, of p] by (simp add: a)
  then show ?thesis
    by (auto simp: IngestUplinkCarrier_def a Let_def countBad_def case_prod_beta split: bool.split sum.split
        intro!: core_count_hub core_uplink_slots core_uplink_loop core_NoteSeen)
qed

lemma core_pump_hub: "same_core r r' \<Longrightarrow> same_core r (fst (pump_hub now b r'))"
  by (auto simp: pump_hub_def Let_def hub_core_def intro!: core_relayCaches neutral_hub)

lemma core_pump_hubs: "same_core r r' \<Longrightarrow> same_core r (fst (pump_hubs now bs r'))"
  by (induction bs arbitrary: r') (simp_all add: case_prod_beta core_pump_hub)

lemma core_Pump: "same_core r r' \<Longrightarrow> same_core r (fst (PumpViewerCounts now r'))"
  by (simp add: PumpViewerCounts_def case_prod_beta core_pump_hubs)

lemma core_sweep_hub: "same_core r r' \<Longrightarrow> same_core r (fst (sweep_hub now i b r'))"
  by (auto simp: sweep_hub_def Let_def hub_core_def intro!: neutral_hub)

lemma core_sweep_hubs: "same_core r r' \<Longrightarrow> same_core r (fst (sweep_hubs now hs r'))"
proof (induction hs arbitrary: r')
  case (Cons x hs)
  then show ?case by (cases x) (simp add: case_prod_beta core_sweep_hub)
qed simp

lemma core_handles:
  "same_core r r' \<Longrightarrow> same_core r (InvalidatePrimes i r')"
  "same_core r r' \<Longrightarrow> same_core r (snd (BindConn p r'))"
  "same_core r r' \<Longrightarrow> same_core r (BindSend p r')"
  "same_core r r' \<Longrightarrow> same_core r (publisher_SetTelemetrySession p x r')"
  "same_core r r' \<Longrightarrow> same_core r (SetKind p k r')"
  "same_core r r' \<Longrightarrow> same_core r (RecordDownstreamViewers t n r')"
  by (auto simp: InvalidatePrimes_def BindConn_def BindSend_def publisher_SetTelemetrySession_def SetKind_def
      RecordDownstreamViewers_def Let_def pub_core_def sub_core_def split: sum.split option.split
      intro!: neutral_hub neutral_pub neutral_sub core_setKind) (simp_all add: hub_core_def)

lemma core_counts:
  "same_core r r' \<Longrightarrow> same_core r (countBandwidthDrop b n r')"
  "same_core r r' \<Longrightarrow> same_core r (countBandwidthDropBytes b n r')"
  "same_core r r' \<Longrightarrow> same_core r (countStripeLegsReaped b m r')"
  by (auto simp: countBandwidthDrop_def countBandwidthDropBytes_def countStripeLegsReaped_def o_def intro!: neutral_hub)
    (simp_all add: same_core_def hub_of_def pub_of_def sub_of_def)

subsection \<open>The invariants\<close>

definition listed_ok :: "Registry \<Rightarrow> bool" where
  "listed_ok r \<longleftrightarrow> distinct (map fst (hubs r)) \<and>
     (\<forall>i b. lookup r i = Some b \<longrightarrow> h_id (hub_of r b) = i \<and> b < next_hub r)"

definition slot_ok :: "Registry \<Rightarrow> href \<Rightarrow> bool" where
  "slot_ok r b \<longleftrightarrow>
     h_publisherActive (hub_of r b) = (h_publisher (hub_of r b) \<noteq> None) \<and>
     (\<forall>p. h_publisher (hub_of r b) = Some p \<longrightarrow>
        p < next_pub r \<and> p_hub (pub_of r p) = b \<and> \<not> p_closed (pub_of r p) \<and>
        p_generation (pub_of r p) = h_generation (hub_of r b))"

definition handle_ok :: "Registry \<Rightarrow> pref \<Rightarrow> bool" where
  "handle_ok r p \<longleftrightarrow> p_hub (pub_of r p) < next_hub r \<and>
     (\<not> p_closed (pub_of r p) \<longrightarrow>
        h_publisher (hub_of r (p_hub (pub_of r p))) = Some p \<and> registered r (p_hub (pub_of r p)))"

definition slots_ok :: "Registry \<Rightarrow> bool" where
  "slots_ok r \<longleftrightarrow> listed_ok r \<and> (\<forall>b < next_hub r. slot_ok r b) \<and> (\<forall>p < next_pub r. handle_ok r p)"

definition audience_ok :: "Registry \<Rightarrow> href \<Rightarrow> bool" where
  "audience_ok r b \<longleftrightarrow> distinct (h_subs (hub_of r b)) \<and>
     (\<forall>s\<in>set (h_subs (hub_of r b)). s < next_sub r \<and> s_hub (sub_of r s) = b \<and> \<not> s_closed (sub_of r s))"

definition member_ok :: "Registry \<Rightarrow> sref \<Rightarrow> bool" where
  "member_ok r s \<longleftrightarrow> s_hub (sub_of r s) < next_hub r \<and>
     (\<not> s_closed (sub_of r s) \<longrightarrow> s \<in> set (h_subs (hub_of r (s_hub (sub_of r s)))))"

definition members_ok :: "Registry \<Rightarrow> bool" where
  "members_ok r \<longleftrightarrow> (\<forall>b < next_hub r. audience_ok r b) \<and> (\<forall>s < next_sub r. member_ok r s)"

definition caps_ok :: "Registry \<Rightarrow> bool" where
  "caps_ok r \<longleftrightarrow>
     (\<forall>i b. lookup r i = Some b \<longrightarrow> externalSubsLocked r b \<le> o_MaxSubscribers (opts r)) \<and>
     totalExternalSubsLocked r \<le> o_MaxTotalSubscribers (opts r)"

definition opts_ok :: "Options \<Rightarrow> bool" where
  "opts_ok opt \<longleftrightarrow> 0 < o_MaxSubscribers opt \<and> 0 < o_MaxTotalSubscribers opt \<and> 0 < o_MaxBroadcasts opt \<and>
     0 < o_BroadcastGrace opt \<and> 0 < o_QueueDepth opt"

definition registry_ok :: "Registry \<Rightarrow> bool" where
  "registry_ok r \<longleftrightarrow> opts_ok (opts r) \<and> slots_ok r \<and> members_ok r \<and> caps_ok r"

lemma core_external:
  assumes "same_core r r'"
  shows "externalSubsLocked r' b = externalSubsLocked r b"
proof -
  have e: "s_internal (sub_of r' s) = s_internal (sub_of r s)" for s
    using assms by (simp add: same_core_def sub_core_def)
  have "h_subs (hub_of r' b) = h_subs (hub_of r b)" using assms by (simp add: same_core_def hub_core_def)
  then show ?thesis by (simp add: externalSubsLocked_def e)
qed

lemma core_total: "same_core r r' \<Longrightarrow> totalExternalSubsLocked r' = totalExternalSubsLocked r"
  by (simp add: totalExternalSubsLocked_def core_external) (simp add: same_core_def)

lemma core_fields:
  assumes "same_core r r'"
  shows "h_id (hub_of r' b) = h_id (hub_of r b)" "h_publisherActive (hub_of r' b) = h_publisherActive (hub_of r b)"
    "h_publisher (hub_of r' b) = h_publisher (hub_of r b)" "h_generation (hub_of r' b) = h_generation (hub_of r b)"
    "h_subs (hub_of r' b) = h_subs (hub_of r b)"
    "p_hub (pub_of r' x) = p_hub (pub_of r x)" "p_closed (pub_of r' x) = p_closed (pub_of r x)"
    "p_generation (pub_of r' x) = p_generation (pub_of r x)"
    "s_hub (sub_of r' y) = s_hub (sub_of r y)" "s_closed (sub_of r' y) = s_closed (sub_of r y)"
    "s_internal (sub_of r' y) = s_internal (sub_of r y)"
    "opts r' = opts r" "hubs r' = hubs r" "next_hub r' = next_hub r" "next_pub r' = next_pub r" "next_sub r' = next_sub r"
  using assms by (simp_all add: same_core_def hub_core_def pub_core_def sub_core_def)

lemma slots_ok_core:
  assumes "same_core r r'"
  shows "slots_ok r' = slots_ok r"
  by (simp add: slots_ok_def listed_ok_def slot_ok_def handle_ok_def core_fields [OF assms]
      same_core_lookup [OF assms] same_core_registered [OF assms])

lemma members_ok_core:
  assumes "same_core r r'"
  shows "members_ok r' = members_ok r"
  by (simp add: members_ok_def audience_ok_def member_ok_def core_fields [OF assms])

lemma registry_ok_core:
  assumes "same_core r r'"
  shows "registry_ok r' = registry_ok r"
  by (simp add: registry_ok_def slots_ok_core [OF assms] members_ok_core [OF assms] caps_ok_def
      core_fields [OF assms] same_core_lookup [OF assms] core_external [OF assms] core_total [OF assms])

subsection \<open>The protocol of the core\<close>

text \<open>
  What the operations do to the core, without their caches, counters and effects: a hub is
  listed, a publisher installed in or released from a slot, a hub taken off the list, a
  subscriber joins or leaves.  Every operation of the registry is a run of these steps.
\<close>

definition install :: "href \<Rightarrow> Registry \<Rightarrow> Registry" where
  "install b r =
     upd_hub b (\<lambda>h. h\<lparr>h_publisherActive := True, h_publisher := Some (next_pub r), h_generation := h_generation h + 1\<rparr>)
       (r\<lparr>pub_heap := (pub_heap r)(next_pub r := \<lparr>p_hub = b, p_closed = False,
            p_generation = h_generation (hub_of r b) + 1, p_conn = False, p_send = False, p_lastSeen = zero_time,
            p_uplinkCarriersOpen = 0\<rparr>), next_pub := Suc (next_pub r)\<rparr>)"

definition release :: "href \<Rightarrow> pref \<Rightarrow> Registry \<Rightarrow> Registry" where
  "release b p r =
     upd_hub b (\<lambda>h. h\<lparr>h_publisherActive := False, h_publisher := None\<rparr>) (upd_pub p (\<lambda>x. x\<lparr>p_closed := True\<rparr>) r)"

definition unlist :: "bytes \<Rightarrow> Registry \<Rightarrow> Registry" where
  "unlist i r = r\<lparr>hubs := AList.delete i (hubs r)\<rparr>"

definition join :: "href \<Rightarrow> subscribeOpts \<Rightarrow> Registry \<Rightarrow> Registry" where
  "join b so r =
     upd_hub b (\<lambda>h. h\<lparr>h_subs := next_sub r # h_subs h\<rparr>)
       (r\<lparr>sub_heap := (sub_heap r)(next_sub r := new_subscriber b so [] (opts r)), next_sub := Suc (next_sub r)\<rparr>)"

definition leave :: "sref \<Rightarrow> Registry \<Rightarrow> Registry" where
  "leave s r =
     upd_hub (s_hub (sub_of r s)) (\<lambda>h. h\<lparr>h_subs := remove1 s (h_subs h)\<rparr>) (upd_sub s (\<lambda>x. x\<lparr>s_closed := True\<rparr>) r)"

inductive core_step :: "Registry \<Rightarrow> Registry \<Rightarrow> bool" where
  neutral: "same_core r r' \<Longrightarrow> core_step r r'"
| listed: "lookup r i = None \<Longrightarrow> core_step r (snd (newHubLocked i now r))"
| installed: "lookup r i = Some b \<Longrightarrow> \<not> h_publisherActive (hub_of r b) \<Longrightarrow> core_step r (install b r)"
| released: "b < next_hub r \<Longrightarrow> h_publisher (hub_of r b) = Some p \<Longrightarrow> core_step r (release b p r)"
| unlisted: "lookup r i = Some b \<Longrightarrow> h_publisher (hub_of r b) = None \<Longrightarrow> core_step r (unlist i r)"
| joined: "lookup r i = Some b \<Longrightarrow>
    so_internal so \<or> externalSubsLocked r b < o_MaxSubscribers (opts r) \<and>
      totalExternalSubsLocked r < o_MaxTotalSubscribers (opts r) \<Longrightarrow> core_step r (join b so r)"
| left: "s < next_sub r \<Longrightarrow> \<not> s_closed (sub_of r s) \<Longrightarrow> core_step r (leave s r)"

abbreviation core_steps where "core_steps \<equiv> core_step\<^sup>*\<^sup>*"

end
