(* ===== verification/HubReach.thy ===== *)
theory HubReach
  imports HubInvariants
begin

section \<open>Reachable states of the registry\<close>

text \<open>
  The core steps keep the invariants; every operation of the registry is a run of core
  steps; so the invariants hold in every state the registry can reach.
\<close>

subsection \<open>The core steps keep the invariants\<close>

lemma fresh_hub [simp]:
  "fst (newHubLocked i now r) = next_hub r"
  "opts (snd (newHubLocked i now r)) = opts r" "hubs (snd (newHubLocked i now r)) = AList.update i (next_hub r) (hubs r)"
  "next_hub (snd (newHubLocked i now r)) = Suc (next_hub r)" "next_pub (snd (newHubLocked i now r)) = next_pub r"
  "next_sub (snd (newHubLocked i now r)) = next_sub r"
  "hub_of (snd (newHubLocked i now r)) b = (if b = next_hub r then empty_hub i now else hub_of r b)"
  "pub_of (snd (newHubLocked i now r)) p = pub_of r p" "sub_of (snd (newHubLocked i now r)) s = sub_of r s"
  by (simp_all add: newHubLocked_def Let_def hub_of_def pub_of_def sub_of_def)

lemma empty_hub_simps [simp]:
  "h_id (empty_hub i now) = i" "h_publisherActive (empty_hub i now) = False" "h_publisher (empty_hub i now) = None"
  "h_subs (empty_hub i now) = []" "h_edge (empty_hub i now) = False" "h_generation (empty_hub i now) = 0"
  by (simp_all add: empty_hub_def)

lemma lookup_listed [simp]:
  "lookup (snd (newHubLocked i now r)) j = (if j = i then Some (next_hub r) else lookup r j)"
  by (simp add: lookup_def update_conv)

lemma external_congI:
  "h_subs (hub_of r' b) = h_subs (hub_of r b) \<Longrightarrow>
   (\<And>s. s \<in> set (h_subs (hub_of r b)) \<Longrightarrow> s_internal (sub_of r' s) = s_internal (sub_of r s)) \<Longrightarrow>
   externalSubsLocked r' b = externalSubsLocked r b"
  by (simp add: externalSubsLocked_def cong: filter_cong)

lemma slots_hub_lt: "slots_ok r \<Longrightarrow> lookup r i = Some b \<Longrightarrow> b < next_hub r"
  by (simp add: slots_ok_def listed_ok_def)

lemma lookup_id: "slots_ok r \<Longrightarrow> lookup r i = Some b \<Longrightarrow> h_id (hub_of r b) = i"
  by (simp add: slots_ok_def listed_ok_def)

lemma lookup_mem: "(i, b) \<in> set (hubs r) \<Longrightarrow> slots_ok r \<Longrightarrow> lookup r i = Some b"
  by (simp add: slots_ok_def listed_ok_def lookup_def)

lemma slots_okD:
  assumes "slots_ok r"
  shows "listed_ok r" and "b < next_hub r \<Longrightarrow> slot_ok r b" and "p < next_pub r \<Longrightarrow> handle_ok r p"
  using assms by (simp_all add: slots_ok_def)

lemma slots_okI:
  "listed_ok r \<Longrightarrow> (\<And>b. b < next_hub r \<Longrightarrow> slot_ok r b) \<Longrightarrow> (\<And>p. p < next_pub r \<Longrightarrow> handle_ok r p) \<Longrightarrow> slots_ok r"
  by (simp add: slots_ok_def)

lemma members_okD:
  assumes "members_ok r"
  shows "b < next_hub r \<Longrightarrow> audience_ok r b" and "s < next_sub r \<Longrightarrow> member_ok r s"
  using assms by (simp_all add: members_ok_def)

lemma members_okI:
  "(\<And>b. b < next_hub r \<Longrightarrow> audience_ok r b) \<Longrightarrow> (\<And>s. s < next_sub r \<Longrightarrow> member_ok r s) \<Longrightarrow> members_ok r"
  by (simp add: members_ok_def)

lemma listed_slots:
  assumes ok: "slots_ok r" and free: "lookup r i = None"
  shows "slots_ok (snd (newHubLocked i now r))" (is "slots_ok ?r")
proof (rule slots_okI)
  show "listed_ok ?r"
    using slots_okD(1) [OF ok] free by (auto simp: listed_ok_def distinct_update less_Suc_eq)
  show "slot_ok ?r b" if "b < next_hub ?r" for b
    using that slots_okD(2) [OF ok, of b] by (auto simp: slot_ok_def less_Suc_eq)
  show "handle_ok ?r p" if "p < next_pub ?r" for p
  proof -
    have h: "handle_ok r p" using that slots_okD(3) [OF ok, of p] by simp
    then show ?thesis using free by (auto simp: handle_ok_def registered_def)
  qed
qed

lemma listed_members:
  assumes ok: "members_ok r"
  shows "members_ok (snd (newHubLocked i now r))" (is "members_ok ?r")
proof (rule members_okI)
  show "audience_ok ?r b" if "b < next_hub ?r" for b
    using that members_okD(1) [OF ok, of b] by (auto simp: audience_ok_def less_Suc_eq)
  show "member_ok ?r s" if "s < next_sub ?r" for s
    using that members_okD(2) [OF ok, of s] by (auto simp: member_ok_def)
qed

lemma install_simps [simp]:
  "opts (install b r) = opts r" "hubs (install b r) = hubs r" "next_hub (install b r) = next_hub r"
  "next_pub (install b r) = Suc (next_pub r)" "next_sub (install b r) = next_sub r" "lookup (install b r) = lookup r"
  "sub_of (install b r) s = sub_of r s"
  "h_id (hub_of (install b r) c) = h_id (hub_of r c)" "h_subs (hub_of (install b r) c) = h_subs (hub_of r c)"
  "h_publisherActive (hub_of (install b r) c) = (c = b \<or> h_publisherActive (hub_of r c))"
  "h_publisher (hub_of (install b r) c) = (if c = b then Some (next_pub r) else h_publisher (hub_of r c))"
  "h_generation (hub_of (install b r) c) = (if c = b then h_generation (hub_of r b) + 1 else h_generation (hub_of r c))"
  "p_hub (pub_of (install b r) p) = (if p = next_pub r then b else p_hub (pub_of r p))"
  "p_closed (pub_of (install b r) p) = (p \<noteq> next_pub r \<and> p_closed (pub_of r p))"
  "p_generation (pub_of (install b r) p) =
     (if p = next_pub r then h_generation (hub_of r b) + 1 else p_generation (pub_of r p))"
  by (simp_all add: install_def hub_of_def pub_of_def sub_of_def upd_hub_def lookup_def fun_eq_iff)

lemma install_slots:
  assumes ok: "slots_ok r" and l: "lookup r i = Some b" and free: "\<not> h_publisherActive (hub_of r b)"
  shows "slots_ok (install b r)"
proof (rule slots_okI)
  have b: "b < next_hub r" "h_id (hub_of r b) = i"
    using slots_hub_lt [OF ok l] lookup_id [OF ok l] by simp_all
  have none: "h_publisher (hub_of r b) = None" using slots_okD(2) [OF ok b(1)] free by (simp add: slot_ok_def)
  show "listed_ok (install b r)" using slots_okD(1) [OF ok] by (simp add: listed_ok_def)
  show "slot_ok (install b r) c" if "c < next_hub (install b r)" for c
    using that slots_okD(2) [OF ok, of c] by (auto simp: slot_ok_def)
  show "handle_ok (install b r) p" if "p < next_pub (install b r)" for p
  proof (cases "p = next_pub r")
    case True
    then show ?thesis using b l by (simp add: handle_ok_def registered_def)
  next
    case False
    then have "handle_ok r p" using that slots_okD(3) [OF ok, of p] by simp
    then show ?thesis using False none by (auto simp: handle_ok_def registered_def)
  qed
qed

lemma install_members: "members_ok r \<Longrightarrow> members_ok (install b r)"
  by (simp add: members_ok_def audience_ok_def member_ok_def)

lemma release_simps [simp]:
  "opts (release b p r) = opts r" "hubs (release b p r) = hubs r" "next_hub (release b p r) = next_hub r"
  "next_pub (release b p r) = next_pub r" "next_sub (release b p r) = next_sub r" "lookup (release b p r) = lookup r"
  "sub_of (release b p r) s = sub_of r s"
  "h_id (hub_of (release b p r) c) = h_id (hub_of r c)" "h_subs (hub_of (release b p r) c) = h_subs (hub_of r c)"
  "h_publisherActive (hub_of (release b p r) c) = (c \<noteq> b \<and> h_publisherActive (hub_of r c))"
  "h_publisher (hub_of (release b p r) c) = (if c = b then None else h_publisher (hub_of r c))"
  "h_generation (hub_of (release b p r) c) = h_generation (hub_of r c)"
  "p_hub (pub_of (release b p r) q) = p_hub (pub_of r q)"
  "p_closed (pub_of (release b p r) q) = (q = p \<or> p_closed (pub_of r q))"
  "p_generation (pub_of (release b p r) q) = p_generation (pub_of r q)"
  by (simp_all add: release_def)

lemma release_slots:
  assumes ok: "slots_ok r" and b: "b < next_hub r" "h_publisher (hub_of r b) = Some p"
  shows "slots_ok (release b p r)"
proof (rule slots_okI)
  have p: "p_hub (pub_of r p) = b" using slots_okD(2) [OF ok b(1)] b(2) by (simp add: slot_ok_def)
  show "listed_ok (release b p r)" using slots_okD(1) [OF ok] by (simp add: listed_ok_def)
  show "slot_ok (release b p r) c" if "c < next_hub (release b p r)" for c
    using that slots_okD(2) [OF ok, of c] p by (auto simp: slot_ok_def)
  show "handle_ok (release b p r) q" if "q < next_pub (release b p r)" for q
  proof -
    have "handle_ok r q" using that slots_okD(3) [OF ok, of q] by simp
    then show ?thesis using b(2) by (auto simp: handle_ok_def registered_def)
  qed
qed

lemma release_members: "members_ok r \<Longrightarrow> members_ok (release b p r)"
  by (simp add: members_ok_def audience_ok_def member_ok_def)

lemma unlist_simps [simp]:
  "opts (unlist i r) = opts r" "hubs (unlist i r) = AList.delete i (hubs r)" "next_hub (unlist i r) = next_hub r"
  "next_pub (unlist i r) = next_pub r" "next_sub (unlist i r) = next_sub r"
  "hub_of (unlist i r) b = hub_of r b" "pub_of (unlist i r) p = pub_of r p" "sub_of (unlist i r) s = sub_of r s"
  "lookup (unlist i r) j = (if j = i then None else lookup r j)"
  by (simp_all add: unlist_def hub_of_def pub_of_def sub_of_def lookup_def delete_conv)

lemma unlist_slots:
  assumes ok: "slots_ok r" and l: "lookup r i = Some b" and none: "h_publisher (hub_of r b) = None"
  shows "slots_ok (unlist i r)"
proof (rule slots_okI)
  show "listed_ok (unlist i r)" using slots_okD(1) [OF ok] by (auto simp: listed_ok_def distinct_delete)
  show "slot_ok (unlist i r) c" if "c < next_hub (unlist i r)" for c
    using that slots_okD(2) [OF ok, of c] by (simp add: slot_ok_def)
  show "handle_ok (unlist i r) p" if "p < next_pub (unlist i r)" for p
  proof -
    have "handle_ok r p" using that slots_okD(3) [OF ok, of p] by simp
    moreover have "h_id (hub_of r (p_hub (pub_of r p))) \<noteq> i" if "\<not> p_closed (pub_of r p)"
      using that calculation l none by (auto simp: handle_ok_def registered_def)
    ultimately show ?thesis by (simp add: handle_ok_def registered_def)
  qed
qed

lemma unlist_members: "members_ok r \<Longrightarrow> members_ok (unlist i r)"
  by (simp add: members_ok_def audience_ok_def member_ok_def)

lemma join_simps [simp]:
  "opts (join b so r) = opts r" "hubs (join b so r) = hubs r" "next_hub (join b so r) = next_hub r"
  "next_pub (join b so r) = next_pub r" "next_sub (join b so r) = Suc (next_sub r)" "lookup (join b so r) = lookup r"
  "pub_of (join b so r) p = pub_of r p"
  "h_id (hub_of (join b so r) c) = h_id (hub_of r c)" "h_publisherActive (hub_of (join b so r) c) = h_publisherActive (hub_of r c)"
  "h_publisher (hub_of (join b so r) c) = h_publisher (hub_of r c)"
  "h_generation (hub_of (join b so r) c) = h_generation (hub_of r c)"
  "h_subs (hub_of (join b so r) c) = (if c = b then next_sub r # h_subs (hub_of r b) else h_subs (hub_of r c))"
  "s_hub (sub_of (join b so r) s) = (if s = next_sub r then b else s_hub (sub_of r s))"
  "s_closed (sub_of (join b so r) s) = (s \<noteq> next_sub r \<and> s_closed (sub_of r s))"
  "s_internal (sub_of (join b so r) s) = (if s = next_sub r then so_internal so else s_internal (sub_of r s))"
  by (simp_all add: join_def hub_of_def pub_of_def sub_of_def upd_hub_def lookup_def fun_eq_iff new_subscriber_def)

lemma leave_simps [simp]:
  "opts (leave s r) = opts r" "hubs (leave s r) = hubs r" "next_hub (leave s r) = next_hub r"
  "next_pub (leave s r) = next_pub r" "next_sub (leave s r) = next_sub r" "lookup (leave s r) = lookup r"
  "pub_of (leave s r) p = pub_of r p"
  "h_id (hub_of (leave s r) c) = h_id (hub_of r c)" "h_publisherActive (hub_of (leave s r) c) = h_publisherActive (hub_of r c)"
  "h_publisher (hub_of (leave s r) c) = h_publisher (hub_of r c)"
  "h_generation (hub_of (leave s r) c) = h_generation (hub_of r c)"
  "h_subs (hub_of (leave s r) c) = (if c = s_hub (sub_of r s) then remove1 s (h_subs (hub_of r c)) else h_subs (hub_of r c))"
  "s_hub (sub_of (leave s r) t) = s_hub (sub_of r t)"
  "s_closed (sub_of (leave s r) t) = (t = s \<or> s_closed (sub_of r t))"
  "s_internal (sub_of (leave s r) t) = s_internal (sub_of r t)"
  by (simp_all add: leave_def)

lemma join_slots: "slots_ok r \<Longrightarrow> slots_ok (join b so r)"
  by (simp add: slots_ok_def listed_ok_def slot_ok_def handle_ok_def registered_def)

lemma leave_slots: "slots_ok r \<Longrightarrow> slots_ok (leave s r)"
  by (simp add: slots_ok_def listed_ok_def slot_ok_def handle_ok_def registered_def)

lemma join_members:
  assumes ok: "members_ok r" and b: "b < next_hub r"
  shows "members_ok (join b so r)"
proof (rule members_okI)
  show "audience_ok (join b so r) c" if "c < next_hub (join b so r)" for c
    using that members_okD(1) [OF ok, of c] by (auto simp: audience_ok_def less_Suc_eq)
  show "member_ok (join b so r) s" if "s < next_sub (join b so r)" for s
    using that members_okD(2) [OF ok, of s] b by (auto simp: member_ok_def less_Suc_eq)
qed

lemma leave_members:
  assumes ok: "members_ok r"
  shows "members_ok (leave s r)"
proof (rule members_okI)
  show "audience_ok (leave s r) c" if "c < next_hub (leave s r)" for c
    using that members_okD(1) [OF ok, of c] by (auto simp: audience_ok_def)
  show "member_ok (leave s r) t" if "t < next_sub (leave s r)" for t
    using that members_okD(2) [OF ok, of t] by (auto simp: member_ok_def)
qed

subsection \<open>The caps\<close>

lemma distinct_hub_refs:
  assumes "slots_ok r"
  shows "distinct (map snd (hubs r))"
proof -
  have "inj_on snd (set (hubs r))"
  proof (rule inj_onI)
    fix x y assume "x \<in> set (hubs r)" "y \<in> set (hubs r)" "snd x = snd y"
    then show "x = y"
      using lookup_id [OF assms lookup_mem [OF _ assms]] by (metis prod.collapse)
  qed
  moreover have "distinct (hubs r)" using slots_okD(1) [OF assms] by (simp add: listed_ok_def distinct_map)
  ultimately show ?thesis by (simp add: distinct_map)
qed

lemma total_external_sum:
  "slots_ok r \<Longrightarrow> totalExternalSubsLocked r = (\<Sum>b\<in>snd ` set (hubs r). externalSubsLocked r b)"
  using sum_list_distinct_conv_sum_set [OF distinct_hub_refs, of r "externalSubsLocked r"]
  by (simp add: totalExternalSubsLocked_def case_prod_unfold comp_def)

lemma external_nonneg: "0 \<le> externalSubsLocked r b"
  by (simp add: externalSubsLocked_def)

lemma external_same:
  assumes "h_subs (hub_of r' b) = h_subs (hub_of r b)" "\<And>s. s_internal (sub_of r' s) = s_internal (sub_of r s)"
  shows "externalSubsLocked r' b = externalSubsLocked r b"
  using assms by (simp add: externalSubsLocked_def)

lemma external_install [simp]: "externalSubsLocked (install b r) c = externalSubsLocked r c"
  by (rule external_same) simp_all

lemma external_release [simp]: "externalSubsLocked (release b p r) c = externalSubsLocked r c"
  by (rule external_same) simp_all

lemma external_unlist [simp]: "externalSubsLocked (unlist i r) c = externalSubsLocked r c"
  by (rule external_same) simp_all

lemma external_listed [simp]:
  "externalSubsLocked (snd (newHubLocked i now r)) c = (if c = next_hub r then 0 else externalSubsLocked r c)"
  by (simp add: externalSubsLocked_def)

lemma external_join:
  assumes ok: "members_ok r" and c: "c < next_hub r"
  shows "externalSubsLocked (join b so r) c = externalSubsLocked r c + (if c = b \<and> \<not> so_internal so then 1 else 0)"
proof -
  have "s \<noteq> next_sub r" if "s \<in> set (h_subs (hub_of r c))" for s
    using members_okD(1) [OF ok c] that by (auto simp: audience_ok_def)
  then have "filter (\<lambda>s. \<not> s_internal (sub_of (join b so r) s)) (h_subs (hub_of r c)) =
      filter (\<lambda>s. \<not> s_internal (sub_of r s)) (h_subs (hub_of r c))"
    by (intro filter_cong) auto
  moreover have "s_internal (sub_of (join b so r) (next_sub r)) = so_internal so" by simp
  ultimately show ?thesis
    by (cases "c = b") (simp_all add: externalSubsLocked_def del: join_simps(15))
qed

lemma external_leave: "externalSubsLocked (leave s r) c \<le> externalSubsLocked r c"
proof -
  have "length (filter P (remove1 s xs)) \<le> length (filter P xs)" for P and xs :: "sref list"
    by (induction xs) auto
  then show ?thesis by (simp add: externalSubsLocked_def)
qed

lemma caps_smaller:
  assumes "caps_ok r" "slots_ok r" "slots_ok r'" "opts r' = opts r"
    and "set (hubs r') \<subseteq> set (hubs r)" "\<And>b. externalSubsLocked r' b \<le> externalSubsLocked r b"
  shows "caps_ok r'"
proof -
  have "lookup r i = Some b" if "lookup r' i = Some b" for i b
    using that assms(2,3,5) lookup_mem [of i b r] map_of_SomeD by (fastforce simp: lookup_def)
  then have "externalSubsLocked r' b \<le> o_MaxSubscribers (opts r')" if "lookup r' i = Some b" for i b
    using that assms(1,4) order_trans [OF assms(6)] by (fastforce simp: caps_ok_def)
  moreover have "totalExternalSubsLocked r' \<le> totalExternalSubsLocked r"
    unfolding total_external_sum [OF assms(2)] total_external_sum [OF assms(3)]
    using assms(5,6) by (intro sum_le_included [where i = id]) (auto simp: external_nonneg)
  ultimately show ?thesis using assms(1,4) by (simp add: caps_ok_def)
qed

lemma install_caps: "caps_ok r \<Longrightarrow> caps_ok (install b r)"
  by (simp add: caps_ok_def totalExternalSubsLocked_def)

lemma release_caps: "caps_ok r \<Longrightarrow> caps_ok (release b p r)"
  by (simp add: caps_ok_def totalExternalSubsLocked_def)

lemma unlist_caps: "caps_ok r \<Longrightarrow> slots_ok r \<Longrightarrow> slots_ok (unlist i r) \<Longrightarrow> caps_ok (unlist i r)"
  by (rule caps_smaller) (auto simp: AList.delete_eq)

lemma leave_caps: "caps_ok r \<Longrightarrow> slots_ok r \<Longrightarrow> caps_ok (leave s r)"
  by (rule caps_smaller) (auto simp: leave_slots external_leave)

lemma listed_caps:
  assumes "caps_ok r" and ok: "slots_ok r" and "lookup r i = None" and opt: "opts_ok (opts r)"
  shows "caps_ok (snd (newHubLocked i now r))" (is "caps_ok ?r")
proof -
  have fresh: "b \<noteq> next_hub r" if "(j, b) \<in> set (hubs r)" for j b
    using slots_hub_lt [OF ok lookup_mem [OF that ok]] by simp
  have "map_of (hubs r) i = None" using assms(3) by (simp add: lookup_def)
  then have "hubs ?r = hubs r @ [(i, next_hub r)]"
  proof -
    have "AList.update i b xs = xs @ [(i, b)]" if "map_of xs i = None" for b and xs :: "(bytes \<times> href) list"
      using that by (induction xs) (auto split: if_splits)
    with \<open>map_of (hubs r) i = None\<close> show ?thesis by simp
  qed
  then have "totalExternalSubsLocked ?r = totalExternalSubsLocked r"
    using fresh by (auto simp: totalExternalSubsLocked_def intro!: arg_cong [where f = sum_list] map_cong)
  then show ?thesis
    using assms(1) opt slots_hub_lt [OF ok] by (auto simp: caps_ok_def opts_ok_def)
qed

lemma join_caps:
  assumes caps: "caps_ok r" and ok: "slots_ok r" and m: "members_ok r" and l: "lookup r i = Some b"
    and room: "so_internal so \<or> externalSubsLocked r b < o_MaxSubscribers (opts r) \<and>
      totalExternalSubsLocked r < o_MaxTotalSubscribers (opts r)"
  shows "caps_ok (join b so r)"
proof -
  let ?r = "join b so r" and ?B = "snd ` set (hubs r)"
  have e: "externalSubsLocked ?r c = externalSubsLocked r c + (if c = b \<and> \<not> so_internal so then 1 else 0)"
    if "c \<in> ?B" for c
  proof (rule external_join [OF m])
    show "c < next_hub r" using that slots_hub_lt [OF ok lookup_mem [OF _ ok]] by auto
  qed
  have b: "b \<in> ?B" using l map_of_SomeD by (force simp: lookup_def)
  have "totalExternalSubsLocked ?r = (\<Sum>c\<in>?B. externalSubsLocked ?r c)"
    using total_external_sum [OF join_slots [OF ok]] by simp
  also have "\<dots> = (\<Sum>c\<in>?B. externalSubsLocked r c + (if c = b \<and> \<not> so_internal so then 1 else 0))"
    by (rule sum.cong) (simp_all add: e)
  also have "\<dots> = totalExternalSubsLocked r + (if \<not> so_internal so then 1 else 0)"
    using b by (subst sum.distrib) (simp add: total_external_sum [OF ok])
  finally have t: "totalExternalSubsLocked ?r = totalExternalSubsLocked r + (if \<not> so_internal so then 1 else 0)" .
  have "externalSubsLocked ?r c \<le> o_MaxSubscribers (opts r)" if c: "lookup r j = Some c" for j c
  proof -
    have "c \<in> ?B" using c map_of_SomeD by (force simp: lookup_def)
    then show ?thesis using e [of c] caps c room by (auto simp: caps_ok_def)
  qed
  then show ?thesis using t caps room by (auto simp: caps_ok_def)
qed

theorem core_step_ok: "core_step r r' \<Longrightarrow> registry_ok r \<Longrightarrow> registry_ok r'"
proof (induction rule: core_step.induct)
  case (neutral r r')
  then show ?case by (simp add: registry_ok_core)
next
  case (listed r i now)
  then show ?case by (simp add: registry_ok_def listed_slots listed_members listed_caps)
next
  case (installed r i b)
  then show ?case by (simp add: registry_ok_def install_slots install_members install_caps)
next
  case (released b r p)
  then show ?case by (simp add: registry_ok_def release_slots release_members release_caps)
next
  case (unlisted r i b)
  then show ?case by (simp add: registry_ok_def unlist_slots unlist_members unlist_caps)
next
  case (joined r i b so)
  then show ?case
    by (simp add: registry_ok_def join_slots join_members join_caps slots_hub_lt)
next
  case (left s r)
  then show ?case by (simp add: registry_ok_def leave_slots leave_members leave_caps)
qed

lemma core_steps_ok: "core_steps r r' \<Longrightarrow> registry_ok r \<Longrightarrow> registry_ok r'"
  by (induction rule: rtranclp_induct) (auto intro: core_step_ok)

subsection \<open>The operations are runs of core steps\<close>

lemma steps_neutral: "same_core r r' \<Longrightarrow> core_steps r r'"
  by (intro r_into_rtranclp neutral)

lemma step_neutral: "core_step r r1 \<Longrightarrow> same_core r1 r' \<Longrightarrow> core_steps r r'"
  by (meson converse_rtranclp_into_rtranclp steps_neutral)

lemma setKind_simps [simp]:
  "opts (setPublisherKindLocked b k r) = opts r" "hubs (setPublisherKindLocked b k r) = hubs r"
  "next_hub (setPublisherKindLocked b k r) = next_hub r" "next_pub (setPublisherKindLocked b k r) = next_pub r"
  "next_sub (setPublisherKindLocked b k r) = next_sub r" "lookup (setPublisherKindLocked b k r) = lookup r"
  "pub_of (setPublisherKindLocked b k r) p = pub_of r p" "sub_of (setPublisherKindLocked b k r) s = sub_of r s"
  "h_id (hub_of (setPublisherKindLocked b k r) c) = h_id (hub_of r c)"
  "h_publisherActive (hub_of (setPublisherKindLocked b k r) c) = h_publisherActive (hub_of r c)"
  "h_publisher (hub_of (setPublisherKindLocked b k r) c) = h_publisher (hub_of r c)"
  "h_generation (hub_of (setPublisherKindLocked b k r) c) = h_generation (hub_of r c)"
  "h_subs (hub_of (setPublisherKindLocked b k r) c) = h_subs (hub_of r c)"
  "h_edge (hub_of (setPublisherKindLocked b k r) c) = h_edge (hub_of r c)"
  by (auto simp: setPublisherKindLocked_def foldIngressLocked_def Let_def hub_of_def pub_of_def sub_of_def upd_hub_def
      lookup_def fun_eq_iff)

lemma fold_simps [simp]:
  "opts (foldIngressLocked b r) = opts r" "hubs (foldIngressLocked b r) = hubs r"
  "next_hub (foldIngressLocked b r) = next_hub r" "next_pub (foldIngressLocked b r) = next_pub r"
  "next_sub (foldIngressLocked b r) = next_sub r" "lookup (foldIngressLocked b r) = lookup r"
  "hub_of (foldIngressLocked b r) c = hub_of r c"
  "pub_of (foldIngressLocked b r) p = pub_of r p" "sub_of (foldIngressLocked b r) s = sub_of r s"
  by (simp_all add: foldIngressLocked_def Let_def hub_of_def pub_of_def sub_of_def lookup_def fun_eq_iff)

lemma alloc_simps [simp]:
  "hub_of (r\<lparr>pub_heap := f, next_pub := n\<rparr>) b = hub_of r b" "sub_of (r\<lparr>pub_heap := f, next_pub := n\<rparr>) s = sub_of r s"
  "pub_of (r\<lparr>pub_heap := f, next_pub := n\<rparr>) p = f p" "lookup (r\<lparr>pub_heap := f, next_pub := n\<rparr>) = lookup r"
  by (simp_all add: hub_of_def pub_of_def sub_of_def lookup_def fun_eq_iff)

lemma pub_heap_simps [simp]:
  "pub_heap (upd_hub b f r) = pub_heap r" "pub_heap (setPublisherKindLocked b k r) = pub_heap r"
  by (auto simp: upd_hub_def setPublisherKindLocked_def foldIngressLocked_def Let_def)

lemma claim_fresh: "p = next_pub r" if "claimPublisherLocked b epoch now r = (Inr p, r')"
  using that by (auto simp: claimPublisherLocked_def Let_def split: if_splits)

lemma claim_core:
  assumes "claimPublisherLocked b epoch now r = (Inr p, r')"
  shows "same_core (install b r) r'" and "\<not> h_publisherActive (hub_of r b)"
proof -
  show free: "\<not> h_publisherActive (hub_of r b)"
    using assms by (auto simp: claimPublisherLocked_def split: if_splits)
  have r': "r' = snd (claimPublisherLocked b epoch now r)" by (simp add: assms)
  show "same_core (install b r) r'"
    unfolding r' claimPublisherLocked_def Let_def
    using free by (simp add: same_core_def hub_core_def pub_core_def pub_of_def [symmetric])
qed

lemma claim_refused: "claimPublisherLocked b epoch now r = (Inl e, r') \<Longrightarrow> r' = r"
  by (auto simp: claimPublisherLocked_def Let_def split: if_splits)

lemma finish_claim_steps:
  assumes "lookup r i = Some b"
  shows "core_steps r (fst (snd (finish_claim j b edge epoch now out r)))"
proof (cases "claimPublisherLocked b epoch now r")
  case (Pair res r')
  show ?thesis
  proof (cases res)
    case (Inl e)
    with Pair have "r' = r" by (simp add: claim_refused)
    with Inl Pair show ?thesis by (simp add: finish_claim_def)
  next
    case (Inr p)
    note c = claim_core [OF Pair [unfolded Inr]]
    have "core_steps r r'" by (rule step_neutral [OF installed [OF assms c(2)] c(1)])
    moreover have "same_core r' (setRoleLocked b edge r')" by (rule core_setRole) simp
    ultimately show ?thesis by (simp add: finish_claim_def Pair Inr) (meson rtranclp_trans steps_neutral)
  qed
qed

lemma listed_claim_steps:
  assumes "lookup r i = None"
  shows "core_steps r (fst (snd (finish_claim j (next_hub r) edge epoch now out (snd (newHubLocked i now r)))))"
  by (rule converse_rtranclp_into_rtranclp [of core_step, OF listed [OF assms, of now]], rule finish_claim_steps [where i = i]) simp

lemma StartPublish_steps: "core_steps r (fst (snd (StartPublish i draws epoch now r)))"
proof -
  have drawn: "lookup r j = None" if "drawIDLocked n draws r = Inr j" for n j
    using that by (induction n draws r rule: drawIDLocked.induct) (auto split: if_splits)
  show ?thesis
    by (auto simp: StartPublish_def case_prod_unfold finish_claim_steps listed_claim_steps drawn split: sum.split option.split)
qed

lemma ResumePublish_steps: "core_steps r (fst (snd (ResumePublish i epoch now r)))"
  by (auto simp: ResumePublish_def case_prod_unfold finish_claim_steps listed_claim_steps split: sum.split option.split)

lemma EdgePublish_steps: "core_steps r (fst (snd (EdgePublish i epoch now r)))"
  by (auto simp: EdgePublish_def case_prod_unfold finish_claim_steps listed_claim_steps split: sum.split option.split)

lemma TakeOverPublish_steps:
  assumes ok: "registry_ok r"
  shows "core_steps r (fst (snd (TakeOverPublish i epoch now r)))"
proof (cases "Normalize i")
  case (Inr j)
  show ?thesis
  proof (cases "lookup r j")
    case (Some b)
    define r1 where "r1 = (case h_publisher (hub_of r b) of Some old \<Rightarrow> release b old r | None \<Rightarrow> r)"
    have b: "b < next_hub r" using ok slots_hub_lt [OF _ Some] by (simp add: registry_ok_def)
    have act: "h_publisherActive (hub_of r b) = (h_publisher (hub_of r b) \<noteq> None)"
      using ok slots_okD(2) [OF _ b] by (simp add: registry_ok_def slot_ok_def)
    have r1: "core_steps r r1" using released [OF b] by (auto simp: r1_def split: option.split)
    have l1: "lookup r1 j = Some b" using Some by (auto simp: r1_def split: option.split)
    have "core_steps r1 (fst (snd (finish_claim j b False epoch now out r1)))" for out
      by (rule finish_claim_steps [OF l1])
    moreover have "fst (snd (TakeOverPublish i epoch now r)) = fst (snd (finish_claim j b False epoch now [] r1))"
      using act by (auto simp: TakeOverPublish_def Inr Some finish_claim_def r1_def release_def Let_def
          split: option.splits sum.splits prod.splits)
    ultimately show ?thesis using r1 by (metis rtranclp_trans)
  qed (simp add: TakeOverPublish_def Inr)
qed (simp add: TakeOverPublish_def)

lemma publisher_Close_steps:
  assumes ok: "registry_ok r" and p: "p < next_pub r"
  shows "core_steps r (fst (publisher_Close p now r))"
proof (cases "p_closed (pub_of r p)")
  case False
  define b where "b = p_hub (pub_of r p)"
  have h: "b < next_hub r" "h_publisher (hub_of r b) = Some p"
    using ok slots_okD(3) [OF _ p] False by (simp_all add: registry_ok_def handle_ok_def b_def)
  have "same_core (release b p r) (fst (publisher_Close p now r))"
    using False by (simp add: publisher_Close_def Let_def b_def [symmetric] same_core_def hub_core_def pub_core_def
        sub_core_def release_def)
  then show ?thesis by (rule step_neutral [OF released [OF h]])
qed (simp add: publisher_Close_def)

lemma hubs_upd_simps [simp]:
  "hub_of (r\<lparr>hubs := l\<rparr>) b = hub_of r b" "pub_of (r\<lparr>hubs := l\<rparr>) p = pub_of r p" "sub_of (r\<lparr>hubs := l\<rparr>) s = sub_of r s"
  "hub_of (r\<lparr>totals := t\<rparr>) b = hub_of r b" "pub_of (r\<lparr>totals := t\<rparr>) p = pub_of r p" "sub_of (r\<lparr>totals := t\<rparr>) s = sub_of r s"
  by (simp_all add: hub_of_def pub_of_def sub_of_def)

lemma removeBroadcast_steps:
  assumes ok: "registry_ok r"
  shows "core_steps r (fst (snd (removeBroadcast i g force code now r)))"
proof (cases "lookup r i")
  case (Some b)
  have b: "b < next_hub r" using ok slots_hub_lt [OF _ Some] by (simp add: registry_ok_def)
  have act: "h_publisherActive (hub_of r b) = (h_publisher (hub_of r b) \<noteq> None)"
    using ok slots_okD(2) [OF _ b] by (simp add: registry_ok_def slot_ok_def)
  define r1 where "r1 = (case h_publisher (hub_of r b) of Some old \<Rightarrow> release b old r | None \<Rightarrow> r)"
  have r1: "core_steps r r1" using released [OF b] by (auto simp: r1_def split: option.split)
  have "lookup r1 i = Some b" "h_publisher (hub_of r1 b) = None" using Some by (auto simp: r1_def split: option.split)
  then have r2: "core_step r1 (unlist i r1)" by (rule unlisted)
  show ?thesis
  proof (cases "(\<not> force \<and> h_publisherActive (hub_of r b)) \<or> \<not> g r b")
    case False
    have "same_core (unlist i r1) (fst (snd (removeBroadcast i g force code now r)))"
      using False act by (cases "h_publisher (hub_of r b)")
        (simp_all add: removeBroadcast_def Some Let_def same_core_def hub_core_def pub_core_def sub_core_def
          release_def r1_def drop_primes_def)
    then have "core_steps r1 (fst (snd (removeBroadcast i g force code now r)))"
      by (rule step_neutral [OF r2])
    with r1 show ?thesis by (rule rtranclp_trans)
  qed (simp add: removeBroadcast_def Some)
qed (simp add: removeBroadcast_def)

lemma remove_variant_steps:
  assumes ok: "registry_ok r"
  shows "core_steps r (fst (snd (handleGraceExpiry i gen now r)))" "core_steps r (fst (snd (EndBroadcast i now r)))"
    "core_steps r (fst (snd (EndBroadcastWithCode i code now r)))"
    "core_steps r (fst (snd (ExpireEdgeIfViewerless i now r)))"
    "core_steps r (fst (snd (TerminateBroadcast i code now r)))"
proof -
  note rm = removeBroadcast_steps [OF ok]
  show "core_steps r (fst (snd (handleGraceExpiry i gen now r)))"
    by (simp add: handleGraceExpiry_def expireBroadcast_def rm)
  show "core_steps r (fst (snd (EndBroadcast i now r)))"
    by (simp add: EndBroadcast_def expireBroadcast_def rm split: sum.split)
  show "core_steps r (fst (snd (EndBroadcastWithCode i code now r)))"
    by (simp add: EndBroadcastWithCode_def rm split: sum.split)
  show "core_steps r (fst (snd (TerminateBroadcast i code now r)))"
    by (simp add: TerminateBroadcast_def rm split: sum.split)
  have "fst (snd (ExpireEdgeIfViewerless i now r)) = (case Normalize i of Inl _ \<Rightarrow> r
      | Inr j \<Rightarrow> fst (snd (expireBroadcast j (\<lambda>r b. h_edge (hub_of r b) \<and> h_subs (hub_of r b) = []) now r)))"
    unfolding ExpireEdgeIfViewerless_def by (simp split: sum.split prod.split bool.split)
  then show "core_steps r (fst (snd (ExpireEdgeIfViewerless i now r)))"
    by (simp only: expireBroadcast_def) (simp add: rm split: sum.split)
qed

lemma publisher_Stop_steps:
  assumes ok: "registry_ok r" and p: "p < next_pub r"
  shows "core_steps r (fst (snd (publisher_Stop p now r)))"
proof -
  obtain r1 out where c: "publisher_Close p now r = (r1, out)" by fastforce
  have r1: "core_steps r r1" using publisher_Close_steps [OF assms, of now] by (simp add: c)
  then have "registry_ok r1" using core_steps_ok ok by blast
  then have "core_steps r1 (fst (snd (publisher_Stop p now r)))"
    by (simp add: publisher_Stop_def c case_prod_unfold Let_def removeBroadcast_steps)
  with r1 show ?thesis by (rule rtranclp_trans)
qed

lemma sweep_kicks_steps: "registry_ok r \<Longrightarrow> core_steps r (fst (sweep_kicks now ks r))"
proof (induction ks arbitrary: r)
  case (Cons i ks)
  let ?r = "fst (snd (TerminateBroadcast i CloseCodeBroadcastEnded now r))"
  have "core_steps r ?r" by (rule remove_variant_steps [OF Cons.prems])
  moreover from this have "core_steps ?r (fst (sweep_kicks now ks ?r))"
    by (intro Cons.IH) (rule core_steps_ok [OF _ Cons.prems])
  ultimately show ?case by (simp add: case_prod_unfold Let_def)
qed simp

lemma Sweep_steps:
  assumes ok: "registry_ok r"
  shows "core_steps r (fst (SweepStalledPublishers now r))"
proof -
  let ?r = "fst (sweep_hubs now (hubs r) r)"
  have s: "same_core r ?r" by (rule core_sweep_hubs) simp
  then have "core_steps ?r (fst (sweep_kicks now (snd (snd (sweep_hubs now (hubs r) r))) ?r))"
    using ok by (intro sweep_kicks_steps) (simp add: registry_ok_core)
  with steps_neutral [OF s] show ?thesis
    by (simp add: SweepStalledPublishers_def case_prod_unfold Let_def)
qed

subsection \<open>Subscribers\<close>

lemma ring_alloc_simps [simp]:
  "hub_of (r\<lparr>ring_heap := f, next_ring := n\<rparr>) b = hub_of r b" "pub_of (r\<lparr>ring_heap := f, next_ring := n\<rparr>) p = pub_of r p"
  "sub_of (r\<lparr>ring_heap := f, next_ring := n\<rparr>) s = sub_of r s"
  "hub_of (r\<lparr>audio_heap := g\<rparr>) b = hub_of r b" "pub_of (r\<lparr>audio_heap := g\<rparr>) p = pub_of r p" "sub_of (r\<lparr>audio_heap := g\<rparr>) s = sub_of r s"
  by (simp_all add: hub_of_def pub_of_def sub_of_def)

lemma core_ring_alloc:
  "same_core r r' \<Longrightarrow> same_core r (r'\<lparr>ring_heap := f, next_ring := n\<rparr>)" "same_core r r' \<Longrightarrow> same_core r (r'\<lparr>audio_heap := g\<rparr>)"
  by (simp_all add: same_core_def)

lemma core_ensure_rings: "same_core r r' \<Longrightarrow> same_core r (ensure_rings b now r')"
  by (auto simp: ensure_rings_def Let_def hub_core_def split: option.split
      intro!: neutral_hub neutral_ring core_ring_alloc)

lemma core_attach: "same_core r r' \<Longrightarrow> same_core r (attach_dvr b s ms now r')"
  by (auto simp: attach_dvr_def Let_def sub_core_def split: option.split intro!: neutral_sub core_ensure_rings)

lemma core_prime: "same_core r r' \<Longrightarrow> same_core r (enqueue_prime s d r')"
  by (auto simp: enqueue_prime_def split: option.split intro!: neutral_sub)

lemma core_seat:
  "same_core r r' \<Longrightarrow>
   same_core (upd_hub b (\<lambda>h. h\<lparr>h_subs := s # h_subs h\<rparr>) r) (upd_hub b (\<lambda>h. h\<lparr>h_subs := s # h_subs h\<rparr>) r')"
  by (simp add: same_core_def hub_core_def)

lemma core_prime_subscriber: "same_core r r' \<Longrightarrow> same_core r (prime_subscriber b s so now r')"
  by (auto simp: prime_subscriber_def Let_def sub_core_def intro!: core_prime neutral_sub)

lemma seat_joins: "same_core (join b so r) (seat_subscriber b so key now r)"
proof -
  let ?s = "next_sub r"
  let ?r0 = "r\<lparr>sub_heap := (sub_heap r)(?s := new_subscriber b so key (opts r)), next_sub := Suc ?s\<rparr>"
  let ?r1 = "if so_dvr so then attach_dvr b ?s (so_bufferMs so) now ?r0 else ?r0"
  have "same_core (join b so r) (upd_hub b (\<lambda>h. h\<lparr>h_subs := ?s # h_subs h\<rparr>) ?r0)"
    by (simp add: join_def same_core_def hub_of_def pub_of_def sub_of_def upd_hub_def sub_core_def new_subscriber_def)
  also have "same_core \<dots> (upd_hub b (\<lambda>h. h\<lparr>h_subs := ?s # h_subs h\<rparr>) ?r1)"
    by (rule core_seat) (simp add: core_attach)
  finally show ?thesis by (simp add: seat_subscriber_def Let_def)
qed

lemma subscribe_steps:
  assumes ok: "registry_ok r"
  shows "core_steps r (fst (snd (subscribe_opts i so now r)))"
proof (cases "Normalize i")
  case (Inr j)
  show ?thesis
  proof (cases "lookup r j")
    case (Some b)
    define key where "key = (if so_owner so \<noteq> [] \<and> o_StripedDelivery (opts r) then stripeOwnerKey (statsKey r) (so_owner so) else [])"
    show ?thesis
    proof (cases "so_internal so \<or> externalSubsLocked r b < o_MaxSubscribers (opts r) \<and>
        totalExternalSubsLocked r < o_MaxTotalSubscribers (opts r)")
      case True
      then have "fst (snd (subscribe_opts i so now r)) =
          prime_subscriber b (next_sub r) so now (seat_subscriber b so key now r)"
        by (auto simp: subscribe_opts_def Inr Some key_def Let_def)
      then have "same_core (join b so r) (fst (snd (subscribe_opts i so now r)))"
        by (simp add: core_prime_subscriber seat_joins)
      then show ?thesis by (rule step_neutral [OF joined [OF Some True]])
    next
      case False
      have "0 < o_MaxTotalSubscribers (opts r)" using ok by (simp add: registry_ok_def opts_ok_def)
      with False show ?thesis by (auto simp: subscribe_opts_def Inr Some)
    qed
  qed (simp add: subscribe_opts_def Inr)
qed (simp add: subscribe_opts_def)

lemma close_begin_steps:
  assumes s: "s < next_sub r"
  shows "core_steps r (fst (close_begin s r))"
proof (cases "s_closed (sub_of r s)")
  case False
  have o: "same_core r1 r2 \<Longrightarrow> same_core r1 (snd (orphanedLegsLocked s r2))" for r1 r2
    by (auto simp: orphanedLegsLocked_def Let_def intro: neutral_hub)
  have "same_core (leave s r) (fst (close_begin s r))"
    using False by (simp add: close_begin_def Let_def case_prod_unfold)
      (rule o, simp add: same_core_def leave_def hub_core_def sub_core_def)
  then show ?thesis by (rule step_neutral [OF left [OF s False]])
qed (simp add: close_begin_def)

lemma core_totals: "same_core r r' \<Longrightarrow> same_core r (r'\<lparr>totals := t\<rparr>)"
  by (simp add: same_core_def)

lemma core_close_fold: "same_core r r' \<Longrightarrow> same_core r (close_fold s r')"
  by (auto simp: close_fold_def Let_def hub_core_def sub_core_def intro!: neutral_hub neutral_sub core_totals)

end
