(* ===== verification/HubStreams.thy ===== *)
theory HubStreams
  imports HubSubscriber
begin

section \<open>What a subscriber's session sees\<close>

text \<open>
  Runs of everything that can happen to one subscriber.  Two facts about every run: the
  subscriber is evicted at most once, and each carrier stream gets its prologue and then
  whole records only, never a byte after it has ended, so that its reader recovers the
  framed datagrams.
\<close>

subsection \<open>A subscriber's life as the relay drives it\<close>

text \<open>
  Everything that happens to a subscriber between its registration and its end, in any
  order the goroutines may produce: fanned-out datagrams, rounds of its drain, keyframe
  hand-offs and their writers' returns, stripe state.
\<close>

definition closeStreams :: "Subscriber \<Rightarrow> Subscriber \<times> io list" where
  "closeStreams s =
     (s\<lparr>s_kfCurrent := None, s_carCurrent := None\<rparr>,
      (case s_kfCurrent s of Some k \<Rightarrow> [CancelledStream k] | None \<Rightarrow> []) @
      (case s_carCurrent s of Some k \<Rightarrow> [CancelledStream k] | None \<Rightarrow> []))"

datatype sub_event =
    Fanned bytes
  | DatagramRound bool bool bytes
  | CarrierRound drain_env bytes
  | AudioRound drain_env bytes
  | KeyframeHanded bool "nat option" instant instant bool bool bytes u64
  | KeyframeWritten nat bytes instant bool bool instant bool bool
  | StripeStateArrived instant StripeState
  | DVRStalled
  | Ended

type_synonym sub_state = "Subscriber \<times> rel_drain \<times> nat option"

fun sub_step :: "Options \<Rightarrow> sub_event \<Rightarrow> sub_state \<Rightarrow> sub_state \<times> io list" where
  "sub_step opt (Fanned d) (s, st, car) = ((enqueueLocked d s, st, car), [])"
| "sub_step opt (DatagramRound bw sent d) (s, st, car) =
     (let (s, out) = drainDatagram bw sent d s in ((s, st, car), out))"
| "sub_step opt (CarrierRound env d) (s, st, car) =
     (let (st, s, out) = drainReliable env d st s in ((s, st, car), out))"
| "sub_step opt (AudioRound env d) (s, st, car) =
     (let (car, s, out) = drainAudioSideband env d car s in ((s, st, car), out))"
| "sub_step opt (KeyframeHanded bw opened handedAt now bw' sent msg sq) (s, st, car) =
     (let (s, out) = sendKeyframe opt bw opened handedAt now bw' sent msg sq s in ((s, st, car), out))"
| "sub_step opt (KeyframeWritten k msg handedAt anyByte err now bw sent) (s, st, car) =
     (let (s, out) = writeKeyframe opt k msg handedAt anyByte err now bw sent s in ((s, st, car), out))"
| "sub_step opt (StripeStateArrived now x) (s, st, car) = ((ApplyStripeState now x s, st, car), [])"
| "sub_step opt DVRStalled (s, st, car) = (let (s, out) = evictOnce s in ((s, st, car), out))"
| "sub_step opt Ended (s, st, car) = (let (s, out) = closeStreams (s\<lparr>s_closed := True\<rparr>) in ((s, st, car), out))"

fun sub_run :: "Options \<Rightarrow> sub_event list \<Rightarrow> sub_state \<Rightarrow> sub_state \<times> io list" where
  "sub_run opt [] x = (x, [])"
| "sub_run opt (e # es) x =
     (let (x, out) = sub_step opt e x; (x, out') = sub_run opt es x in (x, out @ out'))"

subsection \<open>A subscriber is evicted at most once\<close>

definition evictions :: "io list \<Rightarrow> nat" where
  "evictions out = length (filter (\<lambda>x. x = Evict \<or> x = EvictStalled) out)"

lemma evictions_simps [simp]:
  "evictions [] = 0" "evictions (xs @ ys) = evictions xs + evictions ys"
  "evictions (x # xs) = (if x = Evict \<or> x = EvictStalled then 1 else 0) + evictions xs"
  by (simp_all add: evictions_def)

text \<open>What every operation promises of the latch.\<close>

definition latched :: "Subscriber \<Rightarrow> Subscriber \<Rightarrow> io list \<Rightarrow> bool" where
  "latched s s' out \<longleftrightarrow>
     (if s_evicting s then s_evicting s' \<and> evictions out = 0
      else evictions out = of_bool (s_evicting s'))"

lemma latched_refl [simp]: "latched s s []"
  by (simp add: latched_def)

lemma latched_trans: "latched s s' out \<Longrightarrow> latched s' s'' out' \<Longrightarrow> latched s s'' (out @ out')"
  by (auto simp: latched_def split: if_splits)

lemma latched_sideband: "sendSidebandDatagram bw sent d s = (s', out) \<Longrightarrow> s_evicting s' = s_evicting s \<and> evictions out = 0"
  by (auto simp: sendSidebandDatagram_def split: if_splits)

lemma latched_outcome:
  "noteKeyframeOutcome after handedAt anyByte now bw sent s = (s', out) \<Longrightarrow> s_evicting s' = s_evicting s \<and> evictions out = 0"
  by (auto simp: noteKeyframeOutcome_def Let_def split: if_splits dest!: latched_sideband)

lemma latched_open_failed:
  "noteKeyframeOpenFailedLocked s = (s', evict) \<Longrightarrow>
     s_evicting s' = (s_evicting s \<or> evict) \<and> \<not> (s_evicting s \<and> evict)"
  by (auto simp: noteKeyframeOpenFailedLocked_def Let_def split: if_splits)

lemma latched_writeCarrier:
  "writeCarrier ok buf s = (r, s', out) \<Longrightarrow> s_evicting s' = s_evicting s \<and> evictions out = 0"
  by (auto simp: writeCarrier_def split: option.splits if_splits)

lemma latched_openCarrier: "openCarrier opened ok s = (r, s', out) \<Longrightarrow> latched s s' out"
  by (auto simp: openCarrier_def noteCarrierOpenFailed_def noteCarrierOpenSucceeded_def latched_def Let_def
      split: option.splits if_splits prod.splits dest!: latched_writeCarrier)

lemma latched_retire: "retireCarrier c s = (s', out) \<Longrightarrow> s_evicting s' = s_evicting s \<and> evictions out = 0"
  by (auto simp: retireCarrier_def split: option.splits if_splits)

lemma latched_enqueue: "s_evicting (enqueueLocked d s) = s_evicting s"
  by (simp add: enqueueLocked_def purgeQueuedDeltasLocked_def Let_def)

lemma latched_keyframe:
  assumes "sendKeyframe opt bw opened handedAt now bw' sent msg sq s = (s', out)"
  shows "latched s s' out"
  using assms
  by (auto simp: sendKeyframe_def legNoteKeyframe_def Let_def latched_def split: if_splits option.splits prod.splits
      dest!: latched_outcome latched_open_failed)

lemma latched_written:
  assumes "writeKeyframe opt k msg handedAt anyByte err now bw sent s = (s', out)"
  shows "latched s s' out"
  using assms
  by (auto simp: writeKeyframe_def Let_def latched_def split: if_splits prod.splits dest!: latched_outcome)

lemma noteCarrierParity_fields [simp]:
  "s_evicting (noteCarrierParity d n s) = s_evicting s" "s_carCurrent (noteCarrierParity d n s) = s_carCurrent s"
  "s_carRotations (noteCarrierParity d n s) = s_carRotations s" "s_closed (noteCarrierParity d n s) = s_closed s"
  by (simp_all add: noteCarrierParity_def)

lemma latched_rotation: "carrier_rotation env st s = (st', s', out) \<Longrightarrow> s_evicting s' = s_evicting s \<and> evictions out = 0"
  by (auto simp: carrier_rotation_def split: if_splits prod.splits dest!: latched_retire)

lemma latched_place: "place_record env framed s = (ok, s', out) \<Longrightarrow> latched s s' out"
  by (auto simp: place_record_def Let_def latched_def split: if_splits prod.splits
      dest!: latched_openCarrier [unfolded latched_def] latched_writeCarrier)

lemma latched_round: "drainReliable env d st s = (st', s', out) \<Longrightarrow> latched s s' out"
  by (auto simp: drainReliable_def Let_def latched_def split: if_splits prod.splits sum.splits
      dest!: latched_place [unfolded latched_def] latched_sideband latched_rotation)

lemma latched_emit:
  "emitAudioRecord env car framed s = (ok, car', s', out) \<Longrightarrow> s_evicting s' = s_evicting s \<and> evictions out = 0"
  by (auto simp: emitAudioRecord_def Let_def split: if_splits prod.splits option.splits)

lemma latched_audio: "drainAudioSideband env d car s = (car', s', out) \<Longrightarrow> latched s s' out"
  by (auto simp: drainAudioSideband_def Let_def latched_def split: if_splits prod.splits option.splits dest!: latched_emit)

lemma latched_datagram: "drainDatagram bw sent d s = (s', out) \<Longrightarrow> latched s s' out"
  by (auto simp: drainDatagram_def Let_def latched_def split: if_splits)

lemma latched_stripe: "s_evicting (ApplyStripeState now x s) = s_evicting s"
  by (simp add: ApplyStripeState_def Let_def)

lemma latched_step:
  assumes "sub_step opt e (s, st, car) = ((s', st', car'), out)"
  shows "latched s s' out"
proof (cases e)
  case (Fanned d)
  with assms show ?thesis by (auto simp: latched_def latched_enqueue)
next
  case (StripeStateArrived now x)
  with assms show ?thesis by (auto simp: latched_def latched_stripe)
next
  case DVRStalled
  with assms show ?thesis by (auto simp: latched_def evictOnce_def Let_def)
next
  case Ended
  with assms show ?thesis by (auto simp: latched_def closeStreams_def split: option.splits)
qed (use assms in \<open>auto split: prod.splits intro: latched_datagram latched_round latched_audio latched_keyframe latched_written\<close>)

lemma latched_run: "sub_run opt es x = (x', out) \<Longrightarrow> latched (fst x) (fst x') out"
proof (induction es arbitrary: x x' out)
  case (Cons e es)
  obtain s st car where x: "x = (s, st, car)" by (cases x)
  obtain y o1 where step: "sub_step opt e x = (y, o1)" by fastforce
  obtain o2 where rest: "sub_run opt es y = (x', o2)" "out = o1 @ o2"
    using Cons.prems step by (auto split: prod.splits)
  obtain s' st' car' where y: "y = (s', st', car')" by (cases y)
  from latched_step [of opt e s st car s' st' car' o1] step have "latched s s' o1" by (simp add: x y)
  with Cons.IH [OF rest(1)] rest(2) show ?case by (simp add: x y latched_trans)
qed simp

lemma evicted_at_most_once: "sub_run opt es x = (x', out) \<Longrightarrow> evictions out \<le> 1"
  by (drule latched_run) (auto simp: latched_def split: if_splits)

subsection \<open>What is written on the streams\<close>

definition opened_in :: "io list \<Rightarrow> nat list" where
  "opened_in out = List.map_filter (\<lambda>x. case x of OpenedStream k \<Rightarrow> Some k | _ \<Rightarrow> None) out"

definition writes :: "nat \<Rightarrow> io list \<Rightarrow> bytes list" where
  "writes k out = List.map_filter (\<lambda>x. case x of Wrote j b \<Rightarrow> (if j = k then Some b else None) | _ \<Rightarrow> None) out"

definition ended :: "nat \<Rightarrow> io list \<Rightarrow> bool" where
  "ended k out \<longleftrightarrow> list_ex (\<lambda>x. case x of WriteFailed j _ \<Rightarrow> j = k | ClosedStream j \<Rightarrow> j = k | CancelledStream j \<Rightarrow> j = k | _ \<Rightarrow> False) out"

text \<open>A carrier: the prologue, then whole records.\<close>

definition framed :: "bytes list \<Rightarrow> bool" where
  "framed ws \<longleftrightarrow> ws = [] \<or> (\<exists>ds rs. ws = AppendCarrierPrologue [] # rs \<and> list_all2 (\<lambda>d r. AppendCarrierRecord [] d = Inr r) ds rs)"

lemma trace_simps [simp]:
  "opened_in [] = []" "writes k [] = []" "\<not> ended k []"
  "opened_in (xs @ ys) = opened_in xs @ opened_in ys" "writes k (xs @ ys) = writes k xs @ writes k ys"
  "ended k (xs @ ys) \<longleftrightarrow> ended k xs \<or> ended k ys"
  "opened_in (x # xs) = (case x of OpenedStream j \<Rightarrow> [j] | _ \<Rightarrow> []) @ opened_in xs"
  "writes k (x # xs) = (case x of Wrote j b \<Rightarrow> (if j = k then [b] else []) | _ \<Rightarrow> []) @ writes k xs"
  "ended k (x # xs) \<longleftrightarrow> (case x of WriteFailed j _ \<Rightarrow> j = k | ClosedStream j \<Rightarrow> j = k | CancelledStream j \<Rightarrow> j = k | _ \<Rightarrow> False) \<or> ended k xs"
  by (simp_all add: opened_in_def writes_def ended_def List.map_filter_def split: io.split)

text \<open>
  The state of the streams: \<open>c\<close> the video carrier, \<open>a\<close> the audio carrier, \<open>f\<close> the
  keyframe stream in flight.
\<close>

definition no_late_write :: "io list \<Rightarrow> bool" where
  "no_late_write out \<longleftrightarrow> (\<forall>xs k b ys. out = xs @ Wrote k b # ys \<longrightarrow> \<not> ended k xs)"

definition live_carrier :: "nat option \<Rightarrow> io list \<Rightarrow> bool" where
  "live_carrier c out \<longleftrightarrow> (\<forall>k. c = Some k \<longrightarrow> k \<in> set (opened_in out) \<and> writes k out \<noteq> [] \<and> \<not> ended k out)"

definition apart :: "nat option \<Rightarrow> nat option \<Rightarrow> bool" where
  "apart x y \<longleftrightarrow> x = None \<or> x \<noteq> y"

definition streams_ok :: "nat option \<Rightarrow> nat option \<Rightarrow> nat option \<Rightarrow> io list \<Rightarrow> bool" where
  "streams_ok c a f out \<longleftrightarrow>
     (\<forall>k. framed (writes k out)) \<and>
     (\<forall>k. k \<notin> set (opened_in out) \<longrightarrow> writes k out = [] \<and> \<not> ended k out) \<and>
     live_carrier c out \<and> live_carrier a out \<and>
     (\<forall>k. f = Some k \<longrightarrow> k \<in> set (opened_in out)) \<and>
     apart c a \<and> apart c f \<and> apart a f \<and> no_late_write out"

lemma no_late_write_snoc:
  "no_late_write (out @ [x]) \<longleftrightarrow> no_late_write out \<and> (case x of Wrote k _ \<Rightarrow> \<not> ended k out | _ \<Rightarrow> True)"
proof
  assume n: "no_late_write (out @ [x])"
  have "no_late_write out" unfolding no_late_write_def
  proof (intro allI impI)
    fix xs k b ys assume "out = xs @ Wrote k b # ys"
    then have "out @ [x] = xs @ Wrote k b # (ys @ [x])" by simp
    with n show "\<not> ended k xs" unfolding no_late_write_def by blast
  qed
  moreover have "case x of Wrote k _ \<Rightarrow> \<not> ended k out | _ \<Rightarrow> True"
    using n by (auto simp: no_late_write_def split: io.split)
  ultimately show "no_late_write out \<and> (case x of Wrote k _ \<Rightarrow> \<not> ended k out | _ \<Rightarrow> True)" by blast
next
  assume a: "no_late_write out \<and> (case x of Wrote k _ \<Rightarrow> \<not> ended k out | _ \<Rightarrow> True)"
  show "no_late_write (out @ [x])" unfolding no_late_write_def
  proof (intro allI impI)
    fix xs k b ys assume e: "out @ [x] = xs @ Wrote k b # ys"
    show "\<not> ended k xs"
    proof (cases ys rule: rev_cases)
      case Nil
      with e a show ?thesis by auto
    next
      case (snoc zs z)
      with e have "out = xs @ Wrote k b # zs" by simp
      with a show ?thesis unfolding no_late_write_def by blast
    qed
  qed
qed

lemma framed_snoc: "framed ws \<Longrightarrow> ws \<noteq> [] \<Longrightarrow> AppendCarrierRecord [] d = Inr r \<Longrightarrow> framed (ws @ [r])"
proof -
  assume "framed ws" "ws \<noteq> []" and r: "AppendCarrierRecord [] d = Inr r"
  then obtain ds rs where ws: "ws = AppendCarrierPrologue [] # rs" "list_all2 (\<lambda>d r. AppendCarrierRecord [] d = Inr r) ds rs"
    by (auto simp: framed_def)
  then have "list_all2 (\<lambda>d r. AppendCarrierRecord [] d = Inr r) (ds @ [d]) (rs @ [r])"
    using r by (intro list_all2_appendI) simp_all
  with ws(1) show ?thesis unfolding framed_def by (intro disjI2 exI [of _ "ds @ [d]"] exI [of _ "rs @ [r]"]) simp
qed

lemma framed_simple [simp]: "framed []" "framed [AppendCarrierPrologue []]"
  unfolding framed_def by (simp, intro disjI2 exI [of _ "[]"] exI [of _ "[]"], simp)

text \<open>The single calls.\<close>

definition neutral :: "io \<Rightarrow> bool" where
  "neutral x \<longleftrightarrow> (case x of OpenedStream _ \<Rightarrow> False | Wrote _ _ \<Rightarrow> False | WriteFailed _ _ \<Rightarrow> False
     | ClosedStream _ \<Rightarrow> False | CancelledStream _ \<Rightarrow> False | _ \<Rightarrow> True)"

lemma so_neutral: "streams_ok c a f out \<Longrightarrow> list_all neutral xs \<Longrightarrow> streams_ok c a f (out @ xs)"
proof (induction xs rule: rev_induct)
  case (snoc x xs)
  then have "streams_ok c a f (out @ xs)" "neutral x" by simp_all
  then have "streams_ok c a f ((out @ xs) @ [x])"
    unfolding streams_ok_def live_carrier_def no_late_write_snoc by (cases x) (simp_all add: neutral_def)
  then show ?case by simp
qed simp

lemma so_record:
  assumes "streams_ok (Some k) a f out" "AppendCarrierRecord [] d = Inr r"
  shows "streams_ok (Some k) a f (out @ [Wrote k r])"
  using assms framed_snoc [of "writes k out" d r]
  by (auto simp: streams_ok_def live_carrier_def no_late_write_snoc)

lemma so_swap: "streams_ok c a f out \<Longrightarrow> streams_ok a c f out"
  by (auto simp: streams_ok_def apart_def)

lemma so_open:
  assumes "streams_ok None a f out" "k \<notin> set (opened_in out)"
  shows "streams_ok (Some k) a f (out @ [OpenedStream k, Wrote k (AppendCarrierPrologue [])])"
proof -
  have "no_late_write ((out @ [OpenedStream k]) @ [Wrote k (AppendCarrierPrologue [])])"
    using assms by (simp only: no_late_write_snoc) (simp add: streams_ok_def)
  then show ?thesis
    using assms by (auto simp: streams_ok_def live_carrier_def apart_def)
qed

lemma so_opened_end:
  assumes "streams_ok c a f out" "k \<notin> set (opened_in out)"
  shows "streams_ok c a f (out @ [OpenedStream k, CancelledStream k])"
    and "streams_ok c a f (out @ [OpenedStream k, WriteFailed k b, CancelledStream k])"
proof -
  have n: "no_late_write ((out @ [OpenedStream k]) @ [CancelledStream k])"
    "no_late_write (((out @ [OpenedStream k]) @ [WriteFailed k b]) @ [CancelledStream k])"
    using assms by (simp_all only: no_late_write_snoc) (simp_all add: streams_ok_def)
  show "streams_ok c a f (out @ [OpenedStream k, CancelledStream k])"
    "streams_ok c a f (out @ [OpenedStream k, WriteFailed k b, CancelledStream k])"
    using assms n by (auto simp: streams_ok_def live_carrier_def)
qed

definition ending :: "nat \<Rightarrow> io list \<Rightarrow> bool" where
  "ending k xs \<longleftrightarrow> xs \<in> {[CancelledStream k], [ClosedStream k], [ClosedStream k, CancelledStream k]} \<union>
     range (\<lambda>b. [WriteFailed k b, CancelledStream k])"

lemma so_end:
  assumes "streams_ok (Some k) a f out" "ending k xs"
  shows "streams_ok None a f (out @ xs)"
proof -
  have n: "no_late_write out" using assms(1) by (simp add: streams_ok_def)
  have "no_late_write (out @ [x])" "no_late_write ((out @ [x]) @ [y])"
    if "x \<in> {CancelledStream k, ClosedStream k} \<union> range (WriteFailed k)" "y = CancelledStream k" for x y
    using that n by (auto simp: no_late_write_snoc simp del: append_assoc)
  then have "no_late_write (out @ xs)" using assms(2) by (auto simp: ending_def)
  then show ?thesis
    using assms by (auto simp: streams_ok_def live_carrier_def apart_def ending_def)
qed

lemma so_kf_end:
  assumes "streams_ok c a (Some k) out"
  shows "streams_ok c a None (out @ [CancelledStream k])"
  using assms by (auto simp: streams_ok_def live_carrier_def apart_def no_late_write_snoc)

lemma so_kf_open:
  assumes "streams_ok c a None out" "k \<notin> set (opened_in out)"
  shows "streams_ok c a (Some k) (out @ [OpenedStream k])"
  using assms by (auto simp: streams_ok_def live_carrier_def apart_def no_late_write_snoc)

text \<open>The operations.\<close>

definition sub_streams :: "Subscriber \<Rightarrow> nat option \<Rightarrow> io list \<Rightarrow> bool" where
  "sub_streams s car out \<longleftrightarrow> streams_ok (s_carCurrent s) car (s_kfCurrent s) out"

lemma sub_streams_bump [simp]:
  "sub_streams (sub_bump c n s) car out = sub_streams s car out"
  "sub_streams (noteCarrierParity d m s) car out = sub_streams s car out"
  by (simp_all add: sub_streams_def noteCarrierParity_def)

lemma neutral_simps [simp]:
  "neutral (SendDatagram d)" "neutral (AbandonWrite k)" "neutral (StartKeyframeWriter k m i)"
  "neutral (CountBandwidthDrop n)" "neutral (CountBandwidthDropBytes n)" "neutral Evict" "neutral EvictStalled"
  by (simp_all add: neutral_def)

lemma ss_sideband:
  "sub_streams s car out \<Longrightarrow> sendSidebandDatagram bw sent d s = (s', o1) \<Longrightarrow> sub_streams s' car (out @ o1)"
  by (auto simp: sendSidebandDatagram_def sub_streams_def intro!: so_neutral split: if_splits)

lemma ss_datagram:
  "sub_streams s car out \<Longrightarrow> drainDatagram bw sent d s = (s', o1) \<Longrightarrow> sub_streams s' car (out @ o1)"
  by (auto simp: drainDatagram_def sub_streams_def Let_def intro!: so_neutral split: if_splits)

lemma ss_writeCarrier:
  assumes "sub_streams s car out" "AppendCarrierRecord [] d = Inr r" "writeCarrier ok r s = (res, s', o1)"
  shows "sub_streams s' car (out @ o1)"
proof (cases "s_carCurrent s")
  case None
  with assms show ?thesis by (simp add: writeCarrier_def sub_streams_def)
next
  case (Some k)
  show ?thesis
  proof (cases ok)
    case True
    then have "s' = s" "o1 = [Wrote k r]" using assms(3) Some by (simp_all add: writeCarrier_def)
    then show ?thesis using so_record [of k car _ out d r] assms(1,2) Some by (simp add: sub_streams_def)
  next
    case False
    then have "s' = s\<lparr>s_carCurrent := None\<rparr>" "o1 = [WriteFailed k r, CancelledStream k]"
      using assms(3) Some by (simp_all add: writeCarrier_def)
    then show ?thesis
      using so_end [of k car _ out o1] assms(1) Some by (simp add: sub_streams_def ending_def)
  qed
qed

lemma ss_openCarrier:
  assumes "sub_streams s car out" "s_carCurrent s = None" "openCarrier opened ok s = (res, s', o1)"
    and "distinct (opened_in (out @ o1))"
  shows "sub_streams s' car (out @ o1)"
proof (cases opened)
  case None
  with assms show ?thesis
    by (auto simp: openCarrier_def noteCarrierOpenFailed_def sub_streams_def Let_def intro!: so_neutral split: if_splits)
next
  case (Some k)
  have "OpenedStream k \<in> set o1"
    using assms(3) Some by (auto simp: openCarrier_def writeCarrier_def Let_def split: if_splits)
  then have "k \<in> set (opened_in o1)" by (force simp: opened_in_def List.map_filter_def)
  then have fresh: "k \<notin> set (opened_in out)" using assms(4) by auto
  have s: "streams_ok None car (s_kfCurrent s) out" using assms(1,2) by (simp add: sub_streams_def)
  note cases = so_open [OF s fresh] so_opened_end [OF s fresh]
  show ?thesis
    using assms(2,3) Some cases
    by (auto simp: openCarrier_def writeCarrier_def noteCarrierOpenSucceeded_def sub_streams_def Let_def split: if_splits)
qed

lemma ss_place:
  assumes "sub_streams s car out" "AppendCarrierRecord [] d = Inr r" "place_record env r s = (ok, s', o1)"
    and "distinct (opened_in (out @ o1))"
  shows "sub_streams s' car (out @ o1)"
proof (cases "s_carCurrent s = None")
  case True
  obtain ok1 s1 oa where op: "openCarrier (e_opened env) (e_prologueOk env) s = (ok1, s1, oa)" by (metis prod_cases3)
  obtain ok2 s2 ob where wr: "writeCarrier (e_recordOk env) r s1 = (ok2, s2, ob)" by (metis prod_cases3)
  have o1: "if ok1 then s' = s2 \<and> o1 = oa @ ob else s' = s1 \<and> o1 = oa"
    using assms(3) True op wr by (auto simp: place_record_def split: if_splits)
  then have "distinct (opened_in (out @ oa))" using assms(4) by (auto split: if_splits)
  from ss_openCarrier [OF assms(1) True op this] have s1: "sub_streams s1 car (out @ oa)" .
  from ss_writeCarrier [OF s1 assms(2) wr] s1 o1 show ?thesis by (auto split: if_splits)
next
  case False
  with assms show ?thesis by (auto simp: place_record_def split: prod.splits intro: ss_writeCarrier)
qed

lemma ss_retire:
  assumes "sub_streams s car out" "retireCarrier c s = (s', o1)"
  shows "sub_streams s' car (out @ o1)"
proof (cases "s_carCurrent s")
  case None
  with assms show ?thesis by (simp add: retireCarrier_def)
next
  case (Some k)
  then have "streams_ok None car (s_kfCurrent s) (out @ o1)"
    using assms by (intro so_end) (auto simp: sub_streams_def retireCarrier_def ending_def)
  then show ?thesis using assms(2) Some by (auto simp: sub_streams_def retireCarrier_def)
qed

lemma opened_retire: "retireCarrier c s = (s', o1) \<Longrightarrow> opened_in o1 = []"
  by (auto simp: retireCarrier_def split: option.splits if_splits)

lemma ss_round:
  assumes "sub_streams s car out" "drainReliable env d st s = (st', s', o1)" "distinct (opened_in (out @ o1))"
  shows "sub_streams s' car (out @ o1)"
proof (cases "isAudioDatagram d")
  case True
  with assms show ?thesis by (auto simp: drainReliable_def split: prod.splits intro: ss_sideband)
next
  case False
  obtain st1 s1 o0 where rot: "carrier_rotation env st s = (st1, s1, o0)" by (metis prod_cases3)
  have s1: "sub_streams s1 car (out @ o0)"
    using assms(1) rot by (auto simp: carrier_rotation_def split: if_splits prod.splits intro: ss_retire)
  show ?thesis
  proof (cases "\<exists>r. AppendCarrierRecord [] d = Inr r \<and> \<not> d_carDead st1 \<and> \<not> s_closed s1 \<and> e_bw env")
    case True
    then obtain r where r: "AppendCarrierRecord [] d = Inr r" and go: "\<not> d_carDead st1" "\<not> s_closed s1" "e_bw env" by blast
    obtain ok s2 o2 where pl: "place_record env r s1 = (ok, s2, o2)" by (metis prod_cases3)
    have o1: "o1 = o0 @ o2" "sub_streams s' car = sub_streams s2 car"
      using assms(2) False rot r go pl by (auto simp: drainReliable_def Let_def fun_eq_iff split: if_splits)
    have "distinct (opened_in ((out @ o0) @ o2))" using assms(3) by (simp add: o1)
    from ss_place [OF s1 r pl this] show ?thesis by (simp add: o1)
  next
    case no: False
    then show ?thesis
      using assms(2) False rot s1 so_neutral [of _ _ _ "out @ o0" "[CountBandwidthDrop n]" for n]
      by (auto simp: drainReliable_def Let_def sub_streams_def split: if_splits sum.splits)
  qed
qed

lemma ss_emit:
  assumes "sub_streams s car out" "AppendCarrierRecord [] d = Inr r" "emitAudioRecord env car r s = (ok, car', s', o1)"
    and "distinct (opened_in (out @ o1))"
  shows "sub_streams s' car' (out @ o1)"
proof (cases car)
  case (Some k)
  have s: "streams_ok (Some k) (s_carCurrent s) (s_kfCurrent s) out"
    using assms(1) Some by (simp add: sub_streams_def so_swap)
  have "streams_ok None (s_carCurrent s) (s_kfCurrent s) (out @ [WriteFailed k r, CancelledStream k])"
    using s by (rule so_end) (simp add: ending_def)
  moreover have "streams_ok (Some k) (s_carCurrent s) (s_kfCurrent s) (out @ [Wrote k r])"
    using s assms(2) by (rule so_record)
  ultimately show ?thesis
    using assms(3) Some by (auto simp: emitAudioRecord_def sub_streams_def split: if_splits dest: so_swap)
next
  case None
  show ?thesis
  proof (cases "e_opened env")
    case None
    with \<open>car = None\<close> assms show ?thesis by (auto simp: emitAudioRecord_def)
  next
    case (Some k)
    have "OpenedStream k \<in> set o1"
      using assms(3) Some None by (auto simp: emitAudioRecord_def Let_def split: if_splits)
    then have "k \<in> set (opened_in o1)" by (force simp: opened_in_def List.map_filter_def)
    then have fresh: "k \<notin> set (opened_in out)" using assms(4) by auto
    have s: "streams_ok None (s_carCurrent s) (s_kfCurrent s) out"
      using assms(1) None by (simp add: sub_streams_def so_swap)
    have opn: "streams_ok (Some k) (s_carCurrent s) (s_kfCurrent s) (out @ [OpenedStream k, Wrote k (AppendCarrierPrologue [])])"
      by (rule so_open [OF s fresh])
    have "streams_ok None (s_carCurrent s) (s_kfCurrent s)
        ((out @ [OpenedStream k, Wrote k (AppendCarrierPrologue [])]) @ [WriteFailed k r, CancelledStream k])"
      using opn by (rule so_end) (simp add: ending_def)
    moreover have "streams_ok (Some k) (s_carCurrent s) (s_kfCurrent s)
        ((out @ [OpenedStream k, Wrote k (AppendCarrierPrologue [])]) @ [Wrote k r])"
      using opn assms(2) by (rule so_record)
    moreover note so_opened_end(2) [OF s fresh, of "AppendCarrierPrologue []"]
    ultimately show ?thesis
      using assms(3) Some None
      by (auto simp: emitAudioRecord_def sub_streams_def Let_def split: if_splits dest: so_swap)
  qed
qed

lemma ss_audio:
  assumes "sub_streams s car out" "drainAudioSideband env d car s = (car', s', o1)" "distinct (opened_in (out @ o1))"
  shows "sub_streams s' car' (out @ o1)"
proof (cases "s_closed s \<or> frameAudioRecord d (car = None) = None \<or> \<not> e_bw env")
  case True
  then show ?thesis
    using assms(1,2) so_neutral [of _ _ _ out "[CountBandwidthDrop n]" for n]
    by (auto simp: drainAudioSideband_def sub_streams_def split: if_splits option.splits)
next
  case False
  then obtain r n where r: "AppendCarrierRecord [] d = Inr r" "frameAudioRecord d (car = None) = Some (r, n)"
    by (auto simp: frameAudioRecord_def split: sum.splits)
  obtain ok car1 s1 o2 where em: "emitAudioRecord env car r s = (ok, car1, s1, o2)" by (metis prod_cases4)
  have "car' = car1" "o1 = o2" "sub_streams s' car' = sub_streams s1 car'"
    using assms(2) False r em by (auto simp: drainAudioSideband_def fun_eq_iff split: if_splits)
  with ss_emit [OF assms(1) r(1) em] assms(3) show ?thesis by simp
qed

lemma outcome_fields:
  "noteKeyframeOutcome after handedAt anyByte now bw sent s = (s', o1) \<Longrightarrow>
     s_carCurrent s' = s_carCurrent s \<and> s_kfCurrent s' = s_kfCurrent s \<and> list_all neutral o1 \<and> opened_in o1 = []"
  by (auto simp: noteKeyframeOutcome_def sendSidebandDatagram_def Let_def split: if_splits)

lemma open_failed_fields:
  "noteKeyframeOpenFailedLocked s = (s', evict) \<Longrightarrow> s_carCurrent s' = s_carCurrent s \<and> s_kfCurrent s' = s_kfCurrent s"
  by (auto simp: noteKeyframeOpenFailedLocked_def Let_def)

text \<open>The part of a hand-off before the stream is opened.\<close>

lemma so_supersede:
  assumes "streams_ok c a f out" "list_all neutral xs"
  shows "streams_ok c a None (out @ xs @ (case f of Some k \<Rightarrow> [CancelledStream k] | None \<Rightarrow> []))"
proof (cases f)
  case None
  with so_neutral [OF assms] show ?thesis by simp
next
  case (Some k)
  with so_kf_end [of c a k "out @ xs"] so_neutral [OF assms] show ?thesis by simp
qed

lemma ss_keyframe:
  assumes "sub_streams s car out" "sendKeyframe opt bw opened handedAt now bw' sent msg sq s = (s', o1)"
    and "distinct (opened_in (out @ o1))"
  shows "sub_streams s' car (out @ o1)"
proof (cases "s_closed s \<or> \<not> bw \<or> sq < s_kfLastSeq s")
  case True
  then show ?thesis
    using assms(1,2) so_neutral [of _ _ _ out "[CountBandwidthDropBytes n]" for n]
    by (auto simp: sendKeyframe_def sub_streams_def split: if_splits)
next
  case False
  define s1 where "s1 = (let s = s\<lparr>s_kfLastSeq := sq\<rparr> in
    case keyframeID msg of Some i \<Rightarrow> s\<lparr>s_kfNewestID := i\<rparr> | None \<Rightarrow> s)"
  obtain s2 ab where leg: "(if s_legCarrier s1 then legNoteKeyframe msg s1
      else if s_reliable s1 then (s1\<lparr>s_carRotations := s_carRotations s1 + 1\<rparr>, []) else (s1, [])) = (s2, ab)"
    by fastforce
  have f1: "s_carCurrent s1 = s_carCurrent s" "s_kfCurrent s1 = s_kfCurrent s"
    by (auto simp: s1_def Let_def split: option.split)
  have f2: "s_carCurrent s2 = s_carCurrent s" "s_kfCurrent s2 = s_kfCurrent s" "list_all neutral ab" "opened_in ab = []"
    using leg f1 by (auto simp: legNoteKeyframe_def Let_def split: if_splits option.splits)
  define cancel where "cancel = ab @ (case s_kfCurrent s2 of Some k \<Rightarrow> [CancelledStream k] | None \<Rightarrow> [])"
  define s3 where "s3 = s2\<lparr>s_kfCurrent := None\<rparr>"
  have so: "streams_ok (s_carCurrent s) car None (out @ cancel)"
    using so_supersede [OF assms(1) [unfolded sub_streams_def] f2(3)] by (simp add: cancel_def f2)
  have e: "sendKeyframe opt bw opened handedAt now bw' sent msg sq s = (case opened of
             None \<Rightarrow>
               let (s, evict) = noteKeyframeOpenFailedLocked s3;
                   s = sub_bump KeyframeDropsOpenFailed 1 s;
                   (s, out) = noteKeyframeOutcome (o_UndeliverableAfter opt) handedAt False now bw' sent s
               in (s, cancel @ out @ (if evict then [Evict] else []))
           | Some k \<Rightarrow>
               (s3\<lparr>s_kfConsecOpenFailed := 0, s_kfCurrent := Some k\<rparr>,
                cancel @ [OpenedStream k, StartKeyframeWriter k msg handedAt]))"
    using False leg unfolding sendKeyframe_def s1_def [symmetric, unfolded Let_def] Let_def cancel_def s3_def
    by simp
  show ?thesis
  proof (cases opened)
    case None
    obtain s4 ev where fl: "noteKeyframeOpenFailedLocked s3 = (s4, ev)" by fastforce
    obtain s5 o5 where oc: "noteKeyframeOutcome (o_UndeliverableAfter opt) handedAt False now bw' sent
        (sub_bump KeyframeDropsOpenFailed 1 s4) = (s5, o5)" by fastforce
    have "s' = s5" "o1 = cancel @ o5 @ (if ev then [Evict] else [])"
      using assms(2) e None fl oc by auto
    moreover have "streams_ok (s_carCurrent s) car None ((out @ cancel) @ o5 @ (if ev then [Evict] else []))"
      by (rule so_neutral [OF so]) (use outcome_fields [OF oc] in simp)
    ultimately show ?thesis
      using outcome_fields [OF oc] open_failed_fields [OF fl] by (simp add: sub_streams_def s3_def f2)
  next
    case (Some k)
    then have s': "s' = s3\<lparr>s_kfConsecOpenFailed := 0, s_kfCurrent := Some k\<rparr>"
      and o1: "o1 = cancel @ [OpenedStream k, StartKeyframeWriter k msg handedAt]" using assms(2) e by auto
    have "k \<notin> set (opened_in (out @ cancel))" using assms(3) by (simp add: o1)
    from so_neutral [OF so_kf_open [OF so this], of "[StartKeyframeWriter k msg handedAt]"]
    show ?thesis by (simp add: sub_streams_def s' o1 s3_def f2)
  qed
qed

lemma ss_close:
  assumes "sub_streams s car out"
  shows "sub_streams (fst (closeStreams s)) car (out @ snd (closeStreams s))"
proof -
  have k: "streams_ok (s_carCurrent s) car None (out @ (case s_kfCurrent s of Some k \<Rightarrow> [CancelledStream k] | None \<Rightarrow> []))"
    using so_supersede [of _ _ _ out "[]"] assms by (simp add: sub_streams_def)
  show ?thesis
  proof (cases "s_carCurrent s")
    case None
    with k show ?thesis by (simp add: sub_streams_def closeStreams_def)
  next
    case (Some j)
    from so_end [OF k [unfolded Some], of "[CancelledStream j]"]
    show ?thesis by (simp add: sub_streams_def closeStreams_def ending_def Some)
  qed
qed

lemma sub_streams_enqueue: "sub_streams (enqueueLocked d s) car out = sub_streams s car out"
  by (simp add: sub_streams_def enqueueLocked_def purgeQueuedDeltasLocked_def Let_def)

lemma sub_streams_stripe: "sub_streams (ApplyStripeState now x s) car out = sub_streams s car out"
  by (simp add: sub_streams_def ApplyStripeState_def Let_def)

fun writer_returns :: "sub_event \<Rightarrow> bool" where
  "writer_returns (KeyframeWritten k msg handedAt anyByte err now bw sent) = True"
| "writer_returns e = False"

lemma ss_step:
  assumes "sub_streams s car out" "sub_step opt e (s, st, car) = ((s', st', car'), o1)"
    and "distinct (opened_in (out @ o1))" "\<not> writer_returns e"
  shows "sub_streams s' car' (out @ o1)"
proof (cases e)
  case (Fanned d)
  with assms show ?thesis by (auto simp: sub_streams_enqueue)
next
  case (StripeStateArrived now x)
  with assms show ?thesis by (auto simp: sub_streams_stripe)
next
  case DVRStalled
  have "sub_streams (s\<lparr>s_evicting := True\<rparr>) car (out @ o2)" if "list_all neutral o2" for o2
    using assms(1) that by (simp add: sub_streams_def so_neutral)
  with DVRStalled assms show ?thesis by (auto simp: evictOnce_def Let_def)
next
  case Ended
  have "sub_streams (s\<lparr>s_closed := True\<rparr>) car out" using assms(1) by (simp add: sub_streams_def)
  from ss_close [OF this] Ended assms(2) show ?thesis by (auto split: prod.splits)
qed (use assms in \<open>auto split: prod.splits intro: ss_datagram ss_round ss_audio ss_keyframe\<close>)

lemma ss_run:
  assumes "sub_streams (fst x) (snd (snd x)) out" "sub_run opt es x = (x', o1)"
    and "distinct (opened_in (out @ o1))" "list_all (\<lambda>e. \<not> writer_returns e) es"
  shows "sub_streams (fst x') (snd (snd x')) (out @ o1)"
  using assms
proof (induction es arbitrary: x out o1)
  case (Cons e es)
  obtain s st car where x: "x = (s, st, car)" by (cases x)
  obtain y oa where step: "sub_step opt e x = (y, oa)" by fastforce
  obtain ob where rest: "sub_run opt es y = (x', ob)" "o1 = oa @ ob"
    using Cons.prems(2) step by (auto split: prod.splits)
  obtain s' st' car' where y: "y = (s', st', car')" by (cases y)
  have "distinct (opened_in (out @ oa))" using Cons.prems(3) by (auto simp: rest)
  from ss_step [of s car out opt e st s' st' car' oa] this Cons.prems(1,4) step
  have "sub_streams s' car' (out @ oa)" by (simp add: x y)
  with Cons.IH [of y "out @ oa" ob] rest Cons.prems(3,4) show ?case by (simp add: y)
qed simp

lemma sub_streams_start: "s_carCurrent s = None \<Longrightarrow> s_kfCurrent s = None \<Longrightarrow> sub_streams s None []"
  by (simp add: sub_streams_def streams_ok_def live_carrier_def apart_def no_late_write_def)


text \<open>A reader of a carrier gets back the datagrams that were framed on it.\<close>

lemma framed_reads_back:
  assumes "framed ws" "ws \<noteq> []"
  shows "\<exists>ds. ParseCarrierPrologue (concat ws) = Inr () \<and>
    concat ws = hd ws @ concat (tl ws) \<and> split_all ParseCarrierRecord (length ds) (concat (tl ws)) = (ds, []) \<and>
    length ds = length (tl ws)"
proof -
  obtain ds rs where ws: "ws = AppendCarrierPrologue [] # rs" and fr: "list_all2 (\<lambda>d r. AppendCarrierRecord [] d = Inr r) ds rs"
    using assms by (auto simp: framed_def)
  have "frame_all AppendCarrierRecord [] ds = Inr (concat rs)"
    using fr
  proof (induction rule: list_all2_induct)
    case (Cons d ds r rs)
    then show ?case
      using carrier.frame_all_shift [of r ds] by simp
  qed simp
  from carrier.stream_roundtrip [OF this, of "[]"]
  have "split_all ParseCarrierRecord (length ds) (concat rs) = (ds, [])" by simp
  moreover have "ParseCarrierPrologue (concat ws) = Inr ()"
    by (simp add: ws ParseCarrierPrologue_def AppendCarrierPrologue_def CarrierPrologueSize_def go_simps)
  ultimately show ?thesis using list_all2_lengthD [OF fr] ws by (intro exI [of _ ds]) simp
qed

end
