(* ===== verification/HubSteps.thy ===== *)
theory HubSteps
  imports HubReach HubStreams
begin

section \<open>The registry as a state machine\<close>

text \<open>
  One rule per critical section of the registry's lock, in any interleaving its callers may
  produce: claims and releases of the publisher slot, media from the publishers, the timers,
  subscriptions and their ends, the rounds of the subscribers' drains.  The invariants hold
  in every state it reaches.
\<close>

subsection \<open>The step relation\<close>

inductive hub_step :: "Registry \<Rightarrow> Registry \<Rightarrow> bool" where
  start: "hub_step r (fst (snd (StartPublish i draws epoch now r)))"
| resume: "hub_step r (fst (snd (ResumePublish i epoch now r)))"
| edge: "hub_step r (fst (snd (EdgePublish i epoch now r)))"
| take_over: "hub_step r (fst (snd (TakeOverPublish i epoch now r)))"
| close_publisher: "p < next_pub r \<Longrightarrow> hub_step r (fst (publisher_Close p now r))"
| stop: "p < next_pub r \<Longrightarrow> hub_step r (fst (snd (publisher_Stop p now r)))"
| grace: "hub_step r (fst (snd (handleGraceExpiry i gen now r)))"
| end_broadcast: "hub_step r (fst (snd (EndBroadcast i now r)))"
| end_with_code: "hub_step r (fst (snd (EndBroadcastWithCode i code now r)))"
| terminate: "hub_step r (fst (snd (TerminateBroadcast i code now r)))"
| expire_edge: "hub_step r (fst (snd (ExpireEdgeIfViewerless i now r)))"
| sweep: "hub_step r (fst (SweepStalledPublishers now r))"
| invalidate: "hub_step r (InvalidatePrimes i r)"
| bind_conn: "hub_step r (snd (BindConn p r))"
| bind_send: "hub_step r (BindSend p r)"
| telemetry_session: "hub_step r (publisher_SetTelemetrySession p x r)"
| set_kind: "hub_step r (SetKind p k r)"
| datagram: "hub_step r (HandleDatagram p d now r)"
| keyframe: "hub_step r (fst (snd (IngestKeyframeStream p stream now r)))"
| uplink_open: "hub_step r (snd (acquireUplinkCarrier p r))"
| uplink_record: "hub_step r (snd (admitUplinkRecord p fid r))"
| uplink_close: "hub_step r (releaseUplinkCarrier p r)"
| bad: "hub_step r (countBad b r)"
| pump: "hub_step r (fst (PumpViewerCounts now r))"
| subscribe: "hub_step r (fst (snd (subscribe_opts i so now r)))"
| close_subscriber: "s < next_sub r \<Longrightarrow> hub_step r (fst (close_begin s r))"
| fold_subscriber: "hub_step r (close_fold s r)"
| subscriber_works: "sub_step (opts r) e (sub_of r s, st, car) = ((x, st', car'), out) \<Longrightarrow> e \<noteq> Ended \<Longrightarrow>
    hub_step r (upd_sub s (\<lambda>_. x) r)"
| leg_alive: "hub_step r (upd_sub s (NoteLegAlive now) r)"
| downstream: "hub_step r (RecordDownstreamViewers s n r)"
| reaped: "hub_step r (countStripeLegsReaped b n r)"
| bandwidth: "hub_step r (countBandwidthDrop b m r)"
| bandwidth_bytes: "hub_step r (countBandwidthDropBytes b m r)"

inductive reachable :: "Registry \<Rightarrow> bool" where
  fresh: "reachable (NewRegistry opt key drawn)"
| step: "reachable r \<Longrightarrow> hub_step r r' \<Longrightarrow> reachable r'"

text \<open>What a subscriber's own work leaves alone.\<close>

lemma sub_core_upd [simp]:
  "sub_core (s\<lparr>s_kfLastSeq := x1\<rparr>) = sub_core s" "sub_core (s\<lparr>s_kfNewestID := x2\<rparr>) = sub_core s"
  "sub_core (s\<lparr>s_legKfID := x3\<rparr>) = sub_core s" "sub_core (s\<lparr>s_carRotations := x4\<rparr>) = sub_core s"
  "sub_core (s\<lparr>s_kfCurrent := x5\<rparr>) = sub_core s" "sub_core (s\<lparr>s_kfConsecOpenFailed := x6\<rparr>) = sub_core s"
  "sub_core (s\<lparr>s_evicting := x7\<rparr>) = sub_core s" "sub_core (s\<lparr>s_kfConsecSlow := x8\<rparr>) = sub_core s"
  "sub_core (s\<lparr>s_stripeUntil := x9\<rparr>) = sub_core s" "sub_core (s\<lparr>s_stripeNInfo := x10\<rparr>) = sub_core s"
  "sub_core (s\<lparr>s_undelivered := x11\<rparr>) = sub_core s" "sub_core (s\<lparr>s_undeliveredSince := x12\<rparr>) = sub_core s"
  "sub_core (s\<lparr>s_episodeNotices := x13\<rparr>) = sub_core s" "sub_core (s\<lparr>s_undeliverableNoticeAt := x14\<rparr>) = sub_core s"
  "sub_core (s\<lparr>s_undeliverableNotices := x15\<rparr>) = sub_core s" "sub_core (s\<lparr>s_carCurrent := x16\<rparr>) = sub_core s"
  by (simp_all add: sub_core_def)

lemma sideband_core [simp]: "sub_core (fst (sendSidebandDatagram bw sent d s)) = sub_core s"
  by (simp add: sendSidebandDatagram_def)

lemma outcome_core [simp]: "sub_core (fst (noteKeyframeOutcome u h a n bw sent s)) = sub_core s"
  by (simp add: noteKeyframeOutcome_def Let_def)

lemma stripe_core [simp]: "sub_core (ApplyStripeState now x s) = sub_core s"
  by (simp add: ApplyStripeState_def Let_def)

lemma open_failed_core [simp]: "sub_core (fst (noteKeyframeOpenFailedLocked s)) = sub_core s"
  by (simp add: noteKeyframeOpenFailedLocked_def Let_def)

lemma leg_keyframe_core [simp]: "sub_core (fst (legNoteKeyframe msg s)) = sub_core s"
  by (simp add: legNoteKeyframe_def Let_def)

lemma openCarrier_core: "openCarrier opened ok s = (r, s', out) \<Longrightarrow> sub_core s' = sub_core s"
  by (auto simp: openCarrier_def writeCarrier_def noteCarrierOpenFailed_def noteCarrierOpenSucceeded_def sub_core_def Let_def
      split: if_splits option.splits)

lemma place_core: "place_record env fr s = (ok, s', out) \<Longrightarrow> sub_core s' = sub_core s"
  by (auto simp: place_record_def writeCarrier_def sub_core_def Let_def split: if_splits option.splits prod.splits
      dest: openCarrier_core [unfolded sub_core_def])

lemma round_core: "drainReliable env d st s = (st', s', out) \<Longrightarrow> sub_core s' = sub_core s"
  by (auto simp: drainReliable_def carrier_rotation_def retireCarrier_def sendSidebandDatagram_def noteCarrierParity_def
      sub_core_def Let_def split: if_splits option.splits prod.splits sum.splits dest: place_core [unfolded sub_core_def])

lemma audio_core: "drainAudioSideband env d car s = (car', s', out) \<Longrightarrow> sub_core s' = sub_core s"
  by (auto simp: drainAudioSideband_def emitAudioRecord_def frameAudioRecord_def sub_core_def Let_def
      split: if_splits option.splits prod.splits sum.splits)

lemma keyframe_core: "sub_core (fst (sendKeyframe opt bw opened h now bw' sent msg sq s)) = sub_core s"
  by (simp add: sendKeyframe_def case_prod_unfold Let_def split: option.split)

lemma written_core: "sub_core (fst (writeKeyframe opt k msg h a err now bw sent s)) = sub_core s"
  by (simp add: writeKeyframe_def case_prod_unfold Let_def)

lemma sub_step_core:
  assumes "sub_step opt e (s, st, car) = ((s', st', car'), out)" "e \<noteq> Ended"
  shows "sub_core s' = sub_core s"
proof (cases e)
  case (DatagramRound bw sent d)
  with assms show ?thesis by (auto simp: drainDatagram_def sub_core_def Let_def split: if_splits)
next
  case (KeyframeHanded bw opened h now bw' sent msg sq)
  with assms show ?thesis using keyframe_core [of opt bw opened h now bw' sent msg sq s] by (auto split: prod.splits)
next
  case (KeyframeWritten k msg h a err now bw sent)
  with assms show ?thesis using written_core [of opt k msg h a err now bw sent s] by (auto split: prod.splits)
next
  case DVRStalled
  with assms show ?thesis by (auto simp: evictOnce_def Let_def)
qed (use assms in \<open>auto split: prod.splits intro: round_core audio_core\<close>)

subsection \<open>Every step is a run of core steps\<close>

lemma hub_step_core: "hub_step r r' \<Longrightarrow> registry_ok r \<Longrightarrow> core_steps r r'"
proof (induction rule: hub_step.induct)
  case (subscriber_works r e s st car x st' car' out)
  then have "sub_core x = sub_core (sub_of r s)" using sub_step_core by blast
  then show ?case by (intro steps_neutral) (simp add: same_core_def)
next
  case (leg_alive r s now)
  show ?case
    by (intro steps_neutral neutral_sub) (simp_all add: NoteLegAlive_def sub_core_def)
next
  case (bad r b)
  show ?case unfolding countBad_def by (intro steps_neutral core_count_hub same_core_refl)
qed (intro StartPublish_steps ResumePublish_steps EdgePublish_steps TakeOverPublish_steps publisher_Close_steps
    publisher_Stop_steps remove_variant_steps Sweep_steps subscribe_steps close_begin_steps |
  assumption |
  intro steps_neutral core_handles core_HandleDatagram core_IngestKeyframeStream core_uplink_slots core_Pump
    core_close_fold core_counts same_core_refl)+

lemma defaults_ok: "opts_ok (with_defaults opt)"
  by (simp add: opts_ok_def with_defaults_def or_default_def Second_def)

lemma new_registry_ok: "registry_ok (NewRegistry opt key drawn)"
  using defaults_ok [of opt]
  by (simp add: registry_ok_def NewRegistry_def slots_ok_def listed_ok_def members_ok_def caps_ok_def opts_ok_def
      lookup_def totalExternalSubsLocked_def Let_def)

lemma hub_step_ok: "hub_step r r' \<Longrightarrow> registry_ok r \<Longrightarrow> registry_ok r'"
  using hub_step_core core_steps_ok by blast

lemma reachable_ok: "reachable r \<Longrightarrow> registry_ok r"
  by (induction rule: reachable.induct) (simp_all add: new_registry_ok hub_step_ok)

end
