(* ===== verification/HubCounters.thy ===== *)
theory HubCounters
  imports HubSteps
begin

section \<open>The counters of the relay\<close>

text \<open>
  What \<^verbatim>\<open>Stats\<close> reports for each counter, and where the counts go when a subscriber
  closes or a broadcast is removed: every one of them is carried into the hub or into the
  registry's totals exactly once.
\<close>

subsection \<open>The reported totals\<close>

text \<open>A live subscriber's share; resyncs are read from DVR subscribers only.\<close>

definition live_stat :: "counter \<Rightarrow> Subscriber \<Rightarrow> u64" where
  "live_stat c s =
     (if c \<notin> set closed_counters then 0
      else if c = DVRResyncs \<and> s_dvr s = None then 0 else s_count s c)"

definition hub_stat :: "counter \<Rightarrow> href \<Rightarrow> Registry \<Rightarrow> u64" where
  "hub_stat c b r = h_count (hub_of r b) c + sum_list (map (\<lambda>s. live_stat c (sub_of r s)) (h_subs (hub_of r b)))"

definition total_stat :: "counter \<Rightarrow> Registry \<Rightarrow> u64" where
  "total_stat c r = sum_list (map (\<lambda>(_, b). hub_stat c b r) (hubs r)) + totals r c"

definition leg_stat :: "ingressLeg \<Rightarrow> Registry \<Rightarrow> ingressTally" where
  "leg_stat leg r =
     tally_add (fold (\<lambda>(_, b) t. if ingressLeg (hub_of r b) = leg then tally_add t (h_ingressLoss (hub_of r b)) else t)
       (hubs r) zero_tally) (totalIngress r leg)"

subsection \<open>Conservation\<close>

definition relay_total :: "counter \<Rightarrow> Registry \<Rightarrow> u64" where
  "relay_total c r = totals r c + (\<Sum>b\<in>snd ` set (hubs r). h_count (hub_of r b) c)"

text \<open>A subscriber whose counts no fold has taken yet.\<close>

definition unfolded :: "Registry \<Rightarrow> sref \<Rightarrow> bool" where
  "unfolded r s \<longleftrightarrow> \<not> s_closed (sub_of r s) \<or> s_closing (sub_of r s)"

definition grand_total :: "counter \<Rightarrow> Registry \<Rightarrow> u64" where
  "grand_total c r = relay_total c r + (\<Sum>s | s < next_sub r \<and> unfolded r s. s_count (sub_of r s) c)"

lemma bump_apply [simp]: "bump c n cs c' = (if c' = c then cs c + n else cs c')"
  by (simp add: bump_def)

lemma add_counters_apply:
  "distinct cl \<Longrightarrow> add_counters cl src dst c = dst c + (if c \<in> set cl then src c else 0)"
proof (induction cl arbitrary: dst)
  case (Cons x cl)
  then show ?case by (simp add: add_counters_def)
qed (simp add: add_counters_def)

lemma removed_all: "distinct removed_counters" "set removed_counters = UNIV"
proof -
  show "distinct removed_counters" by (simp add: removed_counters_def)
  show "set removed_counters = UNIV"
  proof (rule set_eqI)
    show "c \<in> set removed_counters \<longleftrightarrow> c \<in> UNIV" for c by (cases c) (simp_all add: removed_counters_def)
  qed
qed

lemma closed_distinct: "distinct closed_counters"
  by (simp add: closed_counters_def)

lemma setKind_counts [simp]:
  "h_count (hub_of (setPublisherKindLocked b k r) c) = h_count (hub_of r c)"
  "totals (setPublisherKindLocked b k r) = totals r"
  "s_count (sub_of (setPublisherKindLocked b k r) s) = s_count (sub_of r s)"
  by (auto simp: setPublisherKindLocked_def foldIngressLocked_def Let_def hub_of_def sub_of_def upd_hub_def)

lemma fold_counts [simp]: "totals (foldIngressLocked b r) = totals r"
  by (simp add: foldIngressLocked_def Let_def)

text \<open>A removal carries every counter of the hub into the totals.\<close>

lemma remove_counts:
  assumes "removeBroadcast i g force code now r = (True, r', out)"
  shows "\<exists>b. lookup r i = Some b \<and> hubs r' = AList.delete i (hubs r) \<and>
    (\<forall>c. totals r' c = totals r c + h_count (hub_of r b) c) \<and>
    (\<forall>b'. h_count (hub_of r' b') = h_count (hub_of r b') \<and> h_subs (hub_of r' b') = h_subs (hub_of r b')) \<and>
    sub_of r' = sub_of r \<and> next_sub r' = next_sub r"
proof (cases "lookup r i")
  case None
  with assms show ?thesis by (simp add: removeBroadcast_def)
next
  case (Some b)
  have r': "r' = fst (snd (removeBroadcast i g force code now r))" by (simp add: assms)
  have go: "\<not> ((\<not> force \<and> h_publisherActive (hub_of r b)) \<or> \<not> g r b)"
  proof
    assume "(\<not> force \<and> h_publisherActive (hub_of r b)) \<or> \<not> g r b"
    with assms Some show False by (simp add: removeBroadcast_def)
  qed
  show ?thesis
    unfolding r'
    using go by (cases "h_publisherActive (hub_of r b)"; cases "h_publisher (hub_of r b)")
      (simp_all add: removeBroadcast_def Some Let_def add_counters_apply removed_all drop_primes_def fun_eq_iff)
qed

lemma delete_refs:
  assumes ok: "slots_ok r" and l: "lookup r i = Some b"
  shows "snd ` set (AList.delete i (hubs r)) = snd ` set (hubs r) - {b}" and "b \<in> snd ` set (hubs r)"
proof -
  have "c \<noteq> b" if "(j, c) \<in> set (hubs r)" "j \<noteq> i" for j c
    using lookup_id [OF ok lookup_mem [OF that(1) ok]] lookup_id [OF ok l] that(2) by auto
  moreover have "j = i \<Longrightarrow> c = b" if "(j, c) \<in> set (hubs r)" for j c
    using lookup_mem [OF that ok] l by auto
  ultimately show "snd ` set (AList.delete i (hubs r)) = snd ` set (hubs r) - {b}"
    by (force simp: AList.delete_eq)
  show "b \<in> snd ` set (hubs r)" using l map_of_SomeD by (force simp: lookup_def)
qed

lemma remove_conserves:
  assumes "slots_ok r" "removeBroadcast i g force code now r = (True, r', out)"
  shows "relay_total c r' = relay_total c r" "grand_total c r' = grand_total c r"
proof -
  obtain b where b: "lookup r i = Some b" "hubs r' = AList.delete i (hubs r)"
    "totals r' c = totals r c + h_count (hub_of r b) c" "\<And>b'. h_count (hub_of r' b') = h_count (hub_of r b')"
    "sub_of r' = sub_of r" "next_sub r' = next_sub r"
    using remove_counts [OF assms(2)] by blast
  note d = delete_refs [OF assms(1) b(1)]
  show "relay_total c r' = relay_total c r"
    using sum.remove [OF _ d(2), of "\<lambda>b. h_count (hub_of r b) c"] by (simp add: relay_total_def b d(1))
  then show "grand_total c r' = grand_total c r" by (simp add: grand_total_def unfolded_def b)
qed

lemma reg_upd_counts [simp]:
  "next_sub (r\<lparr>totals := t\<rparr>) = next_sub r" "hubs (r\<lparr>totals := t\<rparr>) = hubs r" "totals (r\<lparr>totals := t\<rparr>) = t"
  by simp_all

lemma begin_conserves:
  assumes c: "c \<noteq> StripeLegsReaped"
  shows "grand_total c (fst (close_begin s r)) = grand_total c r"
proof (cases "s_closed (sub_of r s)")
  case False
  have orphan: "hubs (snd (orphanedLegsLocked t q)) = hubs q \<and> totals (snd (orphanedLegsLocked t q)) = totals q \<and>
      next_sub (snd (orphanedLegsLocked t q)) = next_sub q \<and> sub_of (snd (orphanedLegsLocked t q)) = sub_of q \<and>
      h_count (hub_of (snd (orphanedLegsLocked t q)) b) c = h_count (hub_of q b) c" for t q b
    using c by (simp add: orphanedLegsLocked_def Let_def hub_bump_def fun_eq_iff)
  let ?q = "upd_hub (s_hub (sub_of r s)) (\<lambda>h. h\<lparr>h_subs := remove1 s (h_subs h)\<rparr>)
      (upd_sub s (\<lambda>x. x\<lparr>s_closed := True, s_closing := True\<rparr>) r)"
  have q: "fst (close_begin s r) = snd (orphanedLegsLocked s ?q)"
    using False by (simp add: close_begin_def Let_def case_prod_unfold)
  have "unfolded ?q t = unfolded r t" "s_count (sub_of ?q t) = s_count (sub_of r t)" for t
    using False by (simp_all add: unfolded_def)
  moreover have "h_count (hub_of ?q b) = h_count (hub_of r b)" for b by simp
  ultimately show ?thesis
    unfolding q by (simp add: grand_total_def relay_total_def orphan unfolded_def)
qed (simp add: close_begin_def)

lemma fold_conserves:
  assumes ok: "slots_ok r" and s: "s < next_sub r" "s_closed (sub_of r s)" "s_closing (sub_of r s)"
    and c: "c \<in> set closed_counters"
  shows "grand_total c (close_fold s r) = grand_total c r"
proof -
  define x b where "x = sub_of r s" and "b = s_hub x"
  have subs: "sub_of (close_fold s r) t = (if t = s then x\<lparr>s_closing := False\<rparr> else sub_of r t)" for t
    using s(3) by (simp add: close_fold_def Let_def x_def)
  have fields: "next_sub (close_fold s r) = next_sub r" "hubs (close_fold s r) = hubs r"
    using s(3) by (simp_all add: close_fold_def Let_def)
  have relay: "relay_total c (close_fold s r) = relay_total c r + s_count x c"
  proof (cases "registered r b")
    case True
    then have l: "lookup r (h_id (hub_of r b)) = Some b" by (simp add: registered_def)
    have cnt: "h_count (hub_of (close_fold s r) d) c = h_count (hub_of r d) c + (if d = b then s_count x c else 0)" for d
      using s(3) True c by (simp add: close_fold_def Let_def x_def b_def add_counters_apply closed_distinct)
    have "totals (close_fold s r) = totals r" using s(3) True by (simp add: close_fold_def Let_def x_def b_def)
    then show ?thesis
      using delete_refs(2) [OF ok l] by (simp add: relay_total_def fields cnt sum.distrib)
  next
    case False
    then have "totals (close_fold s r) c = totals r c + s_count x c"
      using s(3) c by (simp add: close_fold_def Let_def x_def b_def add_counters_apply closed_distinct)
    moreover have "h_count (hub_of (close_fold s r) d) = h_count (hub_of r d)" for d
      using s(3) False by (simp add: close_fold_def Let_def x_def b_def)
    ultimately show ?thesis by (simp add: relay_total_def fields)
  qed
  let ?S = "{t. t < next_sub r \<and> unfolded r t}"
  have "{t. t < next_sub r \<and> unfolded (close_fold s r) t} = ?S - {s}"
    using s by (auto simp: unfolded_def subs x_def)
  moreover have "(\<Sum>t\<in>?S - {s}. s_count (sub_of (close_fold s r) t) c) = (\<Sum>t\<in>?S - {s}. s_count (sub_of r t) c)"
    by (rule sum.cong) (simp_all add: subs)
  moreover have "(\<Sum>t\<in>?S. s_count (sub_of r t) c) = s_count x c + (\<Sum>t\<in>?S - {s}. s_count (sub_of r t) c)"
    using s by (subst sum.remove [of _ s]) (simp_all add: unfolded_def x_def)
  ultimately show ?thesis by (simp add: grand_total_def relay fields)
qed

subsection \<open>What is reported\<close>

text \<open>Subscribers \<^verbatim>\<open>Stats\<close> does not see: closing ones, and those whose hub was removed.\<close>

definition held :: "counter \<Rightarrow> Registry \<Rightarrow> u64" where
  "held c r = (\<Sum>s | s < next_sub r \<and> unfolded r s \<and> (s_closed (sub_of r s) \<or> \<not> registered r (s_hub (sub_of r s))).
     s_count (sub_of r s) c)"

lemma registered_iff: "slots_ok r \<Longrightarrow> registered r b \<longleftrightarrow> b \<in> snd ` set (hubs r)"
  using lookup_id lookup_mem delete_refs(2) by (fastforce simp: registered_def)

lemma listed_lt:
  assumes "slots_ok r" "b \<in> snd ` set (hubs r)"
  shows "b < next_hub r"
  using assms slots_hub_lt [OF assms(1) lookup_mem [OF _ assms(1)]] by auto

lemma live_subs:
  assumes ok: "slots_ok r" "members_ok r"
  shows "(\<Sum>b\<in>snd ` set (hubs r). sum_list (map f (h_subs (hub_of r b)))) =
    (\<Sum>s | s < next_sub r \<and> \<not> s_closed (sub_of r s) \<and> registered r (s_hub (sub_of r s)). f s :: u64)"
proof -
  let ?B = "snd ` set (hubs r)"
  have aud: "audience_ok r b" if "b \<in> ?B" for b
    using members_okD(1) [OF ok(2) listed_lt [OF ok(1) that]] .
  have "(\<Sum>b\<in>?B. sum_list (map f (h_subs (hub_of r b)))) = (\<Sum>b\<in>?B. \<Sum>s\<in>set (h_subs (hub_of r b)). f s)"
    using aud by (intro sum.cong) (auto simp: audience_ok_def sum_list_distinct_conv_sum_set)
  also have "\<dots> = (\<Sum>s\<in>(\<Union>b\<in>?B. set (h_subs (hub_of r b))). f s)"
  proof (rule sum.UNION_disjoint [symmetric])
    show "\<forall>b\<in>?B. \<forall>d\<in>?B. b \<noteq> d \<longrightarrow> set (h_subs (hub_of r b)) \<inter> set (h_subs (hub_of r d)) = {}"
    proof (intro ballI impI equals0I)
      fix b d s assume "b \<in> ?B" "d \<in> ?B" "b \<noteq> d" "s \<in> set (h_subs (hub_of r b)) \<inter> set (h_subs (hub_of r d))"
      with aud [of b] aud [of d] show False by (auto simp: audience_ok_def)
    qed
  qed simp_all
  also have "(\<Union>b\<in>?B. set (h_subs (hub_of r b))) =
      {s. s < next_sub r \<and> \<not> s_closed (sub_of r s) \<and> registered r (s_hub (sub_of r s))}" (is "?U = ?V")
  proof
    show "?U \<subseteq> ?V" using aud by (fastforce simp: audience_ok_def registered_iff [OF ok(1)])
    show "?V \<subseteq> ?U" using members_okD(2) [OF ok(2)] by (fastforce simp: member_ok_def registered_iff [OF ok(1)])
  qed
  finally show ?thesis .
qed

lemma reported_and_held:
  assumes ok: "slots_ok r" "members_ok r" and c: "c \<in> set closed_counters" "c \<noteq> DVRResyncs"
  shows "total_stat c r + held c r = grand_total c r"
proof -
  let ?f = "\<lambda>s. s_count (sub_of r s) c" and ?B = "snd ` set (hubs r)"
  let ?L = "{s. s < next_sub r \<and> \<not> s_closed (sub_of r s) \<and> registered r (s_hub (sub_of r s))}"
  let ?H = "{s. s < next_sub r \<and> unfolded r s \<and> (s_closed (sub_of r s) \<or> \<not> registered r (s_hub (sub_of r s)))}"
  have "hub_stat c b r = h_count (hub_of r b) c + sum_list (map ?f (h_subs (hub_of r b)))" for b
    using c by (simp add: hub_stat_def live_stat_def)
  then have "total_stat c r = totals r c + (\<Sum>b\<in>?B. h_count (hub_of r b) c + sum_list (map ?f (h_subs (hub_of r b))))"
    using sum_list_distinct_conv_sum_set [OF distinct_hub_refs [OF ok(1)], of "\<lambda>b. hub_stat c b r"]
    by (simp add: total_stat_def case_prod_unfold comp_def)
  also have "\<dots> = relay_total c r + (\<Sum>s\<in>?L. ?f s)"
    by (simp add: relay_total_def sum.distrib live_subs [OF ok])
  finally have "total_stat c r = relay_total c r + (\<Sum>s\<in>?L. ?f s)" .
  moreover have "(\<Sum>s\<in>?L. ?f s) + held c r = (\<Sum>s\<in>?L \<union> ?H. ?f s)"
    unfolding held_def by (rule sum.union_disjoint [symmetric]) auto
  moreover have "?L \<union> ?H = {s. s < next_sub r \<and> unfolded r s}" by (auto simp: unfolded_def)
  ultimately show ?thesis by (simp add: grand_total_def add.assoc)
qed

subsection \<open>Losses stay with their leg\<close>

text \<open>One field of a tally at a time.\<close>

definition tally_part :: "(ingressTally \<Rightarrow> u64) \<Rightarrow> bool" where
  "tally_part f \<longleftrightarrow> f zero_tally = 0 \<and> (\<forall>t u. f (tally_add t u) = f t + f u)"

lemma tally_parts [simp]:
  "tally_part t_framesLost" "tally_part t_framesDamaged" "tally_part t_framesExpected"
  "tally_part t_chunksLost" "tally_part t_chunksExpected"
  by (simp_all add: tally_part_def zero_tally_def tally_add_def)

lemma tally_eqI: "(\<And>f. tally_part f \<Longrightarrow> f t = f u) \<Longrightarrow> t = (u :: ingressTally)"
  by (rule ingressTally.equality) simp_all

definition leg_part :: "(ingressTally \<Rightarrow> u64) \<Rightarrow> ingressLeg \<Rightarrow> Registry \<Rightarrow> href \<Rightarrow> u64" where
  "leg_part f leg r b = (if ingressLeg (hub_of r b) = leg then f (h_ingressLoss (hub_of r b)) else 0)"

lemma leg_stat_parts:
  assumes "tally_part f" "slots_ok r"
  shows "f (leg_stat leg r) = (\<Sum>b\<in>snd ` set (hubs r). leg_part f leg r b) + f (totalIngress r leg)"
proof -
  have "f (fold (\<lambda>(_, b) t. if ingressLeg (hub_of r b) = leg then tally_add t (h_ingressLoss (hub_of r b)) else t) hs t) =
      f t + sum_list (map (\<lambda>(_, b). leg_part f leg r b) hs)" for hs :: "(bytes \<times> href) list" and t
    using assms(1) by (induction hs arbitrary: t) (auto simp: leg_part_def tally_part_def add.assoc)
  then show ?thesis
    using assms sum_list_distinct_conv_sum_set [OF distinct_hub_refs [OF assms(2)], of "leg_part f leg r"]
    by (simp add: leg_stat_def tally_part_def case_prod_unfold comp_def)
qed

text \<open>Folding a hub's tally before it changes its leg.\<close>

lemma refold_conserves:
  assumes ok: "slots_ok r" "slots_ok r'" and b: "registered r b" and h: "hubs r' = hubs r"
    and others: "\<And>d. d \<noteq> b \<Longrightarrow> hub_of r' d = hub_of r d" and zero: "h_ingressLoss (hub_of r' b) = zero_tally"
    and tot: "totalIngress r' = (totalIngress r)(ingressLeg (hub_of r b) :=
      tally_add (totalIngress r (ingressLeg (hub_of r b))) (h_ingressLoss (hub_of r b)))"
  shows "leg_stat leg r' = leg_stat leg r"
proof (rule tally_eqI)
  fix f assume f: "tally_part f"
  have mem: "b \<in> snd ` set (hubs r)" using b registered_iff [OF ok(1)] by simp
  have "(\<Sum>d\<in>snd ` set (hubs r). leg_part f leg r d) =
      leg_part f leg r b + (\<Sum>d\<in>snd ` set (hubs r) - {b}. leg_part f leg r d)"
    using mem by (simp add: sum.remove)
  moreover have "(\<Sum>d\<in>snd ` set (hubs r). leg_part f leg r' d) =
      leg_part f leg r' b + (\<Sum>d\<in>snd ` set (hubs r) - {b}. leg_part f leg r' d)"
    using mem by (simp add: sum.remove)
  moreover have "(\<Sum>d\<in>snd ` set (hubs r) - {b}. leg_part f leg r' d) = (\<Sum>d\<in>snd ` set (hubs r) - {b}. leg_part f leg r d)"
    by (rule sum.cong) (simp_all add: leg_part_def others)
  ultimately show "f (leg_stat leg r') = f (leg_stat leg r)"
    using f unfolding leg_stat_parts [OF f ok(1)] leg_stat_parts [OF f ok(2)] h
    by (simp add: leg_part_def zero tot tally_part_def)
qed

lemma kind_keeps_legs:
  assumes ok: "slots_ok r" and b: "registered r b"
  shows "leg_stat leg (setPublisherKindLocked b k r) = leg_stat leg r" "leg_stat leg (setRoleLocked b e r) = leg_stat leg r"
proof -
  have core: "slots_ok (setPublisherKindLocked b k r)" "slots_ok (setRoleLocked b e r)"
    using ok slots_ok_core [OF core_setKind [OF same_core_refl]] slots_ok_core [OF core_setRole [OF same_core_refl]]
    by blast+
  show "leg_stat leg (setPublisherKindLocked b k r) = leg_stat leg r"
  proof (cases "h_publisherKind (hub_of r b) = k")
    case False
    then show ?thesis
      by (intro refold_conserves [OF ok core(1) b])
        (simp_all add: setPublisherKindLocked_def foldIngressLocked_def Let_def hub_of_def upd_hub_def)
  qed (simp add: setPublisherKindLocked_def)
  show "leg_stat leg (setRoleLocked b e r) = leg_stat leg r"
  proof (cases "h_edge (hub_of r b) = e")
    case False
    then show ?thesis
      by (intro refold_conserves [OF ok core(2) b])
        (simp_all add: setRoleLocked_def foldIngressLocked_def Let_def hub_of_def upd_hub_def)
  qed (simp add: setRoleLocked_def)
qed

end
