(* ===== verification/HubFanout.thy ===== *)
theory HubFanout
  imports HubCounters
begin

section \<open>What a publisher's media reaches\<close>

text \<open>
  The fan-out hands a datagram to exactly the subscribers it is routed to, once each; a
  closed publisher reaches nobody; an uplink carrier does what its records would have done
  as datagrams, and gives its slot back.
\<close>

subsection \<open>The fan-out\<close>

lemma fan_to_sub:
  "sub_of (fan_to b d now s r) t =
    (if t = s \<and> route_to d now (sub_of r s) = Forward then enqueueLocked d (sub_of r s) else sub_of r t)"
  by (simp add: fan_to_def count_hub_def Let_def split: route.split)

lemma fan_to_pub [simp]: "pub_of (fan_to b d now s r) p = pub_of r p"
  by (simp add: fan_to_def count_hub_def Let_def split: route.split)

lemma fan_fold_sub:
  "distinct ss \<Longrightarrow> sub_of (fold (fan_to b d now) ss r) t =
    (if t \<in> set ss \<and> route_to d now (sub_of r t) = Forward then enqueueLocked d (sub_of r t) else sub_of r t)"
proof (induction ss arbitrary: r)
  case (Cons s ss)
  then show ?case by (auto simp: fan_to_sub)
qed simp

lemma fan_fold_pub [simp]: "pub_of (fold (fan_to b d now) ss r) p = pub_of r p"
  by (induction ss arbitrary: r) simp_all

lemma feed_simps [simp]:
  "hub_of (feed_rings b d now r) c = hub_of r c" "sub_of (feed_rings b d now r) s = sub_of r s"
  "pub_of (feed_rings b d now r) p = pub_of r p"
  by (simp_all add: feed_rings_def Let_def split: option.split)

lemma count_simps [simp]:
  "sub_of (count_hub b c n r) s = sub_of r s" "pub_of (count_hub b c n r) p = pub_of r p"
  "h_subs (hub_of (count_hub b c n r) d) = h_subs (hub_of r d)"
  by (simp_all add: count_hub_def hub_bump_def)

lemma fan_out_sub:
  "distinct (h_subs (hub_of r b)) \<Longrightarrow> sub_of (fanOutLocked b d now r) s =
    (if s \<in> set (h_subs (hub_of r b)) \<and> route_to d now (sub_of r s) = Forward then enqueueLocked d (sub_of r s)
     else sub_of r s)"
  by (simp add: fanOutLocked_def Let_def fan_fold_sub)

lemma fan_out_pub [simp]: "pub_of (fanOutLocked b d now r) p = pub_of r p"
  by (simp add: fanOutLocked_def Let_def)

text \<open>The counters of the hub count the subscribers by their route.\<close>

definition routed :: "route \<Rightarrow> bytes \<Rightarrow> instant \<Rightarrow> Registry \<Rightarrow> sref list \<Rightarrow> nat" where
  "routed x d now r ss = length (filter (\<lambda>s. route_to d now (sub_of r s) = x) ss)"

lemma routed_step: "s \<notin> set ss \<Longrightarrow> routed x d now (fan_to b d now s r) ss = routed x d now r ss"
  unfolding routed_def by (intro arg_cong [where f = length] filter_cong) (auto simp: fan_to_sub)

lemma fan_fold_counts:
  "distinct ss \<Longrightarrow> h_count (hub_of (fold (fan_to b d now) ss r) b) c = h_count (hub_of r b) c +
    (if c = StripeSuppressedDatagrams then of_nat (routed Withheld d now r ss)
     else if c = ParitySuppressed then of_nat (routed ParityWithheld d now r ss)
     else if c = ParityDatagramsForwarded \<and> parityIndexIfParity d \<ge> 0 then of_nat (routed Forward d now r ss) else 0)"
proof (induction ss arbitrary: r)
  case (Cons s ss)
  have "h_count (hub_of (fan_to b d now s r) b) c = h_count (hub_of r b) c +
      (if c = StripeSuppressedDatagrams \<and> route_to d now (sub_of r s) = Withheld \<or>
          c = ParitySuppressed \<and> route_to d now (sub_of r s) = ParityWithheld \<or>
          c = ParityDatagramsForwarded \<and> parityIndexIfParity d \<ge> 0 \<and> route_to d now (sub_of r s) = Forward then 1 else 0)"
    by (auto simp: fan_to_def count_hub_def hub_bump_def bump_def Let_def split: route.split)
  with Cons show ?case by (auto simp: routed_step) (auto simp: routed_def)
qed (simp add: routed_def)

subsection \<open>A closed publisher\<close>

lemma relay_closed:
  assumes "p_closed (pub_of r p)"
  shows "relayDatagram p d now r = r" "relayVideoChunk p h d now r = r" "relayClockMapping p d now r = r"
    "relayAudioConfig p d now r = r" "relayViewerCount p d now r = r"
  using assms by (simp_all add: relayDatagram_def relayVideoChunk_def relayClockMapping_def relayAudioConfig_def
      relayViewerCount_def Let_def)

lemma handle_closed:
  assumes "p_closed (pub_of r p)" "P (NoteSeen p now r)"
    "P (countBad (p_hub (pub_of (NoteSeen p now r) p)) (NoteSeen p now r))"
  shows "P (HandleDatagram p d now r)"
proof -
  have c: "p_closed (pub_of (NoteSeen p now r) p)" using assms(1) by (simp add: NoteSeen_def)
  show ?thesis
    using assms(2,3) unfolding HandleDatagram_def Let_def relay_closed [OF c]
    by (simp split: sum.split prod.split)
qed

lemma bad_only:
  assumes closed: "p_closed (pub_of r p)"
  shows "sub_of (HandleDatagram p d now r) s = sub_of r s"
    and "h_count (hub_of (HandleDatagram p d now r) b) c \<noteq> h_count (hub_of r b) c \<Longrightarrow> c = BadDatagrams"
    and "ring_heap (HandleDatagram p d now r) = ring_heap r"
    and "snd (snd (IngestKeyframeStream p d now r)) = []"
proof -
  have n: "p_closed (pub_of (NoteSeen p now r) p)" "sub_of (NoteSeen p now r) = sub_of r"
    "hub_of (NoteSeen p now r) = hub_of r" "ring_heap (NoteSeen p now r) = ring_heap r"
    using closed by (simp_all add: NoteSeen_def fun_eq_iff) (simp add: upd_pub_def)
  have bad: "ring_heap (countBad c q) = ring_heap q" "sub_of (countBad c q) = sub_of q"
    "h_count (hub_of (countBad c q) b) x \<noteq> h_count (hub_of q b) x \<Longrightarrow> x = BadDatagrams" for b c q x
    by (simp_all add: countBad_def count_hub_def hub_bump_def bump_def upd_hub_def sub_of_def hub_of_def fun_eq_iff
        split: if_splits)
  show "sub_of (HandleDatagram p d now r) s = sub_of r s"
    by (rule handle_closed [OF closed]) (simp_all add: n bad)
  show "ring_heap (HandleDatagram p d now r) = ring_heap r"
    by (rule handle_closed [OF closed]) (simp_all add: n bad)
  show "h_count (hub_of (HandleDatagram p d now r) b) c \<noteq> h_count (hub_of r b) c \<Longrightarrow> c = BadDatagrams"
  proof -
    let ?P = "\<lambda>q. h_count (hub_of q b) c \<noteq> h_count (hub_of r b) c \<longrightarrow> c = BadDatagrams"
    have "?P (HandleDatagram p d now r)"
    proof (rule handle_closed [OF closed, where P = ?P])
      show "?P (countBad (p_hub (pub_of (NoteSeen p now r) p)) (NoteSeen p now r))"
        using bad(3) n(3) by metis
    qed (simp add: n)
    then show "h_count (hub_of (HandleDatagram p d now r) b) c \<noteq> h_count (hub_of r b) c \<Longrightarrow> c = BadDatagrams" by simp
  qed
  show "snd (snd (IngestKeyframeStream p d now r)) = []"
    using n(1) by (simp add: IngestKeyframeStream_def onKeyframe_def Let_def split: sum.split)
qed

lemma core_step_closed:
  "core_step r r' \<Longrightarrow> p < next_pub r \<Longrightarrow> p_closed (pub_of r p) \<Longrightarrow> p < next_pub r' \<and> p_closed (pub_of r' p)"
  by (induction rule: core_step.induct) (auto simp: core_fields)

lemma core_steps_closed:
  "core_steps r r' \<Longrightarrow> p < next_pub r \<Longrightarrow> p_closed (pub_of r p) \<Longrightarrow> p < next_pub r' \<and> p_closed (pub_of r' p)"
  by (induction rule: rtranclp_induct) (auto dest: core_step_closed)

subsection \<open>Uplink carriers\<close>

lemma relay_slots [simp]:
  "pub_of (relayDatagram p d now r) q = pub_of r q" "pub_of (relayVideoChunk p h d now r) q = pub_of r q"
  "pub_of (relayClockMapping p d now r) q = pub_of r q" "pub_of (relayAudioConfig p d now r) q = pub_of r q"
  "pub_of (relayViewerCount p d now r) q = pub_of r q" "pub_of (countBad b r) q = pub_of r q"
  by (simp_all add: relayDatagram_def relayVideoChunk_def relayClockMapping_def relayAudioConfig_def relayViewerCount_def
      cacheAndFanViewerCountLocked_def ingress_bytes_def countBad_def case_prod_unfold Let_def)

lemma handle_pub: "pub_of (HandleDatagram p d now r) q = pub_of (NoteSeen p now r) q"
  unfolding HandleDatagram_def Let_def by (simp split: sum.split prod.split)

lemma handle_slots [simp]: "p_uplinkCarriersOpen (pub_of (HandleDatagram p d now r) q) = p_uplinkCarriersOpen (pub_of r q)"
  by (simp add: handle_pub NoteSeen_def)

lemma admit_pub [simp]: "pub_of (snd (admitUplinkRecord p fid r)) q = pub_of r q"
  by (simp add: admitUplinkRecord_def Let_def)

lemma loop_slots: "p_uplinkCarriersOpen (pub_of (snd (uplink_loop p clock stream r)) q) = p_uplinkCarriersOpen (pub_of r q)"
proof (induction p clock stream r rule: uplink_loop.induct)
  case (1 p clock stream r)
  define n rest where "n = unat (join16 (stream ! 0) (stream ! 1))" and "rest = drop CarrierRecordHeaderSize stream"
  note unf = uplink_loop.simps [of p clock stream r, unfolded Let_def, folded rest_def, folded n_def]
  show ?case
  proof (cases "length stream < CarrierRecordHeaderSize \<or> n = 0 \<or> n > MaxDatagramSize \<or> length rest < n")
    case True
    then show ?thesis unfolding unf by auto
  next
    case False
    show ?thesis
    proof (cases "uplinkRecordFrameID (take n rest)")
      case None
      then show ?thesis using False unfolding unf by simp
    next
      case (Some fid)
      obtain a r1 where a: "admitUplinkRecord p fid r = (a, r1)" by fastforce
      define r2 where "r2 = (if a then HandleDatagram p (take n rest) (clock (length stream)) r1 else r1)"
      have "pub_of r1 q = pub_of r q" using admit_pub [of p fid r q] by (simp add: a)
      then have r2: "p_uplinkCarriersOpen (pub_of r2 q) = p_uplinkCarriersOpen (pub_of r q)" by (simp add: r2_def)
      have "uplink_loop p clock stream r = uplink_loop p clock (drop n rest) r2"
        using False Some a unfolding unf by (simp add: r2_def)
      moreover have "p_uplinkCarriersOpen (pub_of (snd (uplink_loop p clock (drop n rest) r2)) q) =
          p_uplinkCarriersOpen (pub_of r2 q)"
        using False Some a by (intro 1) (auto simp: n_def rest_def r2_def)
      ultimately show ?thesis using r2 by simp
    qed
  qed
qed

lemma ingest_slots:
  "p_uplinkCarriersOpen (pub_of (snd (IngestUplinkCarrier p clock stream r)) q) = p_uplinkCarriersOpen (pub_of r q)"
proof (cases "p_uplinkCarriersOpen (pub_of r p) \<ge> MaxUplinkCarriers")
  case True
  then show ?thesis by (simp add: IngestUplinkCarrier_def acquireUplinkCarrier_def Let_def)
next
  case False
  then show ?thesis
    by (simp add: IngestUplinkCarrier_def acquireUplinkCarrier_def releaseUplinkCarrier_def Let_def NoteSeen_def
        loop_slots case_prod_unfold split: sum.split)
qed

text \<open>What the records of a carrier do, one after the other.\<close>

fun replay :: "pref \<Rightarrow> instant \<Rightarrow> bytes list \<Rightarrow> Registry \<Rightarrow> Registry" where
  "replay p now [] r = r"
| "replay p now (d # ds) r =
     (let (admit, r) = admitUplinkRecord p (the (uplinkRecordFrameID d)) r
      in replay p now ds (if admit then HandleDatagram p d now r else r))"

lemma uplink_loop_record:
  assumes d: "uplinkRecordFrameID d = Some fid" "AppendCarrierRecord [] d = Inr f"
  shows "uplink_loop p (\<lambda>_. now) (f @ rest) r =
    uplink_loop p (\<lambda>_. now) rest
      (let (admit, r) = admitUplinkRecord p fid r in if admit then HandleDatagram p d now r else r)"
proof -
  have n: "0 < length d" "length d \<le> MaxDatagramSize" and f: "f = be16 (of_nat (length d)) @ d"
    using d(2) by (auto simp: AppendCarrierRecord_def split: if_splits)
  have "unat (join16 ((f @ rest) ! 0) ((f @ rest) ! 1)) = length d"
    using n by (simp add: f be16_def unat_of_nat MaxDatagramSize_def)
  moreover have "length (f @ rest) = 2 + length d + length rest" "drop 2 (f @ rest) = d @ rest"
    by (simp_all add: f be16_def)
  ultimately show ?thesis
    unfolding uplink_loop.simps [of p _ "f @ rest" r] CarrierRecordHeaderSize_def Let_def
    using n d(1) by (simp add: case_prod_unfold)
qed

lemma uplink_replays:
  "frame_all AppendCarrierRecord [] ds = Inr s \<Longrightarrow> list_all (\<lambda>d. uplinkRecordFrameID d \<noteq> None) ds \<Longrightarrow>
   uplink_loop p (\<lambda>_. now) s r = (Inr (), replay p now ds r)"
proof (induction ds arbitrary: s r)
  case Nil
  then show ?case by (subst uplink_loop.simps) (simp add: CarrierRecordHeaderSize_def)
next
  case (Cons d ds)
  obtain f t where ft: "AppendCarrierRecord [] d = Inr f" "frame_all AppendCarrierRecord [] ds = Inr t" "s = f @ t"
    using Cons.prems(1) by (rule carrier.frame_all_Cons)
  obtain fid where fid: "uplinkRecordFrameID d = Some fid" using Cons.prems(2) by auto
  from Cons.IH [OF ft(2)] Cons.prems(2) show ?case
    by (simp add: ft(3) uplink_loop_record [OF fid ft(1)] fid case_prod_unfold Let_def)
qed

lemma ingest_whole:
  assumes "p_uplinkCarriersOpen (pub_of r p) < MaxUplinkCarriers"
    and "uplink_loop p (\<lambda>_. now) s (NoteSeen p now (snd (acquireUplinkCarrier p r))) = (res, r2)"
  shows "IngestUplinkCarrier p (\<lambda>_. now) (AppendCarrierPrologue [] @ s) r = (res, releaseUplinkCarrier p r2)"
proof -
  have a: "acquireUplinkCarrier p r = (True, snd (acquireUplinkCarrier p r))"
    using assms(1) by (simp add: acquireUplinkCarrier_def Let_def)
  have l: "length (AppendCarrierPrologue []) = CarrierPrologueSize" "ParseCarrierPrologue (AppendCarrierPrologue []) = Inr ()"
    by code_simp+
  show ?thesis
    unfolding IngestUplinkCarrier_def by (subst a) (simp add: l assms(2) Let_def)
qed

subsection \<open>Removals and takeovers\<close>

lemma remove_outcome:
  assumes "removeBroadcast i g force code now r = (x, r', out)"
  shows "x = (\<exists>b. lookup r i = Some b \<and> (force \<or> \<not> h_publisherActive (hub_of r b)) \<and> g r b)"
    and "\<not> x \<Longrightarrow> r' = r \<and> out = []" and "x \<Longrightarrow> lookup r' j = (if j = i then None else lookup r j)"
    and "x \<Longrightarrow> lookup r i = Some b \<Longrightarrow> s \<in> set (h_subs (hub_of r b)) \<Longrightarrow> CloseSession s code \<in> set out \<and> CloseSubscriber s \<in> set out"
proof -
  let ?go = "\<lambda>b. (force \<or> \<not> h_publisherActive (hub_of r b)) \<and> g r b"
  have no: "removeBroadcast i g force code now r = (False, r, [])" if "lookup r i = None \<or> lookup r i = Some b \<and> \<not> ?go b" for b
    using that by (auto simp: removeBroadcast_def)
  have yes: "fst (removeBroadcast i g force code now r)" if "lookup r i = Some b" "?go b" for b
    using that by (simp add: removeBroadcast_def Let_def)
  show x: "x = (\<exists>b. lookup r i = Some b \<and> (force \<or> \<not> h_publisherActive (hub_of r b)) \<and> g r b)"
    using no yes assms by (cases "lookup r i") force+
  show "\<not> x \<Longrightarrow> r' = r \<and> out = []"
    using no x assms by (cases "lookup r i") auto
  show "lookup r' j = (if j = i then None else lookup r j)" if x
  proof -
    have "hubs r' = AList.delete i (hubs r)" using remove_counts [of i g force code now r r' out] assms that by auto
    then show ?thesis by (simp add: lookup_def delete_conv)
  qed
  show "CloseSession s code \<in> set out \<and> CloseSubscriber s \<in> set out"
    if "x" "lookup r i = Some b" "s \<in> set (h_subs (hub_of r b))"
  proof -
    have go: "?go b" using x that by simp
    have "out = snd (snd (removeBroadcast i g force code now r))" by (simp add: assms)
    also have "CloseSession s code \<in> set \<dots> \<and> CloseSubscriber s \<in> set \<dots>"
      using go that(2,3) by (cases "h_publisherActive (hub_of r b)"; cases "h_publisher (hub_of r b)")
        (auto simp: removeBroadcast_def Let_def drop_primes_def)
    finally show ?thesis .
  qed
qed

lemma slot_okD:
  "slot_ok r b \<Longrightarrow> h_publisher (hub_of r b) = Some p \<Longrightarrow>
    h_publisherActive (hub_of r b) \<and> p_generation (pub_of r p) = h_generation (hub_of r b)"
  by (simp add: slot_ok_def)

lemma hub_steps_ok: "hub_step\<^sup>*\<^sup>* r r' \<Longrightarrow> registry_ok r \<Longrightarrow> core_steps r r' \<and> registry_ok r'"
proof (induction rule: rtranclp_induct)
  case (step y z)
  then show ?case using hub_step_core hub_step_ok by (meson rtranclp_trans)
qed simp

text \<open>A publisher whose slot another one takes over stays closed.\<close>

lemma deposed_stays_closed:
  assumes ok: "registry_ok r" and l: "lookup r j = Some b" and old: "h_publisher (hub_of r b) = Some old"
    and t: "TakeOverPublish i epoch now r = (Inr (j, p), r', out)" and later: "hub_step\<^sup>*\<^sup>* r' r''"
  shows "p_closed (pub_of r'' old)"
proof -
  have n: "Normalize i = Inr j"
    using t by (auto simp: TakeOverPublish_def case_prod_unfold Let_def split: sum.splits option.splits)
  have b: "b < next_hub r" using ok slots_hub_lt [OF _ l] by (simp add: registry_ok_def)
  have slot: "h_publisherActive (hub_of r b)" "old < next_pub r"
    using ok slots_okD(2) [OF _ b] old by (auto simp: registry_ok_def slot_ok_def)
  let ?r = "release b old r"
  obtain q where c: "claimPublisherLocked b epoch now ?r = (Inr p, q)" and r': "r' = setRoleLocked b False q"
    using t slot(1) by (auto simp: TakeOverPublish_def n l old release_def case_prod_unfold Let_def split: sum.splits)
      (metis prod.collapse)
  have s: "same_core (install b ?r) r'" unfolding r' by (rule core_setRole [OF claim_core(1) [OF c]])
  have "registry_ok r'"
    using TakeOverPublish_steps [OF ok, of i epoch now] core_steps_ok [OF _ ok] by (simp add: t)
  then have "core_steps r' r''" using hub_steps_ok [OF later] by simp
  moreover have "old < next_pub r'" "p_closed (pub_of r' old)"
    using slot(2) by (simp_all add: core_fields [OF s])
  ultimately show ?thesis using core_steps_closed by blast
qed

end
