(* ===== verification/HubExample.thy ===== *)
theory HubExample
  imports HubCounters HubFanout
begin

section \<open>A small registry\<close>

text \<open>
  A registry with default options, then with one broadcast, then with one viewer.  It shows
  that the properties of reachable states can hold.
\<close>

definition demo_opts :: Options where
  "demo_opts = \<lparr>o_MaxSubscribers = 0, o_QueueDepth = 0, o_DVR = \<lparr>o_Window = 0, o_MaxBytes = 0\<rparr>, o_DVRAudio = False,
     o_LiveEdgeAudioOnReliableStream = False, o_StripedDelivery = False, o_StripeLegLease = 0, o_UndeliverableAfter = 0,
     o_DVRProgressTimeout = 0, o_BroadcastGrace = 0, o_PublisherStallTimeout = 0, o_PublisherStallEnds = False,
     o_MaxBroadcasts = 0, o_MaxTotalSubscribers = 0, o_MaxKeyframeBytes = 0, o_KeyframeWriteTimeout = 0,
     o_IDReserved = (\<lambda>_. False)\<rparr>"

definition demo0 :: Registry where "demo0 = NewRegistry demo_opts [] []"
definition demo_id :: bytes where "demo_id = ascii ''ABC234''"
definition demo1 :: Registry where "demo1 = fst (snd (ResumePublish demo_id [] 5 demo0))"
definition demo2 :: Registry where "demo2 = fst (snd (Subscribe demo_id 6 demo1))"

lemma demo_reachable: "reachable demo0" "reachable demo1" "reachable demo2"
proof -
  show 0: "reachable demo0" unfolding demo0_def by (rule fresh)
  show 1: "reachable demo1" unfolding demo1_def by (rule reachable.step [OF 0 resume])
  show "reachable demo2" unfolding demo2_def Subscribe_def by (rule reachable.step [OF 1 subscribe])
qed

lemma demo_norm: "Normalize demo_id = Inr demo_id"
  by code_simp

lemma demo0_fields: "lookup demo0 i = None" "next_hub demo0 = 0" "next_pub demo0 = 0" "next_sub demo0 = 0" "hubs demo0 = []"
  by (simp_all add: demo0_def NewRegistry_def Let_def lookup_def)

lemma claim_free: "\<not> h_publisherActive (hub_of r b) \<Longrightarrow> claimPublisherLocked b e now r = (Inr (next_pub r), snd (claimPublisherLocked b e now r))"
  by (simp add: claimPublisherLocked_def Let_def)

lemma demo1_claim:
  "ResumePublish demo_id [] 5 demo0 = (Inr (demo_id, 0), demo1, [BusStarted demo_id])"
  "same_core (install 0 (snd (newHubLocked demo_id 5 demo0))) demo1"
proof -
  let ?h = "snd (newHubLocked demo_id 5 demo0)"
  have o: "o_MaxBroadcasts (opts demo0) = 5"
    by (simp add: demo0_def NewRegistry_def Let_def with_defaults_def or_default_def demo_opts_def)
  have c: "claimPublisherLocked 0 [] 5 ?h = (Inr 0, snd (claimPublisherLocked 0 [] 5 ?h))"
    using claim_free [of ?h 0 "[]" 5] by (simp add: demo0_fields)
  have r: "ResumePublish demo_id [] 5 demo0 = finish_claim demo_id 0 False [] 5 [BusStarted demo_id] ?h"
    by (simp add: ResumePublish_def demo_norm demo0_fields at_capacity_def o case_prod_unfold)
  then show "ResumePublish demo_id [] 5 demo0 = (Inr (demo_id, 0), demo1, [BusStarted demo_id])"
    unfolding demo1_def r finish_claim_def by (subst (1 2) c) simp
  have d: "demo1 = setRoleLocked 0 False (snd (claimPublisherLocked 0 [] 5 ?h))"
    unfolding demo1_def r finish_claim_def by (subst c) simp
  show "same_core (install 0 ?h) demo1"
    unfolding d by (rule core_setRole [OF claim_core(1) [OF c]])
qed

lemma demo1_fields:
  "next_pub demo1 = 1" "next_hub demo1 = 1" "next_sub demo1 = 0" "p_closed (pub_of demo1 0) = False"
  "p_hub (pub_of demo1 0) = 0" "h_publisher (hub_of demo1 0) = Some 0" "hubs demo1 = [(demo_id, 0)]"
  "lookup demo1 demo_id = Some 0" "h_subs (hub_of demo1 0) = []" "h_publisherActive (hub_of demo1 0)"
  "h_generation (hub_of demo1 0) = 1"
  by (simp_all add: core_fields [OF demo1_claim(2)] same_core_lookup [OF demo1_claim(2)] demo0_fields)

lemma demo2_core: "fst (Subscribe demo_id 6 demo1) = Inr 0" "same_core (join 0 plain_opts demo1) demo2"
proof -
  have o: "o_MaxSubscribers (opts demo1) = 15" "o_MaxTotalSubscribers (opts demo1) = 50"
    by (simp_all add: core_fields [OF demo1_claim(2)])
      (simp_all add: demo0_def NewRegistry_def Let_def with_defaults_def or_default_def demo_opts_def)
  have e: "externalSubsLocked demo1 0 = 0" "totalExternalSubsLocked demo1 = 0"
    by (simp_all add: externalSubsLocked_def totalExternalSubsLocked_def demo1_fields)
  have r: "subscribe_opts demo_id plain_opts 6 demo1 = (Inr 0, prime_subscriber 0 0 plain_opts 6 (seat_subscriber 0 plain_opts [] 6 demo1),
     snd (snd (subscribe_opts demo_id plain_opts 6 demo1)))"
    by (simp add: subscribe_opts_def demo_norm demo1_fields o e Let_def) (simp add: plain_opts_def)
  then show "fst (Subscribe demo_id 6 demo1) = Inr 0" unfolding Subscribe_def by (metis fst_conv)
  have d: "demo2 = prime_subscriber 0 0 plain_opts 6 (seat_subscriber 0 plain_opts [] 6 demo1)"
    unfolding demo2_def Subscribe_def by (subst r) simp
  show "same_core (join 0 plain_opts demo1) demo2"
    unfolding d by (rule core_prime_subscriber [OF seat_joins])
qed

lemma demo2_fields:
  "next_pub demo2 = 1" "next_hub demo2 = 1" "next_sub demo2 = 1" "hubs demo2 = [(demo_id, 0)]"
  "lookup demo2 demo_id = Some 0" "h_subs (hub_of demo2 0) = [0]" "s_closed (sub_of demo2 0) = False"
  "h_publisher (hub_of demo2 0) = Some 0" "p_closed (pub_of demo2 0) = False"
  by (simp_all add: core_fields [OF demo2_core(2)] same_core_lookup [OF demo2_core(2)] demo1_fields)

definition demo3 :: Registry where "demo3 = fst (close_begin 0 demo2)"

lemma demo3_fields: "reachable demo3" "next_sub demo3 = 1" "s_closed (sub_of demo3 0)" "s_closing (sub_of demo3 0)"
proof -
  show "reachable demo3"
    unfolding demo3_def by (rule reachable.step [OF demo_reachable(3) close_subscriber]) (simp add: demo2_fields)
  show "next_sub demo3 = 1" "s_closed (sub_of demo3 0)" "s_closing (sub_of demo3 0)"
    by (simp_all add: demo3_def close_begin_def demo2_fields Let_def case_prod_unfold orphanedLegsLocked_def)
qed

lemma demo_removed: "fst (removeBroadcast demo_id (\<lambda>_ _. True) True CloseCodeTerminatedByOperator 9 demo2)"
  by (simp add: removeBroadcast_def demo2_fields Let_def)

lemma demo1_registered: "registered demo1 0"
  by (simp add: registered_def core_fields [OF demo1_claim(2)] demo0_fields demo1_fields)

lemma demo_takeover:
  "\<exists>p out. TakeOverPublish demo_id [] 9 demo1 = (Inr (demo_id, p), fst (snd (TakeOverPublish demo_id [] 9 demo1)), out)"
proof -
  have f: "claimPublisherLocked 0 [] 9 (release 0 0 demo1) = (Inr 1, snd (claimPublisherLocked 0 [] 9 (release 0 0 demo1)))"
    using claim_free [of "release 0 0 demo1" 0 "[]" 9] by (simp add: demo1_fields)
  show ?thesis
    unfolding TakeOverPublish_def
    by (simp add: demo_norm demo1_fields release_def [symmetric]) (subst (1 2) f, simp add: Let_def)
qed

definition demo_sub :: Subscriber where
  "demo_sub = new_subscriber 0 (plain_opts\<lparr>so_reliable := True\<rparr>) [] demo_opts"

definition demo_events :: "sub_event list" where
  "demo_events =
     [CarrierRound \<lparr>e_bw = True, e_sent = True, e_opened = Some 3, e_prologueOk = True, e_recordOk = True, e_closeOk = True\<rparr> [1, 2],
      CarrierRound \<lparr>e_bw = True, e_sent = True, e_opened = None, e_prologueOk = True, e_recordOk = False, e_closeOk = True\<rparr> [4],
      Ended]"

definition demo_chunk :: bytes where
  "demo_chunk = [Version, TypeVideoChunk, 0, 0, 0, 0, 7, 0, 0, 0, 1, 0, 0, 0, 0, 0, 0, 0, 9, 8, 7, 6]"

lemma demo_chunk_ok: "uplinkRecordFrameID demo_chunk \<noteq> None" "\<exists>s. frame_all AppendCarrierRecord [] [demo_chunk] = Inr s"
  by code_simp (simp add: AppendCarrierRecord_def demo_chunk_def MaxDatagramSize_def)

end
