(* ===== verification/Spec2Isabelle.thy ===== *)
theory Spec2Isabelle
  imports RoomProperties RoomAdmission ParityCode WireCarrier RoomMessages VoiceWire LocalRelayWire TelemetryToken HubIngress HubDVR HubStripe HubExample
begin

text \<open>
  A verification library for gawk, a live-streaming relay.

  The program.  A broadcaster publishes a stream over WebTransport to
  \<^verbatim>\<open>gawk-server\<close>, which relays it to any number of viewers.  The messages are the byte
  formats of \<^verbatim>\<open>gawk-server/wire\<close>; the relay's state is the registry of
  \<^verbatim>\<open>internal/hub\<close>, which knows one hub per broadcast: its publisher slot, its cached
  configuration and keyframe, its DVR rings, its subscribers and their counters.  The
  transport parses what arrives with \<^verbatim>\<open>wire\<close> and calls the hub; the hub reads the headers
  of the datagrams it relays with the same parsers and writes carriers and keyframe streams
  in the same formats.  Rooms group broadcasts; their control records are formats of
  \<^verbatim>\<open>wire\<close> too.  The telemetry service accepts reports under tokens the relay mints.

  The wire formats (\<^verbatim>\<open>src/gawk-server/wire\<close>, in the order of the imports).
  \<^item> \<open>Prelude\<close>, \<open>GoStd\<close>: results as sums, slices with explicit bounds, the Go library
    functions the sources call (UTF-8, \<^verbatim>\<open>strings\<close>, base 64, \<^verbatim>\<open>binary.BigEndian\<close>).
  \<^item> \<open>WireBase\<close>: constants and errors; the locale of a strict codec, whose laws (a
    written message parses to what was written, an accepted message is the writing of what
    was parsed) every fixed message interprets.
  \<^item> \<open>WireMedia\<close>, \<open>WireControl\<close>, \<open>WireSession\<close> (\<^verbatim>\<open>wire.go\<close>, \<^verbatim>\<open>closing.go\<close>,
    \<^verbatim>\<open>stripe.go\<close>, \<^verbatim>\<open>parity.go\<close>): the media, control and session messages.
  \<^item> \<open>WireCarrier\<close>: the length-framed datagrams of reliable streams and what a reader
    recovers from any prefix of one.
  \<^item> \<open>GF256\<close>, \<open>ParityCode\<close> (\<^verbatim>\<open>parity.go\<close>): GF(256) from its tables, proved to be a
    field; \<^verbatim>\<open>ComputeParity\<close> is the P/Q code over it and \<^verbatim>\<open>RecoverChunks\<close> inverts it.
  \<^item> \<open>RoomReader\<close>, \<open>RoomWire\<close>, \<open>RoomMessages\<close> (\<^verbatim>\<open>room.go\<close>), \<open>VoiceWire\<close>
    (\<^verbatim>\<open>voice.go\<close>), \<open>LocalRelayWire\<close> (\<^verbatim>\<open>localrelay.go\<close>): the record cursor as a state
    monad with a refinement to plain parsers, and the records read through it.
  \<^item> \<open>SHA256\<close>, \<open>TelemetryToken\<close> (\<^verbatim>\<open>telemetry_token.go\<close>): the session tokens, with
    HMAC-SHA256 written out.
  \<^item> \<open>BroadcastID\<close> (\<^verbatim>\<open>internal/broadcastid\<close>): minting and normalising join codes.

  The hub (\<^verbatim>\<open>src/gawk-server/internal/hub\<close>).
  \<^item> \<open>HubIngress\<close> (\<^verbatim>\<open>ingress.go\<close>): the ring of 1024 frame slots, refined to a finite map
    of what was seen of each frame of the window.
  \<^item> \<open>HubStripe\<close> (\<^verbatim>\<open>stripe.go\<close>, \<^verbatim>\<open>parity.go\<close>): subscribe negotiation and the stripe
    classification of datagrams.
  \<^item> \<open>HubDVR\<close> (\<^verbatim>\<open>dvr.go\<close>, \<^verbatim>\<open>dvr_audio.go\<close>): the video and audio rings, their bounds and
    their cursors.
  \<^item> \<open>HubState\<close> (\<^verbatim>\<open>hub.go\<close>): the records \<^verbatim>\<open>Registry\<close>, \<^verbatim>\<open>broadcastHub\<close>, \<^verbatim>\<open>Publisher\<close>,
    \<^verbatim>\<open>Subscriber\<close>.  Objects behind pointers live in heaps; the counters are functions from
    one enumeration.
  \<^item> \<open>HubSubscriber\<close>, \<open>HubStreams\<close> (\<^verbatim>\<open>hub.go\<close>, \<^verbatim>\<open>stripe.go\<close>, \<^verbatim>\<open>leg.go\<close>): routing,
    the bounded queues, notices, eviction, keyframe hand-offs and carrier streams of one
    subscriber, and the runs of everything that can happen to it.
  \<^item> \<open>HubLifecycle\<close>: claiming, taking over and releasing the publisher slot, the grace
    timer, removals, the subscribe checks, the subscriber's close.
  \<^item> \<open>HubIngest\<close> (\<^verbatim>\<open>hub.go\<close>, \<^verbatim>\<open>uplink.go\<close>): datagrams, keyframe streams and carriers of
    the publisher, and the fan-out.
  \<^item> \<open>HubInvariants\<close>, \<open>HubReach\<close>, \<open>HubSteps\<close>: what holds of every reachable
    registry.  An operation is shown to be a run of a few core steps; the core steps keep
    the invariants; \<open>hub_step\<close> has one rule per critical section of the registry's lock and
    lets them interleave freely.
  \<^item> \<open>HubCounters\<close>: what the totals report and where the counts of a closed subscriber or
    a removed hub go.
  \<^item> \<open>HubFanout\<close>: whom a datagram reaches; a carrier does what its datagrams would do.
  \<^item> \<open>HubExample\<close>: a small registry on which the hypotheses of the properties hold.

  The rooms (\<^verbatim>\<open>src/gawk-server/internal/roomsrv\<close>, \<^verbatim>\<open>src/gawk-server/rooms\<close>,
  \<^verbatim>\<open>src/gawk-server/publisher/room.go\<close>).
  \<^item> \<open>RoomCodes\<close> (\<^verbatim>\<open>rooms.go\<close>): room codes, display codes, creator-token fingerprints.
  \<^item> \<open>RoomNames\<close> (\<^verbatim>\<open>registry.go\<close>): nicknames and tile labels made unique; the search for
    a free suffix ends, since there are more candidates than names.
  \<^item> \<open>RoomServer\<close> (\<^verbatim>\<open>registry.go\<close>, \<^verbatim>\<open>eventbus.go\<close>): the registry, its rooms, tiles and
    sessions, the outboxes, the two slot maps (party walls record theirs apart), the empty
    grace, the records and events, the bus.
  \<^item> \<open>RoomOps\<close>, \<open>RoomLife\<close> (\<^verbatim>\<open>registry.go\<close>): static rooms, admission, joining and
    leaving, the writer, the commands, the end of a room; party walls, the hub's hooks, the
    refresh, minting, adoption.  An operation that takes the lock several times is composed
    of one definition per critical section.
  \<^item> \<open>RoomInvariants\<close>, \<open>RoomSteps\<close>, \<open>RoomReach\<close>, \<open>RoomRun\<close>, \<open>RoomMachine\<close>: what holds
    of every reachable registry.  \<open>room_act\<close> has one rule per critical section, with its
    effects; its guards say what the callers give (parsed commands, sessions that have
    joined).  One guard is an assumption about the order of steps: a room does not turn into
    a party wall between the two critical sections of one attach command.
  \<^item> \<open>RoomClient\<close> (\<^verbatim>\<open>publisher/room.go\<close>): the room client of the publisher library.
  \<^item> \<open>RoomFeed\<close>, \<open>RoomTold\<close>, \<open>RoomFollow\<close>, \<open>RoomFed\<close>: the stream of records each
    participant is sent refines the room.  \<open>follow\<close> reads a stream as the protocol says, from
    bytes; every operation's announcements are followed, one lemma per kind of change; whole
    runs (\<open>room_run\<close>) by rule induction.
  \<^item> \<open>RoomExample\<close>, \<open>RoomProperties\<close>, \<open>RoomAdmission\<close>: a small registry, and the
    properties.

  Conventions.  A byte is \<open>8 word\<close> and the machine integers keep their width where they can
  wrap; 64-bit totals that grow by one per event and Go's \<^verbatim>\<open>int\<close> lengths are unbounded.
  \<open>time.Time\<close> is a number of nanoseconds.  A result with an error is a sum.  What the code
  asks of its environment (random bytes, the clock, the answers of a session, a stream or a
  limiter, callbacks that return a value) is an argument; what it tells its environment
  (closes, log-free callbacks, writes) is returned as a list of effects in the order of the
  calls.  Fuel is needed only for the minting of join codes, for unique names (one candidate
  more than there are names is always enough) and for a free participant identifier (65536
  steps visit every 16-bit number; with none free the code does not return, which is the
  value \<open>None\<close>); running out of it is either proved impossible or an error of the code.

  Not modelled.  The QUIC transport and its sessions, the edge, cluster and PoP links, the
  configuration, metrics, console and TLS of the relay, the media probes of the usage
  labels, the services in the other directories (telemetry, admin, WHIP gateway, Mumble
  bridge, sampler), the publisher library other than its room client, and the vendored
  \<^verbatim>\<open>quic-go\<close>: they are I/O, glue over the parts above, or services of their own.  Of the
  rooms: voice (\<^verbatim>\<open>voice.go\<close>; the registry is the one with voice off), the rows for the
  admin console and the status page, the ticker of the refresh, the cluster store, the HMAC
  keys and timestamps of bus events, the texts of closes, the dialing of the client.  Of the hub: the DVR drains (the goroutines
  that pace a cursor), the leg writer, moderation and the stats snapshots other than the
  totals.  Logging has no model anywhere.
\<close>

section \<open>The message formats together\<close>

text \<open>Which parser a message type is handed to.\<close>

definition accepts_as :: "byte \<Rightarrow> bytes \<Rightarrow> bool" where
  "accepts_as t m =
     (if t = TypeVideoChunk then is_ok (ParseVideoChunk m)
      else if t = TypeDecoderConfig then is_ok (ParseDecoderConfig m)
      else if t = TypeBroadcastAnnounce then is_ok (ParseBroadcastAnnounce m)
      else if t = TypeStreamFrame then is_ok (ParseStreamFrameHeader m)
      else if t = TypeTimeSync then is_ok (ParseTimeSync m)
      else if t = TypeClockMapping then is_ok (ParseClockMapping m)
      else if t = TypeAudioFrame then is_ok (ParseAudioFrame m)
      else if t = TypeAudioConfig then is_ok (ParseAudioConfig m)
      else if t = TypeResumeToken then is_ok (ParseResumeToken m)
      else if t = TypeViewerCount then is_ok (ParseViewerCount m)
      else if t = TypeDeliveryAck then is_ok (ParseDeliveryAck m)
      else if t = TypeTelemetryHello then is_ok (ParseTelemetryHello m)
      else if t = TypeParityChunk then is_ok (ParseParityChunk m)
      else if t = TypeRelayCapabilities then is_ok (ParseRelayCapabilities m)
      else if t = TypeStripeState then is_ok (ParseStripeState m)
      else if t = TypeRelayIdentity then is_ok (ParseRelayIdentity m)
      else if t = TypeRoomHello then is_ok (ParseRoomHello m)
      else if t = TypeRoomState then is_ok (ParseRoomState m)
      else if t = TypeRoomEvent then is_ok (go_result (ParseRoomEvent m))
      else if t = TypeRoomCommand then is_ok (go_result (ParseRoomCommand m))
      else if t = TypeSessionClosing then is_ok (ParseSessionClosing m)
      else if t = TypeLocalRelayInfo then is_ok (ParseLocalRelayInfo m)
      else if t = TypeLocalRelayOffer then is_ok (ParseLocalRelayOffer m)
      else if t = TypeVoiceHello then is_ok (ParseVoiceHello m)
      else if t = TypeVoiceFrame then is_ok (ParseVoiceFrame m)
      else if t = TypeVoiceState then is_ok (ParseVoiceState m)
      else if t = TypeVoiceControl then is_ok (ParseVoiceControl m)
      else if t = TypeVideoUndeliverable then is_ok (ParseVideoUndeliverable m)
      else False)"

lemma is_ok_prefix: "(\<And>x. f m = Inr x \<Longrightarrow> \<exists>r. m = Version # t # r) \<Longrightarrow> is_ok (f m) \<Longrightarrow> \<exists>r. m = Version # t # r"
  by (cases "f m") auto

lemmas codec_prefixes =
  VideoChunk.dec_prefix DecoderConfig.dec_prefix BroadcastAnnounce.dec_prefix StreamFrame.dec_prefix
  TimeSync.dec_prefix ClockMapping.dec_prefix AudioFrame.dec_prefix AudioConfig.dec_prefix
  ResumeToken.dec_prefix ViewerCount.dec_prefix DeliveryAck.dec_prefix TelemetryHello.dec_prefix
  ParityChunk.dec_prefix RelayCapabilities.dec_prefix StripeState.dec_prefix RelayIdentity.dec_prefix
  RoomHello.dec_prefix RoomState.dec_prefix RoomEvent.dec_prefix RoomCommand.dec_prefix
  SessionClosing.dec_prefix LocalRelayInfo.dec_prefix LocalRelayOffer.dec_prefix VoiceHello.dec_prefix
  VoiceFrame.dec_prefix VoiceState.dec_prefix VoiceControl.dec_prefix VideoUndeliverable.dec_prefix

lemma accepts_as_prefix: "accepts_as t m \<Longrightarrow> \<exists>r. m = Version # t # r"
  unfolding accepts_as_def
  by (simp only: split: if_split_asm) (erule is_ok_prefix [rotated], erule codec_prefixes)+

text \<open>C2: The type byte decides. A message is accepted by the parser of at most one message
  type, and PeekType names it.\<close>

theorem one_parser_per_message:
  assumes "accepts_as t m"
  shows "PeekType m = Inr (Version, t) \<and> (\<forall>t'. accepts_as t' m \<longrightarrow> t' = t)"
  using accepts_as_prefix [OF assms] accepts_as_prefix [of _ m] by (fastforce simp: PeekType_def)

theorem one_parser_per_message_witness:
  "PeekType [1, 0x0B, 0, 0, 0, 7] = Inr (Version, TypeViewerCount) \<and>
   \<not> accepts_as TypeTimeSync [1, 0x0B, 0, 0, 0, 7]"
proof -
  have "accepts_as TypeViewerCount [1, 0x0B, 0, 0, 0, 7]"
    by (simp add: accepts_as_def ParseViewerCount_def ViewerCountSize_def Type_defs Version_def expect_prefix_eq)
  from one_parser_per_message [OF this] show ?thesis by (auto simp: Type_defs)
qed


text \<open>C8: Round trip of the media messages. Parsing an encoded message returns the header and
  payload that were encoded, or the encoder's error; the one exception is a VideoChunk of a frame
  with more chunks than MaxChunkCount, which the encoder writes and the parser refuses.\<close>

theorem media_roundtrip:
  "rbind (AppendVideoChunk [] h payload) ParseVideoChunk =
     rbind (AppendVideoChunk [] h payload)
       (\<lambda>_. if vc_ChunkCount h > MaxChunkCount then Inl ErrBadChunkCount else Inr (h, payload)) \<and>
   rbind (AppendDecoderConfig [] dc) ParseDecoderConfig = rbind (AppendDecoderConfig [] dc) (\<lambda>_. Inr dc) \<and>
   rbind (AppendStreamFrameHeader [] sf) ParseStreamFrameHeader =
     rbind (AppendStreamFrameHeader [] sf) (\<lambda>_. Inr sf) \<and>
   rbind (AppendAudioFrame [] af payload) ParseAudioFrame =
     rbind (AppendAudioFrame [] af payload) (\<lambda>_. Inr (af, payload)) \<and>
   rbind (AppendAudioConfig [] ac) ParseAudioConfig = rbind (AppendAudioConfig [] ac) (\<lambda>_. Inr ac) \<and>
   rbind (AppendParityChunk [] pc payload) ParseParityChunk =
     rbind (AppendParityChunk [] pc payload) (\<lambda>_. Inr (pc, payload)) \<and>
   rbind (AppendVoiceFrame [] vf payload) ParseVoiceFrame =
     rbind (AppendVoiceFrame [] vf payload) (\<lambda>_. Inr (vf, payload))"
  by (intro conjI VideoChunk_parse_encoded)
    (use DecoderConfig.enc_dec [of dc] StreamFrame.enc_dec [of sf] AudioFrame.enc_dec [of "(af, payload)"]
    AudioConfig.enc_dec [of ac] ParityChunk.enc_dec [of "(pc, payload)"] VoiceFrame.enc_dec [of "(vf, payload)"]
    in simp_all)

text \<open>C9: Strict messages have one encoding: their parsers accept exactly the bytes the encoder
  writes for the value they return.\<close>

theorem strict_messages_canonical:
  "(ParseTimeSync m = Inr (c, s) \<longleftrightarrow> m = AppendTimeSync [] c s) \<and>
   (ParseClockMapping m = Inr off \<longleftrightarrow> m = AppendClockMapping [] off) \<and>
   (ParseViewerCount m = Inr n \<longleftrightarrow> m = AppendViewerCount [] n) \<and>
   (ParseDeliveryAck m = Inr (mode, ms) \<longleftrightarrow> known_mode mode \<and> m = AppendDeliveryAck [] mode ms) \<and>
   (ParseVideoUndeliverable m = Inr vu \<longleftrightarrow> m = AppendVideoUndeliverable [] vu) \<and>
   (ParseResumeToken m = Inr tok \<longleftrightarrow> AppendResumeToken [] tok = Inr m) \<and>
   (ParseTelemetryHello m = Inr th \<longleftrightarrow> AppendTelemetryHello [] th = Inr m) \<and>
   (ParseSessionClosing m = Inr code \<longleftrightarrow> AppendSessionClosing [] code = Inr m) \<and>
   (ParseRelayCapabilities m = Inr caps \<longleftrightarrow> AppendRelayCapabilities [] caps = Inr m) \<and>
   (ParseRoomHello m = Inr rh \<longleftrightarrow> AppendRoomHello [] rh = Inr m) \<and>
   (ParseVoiceHello m = Inr vh \<longleftrightarrow> AppendVoiceHello [] vh = Inr m) \<and>
   (ParseVoiceState m = Inr vs \<longleftrightarrow> AppendVoiceState [] vs = Inr m) \<and>
   (ParseVoiceControl m = Inr flags \<longleftrightarrow> AppendVoiceControl [] flags = Inr m)"
proof (intro conjI)
  show "ParseDeliveryAck m = Inr (mode, ms) \<longleftrightarrow> known_mode mode \<and> m = AppendDeliveryAck [] mode ms"
    using DeliveryAck.canonical [of m "(mode, ms)"] DeliveryAck.roundtrip [of "(mode, ms)"] by auto
  show "ParseTimeSync m = Inr (c, s) \<longleftrightarrow> m = AppendTimeSync [] c s"
    using TimeSync.dec_iff_enc [where x = "(c, s)" and m = m] by auto
  show "ParseClockMapping m = Inr off \<longleftrightarrow> m = AppendClockMapping [] off"
    using ClockMapping.dec_iff_enc [where x = "off" and m = m] by auto
  show "ParseViewerCount m = Inr n \<longleftrightarrow> m = AppendViewerCount [] n"
    using ViewerCount.dec_iff_enc [where x = "n" and m = m] by auto
  show "ParseVideoUndeliverable m = Inr vu \<longleftrightarrow> m = AppendVideoUndeliverable [] vu"
    using VideoUndeliverable.dec_iff_enc [where x = "vu" and m = m] by auto
qed (rule ResumeToken.dec_iff_enc
    TelemetryHello.dec_iff_enc
    SessionClosing.dec_iff_enc
    RelayCapabilities.dec_iff_enc
    RoomHello.dec_iff_enc
    VoiceHello.dec_iff_enc
    VoiceState.dec_iff_enc
    VoiceControl.dec_iff_enc, rule TrueI)+

section \<open>Rooms\<close>

text \<open>C10: A room snapshot survives the wire: what the relay encodes as a RoomState, a client parses
  to the same state with the broadcast IDs upper-cased.\<close>

theorem room_state_roundtrip:
  "rbind (AppendRoomState [] st) ParseRoomState =
     rbind (AppendRoomState [] st)
       (\<lambda>_. Inr (st\<lparr>rs_Attachments := map canon_attachment (rs_Attachments st)\<rparr>))"
  by (rule RoomState_parse_encoded)

text \<open>C11: A room event survives the wire: the parser returns the fields that the event's kind
  carries, with the broadcast ID upper-cased; only a VoiceTicket whose URL is not UTF-8 is encoded
  and then refused.\<close>

theorem room_event_roundtrip:
  "rbind (AppendRoomEvent [] e) (\<lambda>m. go_result (ParseRoomEvent m)) =
     rbind (AppendRoomEvent [] e) (\<lambda>_.
       if re_Kind e = RoomEventVoiceTicket \<and> \<not> utf8_valid (re_VoiceURL e) then Inl ErrBadRoomEvent
       else Inr (canon_event e))"
  by (rule event_parse_encoded)

text \<open>A room command survives the wire, and every command the relay accepts is one its own
  encoder could have written, so parsing is stable under re-encoding.\<close>

theorem room_command_roundtrip:
  "rbind (AppendRoomCommand [] c) (\<lambda>m. go_result (ParseRoomCommand m)) =
     rbind (AppendRoomCommand [] c) (\<lambda>_. Inr (command_view c)) \<and>
   (go_result (ParseRoomCommand m) = Inr d \<longrightarrow>
     (\<exists>m'. AppendRoomCommand [] d = Inr m' \<and> go_result (ParseRoomCommand m') = Inr d))"
  using command_parse_encoded [of c] ParseRoomCommand_reencodes [of m d] command_roundtrip [of d] by auto

theorem room_command_roundtrip_witness:
  "go_result (ParseRoomCommand [1, 0x16, 3, 1, 0x41]) = Inr (zero_command\<lparr>rc_Kind := 3, rc_Nickname := [0x41]\<rparr>) \<and>
   (\<exists>m'. AppendRoomCommand [] (zero_command\<lparr>rc_Kind := 3, rc_Nickname := [0x41]\<rparr>) = Inr m' \<and>
     go_result (ParseRoomCommand m') = Inr (zero_command\<lparr>rc_Kind := 3, rc_Nickname := [0x41]\<rparr>))"
proof -
  let ?d = "zero_command\<lparr>rc_Kind := 3, rc_Nickname := [0x41]\<rparr>"
  have "AppendRoomCommand [] ?d = Inr [1, 0x16, 3, 1, 0x41]"
    by (simp add: AppendRoomCommand_def zero_command_def command_kind_defs appendStr8_def room_size_defs
        utf8_valid.simps rune_len_def Version_def TypeRoomCommand_def)
  then have "go_result (ParseRoomCommand [1, 0x16, 3, 1, 0x41]) = Inr ?d"
    by (intro command_roundtrip) (simp_all add: command_normal_def zero_command_def command_kind_defs)
  then show ?thesis
    using room_command_roundtrip [of ?d "[1, 0x16, 3, 1, 0x41]" ?d] by blast
qed

text \<open>C12: The record cursor implements a plain parser. Reading a RoomState through the cursor with
  its sticky error gives exactly what parsing the payload field by field gives, stopping at the first
  bad field, with bytes left over refused.\<close>

theorem cursor_refines_parser:
  "ParseRoomState (Version # TypeRoomState # payload) =
     (if length payload < 14 then Inl ErrShortDatagram
      else rbind (p_room_state payload)
             (\<lambda>(st, rest). if rest \<noteq> [] then Inl ErrBadRoomState else Inr st))"
  by (simp add: ParseRoomState_def checkPrefix_def read_record_refines [OF room_state_refines(1)])

text \<open>A voice roster within its bounds is never refused for its size: the limit on entries keeps
  the event below MaxRoomRecordSize.\<close>

theorem roster_within_record:
  assumes "length (re_VoiceRoster e) \<le> MaxVoiceRosterEntries" "\<forall>v \<in> set (re_VoiceRoster e). roster_entry_ok v"
    "re_VoiceFlags e AND NOT roomVoiceRosterFlagMask = 0" "re_Kind e = RoomEventVoiceRosterUpdated"
  shows "\<exists>m. AppendRoomEvent [] e = Inr m \<and> length m \<le> MaxRoomRecordSize"
proof -
  have "event_payload_ok e"
    using assms by (simp add: event_payload_ok_def event_kind_defs Let_def)
  from roster_event_fits [OF assms(4) this] show ?thesis by (auto simp: AppendRoomEvent_Inr)
qed

theorem roster_within_record_witness:
  "\<exists>m. AppendRoomEvent [] (zero_event\<lparr>re_Kind := 0x51, re_VoiceRoster :=
       [\<lparr>vr_Session = 7, vr_Kind = 1, vr_ParticipantID = 3, vr_Flags = 0, vr_Name = [0x41]\<rparr>]\<rparr>) = Inr m
     \<and> length m \<le> MaxRoomRecordSize"
  by (rule roster_within_record)
    (simp_all add: zero_event_def MaxVoiceRosterEntries_def roster_entry_ok_def str_ok_def roomVoiceKindMax_def
      MaxVoiceNameLen_def RoomEventVoiceRosterUpdated_def utf8_valid.simps rune_len_def)

section \<open>Record streams\<close>

text \<open>C13: A carrier stream is split back into the datagrams that were framed, and
  bytes after the last record are left unread.\<close>

theorem carrier_stream_roundtrip:
  assumes "frame_all AppendCarrierRecord [] ms = Inr s"
  shows "split_all ParseCarrierRecord (length ms) (s @ rest) = (ms, rest)"
  using assms by (rule carrier.stream_roundtrip)

theorem carrier_stream_roundtrip_witness:
  "split_all ParseCarrierRecord (length [[7], [8, 9 :: byte]]) ([0, 1, 7, 0, 2, 8, 9] @ [5]) = ([[7], [8, 9]], [5])"
  by (rule carrier_stream_roundtrip)
    (simp add: AppendCarrierRecord_def be16_def MaxDatagramSize_def)



section \<open>Forward parity\<close>

text \<open>C1: Parity recovers every frame it promises to recover. When a frame's chunks were encoded
  with k parity symbols, and no more chunks are missing than symbols arrived, the receiver rebuilds
  exactly the chunks that were sent.\<close>

theorem parity_recovers_frame:
  assumes "frame_shape w cs" "length cs \<le> MaxParityDataChunks"
    and "ComputeParity cs k = Inr ps"
    and "erasure cs rc" "symbols_received ps rp"
    and "length (erased rc) \<le> received rp"
  shows "RecoverChunks rc rp (int (sum_list (map length cs))) = Inr (map Some cs)"
  using assms by (rule RecoverChunks_complete)

theorem parity_recovers_frame_witness:
  "\<exists>ps. ComputeParity [[1, 2], [3]] 2 = Inr ps \<and>
     RecoverChunks [None, None] (map Some ps) (int (sum_list (map length [[1, 2], [3 :: byte]]))) = Inr (map Some [[1, 2], [3]])"
proof -
  obtain ps where ps: "ComputeParity [[1, 2], [3]] 2 = Inr ps"
    by (simp add: ComputeParity_def MaxParitySymbols_def MaxParityDataChunks_def max_width_def MaxChunkPayload_def
        MaxDatagramSize_def VideoChunkHeaderSize_def)
  have "length ps = 2" using ComputeParity_symbols(2) [OF ps] by simp
  then have "length (erased [None :: bytes option, None]) \<le> received (map Some ps)"
    by (simp add: erased_def received_def filter_map o_def)
  then have "RecoverChunks [None, None] (map Some ps) (int (sum_list (map length [[1, 2], [3 :: byte]]))) = Inr (map Some [[1, 2], [3]])"
    by (intro parity_recovers_frame [where w = 2 and k = 2, OF _ _ ps])
      (simp_all add: frame_shape_def MaxParityDataChunks_def erasure_def symbols_received_def less_Suc_eq)
  with ps show ?thesis by blast
qed

text \<open>Recovery is conservative: it never alters a chunk that arrived, and when it succeeds
  every chunk is there. It does not panic on any input.\<close>

theorem recovery_conservative:
  "RecoverChunks rc rp frameBytes \<noteq> Inl RuntimePanic \<and>
   (\<forall>out. RecoverChunks rc rp frameBytes = Inr out \<longrightarrow>
     length out = length rc \<and> (\<forall>i < length rc. out ! i \<noteq> None \<and> (rc ! i \<noteq> None \<longrightarrow> out ! i = rc ! i)))"
  using RecoverChunks_no_panic RecoverChunks_conservative by blast

theorem recovery_conservative_witness:
  "RecoverChunks [Some [1]] [] 1 = Inr [Some [1]] \<and> [Some [1 :: byte]] ! 0 \<noteq> None"
proof -
  have "RecoverChunks [Some [1]] [] 1 = Inr [Some [1]]"
    by (simp add: RecoverChunks_def MaxParityDataChunks_def Let_def)
  then show ?thesis using recovery_conservative [of "[Some [1]]" "[]" 1] by fastforce
qed

text \<open>C15: The table-driven multiplication of parity.go is multiplication in GF(2^8): it equals
  shift-and-add multiplication of polynomials modulo 0x11d, and division undoes it for every divisor
  but zero, where the table lookup panics.\<close>

theorem gf_multiplication_correct:
  "gfMul a b = shift_add 8 a b \<and>
   gfDiv (gfMul b a) b = (if b = 0 then Inl RuntimePanic else Inr a)"
  by (simp add: gfMul_shift_add [symmetric] gfDiv_gfMul) (simp add: gfDiv_def)

section \<open>Identifiers, names and tokens\<close>

text \<open>C16: Minting ends as soon as the random source has delivered six values below 248, and what
  it returns is a valid identifier that normalisation leaves alone.\<close>

theorem mint_returns:
  assumes "\<forall>r \<in> set reads. is_ok r" "Length \<le> accepted reads"
  shows "\<exists>s. Mint reads = Some (Inr s) \<and> valid_id s \<and> Normalize s = Inr s"
  using Mint_loop_returns [of reads "[]"] Mint_loop_valid [of "[]" reads] assms
  by (auto simp: Mint_def)

theorem mint_returns_witness:
  "\<exists>s. Mint [Inr [255, 0, 1, 2, 3, 4], Inr [5]] = Some (Inr s) \<and> valid_id s \<and> Normalize s = Inr s"
  by (rule mint_returns) (simp_all add: accepted_def Length_def)

text \<open>Normalisation accepts exactly the inputs whose upper-case form is a valid identifier,
  returns that form, and is idempotent; every refusal is ErrInvalidID.\<close>

theorem normalize_exact:
  "(Normalize s = Inr t \<longleftrightarrow> t = ToUpper s \<and> valid_id t) \<and>
   (Normalize s = Inl e \<longleftrightarrow> e = ErrInvalidID \<and> \<not> valid_id (ToUpper s)) \<and>
   rbind (Normalize s) Normalize = Normalize s"
  using Normalize_Inr_iff [of s t] Normalize_error [of s e] Normalize_idem [of s]
  by (cases "Normalize s") (auto dest: Normalize_error Normalize_Inr_iff [THEN iffD1])

text \<open>A truncated voice name always fits the wire (at most 64 bytes of valid UTF-8), and a name
  that fits already is left alone.\<close>

theorem voice_name_fits:
  "utf8_valid (TruncateVoiceName s) \<and> length (TruncateVoiceName s) \<le> MaxVoiceNameLen \<and>
   (TruncateVoiceName s = s \<longleftrightarrow> utf8_valid s \<and> length s \<le> MaxVoiceNameLen)"
  using TruncateVoiceName_ok [of s] TruncateVoiceName_keeps [of s] by (auto simp: str_ok_def)

text \<open>A home origin over plain http is a loopback origin: nothing but localhost or 127.0.0.1,
  with at most a valid port.\<close>

theorem plain_http_is_loopback:
  assumes "validateLocalRelayOrigin orig = Inr ()" "HasPrefix orig (ascii ''http://'')"
  shows "\<exists>host port. host \<in> {ascii ''localhost'', ascii ''127.0.0.1''} \<and>
    orig = ascii ''http://'' @ authority host port \<and> (\<forall>p. port = Some p \<longrightarrow> port_ok p)"
  using assms by (rule loopback_only)

theorem plain_http_is_loopback_witness:
  "\<exists>host port. host \<in> {ascii ''localhost'', ascii ''127.0.0.1''} \<and>
    ascii ''http://localhost:8080'' = ascii ''http://'' @ authority host port"
  using plain_http_is_loopback [of "ascii ''http://localhost:8080''"]
  by (simp add: validateLocalRelayOrigin_def MaxLocalRelayOriginLen_def urlBytesOK_def HasPrefix_def ascii_def
      ContainsAny_def splitLocalRelayAuthority_def split_host_port_def port_ok_def) blast

text \<open>C17: A telemetry session token is accepted, under the key, broadcast and role it was minted
  for, throughout its 24 hours, and refused as expired from one hour after that.\<close>

theorem telemetry_token_lifetime:
  assumes "mintTelemetrySessionToken key bk role minted nonce = Inr tok"
    and "0 \<le> minted" "minted \<le> now" "now div 3600 < 2 ^ 32" "(minted + TelemetryTokenTTL) div 3600 < 2 ^ 32"
  shows "(now \<le> minted + TelemetryTokenTTL \<longrightarrow>
      VerifyTelemetrySessionToken key tok bk role now = Inr (hex_encode nonce)) \<and>
    (minted + TelemetryTokenTTL + 3600 \<le> now \<longrightarrow>
      VerifyTelemetrySessionToken key tok bk role now = Inl ErrTelemetryTokenExpired)"
  using token_lifetime [OF assms] by blast

theorem telemetry_token_lifetime_witness:
  "\<exists>tok. mintTelemetrySessionToken (replicate 32 0) (replicate 6 1) TelemetryRoleViewer 7200 (replicate 12 5) = Inr tok \<and>
     VerifyTelemetrySessionToken (replicate 32 0) tok (replicate 6 1) TelemetryRoleViewer 90000 = Inr (hex_encode (replicate 12 5)) \<and>
     VerifyTelemetrySessionToken (replicate 32 0) tok (replicate 6 1) TelemetryRoleViewer 100000 = Inl ErrTelemetryTokenExpired"
proof -
  obtain tok where tok:
    "mintTelemetrySessionToken (replicate 32 0) (replicate 6 1) TelemetryRoleViewer 7200 (replicate 12 5) = Inr tok"
    by (simp add: mint_Inr ValidTelemetryRole_def)
  from telemetry_token_lifetime [OF this, of 90000] telemetry_token_lifetime [OF this, of 100000] tok
  show ?thesis by (auto simp: TelemetryTokenTTL_def)
qed

text \<open>A token names its issuing PoP exactly when it was minted for one: the issuer marker of a
  plain token is always clear, whatever the random nonce.\<close>

theorem telemetry_token_issuer:
  "rbind (MintTelemetrySessionToken key bk role now (Inr nonce)) (\<lambda>tok. Inr (TelemetryTokenIssuer key tok)) =
     rbind (MintTelemetrySessionToken key bk role now (Inr nonce)) (\<lambda>_. Inr None) \<and>
   rbind (MintTelemetrySessionTokenForIssuer key bk role now issuer (Inr r)) (\<lambda>tok. Inr (TelemetryTokenIssuer key tok)) =
     rbind (MintTelemetrySessionTokenForIssuer key bk role now issuer (Inr r)) (\<lambda>_. Inr (Some issuer))"
  by (cases "MintTelemetrySessionToken key bk role now (Inr nonce)";
      cases "MintTelemetrySessionTokenForIssuer key bk role now issuer (Inr r)")
    (simp_all add: plain_token_names_no_issuer issuer_token_names_issuer)

section \<open>The relay hub\<close>

subsection \<open>Measuring ingress loss\<close>

text \<open>C18: Over any sequence of observations, wrap-around, reordering, duplicates and malformed
  chunk counts included, the ring of 1024 slots with its chunk bitmaps behaves as the serial window
  map of the specification: the same deltas come out and the same frames are tracked.\<close>

theorem ingress_ring_refines_window:
  "window_ok (fst (observe_all new_window obs)) \<and>
   spec_run None obs = (abs_window (fst (observe_all new_window obs)), snd (observe_all new_window obs))"
  using observe_all_refines [of new_window obs] by simp

text \<open>C19: After any such sequence, what one observation reports as expected, lost and damaged is the
  number of frame IDs that just left the window, of those never seen, and of those seen with fewer
  distinct chunks than announced.\<close>

theorem ingress_accounting_exact:
  "(let w = fst (observe_all new_window obs); (w', t) = observeChunk w i ci cc;
        gone = leaving w w'; seen = tracked (w_slots w) in
    t_framesExpected t = of_nat (card gone) \<and>
    t_framesLost t = of_nat (card {k \<in> gone. \<not> fst (the (seen k))}) \<and>
    t_framesDamaged t = of_nat (card {k \<in> gone. fst (the (seen k)) \<and>
      card (snd (snd (the (seen k)))) < fst (snd (the (seen k)))}))"
proof -
  define w where "w = fst (observe_all new_window obs)"
  obtain w' t where o': "observeChunk w i ci cc = (w', t)" by fastforce
  have "window_ok w" unfolding w_def using observe_all_refines [of new_window obs] by simp
  from observe_out [OF this o'] have "t = tally_over (leaving w w') (tracked (w_slots w))" .
  moreover have "leaving w w' \<subseteq> dom (tracked (w_slots w))" by (auto simp: leaving_def)
  ultimately show ?thesis
    using tally_over_counts [of "leaving w w'" "tracked (w_slots w)"] by (simp add: o' Let_def flip: w_def)
qed

text \<open>C20: A stream of whole frames in order is never reported as lossy, whatever its first frame
  ID and its length.\<close>

theorem ingress_no_false_loss:
  "no_loss (snd (observe_all new_window (serial_stream i n)))"
  using serial_stream_no_loss [of None i n] observe_all_refines [of new_window "serial_stream i n"] by simp

subsection \<open>The DVR window\<close>

text \<open>C21: Whatever was appended, the video ring holds exactly the most recent GOPs of the
  broadcast, with their keyframes and all their records in order, and at least the newest; every GOP
  but the newest is complete, and the byte total is exact.\<close>

theorem dvr_ring_holds_recent_history:
  "ring_shows (fold video_push ops (NewDVRRing dopts)) (fold history_push ops [])"
  by (rule ring_shows_run) simp

text \<open>C22: A cursor reads the broadcast's history: while its GOP is retained it sees exactly that
  GOP's keyframe and records, it is told to wait exactly on the newest GOP, and advancing leads to the
  following GOP, or over evicted ones to the oldest that is left.\<close>

theorem dvr_cursor_reads_history:
  assumes "0 \<le> c_gopSeq c" "0 \<le> c_recordIdx c"
  shows "(let r = fold video_push ops (NewDVRRing dopts); H = fold history_push ops [];
      g = c_gopSeq c; recs = snd (snd (H ! nat g)) in
    (if OldestGopSeq r \<le> g \<and> g < int (length H) then
       Keyframe r c = Some (fst (snd (H ! nat g))) \<and>
       Record r c = (if nat (c_recordIdx c) < length recs then Some (recs ! nat (c_recordIdx c)) else None) \<and>
       GopComplete r c = (g + 1 < int (length H))
     else Keyframe r c = None \<and> Record r c = None) \<and>
    NextGop r c = (if g + 1 < int (length H)
      then Some \<lparr>c_gopSeq = max (OldestGopSeq r) (g + 1), c_recordIdx = - 1\<rparr> else None))"
proof -
  define r where "r = fold video_push ops (NewDVRRing dopts)"
  define H where "H = fold history_push ops []"
  have s: "ring_shows r H" unfolding r_def H_def by (rule ring_shows_run) simp
  then have "r_nextSeq r = int (length H)" by (simp add: ring_shows_def)
  then show ?thesis
    using read_keyframe [OF s, of c] read_record [OF s, of c] read_complete [OF s, of c] read_next [OF s assms(1)] assms
    by (auto simp: retained_def Let_def simp flip: r_def H_def)
qed

theorem dvr_cursor_reads_history_witness:
  "Record (fold video_push [KeyframeArrives [1] 0, RecordArrives [2] 5, RecordArrives [3] 6]
     (NewDVRRing \<lparr>o_Window = 10, o_MaxBytes = 0\<rparr>)) \<lparr>c_gopSeq = 0, c_recordIdx = 1\<rparr> = Some [3]"
proof -
  let ?ops = "[KeyframeArrives [1] 0, RecordArrives [2] 5, RecordArrives [3] 6]"
  let ?r = "fold video_push ?ops (NewDVRRing \<lparr>o_Window = 10, o_MaxBytes = 0\<rparr>)"
  have "OldestGopSeq ?r \<le> 0"
    using ring_shows_find(2) [OF ring_shows_run [OF ring_shows_new, of ?ops "\<lparr>o_Window = 10, o_MaxBytes = 0\<rparr>"]]
      ring_shows_run [OF ring_shows_new, of ?ops "\<lparr>o_Window = 10, o_MaxBytes = 0\<rparr>"]
    by (simp add: ring_shows_def) (cases "r_gops ?r", auto)
  with dvr_cursor_reads_history [of "\<lparr>c_gopSeq = 0, c_recordIdx = 1\<rparr>" ?ops "\<lparr>o_Window = 10, o_MaxBytes = 0\<rparr>"]
  show ?thesis by (simp add: Let_def)
qed

text \<open>C23: The ring stays bounded and never loses its entry point: with appends in order of time, a
  ring of more than one GOP is within its byte cap and spans at most its window, and an appended
  keyframe is always retained as the newest GOP, whatever its size.\<close>

theorem dvr_ring_bounded:
  "(sorted (map op_time (ops @ [x])) \<longrightarrow>
      within_bounds (op_time x) (fold video_push (ops @ [x]) (NewDVRRing dopts))) \<and>
   r_gops (AppendKeyframe msg at r) \<noteq> [] \<and> g_keyframe (last (r_gops (AppendKeyframe msg at r))) = msg"
  using run_within_bounds [of ops x dopts] ring_keeps_newest by blast

theorem dvr_ring_bounded_witness:
  "within_bounds 9 (fold video_push [KeyframeArrives [1] 0, RecordArrives [2] 5, KeyframeArrives [3] 9]
     (NewDVRRing \<lparr>o_Window = 10, o_MaxBytes = 2\<rparr>))"
  using dvr_ring_bounded [of "[KeyframeArrives [1] 0, RecordArrives [2] 5]" "KeyframeArrives [3] 9"
      "\<lparr>o_Window = 10, o_MaxBytes = 2\<rparr>" "[3]" 9 "NewDVRRing \<lparr>o_Window = 10, o_MaxBytes = 2\<rparr>"] by simp

text \<open>A subscriber is granted DVR delivery only on the reliable path, with a buffer of at least a
  second that the relay's ring can hold; whatever the query says, the answer is a delivery mode.\<close>

theorem dvr_grant_is_honest:
  "NegotiateDelivery reliable raw window = (mode, ms) \<Longrightarrow>
    (mode = DeliveryDVR \<longrightarrow> reliable \<and> MinDVRBufferMs \<le> ms \<and>
       ms * Millisecond \<le> (if window \<le> 0 then DefaultDVRWindow else window)) \<and>
    (mode \<noteq> DeliveryDVR \<longrightarrow> ms = 0 \<and> mode = (if reliable then DeliveryReliable else DeliveryDatagrams))"
  using NegotiateDelivery_dvr [of reliable raw window ms]
  by (auto simp: NegotiateDelivery_def Let_def split: if_splits option.splits)

theorem dvr_grant_is_honest_witness:
  "NegotiateDelivery True (ascii '' 9000 '') 0 = (DeliveryDVR, 3000) \<and> MinDVRBufferMs \<le> 3000"
proof -
  have "NegotiateDelivery True (ascii '' 9000 '') 0 = (DeliveryDVR, 3000)" by code_simp
  with dvr_grant_is_honest [OF this] show ?thesis by simp
qed

section \<open>The relay hub\<close>

text \<open>C24: At most one publisher is live per broadcast: an open publisher handle belongs to a listed
  hub, holds that hub's slot with the hub's current generation, and is the only open handle of it.\<close>

theorem one_live_publisher:
  assumes "reachable r" "p < next_pub r" "\<not> p_closed (pub_of r p)"
  shows "registered r (p_hub (pub_of r p)) \<and> h_publisherActive (hub_of r (p_hub (pub_of r p))) \<and>
    h_publisher (hub_of r (p_hub (pub_of r p))) = Some p \<and>
    p_generation (pub_of r p) = h_generation (hub_of r (p_hub (pub_of r p))) \<and>
    (\<forall>q < next_pub r. \<not> p_closed (pub_of r q) \<and> p_hub (pub_of r q) = p_hub (pub_of r p) \<longrightarrow> q = p)"
proof -
  have ok: "slots_ok r" using reachable_ok [OF assms(1)] by (simp add: registry_ok_def)
  have h: "handle_ok r q" if "q < next_pub r" for q using slots_okD(3) [OF ok that] .
  have own: "h_publisher (hub_of r (p_hub (pub_of r q))) = Some q \<and> registered r (p_hub (pub_of r q))"
    if "q < next_pub r" "\<not> p_closed (pub_of r q)" for q
    using h [OF that(1)] that(2) by (simp add: handle_ok_def)
  have "slot_ok r (p_hub (pub_of r p))" using slots_okD(2) [OF ok] h [OF assms(2)] by (simp add: handle_ok_def)
  then have slot: "h_publisherActive (hub_of r (p_hub (pub_of r p))) \<and>
      p_generation (pub_of r p) = h_generation (hub_of r (p_hub (pub_of r p)))"
    by (rule slot_okD) (use own [OF assms(2,3)] in blast)
  have "q = p" if "q < next_pub r" "\<not> p_closed (pub_of r q)" "p_hub (pub_of r q) = p_hub (pub_of r p)" for q
    using own [OF that(1,2)] own [OF assms(2,3)] unfolding that(3) by (metis option.inject)
  with slot own [OF assms(2,3)] show ?thesis by blast
qed

theorem one_live_publisher_witness:
  "h_publisher (hub_of demo1 0) = Some 0 \<and> registered demo1 0"
  using one_live_publisher [OF demo_reachable(2), of 0] by (simp add: demo1_fields)

text \<open>C25: The viewer caps hold: in every reachable state no broadcast has more external subscribers
  than \<^verbatim>\<open>MaxSubscribers\<close> and the relay no more than \<^verbatim>\<open>MaxTotalSubscribers\<close>.\<close>

theorem viewer_caps_hold:
  assumes "reachable r"
  shows "(\<forall>i b. lookup r i = Some b \<longrightarrow> externalSubsLocked r b \<le> o_MaxSubscribers (opts r)) \<and>
    totalExternalSubsLocked r \<le> o_MaxTotalSubscribers (opts r)"
  using reachable_ok [OF assms] by (simp add: registry_ok_def caps_ok_def)

theorem viewer_caps_hold_witness: "externalSubsLocked demo2 0 \<le> o_MaxSubscribers (opts demo2)"
  using viewer_caps_hold [OF demo_reachable(3)] demo2_fields(5) by blast

text \<open>C26: No removal loses a count: when a broadcast is removed, for whatever reason, every counter of
  its hub is carried into the registry's totals, and the subscribers it leaves behind keep theirs.\<close>

theorem removal_keeps_counts:
  assumes "reachable r" "removeBroadcast i g force code now r = (True, r', out)"
  shows "relay_total c r' = relay_total c r \<and> grand_total c r' = grand_total c r"
  using remove_conserves [OF _ assms(2)] reachable_ok [OF assms(1)] by (simp add: registry_ok_def)

theorem removal_keeps_counts_witness:
  "relay_total FramesRelayed (fst (snd (removeBroadcast demo_id (\<lambda>_ _. True) True CloseCodeTerminatedByOperator 9 demo2))) =
    relay_total FramesRelayed demo2"
  using removal_keeps_counts [OF demo_reachable(3), of demo_id "\<lambda>_ _. True" True CloseCodeTerminatedByOperator 9
      "fst (snd (removeBroadcast demo_id (\<lambda>_ _. True) True CloseCodeTerminatedByOperator 9 demo2))"
      "snd (snd (removeBroadcast demo_id (\<lambda>_ _. True) True CloseCodeTerminatedByOperator 9 demo2))" FramesRelayed]
    demo_removed by (simp add: prod_eq_iff)

text \<open>A closing subscriber's counts are folded exactly once: the second half of its \<^verbatim>\<open>Close\<close>
  carries each of its counters into the hub or, when the hub is gone, into the totals, and running it
  again changes nothing.\<close>

theorem closing_keeps_counts:
  assumes "reachable r" "s < next_sub r" "s_closed (sub_of r s)" "s_closing (sub_of r s)" "c \<in> set closed_counters"
  shows "grand_total c (close_fold s r) = grand_total c r \<and> \<not> unfolded (close_fold s r) s \<and>
    close_fold s (close_fold s r) = close_fold s r"
proof -
  have "s_closed (sub_of (close_fold s r) s) \<and> \<not> s_closing (sub_of (close_fold s r) s)"
    using assms(3,4) by (simp add: close_fold_def Let_def)
  moreover from this have "close_fold s (close_fold s r) = close_fold s r" by (subst close_fold_def) simp
  ultimately show ?thesis
    using fold_conserves [OF _ assms(2-5)] reachable_ok [OF assms(1)] by (simp add: registry_ok_def unfolded_def)
qed

theorem closing_keeps_counts_witness:
  "grand_total DatagramsDropped (close_fold 0 demo3) = grand_total DatagramsDropped demo3"
  using closing_keeps_counts [OF demo3_fields(1), of 0 DatagramsDropped] demo3_fields
  by (simp add: closed_counters_def)



text \<open>Losses stay with the leg they were measured on: changing a listed hub's role or its
  publisher's kind moves no loss from one leg's totals to another's.\<close>

theorem losses_stay_with_leg:
  assumes "reachable r" "registered r b"
  shows "leg_stat leg (setRoleLocked b e r) = leg_stat leg r \<and> leg_stat leg (setPublisherKindLocked b k r) = leg_stat leg r"
  using kind_keeps_legs [OF _ assms(2)] reachable_ok [OF assms(1)] by (simp add: registry_ok_def)

theorem losses_stay_with_leg_witness: "leg_stat legEdge (setRoleLocked 0 True demo1) = leg_stat legEdge demo1"
  using losses_stay_with_leg [OF demo_reachable(2) demo1_registered] by blast





text \<open>C30: The fan-out is exact: a datagram is put in the queues of exactly those subscribers of the
  broadcast it is routed to, once each, and no other subscriber of the relay is touched.\<close>

theorem fan_out_exact:
  assumes "reachable r" "b < next_hub r"
  shows "sub_of (fanOutLocked b d now r) s =
    (if s \<in> set (h_subs (hub_of r b)) \<and> route_to d now (sub_of r s) = Forward
     then enqueueLocked d (sub_of r s) else sub_of r s)"
proof -
  have "audience_ok r b" using reachable_ok [OF assms(1)] members_okD(1) [OF _ assms(2)] by (simp add: registry_ok_def)
  then show ?thesis by (intro fan_out_sub) (simp add: audience_ok_def)
qed

theorem fan_out_exact_witness:
  "sub_of (fanOutLocked 0 [] 7 demo2) 0 =
    (if route_to [] 7 (sub_of demo2 0) = Forward then enqueueLocked [] (sub_of demo2 0) else sub_of demo2 0)"
  using fan_out_exact [OF demo_reachable(3), of 0 "[]" 7 0] by (simp add: demo2_fields)

text \<open>C31: An uplink carrier does what its records would have done as datagrams: a stream of framed video
  and parity datagrams is ingested to its end with the effect of admitting each and handing it to
  \<^verbatim>\<open>HandleDatagram\<close>, in order.\<close>

theorem uplink_carrier_equals_datagrams:
  assumes "p_uplinkCarriersOpen (pub_of r p) < MaxUplinkCarriers" "frame_all AppendCarrierRecord [] ds = Inr s"
    and "list_all (\<lambda>d. uplinkRecordFrameID d \<noteq> None) ds"
  shows "IngestUplinkCarrier p (\<lambda>_. now) (AppendCarrierPrologue [] @ s) r =
    (Inr (), releaseUplinkCarrier p (replay p now ds (NoteSeen p now (snd (acquireUplinkCarrier p r)))))"
  using uplink_replays [OF assms(2,3)] assms(1) by (simp add: ingest_whole)

theorem uplink_carrier_equals_datagrams_witness:
  "\<exists>s. IngestUplinkCarrier 0 (\<lambda>_. 8) (AppendCarrierPrologue [] @ s) demo0 =
    (Inr (), releaseUplinkCarrier 0 (replay 0 8 [demo_chunk] (NoteSeen 0 8 (snd (acquireUplinkCarrier 0 demo0)))))"
proof -
  obtain s where s: "frame_all AppendCarrierRecord [] [demo_chunk] = Inr s" using demo_chunk_ok(2) by blast
  have "p_uplinkCarriersOpen (pub_of demo0 0) < MaxUplinkCarriers"
    by (simp add: demo0_def NewRegistry_def pub_of_def Let_def MaxUplinkCarriers_def UplinkSenderCarriers_def uplinkResetSlack_def)
  from uplink_carrier_equals_datagrams [OF this s] demo_chunk_ok(1) show ?thesis by auto
qed

text \<open>C32: Reading an uplink carrier ends on every stream, however it is cut or malformed, and gives the
  slot back that it took.\<close>

theorem uplink_slot_returned:
  "p_uplinkCarriersOpen (pub_of (snd (IngestUplinkCarrier p clock stream r)) q) = p_uplinkCarriersOpen (pub_of r q)"
  by (rule ingest_slots)

text \<open>C33: A subscriber is evicted at most once, whatever the order in which its keyframe writers, its
  carriers and the stall watch fail.\<close>

theorem subscriber_evicted_once: "evictions (snd (sub_run opt es x)) \<le> 1"
  using evicted_at_most_once [of opt es x] by (cases "sub_run opt es x") simp



end
